(* ===== verification/Errors.thy ===== *)
theory Errors
  imports Prelude
begin

text \<open>
  The two error vocabularies and the maps between them: what a caller of a tool sees
  (\<open>crates/domain/src/error.rs\<close>) and what one call to one vendor answers, which decides
  routing (\<open>crates/ports/src/error.rs\<close>). A \<open>Duration\<close> is its nanoseconds and a
  \<open>DateTime<Utc>\<close> is nanoseconds since the epoch.
\<close>

type_synonym duration = nat
type_synonym datetime = int

definition from_secs :: "nat \<Rightarrow> duration" where
  "from_secs s = s * 1000000000"

definition as_secs :: "duration \<Rightarrow> u64" where
  "as_secs d = of_nat (d div 1000000000)"

definition as_millis :: "duration \<Rightarrow> u64" where
  "as_millis d = of_nat (d div 1000000)"

section \<open>Errors returned to callers\<close>

datatype error_code = InvalidInput | UnsupportedChain | UnsupportedCapability | ENotFound
  | AllProvidersFailed | ERateLimited | QuotaExceeded | Unauthorized | EUnverifiable | Conflict
  | StaleData | Internal

fun code_as_str :: "error_code \<Rightarrow> string" where
  "code_as_str InvalidInput = ''INVALID_INPUT''"
| "code_as_str UnsupportedChain = ''UNSUPPORTED_CHAIN''"
| "code_as_str UnsupportedCapability = ''UNSUPPORTED_CAPABILITY''"
| "code_as_str ENotFound = ''NOT_FOUND''"
| "code_as_str AllProvidersFailed = ''ALL_PROVIDERS_FAILED''"
| "code_as_str ERateLimited = ''RATE_LIMITED''"
| "code_as_str QuotaExceeded = ''QUOTA_EXCEEDED''"
| "code_as_str Unauthorized = ''UNAUTHORIZED''"
| "code_as_str EUnverifiable = ''UNVERIFIABLE''"
| "code_as_str Conflict = ''CONFLICT''"
| "code_as_str StaleData = ''STALE_DATA''"
| "code_as_str Internal = ''INTERNAL''"

record domain_error =
  err_code :: error_code
  message :: string
  hint :: "string option"
  retry_after_secs :: "u64 option"

definition new_error :: "error_code \<Rightarrow> string \<Rightarrow> domain_error" where
  "new_error c m = \<lparr>err_code = c, message = m, hint = None, retry_after_secs = None\<rparr>"

definition invalid :: "string \<Rightarrow> domain_error" where
  "invalid m = new_error InvalidInput m"

definition internal :: "string \<Rightarrow> domain_error" where
  "internal m = new_error Internal m"

definition with_hint :: "string \<Rightarrow> domain_error \<Rightarrow> domain_error" where
  "with_hint h e = e\<lparr>hint := Some h\<rparr>"

definition with_retry_after :: "u64 \<Rightarrow> domain_error \<Rightarrow> domain_error" where
  "with_retry_after s e = e\<lparr>retry_after_secs := Some s\<rparr>"

definition show_error :: "domain_error \<Rightarrow> string" where
  "show_error e = code_as_str (err_code e) @ '': '' @ message e"

lemma new_error_simps [simp]:
  "err_code (new_error c m) = c" "message (new_error c m) = m"
  "hint (new_error c m) = None" "retry_after_secs (new_error c m) = None"
  "err_code (with_hint h e) = err_code e" "message (with_hint h e) = message e"
  "err_code (invalid m) = InvalidInput" "err_code (internal m) = Internal"
  by (simp_all add: new_error_def with_hint_def invalid_def internal_def)

section \<open>Errors of one provider call\<close>

datatype provider_error =
    Transient string
  | RateLimited "duration option"
  | QuotaExhausted "datetime option"
  | Unsupported string
  | NotFound
  | Invalid string
  | Fatal string

fun show_provider_error :: "provider_error \<Rightarrow> string" where
  "show_provider_error (Transient m) = ''transient: '' @ m"
| "show_provider_error (RateLimited _) = ''rate limited''"
| "show_provider_error (QuotaExhausted _) = ''quota exhausted''"
| "show_provider_error (Unsupported m) = ''unsupported: '' @ m"
| "show_provider_error NotFound = ''not found''"
| "show_provider_error (Invalid m) = ''invalid request: '' @ m"
| "show_provider_error (Fatal m) = ''fatal: '' @ m"

fun allows_failover :: "provider_error \<Rightarrow> bool" where
  "allows_failover (Transient _) = True"
| "allows_failover (RateLimited _) = True"
| "allows_failover (QuotaExhausted _) = True"
| "allows_failover (Unsupported _) = True"
| "allows_failover _ = False"

fun is_retryable :: "provider_error \<Rightarrow> bool" where
  "is_retryable (Transient _) = True"
| "is_retryable _ = False"

fun reason :: "provider_error \<Rightarrow> string" where
  "reason (Transient _) = ''transient''"
| "reason (RateLimited _) = ''rate_limited''"
| "reason (QuotaExhausted _) = ''quota_exhausted''"
| "reason (Unsupported _) = ''unsupported''"
| "reason NotFound = ''not_found''"
| "reason (Invalid _) = ''invalid''"
| "reason (Fatal _) = ''fatal''"

fun provider_code :: "provider_error \<Rightarrow> error_code" where
  "provider_code (Transient _) = AllProvidersFailed"
| "provider_code (Fatal _) = AllProvidersFailed"
| "provider_code (RateLimited _) = ERateLimited"
| "provider_code (QuotaExhausted _) = QuotaExceeded"
| "provider_code (Unsupported _) = UnsupportedCapability"
| "provider_code NotFound = ENotFound"
| "provider_code (Invalid _) = InvalidInput"

text \<open>\<open>chars().take(n)\<close>: a byte of the form \<open>10xxxxxx\<close> continues the character before it.\<close>

fun take_chars :: "nat \<Rightarrow> string \<Rightarrow> string" where
  "take_chars n [] = []"
| "take_chars n (c # s) = (if byte c div 64 = 2 then c # take_chars n s
     else case n of 0 \<Rightarrow> [] | Suc m \<Rightarrow> c # take_chars m s)"

definition truncate :: "string \<Rightarrow> string" where
  "truncate s = take_chars 200 s"

definition from_http_status :: "u16 \<Rightarrow> string \<Rightarrow> duration option \<Rightarrow> provider_error" where
  "from_http_status status body_hint retry_after =
     (if status = 429 then RateLimited retry_after
      else if status = 402 then QuotaExhausted None
      else if status = 401 \<or> status = 403 then
        Unsupported (''vendor rejected credentials ('' @ show_nat (unat status) @ '')'')
      else if status = 404 then NotFound
      else if status = 400 \<or> status = 422 then Invalid (truncate body_hint)
      else if (500 \<le> status \<and> status \<le> 599) \<or> status = 408 then
        Transient (''HTTP '' @ show_nat (unat status))
      else Fatal (''HTTP '' @ show_nat (unat status) @ '': '' @ truncate body_hint))"

text \<open>\<open>impl From<ProviderError> for DomainError\<close>.\<close>

definition domain_error_of :: "provider_error \<Rightarrow> domain_error" where
  "domain_error_of e =
     (let retry = (case e of RateLimited (Some d) \<Rightarrow> Some (max (as_secs d) 1) | _ \<Rightarrow> None)
      in (new_error (provider_code e) (show_provider_error e))\<lparr>retry_after_secs := retry\<rparr>)"

text \<open>A garbled RPC answer is the node's fault (\<open>malformed\<close> in \<open>protocols/src/evm/mod.rs\<close>).\<close>

definition malformed :: "string \<Rightarrow> provider_error" where
  "malformed what = Transient (''malformed RPC response: '' @ what)"

lemma retryable_allows_failover: "is_retryable e \<Longrightarrow> allows_failover e"
  by (cases e) auto

lemma code_as_str_inject: "code_as_str c = code_as_str d \<Longrightarrow> c = d"
  by (cases c; cases d) simp_all

section \<open>Collapsing a routed failure into a provider error\<close>

text \<open>\<open>route_to_provider\<close> of \<open>crates/routing/src/rpc.rs\<close>, on the error it inspects.\<close>

definition route_to_provider :: "domain_error \<Rightarrow> provider_error" where
  "route_to_provider e = (case err_code e of
       InvalidInput \<Rightarrow> Invalid (message e)
     | ENotFound \<Rightarrow> NotFound
     | ERateLimited \<Rightarrow> RateLimited (map_option (\<lambda>s. from_secs (unat s)) (retry_after_secs e))
     | QuotaExceeded \<Rightarrow> QuotaExhausted None
     | UnsupportedCapability \<Rightarrow> Unsupported (message e)
     | _ \<Rightarrow> Transient (message e))"

text \<open>
  Going out of the router and back in through the routed RPC keeps the failover decision of
  an error, its code and whether the same provider may be retried, with one exception: a
  \<open>Fatal\<close> error, which stops routing, comes back as a \<open>Transient\<close> one, which does not.
\<close>

theorem routed_error_roundtrip:
  "provider_code (route_to_provider (domain_error_of e)) = provider_code e
   \<and> (allows_failover (route_to_provider (domain_error_of e))
       \<longleftrightarrow> allows_failover e \<or> (\<exists>m. e = Fatal m))
   \<and> (is_retryable (route_to_provider (domain_error_of e))
       \<longleftrightarrow> is_retryable e \<or> (\<exists>m. e = Fatal m))"
  by (cases e) (auto simp: route_to_provider_def domain_error_of_def Let_def split: option.splits)

text \<open>
  An HTTP status lets routing try the next vendor exactly when it is 401, 402, 403, 408, 429
  or in 500..599, and lets the same vendor be retried exactly for 408 and 500..599.
\<close>

theorem http_status_routing:
  "(allows_failover (from_http_status s b r)
     \<longleftrightarrow> s \<in> {401, 402, 403, 408, 429} \<or> (500 \<le> s \<and> s \<le> 599))
   \<and> (is_retryable (from_http_status s b r) \<longleftrightarrow> s = 408 \<or> (500 \<le> s \<and> s \<le> 599))"
  by (auto simp: from_http_status_def)

end
