(* ===== verification/Amounts.thy ===== *)
theory Amounts
  imports Errors
begin

text \<open>
  Exact token amounts (\<open>crates/domain/src/amount.rs\<close>): a 256-bit count of base units and a
  number of decimals. \<open>U256::from_str_radix(_, 10)\<close> belongs to a dependency; it is the
  parameter \<open>fsr\<close>, and \<open>dec_parser fsr\<close> is what its documentation says of a
  non-empty string of decimal digits: its value, or an error when it does not fit 256 bits.
\<close>

record amount =
  raw :: u256
  decimals :: u8

definition dec_parser :: "(string \<Rightarrow> u256 option) \<Rightarrow> bool" where
  "dec_parser fsr \<longleftrightarrow> (\<forall>s. s \<noteq> [] \<and> all_digits s \<longrightarrow>
     fsr s = (if read_dec s < 2 ^ 256 then Some (of_nat (read_dec s)) else None))"

definition std_parser :: "string \<Rightarrow> u256 option" where
  "std_parser s =
     (if s \<noteq> [] \<and> all_digits s \<and> read_dec s < 2 ^ 256 then Some (of_nat (read_dec s)) else None)"

lemma dec_parser_std [simp]: "dec_parser std_parser"
  by (auto simp: dec_parser_def std_parser_def)

definition new_amount :: "u256 \<Rightarrow> u8 \<Rightarrow> amount" where
  "new_amount r d = \<lparr>raw = r, decimals = d\<rparr>"

definition zero_amount :: "u8 \<Rightarrow> amount" where
  "zero_amount d = \<lparr>raw = 0, decimals = d\<rparr>"

definition is_zero :: "amount \<Rightarrow> bool" where
  "is_zero a \<longleftrightarrow> raw a = 0"

lemma amount_simps [simp]:
  "raw (new_amount r d) = r" "decimals (new_amount r d) = d"
  "raw (zero_amount d) = 0" "decimals (zero_amount d) = d"
  by (simp_all add: new_amount_def zero_amount_def)

section \<open>Parsing and printing\<close>

definition bad_amount :: "string \<Rightarrow> u8 \<Rightarrow> domain_error" where
  "bad_amount s d = invalid (CHR 0x27 # s @ CHR 0x27 # '' is not a valid amount with ''
     @ show_nat (unat d) @ '' decimals'')"

text \<open>\<open>{frac:0<width}\<close> and \<open>{digits:0>width}\<close>: padding with zeros on the right, on the left.\<close>

definition pad_right :: "nat \<Rightarrow> string \<Rightarrow> string" where
  "pad_right w s = s @ replicate (w - length s) (CHR ''0'')"

definition pad_left :: "nat \<Rightarrow> string \<Rightarrow> string" where
  "pad_left w s = replicate (w - length s) (CHR ''0'') @ s"

definition trim_zeros :: "string \<Rightarrow> string" where
  "trim_zeros s = rev (dropWhile (\<lambda>c. c = CHR ''0'') (rev s))"

definition parse_units :: "(string \<Rightarrow> u256 option) \<Rightarrow> string \<Rightarrow> u8 \<Rightarrow> domain_error + amount" where
  "parse_units fsr s0 d =
     (let s = trim s0;
          (int, frac) = unwrap_or (s, []) (split_once (CHR ''.'') s)
      in if int = [] \<and> frac = [] \<or> \<not> all_digits int \<or> \<not> all_digits frac \<or> unat d < length frac
         then Inl (bad_amount s0 d)
         else let digits = int @ pad_right (unat d) frac
              in and_then (ok_or (bad_amount s0 d) (fsr (if digits = [] then ''0'' else digits)))
                   (\<lambda>r. Inr \<lparr>raw = r, decimals = d\<rparr>))"

definition format_units :: "amount \<Rightarrow> string" where
  "format_units a =
     (let digits = show_nat (unat (raw a)); d = unat (decimals a)
      in if d = 0 then digits
         else let padded = pad_left (d + 1) digits;
                  int = take (length padded - d) padded;
                  frac = trim_zeros (drop (length padded - d) padded)
              in if frac = [] then int else int @ ''.'' @ frac)"

lemma pad_right_facts [simp]:
  "all_digits s \<Longrightarrow> all_digits (pad_right w s)"
  "read_dec (pad_right w s) = read_dec s * 10 ^ (w - length s)"
  "length s \<le> w \<Longrightarrow> length (pad_right w s) = w"
  by (simp_all add: pad_right_def read_dec_append)

lemma pad_left_facts [simp]:
  "all_digits s \<Longrightarrow> all_digits (pad_left w s)"
  "read_dec (pad_left w s) = read_dec s"
  "length (pad_left w s) = max w (length s)"
  by (simp_all add: pad_left_def read_dec_append)

lemma pad_left_one: "s \<noteq> [] \<Longrightarrow> pad_left (Suc 0) s = s"
  by (cases s) (simp_all add: pad_left_def)

lemma trim_zeros_split: "\<exists>n. s = trim_zeros s @ replicate n (CHR ''0'')"
proof -
  let ?z = "takeWhile (\<lambda>c. c = CHR ''0'') (rev s)"
  have "rev s = ?z @ dropWhile (\<lambda>c. c = CHR ''0'') (rev s)" by simp
  then have "s = trim_zeros s @ rev ?z"
    by (metis rev_append rev_rev_ident trim_zeros_def)
  moreover have "rev ?z = replicate (length ?z) (CHR ''0'')"
    by (rule replicate_eqI) (auto dest: set_takeWhileD)
  ultimately show ?thesis by metis
qed

lemma pad_trim_zeros: "pad_right (length s) (trim_zeros s) = s"
proof -
  obtain n where n: "s = trim_zeros s @ replicate n (CHR ''0'')"
    using trim_zeros_split by blast
  then have "length s = length (trim_zeros s) + n"
    by (metis length_append length_replicate)
  with n show ?thesis by (simp add: pad_right_def)
qed

lemma length_trim_zeros: "length (trim_zeros s) \<le> length s"
  using trim_zeros_split [of s] by (metis le_add1 length_append)

lemma all_digits_trim_zeros: "all_digits s \<Longrightarrow> all_digits (trim_zeros s)"
  by (metis all_digits_simps(3) trim_zeros_split)

lemma all_digits_no_dot: "all_digits s \<Longrightarrow> CHR ''.'' \<notin> set s"
  using all_digits_in by (fastforce simp: is_digit_def)

lemma dot_not_space: "\<not> is_space (CHR ''.'')"
  by (simp add: is_space_def)

lemma trim_dotted:
  "all_digits a \<Longrightarrow> all_digits b \<Longrightarrow> trim (a @ ''.'' @ b) = a @ ''.'' @ b"
  by (rule trim_id) (auto simp: dot_not_space dest: all_digits_in digit_not_space)

lemma trim_digits: "all_digits a \<Longrightarrow> trim a = a"
  by (rule trim_id) (auto dest: all_digits_in digit_not_space)

text \<open>What \<open>parse_units\<close> does on an integral part, with or without a fractional part.\<close>

lemma parse_units_digits:
  assumes "dec_parser fsr" and "all_digits a" and "all_digits b" and "a \<noteq> []"
    and "length b \<le> unat d" and "s = a \<and> b = [] \<or> s = a @ ''.'' @ b"
  shows "parse_units fsr s d =
    (let n = read_dec a * 10 ^ unat d + read_dec b * 10 ^ (unat d - length b)
     in if n < 2 ^ 256 then Inr \<lparr>raw = of_nat n, decimals = d\<rparr> else Inl (bad_amount s d))"
proof -
  have tr: "trim s = s" using assms(2,3,6) trim_digits trim_dotted by auto
  have sp: "unwrap_or (s, []) (split_once (CHR ''.'') s) = (a, b)"
    using assms(6) all_digits_no_dot [OF assms(2)]
    by (auto simp: split_once_absent split_once_append)
  have "read_dec (a @ pad_right (unat d) b)
        = read_dec a * 10 ^ unat d + read_dec b * 10 ^ (unat d - length b)"
    using assms(5) by (simp add: read_dec_append)
  then show ?thesis
    using assms(1-5) tr sp by (simp add: parse_units_def Let_def dec_parser_def)
qed

lemma parse_format_id:
  assumes "dec_parser fsr"
  shows "parse_units fsr (format_units a) (decimals a) = Inr a"
proof -
  define d where "d = unat (decimals a)"
  define n where "n = unat (raw a)"
  define p where "p = pad_left (d + 1) (show_nat n)"
  define i where "i = take (length p - d) p"
  define f where "f = drop (length p - d) p"
  have n256: "n < 2 ^ 256" using unsigned_less [of "raw a"] by (simp add: n_def)
  have p: "all_digits p" "read_dec p = n" "d < length p"
    by (simp_all add: p_def)
  have pif: "p = i @ f" by (simp add: i_def f_def)
  have lf: "length f = d" using p(3) by (simp add: f_def)
  have i: "i \<noteq> []" using p(3) by (cases p) (auto simp: i_def)
  have dig: "all_digits i" "all_digits f" using p(1) pif by auto
  have "read_dec f = read_dec (pad_right (length f) (trim_zeros f))"
    by (simp only: pad_trim_zeros)
  then have val: "n = read_dec i * 10 ^ d + read_dec (trim_zeros f) * 10 ^ (d - length (trim_zeros f))"
    using p(2) pif lf by (simp add: read_dec_append)
  have shape: "format_units a = i \<and> trim_zeros f = [] \<or> format_units a = i @ ''.'' @ trim_zeros f"
  proof (cases "d = 0")
    case True
    then have "format_units a = p" "f = []"
      using lf by (simp_all add: format_units_def d_def n_def p_def pad_left_one)
    then show ?thesis using pif by (simp add: trim_zeros_def)
  next
    case False
    then show ?thesis
      by (auto simp: format_units_def Let_def d_def n_def p_def i_def f_def)
  qed
  have "length (trim_zeros f) \<le> unat (decimals a)"
    using length_trim_zeros [of f] lf by (simp add: d_def)
  from parse_units_digits [OF assms dig(1) all_digits_trim_zeros [OF dig(2)] i this shape]
  have "parse_units fsr (format_units a) (decimals a) = Inr \<lparr>raw = of_nat n, decimals = decimals a\<rparr>"
    using val n256 by (simp add: d_def Let_def)
  then show ?thesis by (simp add: n_def)
qed

text \<open>
  Printing an amount and parsing the text with the same decimals gives the amount back, for
  every 256-bit count of base units and every number of decimals: no digit is lost or rounded.
\<close>

theorem parse_format_units:
  assumes "dec_parser fsr"
  shows "parse_units fsr (format_units a) (decimals a) = Inr a"
  by (rule parse_format_id [OF assms])

theorem parse_format_units_witness:
  "parse_units std_parser (format_units (new_amount 1500000 6)) 6 = Inr (new_amount 1500000 6)"
  using parse_format_units [OF dec_parser_std, of "new_amount 1500000 6"] by simp

text \<open>
  The number of base units a decimal text stands for: integral digits \<open>i\<close>, then possibly a
  point and fractional digits \<open>f\<close>, not both empty, with at most as many fractional digits as
  there are decimals.
\<close>

definition decimal_parts :: "string \<Rightarrow> string \<Rightarrow> string \<Rightarrow> bool" where
  "decimal_parts s i f \<longleftrightarrow> CHR ''.'' \<notin> set i \<and> (s = i \<and> f = [] \<or> s = i @ ''.'' @ f)"

definition denotes :: "string \<Rightarrow> nat \<Rightarrow> nat \<Rightarrow> bool" where
  "denotes s d n \<longleftrightarrow> (\<exists>i f. decimal_parts s i f \<and> all_digits i \<and> all_digits f
     \<and> (i \<noteq> [] \<or> f \<noteq> []) \<and> length f \<le> d
     \<and> n = read_dec i * 10 ^ d + read_dec f * 10 ^ (d - length f))"

lemma split_decimal_parts:
  "unwrap_or (s, []) (split_once (CHR ''.'') s) = (i, f) \<longleftrightarrow> decimal_parts s i f"
proof (cases "split_once (CHR ''.'') s")
  case None
  then have "CHR ''.'' \<notin> set s" by (simp add: split_once_None)
  with None show ?thesis by (auto simp: decimal_parts_def)
next
  case (Some p)
  then have "s = fst p @ CHR ''.'' # snd p" "CHR ''.'' \<notin> set (fst p)"
    using split_once_Some [of "CHR ''.''" s "fst p" "snd p"] by auto
  with Some show ?thesis
    by (cases p) (auto simp: decimal_parts_def split_once_append append_eq_append_conv2
        Cons_eq_append_conv append_eq_Cons_conv)
qed

lemma parse_units_iff:
  assumes "dec_parser fsr"
  shows "parse_units fsr s d = Inr a
    \<longleftrightarrow> decimals a = d \<and> denotes (trim s) (unat d) (unat (raw a))"
proof -
  obtain i f where sp: "unwrap_or (trim s, []) (split_once (CHR ''.'') (trim s)) = (i, f)"
    by fastforce
  have parts: "decimal_parts (trim s) i' f' \<longleftrightarrow> i' = i \<and> f' = f" for i' f'
    using sp split_decimal_parts by (metis prod.inject)
  let ?ok = "(i \<noteq> [] \<or> f \<noteq> []) \<and> all_digits i \<and> all_digits f \<and> length f \<le> unat d"
  let ?n = "read_dec i * 10 ^ unat d + read_dec f * 10 ^ (unat d - length f)"
  have "parse_units fsr s d = Inr a \<longleftrightarrow> ?ok \<and> ?n < 2 ^ 256 \<and> a = \<lparr>raw = of_nat ?n, decimals = d\<rparr>"
  proof (cases ?ok)
    case True
    then have ne: "i @ pad_right (unat d) f \<noteq> []"
      by (cases "i = []") (auto simp: pad_right_def)
    have "read_dec (i @ pad_right (unat d) f) = ?n"
      using True by (simp add: read_dec_append)
    then show ?thesis
      using True ne assms sp by (auto simp: parse_units_def Let_def dec_parser_def)
  next
    case False
    with sp show ?thesis by (auto simp: parse_units_def Let_def)
  qed
  also have "\<dots> \<longleftrightarrow> decimals a = d \<and> ?ok \<and> unat (raw a) = ?n"
  proof -
    have "?n < 2 ^ 256 \<and> raw a = of_nat ?n \<longleftrightarrow> unat (raw a) = ?n"
      using of_nat_fits [of ?n "raw a"] by simp
    then show ?thesis by (cases a) auto
  qed
  also have "\<dots> \<longleftrightarrow> decimals a = d \<and> denotes (trim s) (unat d) (unat (raw a))"
    by (auto simp: denotes_def parts)
  finally show ?thesis .
qed

text \<open>
  C31: \<open>parse_units\<close> accepts a text exactly when it denotes a number of base units below
  \<open>2^256\<close>, and returns that number. More fractional digits than decimals, signs, exponents and
  values above 256 bits are errors, never rounded or wrapped.
\<close>

theorem parse_units_exact:
  assumes "dec_parser fsr"
  shows "parse_units fsr s d = Inr a
    \<longleftrightarrow> decimals a = d \<and> denotes (trim s) (unat d) (unat (raw a))"
  by (rule parse_units_iff [OF assms])

theorem parse_units_exact_witness:
  "parse_units std_parser ''0.5'' 6 = Inr (new_amount 500000 6)
     \<longleftrightarrow> denotes (trim ''0.5'') 6 500000"
  using parse_units_exact [OF dec_parser_std, of "''0.5''" 6 "new_amount 500000 6"] by simp

section \<open>Arithmetic\<close>

definition same_scale :: "amount \<Rightarrow> amount \<Rightarrow> domain_error + unit" where
  "same_scale a b =
     (if decimals a = decimals b then Inr ()
      else Inl (internal (''amount decimals mismatch: '' @ show_nat (unat (decimals a)) @ '' vs ''
             @ show_nat (unat (decimals b)))))"

definition amount_add :: "amount \<Rightarrow> amount \<Rightarrow> domain_error + amount" where
  "amount_add a b = and_then (same_scale a b) (\<lambda>_.
     and_then (ok_or (internal ''amount overflow'') (checked_add (raw a) (raw b)))
       (\<lambda>r. Inr \<lparr>raw = r, decimals = decimals a\<rparr>))"

definition amount_sub :: "amount \<Rightarrow> amount \<Rightarrow> domain_error + amount option" where
  "amount_sub a b = and_then (same_scale a b) (\<lambda>_.
     Inr (map_option (\<lambda>r. \<lparr>raw = r, decimals = decimals a\<rparr>) (checked_sub (raw a) (raw b))))"

lemma amount_add_Inr:
  "amount_add a b = Inr c \<longleftrightarrow>
     decimals a = decimals b \<and> decimals c = decimals a \<and> unat (raw c) = unat (raw a) + unat (raw b)"
  by (cases c) (auto simp: amount_add_def same_scale_def and_then_Inr unat_ops dest: sym)

lemma amount_sub_Inr:
  "amount_sub a b = Inr r \<longleftrightarrow> decimals a = decimals b \<and>
     (case r of
        None \<Rightarrow> unat (raw a) < unat (raw b)
      | Some c \<Rightarrow> decimals c = decimals a \<and> unat (raw b) + unat (raw c) = unat (raw a))"
proof (cases "checked_sub (raw a) (raw b)")
  case None
  then show ?thesis
    by (auto simp: amount_sub_def same_scale_def unat_ops split: option.splits)
next
  case (Some z)
  then have z: "unat (raw b) \<le> unat (raw a)" "unat z = unat (raw a) - unat (raw b)"
    by (simp_all add: unat_ops)
  have "\<lparr>raw = z, decimals = decimals a\<rparr> = c \<longleftrightarrow>
      decimals c = decimals a \<and> unat (raw b) + unat (raw c) = unat (raw a)" for c
    using z by (cases c) (auto simp: unat_inject)
  with z Some show ?thesis
    by (auto simp: amount_sub_def same_scale_def split: option.splits)
qed

text \<open>
  Addition and subtraction of amounts never lose value. Adding then subtracting gives the
  first amount back, a successful difference added to the subtrahend gives the minuend back, and
  either operation on different scales is an error.
\<close>

theorem amount_add_sub:
  "(amount_add a b = Inr c \<longrightarrow> amount_sub c b = Inr (Some a))
   \<and> (amount_sub a b = Inr (Some c) \<longrightarrow> amount_add b c = Inr a)
   \<and> (decimals a \<noteq> decimals b \<longrightarrow> \<not> is_ok (amount_add a b) \<and> \<not> is_ok (amount_sub a b))"
  by (auto simp: amount_add_Inr amount_sub_Inr)
    (auto simp: amount_add_def amount_sub_def same_scale_def)

theorem amount_add_sub_witness:
  "amount_sub (new_amount 8 6) (new_amount 3 6) = Inr (Some (new_amount 5 6))"
  using amount_add_sub [of "new_amount 5 6" "new_amount 3 6" "new_amount 8 6"]
  by (simp add: amount_add_Inr)

end
