(* ===== verification/Identifiers.thy ===== *)
theory Identifiers
  imports Amounts
begin

text \<open>
  CAIP identifiers (\<open>crates/domain/src/chain.rs\<close>): chains, addresses, accounts and assets,
  their constructors, their canonical text and the parsers that read it back.

  Hexadecimal addresses with their EIP-55 checksum and base58 come from dependencies. They are
  the record \<open>codec\<close>, a parameter of every definition that uses them, and \<open>codec_ok\<close>
  states what those dependencies document: decoding inverts encoding, a checksummed address is
  \<open>0x\<close> and forty hexadecimal digits, and base58 uses letters and digits only and never \<open>0\<close>.
\<close>

section \<open>Chains\<close>

datatype chain_family = Evm | Solana

datatype chain_id = ChainId (namespace: string) (reference: string)

definition ok_ns :: "string \<Rightarrow> bool" where
  "ok_ns s \<longleftrightarrow> 3 \<le> length s \<and> length s \<le> 8
     \<and> list_all (\<lambda>b. is_lower b \<or> is_digit b \<or> b = CHR ''-'') s"

definition is_alnum :: "char \<Rightarrow> bool" where
  "is_alnum b \<longleftrightarrow> is_lower b \<or> is_upper b \<or> is_digit b"

definition ok_ref :: "string \<Rightarrow> bool" where
  "ok_ref s \<longleftrightarrow> 1 \<le> length s \<and> length s \<le> 32
     \<and> list_all (\<lambda>b. is_alnum b \<or> b = CHR ''-'' \<or> b = CHR ''_'') s"

definition quoted :: "string \<Rightarrow> string" where
  "quoted s = CHR 0x27 # s @ [CHR 0x27]"

definition chain_new :: "string \<Rightarrow> string \<Rightarrow> domain_error + chain_id" where
  "chain_new ns r =
     (if \<not> ok_ns ns \<or> \<not> ok_ref r
      then Inl (invalid (''invalid CAIP-2 chain id '' @ quoted (ns @ '':'' @ r)))
      else Inr (ChainId ns r))"

definition chain_evm :: "u64 \<Rightarrow> chain_id" where
  "chain_evm n = ChainId ''eip155'' (show_nat (unat n))"

definition family :: "chain_id \<Rightarrow> chain_family option" where
  "family c = (if namespace c = ''eip155'' then Some Evm
     else if namespace c = ''solana'' then Some Solana else None)"

text \<open>\<open>str::parse\<close> for an unsigned integer of \<open>w\<close> bits: an optional plus sign, then digits.\<close>

definition parse_uint :: "nat \<Rightarrow> string \<Rightarrow> nat option" where
  "parse_uint w s = (let t = unwrap_or s (strip_prefix ''+'' s) in
     if t \<noteq> [] \<and> all_digits t \<and> read_dec t < 2 ^ w then Some (read_dec t) else None)"

definition evm_chain_id :: "chain_id \<Rightarrow> u64 option" where
  "evm_chain_id c =
     (if namespace c = ''eip155'' then map_option of_nat (parse_uint 64 (reference c)) else None)"

definition show_chain :: "chain_id \<Rightarrow> string" where
  "show_chain c = namespace c @ '':'' @ reference c"

definition parse_chain :: "string \<Rightarrow> domain_error + chain_id" where
  "parse_chain s = and_then (ok_or (invalid (quoted s @ '' is not a CAIP-2 chain id''))
     (split_once (CHR '':'') s)) (\<lambda>(ns, r). chain_new ns r)"

definition wf_chain :: "chain_id \<Rightarrow> bool" where
  "wf_chain c \<longleftrightarrow> ok_ns (namespace c) \<and> ok_ref (reference c)"

text \<open>Characters that separate the parts of an identifier occur in no chain id.\<close>

definition separator :: "char \<Rightarrow> bool" where
  "separator c \<longleftrightarrow> c = CHR '':'' \<or> c = CHR ''/'' \<or> is_space c"

lemma alnum_not_separator: "is_alnum c \<Longrightarrow> \<not> separator c"
  by (auto simp: is_alnum_def separator_def is_lower_def is_upper_def is_digit_def is_space_def)

lemma ok_ns_chars: "ok_ns s \<Longrightarrow> c \<in> set s \<Longrightarrow> \<not> separator c"
  unfolding ok_ns_def list_all_iff
  by (auto simp: separator_def is_lower_def is_digit_def is_space_def)

lemma ok_ref_chars: "ok_ref s \<Longrightarrow> c \<in> set s \<Longrightarrow> \<not> separator c"
  using alnum_not_separator
  by (fastforce simp: ok_ref_def list_all_iff separator_def is_space_def)

lemma separators [simp]: "separator (CHR '':'')" "separator (CHR ''/'')"
  by (simp_all add: separator_def)

lemma show_nat_ref: "all_digits s \<Longrightarrow> s \<noteq> [] \<Longrightarrow> length s \<le> 32 \<Longrightarrow> ok_ref s"
  by (cases s) (auto simp: ok_ref_def all_digits_def is_alnum_def list_all_iff)

lemma show_nat_length: "0 < k \<Longrightarrow> n < 10 ^ k \<Longrightarrow> length (show_nat n) \<le> k"
proof (induction k arbitrary: n)
  case (Suc k)
  show ?case
  proof (cases "n < 10")
    case True
    then show ?thesis by (simp add: show_nat.simps [of n])
  next
    case False
    then have "0 < k" using Suc.prems(2) by (cases k) auto
    moreover have "n div 10 < 10 ^ k" using Suc.prems(2) by (simp add: less_mult_imp_div_less mult.commute)
    ultimately have "length (show_nat (n div 10)) \<le> k" using Suc.IH by blast
    with False show ?thesis by (simp add: show_nat.simps [of n])
  qed
qed simp

lemma show_nat_no_plus: "strip_prefix ''+'' (show_nat n) = None"
proof (cases "show_nat n")
  case (Cons c s)
  then have "is_digit c" using digits_show_nat [of n] by simp
  then have "c \<noteq> CHR ''+''" by (auto simp: is_digit_def)
  with Cons show ?thesis by (simp add: strip_prefix_def starts_with_def)
qed simp

lemma parse_show_uint: "n < 2 ^ w \<Longrightarrow> parse_uint w (show_nat n) = Some n"
  by (simp add: parse_uint_def show_nat_no_plus)

lemma parse_chain_iff: "parse_chain s = Inr c \<longleftrightarrow> wf_chain c \<and> s = show_chain c"
proof
  assume "parse_chain s = Inr c"
  then obtain ns r where "split_once (CHR '':'') s = Some (ns, r)" "chain_new ns r = Inr c"
    by (auto simp: parse_chain_def and_then_Inr)
  then show "wf_chain c \<and> s = show_chain c"
    by (auto simp: split_once_Some chain_new_def wf_chain_def show_chain_def split: if_splits)
next
  assume "wf_chain c \<and> s = show_chain c"
  moreover from this have "CHR '':'' \<notin> set (namespace c)"
    by (metis ok_ns_chars separators(1) wf_chain_def)
  ultimately show "parse_chain s = Inr c"
    by (simp add: parse_chain_def show_chain_def split_once_append chain_new_def wf_chain_def)
qed

text \<open>
  The CAIP-2 parser accepts a text exactly when it is the canonical text of a well-formed
  chain id, and then returns that id; so parsing and printing are inverse to each other, and two
  chain ids with the same text are equal.
\<close>

theorem caip2_exact: "parse_chain s = Inr c \<longleftrightarrow> wf_chain c \<and> s = show_chain c"
  by (rule parse_chain_iff)

lemma chain_evm_facts: "wf_chain (chain_evm n) \<and> evm_chain_id (chain_evm n) = Some n"
proof -
  have "unat n < 2 ^ 64" using unsigned_less [of n] by simp
  moreover from this have "length (show_nat (unat n)) \<le> 32"
    using show_nat_length [of 20 "unat n"] by simp
  ultimately show ?thesis
    by (simp add: wf_chain_def chain_evm_def evm_chain_id_def parse_show_uint
        show_nat_ref ok_ns_def is_lower_def is_digit_def)
qed

lemma wf_chain_evm [simp]: "wf_chain (chain_evm n)"
  using chain_evm_facts by simp

text \<open>
  The EVM chain id of a 64-bit number is well formed, belongs to the EVM family and gives the
  number back, also through the CAIP-2 text and its parser.
\<close>

lemma chain_evm_roundtrip:
  "parse_chain (show_chain (chain_evm n)) = Inr (chain_evm n) \<and> family (chain_evm n) = Some Evm
   \<and> evm_chain_id (chain_evm n) = Some n"
  using chain_evm_facts [of n] by (simp add: parse_chain_iff family_def chain_evm_def)

section \<open>Addresses\<close>

type_synonym address = "160 word"

datatype pubkey = SolanaPubkey (key_bytes: "u8 list")

datatype account_address = EvmAddress address | SolanaAddress pubkey

record codec =
  address_from_str :: "string \<Rightarrow> address option"
  to_checksum :: "address \<Rightarrow> string"
  b58_encode :: "u8 list \<Rightarrow> string"
  b58_decode :: "string \<Rightarrow> u8 list option"

definition codec_ok :: "codec \<Rightarrow> bool" where
  "codec_ok k \<longleftrightarrow>
     (\<forall>a. address_from_str k (to_checksum k a) = Some a \<and> length (to_checksum k a) = 42
        \<and> starts_with ''0x'' (to_checksum k a) \<and> list_all is_alnum (to_checksum k a))
   \<and> (\<forall>b. b58_decode k (b58_encode k b) = Some b \<and> list_all is_alnum (b58_encode k b)
        \<and> CHR ''0'' \<notin> set (b58_encode k b))"

definition show_pubkey :: "codec \<Rightarrow> pubkey \<Rightarrow> string" where
  "show_pubkey k p = b58_encode k (key_bytes p)"

definition parse_pubkey :: "codec \<Rightarrow> string \<Rightarrow> domain_error + pubkey" where
  "parse_pubkey k s =
     and_then (ok_or (invalid (quoted s @ '' is not valid base58'')) (b58_decode k s))
       (\<lambda>b. if length b = 32 then Inr (SolanaPubkey b)
            else Inl (invalid (quoted s @ '' is not a 32-byte Solana public key'')))"

fun address_family :: "account_address \<Rightarrow> chain_family" where
  "address_family (EvmAddress _) = Evm"
| "address_family (SolanaAddress _) = Solana"

fun show_address :: "codec \<Rightarrow> account_address \<Rightarrow> string" where
  "show_address k (EvmAddress a) = to_checksum k a"
| "show_address k (SolanaAddress p) = show_pubkey k p"

fun parse_address :: "codec \<Rightarrow> chain_family \<Rightarrow> string \<Rightarrow> domain_error + account_address" where
  "parse_address k Evm s0 =
     (let s = trim s0 in
      if \<not> (length s = 42 \<and> starts_with ''0x'' s)
      then Inl (invalid (quoted s @ '' is not a 0x-prefixed 20-byte address''))
      else and_then (ok_or (invalid (quoted s @ '' is not a valid EVM address'')) (address_from_str k s))
        (\<lambda>addr.
           let hex = drop 2 s; mixed = list_ex is_lower hex \<and> list_ex is_upper hex
           in if mixed \<and> to_checksum k addr \<noteq> s
              then Inl (invalid (quoted s @ '' has an invalid EIP-55 checksum''))
              else Inr (EvmAddress addr)))"
| "parse_address k Solana s =
     and_then (parse_pubkey k (trim s)) (\<lambda>p. Inr (SolanaAddress p))"

text \<open>\<open>FromStr for AccountAddress\<close>: no chain is known, so the prefix decides.\<close>

definition parse_any_address :: "codec \<Rightarrow> string \<Rightarrow> domain_error + account_address" where
  "parse_any_address k s = parse_address k (if starts_with ''0x'' (trim s) then Evm else Solana) s"

fun wf_address :: "account_address \<Rightarrow> bool" where
  "wf_address (EvmAddress _) = True"
| "wf_address (SolanaAddress p) = (length (key_bytes p) = 32)"

lemma codec_checksum:
  assumes "codec_ok k"
  shows "address_from_str k (to_checksum k a) = Some a" "length (to_checksum k a) = 42"
    "starts_with ''0x'' (to_checksum k a)" "c \<in> set (to_checksum k a) \<Longrightarrow> \<not> separator c"
  using assms alnum_not_separator unfolding codec_ok_def list_all_iff by blast+

lemma codec_b58:
  assumes "codec_ok k"
  shows "b58_decode k (b58_encode k b) = Some b" "CHR ''0'' \<notin> set (b58_encode k b)"
    "c \<in> set (b58_encode k b) \<Longrightarrow> \<not> separator c"
  using assms alnum_not_separator unfolding codec_ok_def list_all_iff by blast+

lemma show_address_chars: "codec_ok k \<Longrightarrow> c \<in> set (show_address k a) \<Longrightarrow> \<not> separator c"
  by (cases a) (auto simp: show_pubkey_def dest: codec_checksum(4) codec_b58(3))

lemma trim_show_address: "codec_ok k \<Longrightarrow> trim (show_address k a) = show_address k a"
  by (rule trim_id) (use show_address_chars in \<open>auto simp: separator_def\<close>)

lemma parse_show_pubkey:
  "codec_ok k \<Longrightarrow> length (key_bytes p) = 32 \<Longrightarrow> parse_pubkey k (show_pubkey k p) = Inr p"
  by (simp add: parse_pubkey_def show_pubkey_def codec_b58)

lemma parse_show_address:
  "codec_ok k \<Longrightarrow> wf_address a \<Longrightarrow> parse_address k (address_family a) (show_address k a) = Inr a"
  using trim_show_address [of k a]
  by (cases a) (simp_all add: codec_checksum parse_show_pubkey Let_def)

lemma parse_address_wf:
  "parse_address k f s = Inr a \<Longrightarrow> wf_address a \<and> address_family a = f"
  by (cases f) (auto simp: Let_def and_then_Inr parse_pubkey_def split: if_splits)

text \<open>
  Every address that exists parses back from its canonical text even without knowing its
  chain: the \<open>0x\<close> prefix alone tells the families apart.
\<close>

theorem parse_any_show_address:
  assumes "codec_ok k" and "wf_address a"
  shows "parse_any_address k (show_address k a) = Inr a"
proof -
  have "starts_with ''0x'' (show_address k a) \<longleftrightarrow> address_family a = Evm"
  proof (cases a)
    case (EvmAddress x)
    with codec_checksum(3) [OF assms(1)] show ?thesis by simp
  next
    case (SolanaAddress p)
    then have "CHR ''0'' \<notin> set (show_address k a)"
      using codec_b58(2) [OF assms(1)] by (simp add: show_pubkey_def)
    with SolanaAddress show ?thesis
      by (cases "show_address k a") (auto simp: starts_with_def)
  qed
  then have "parse_any_address k (show_address k a) =
      parse_address k (address_family a) (show_address k a)"
    unfolding parse_any_address_def trim_show_address [OF assms(1)]
    by (cases "address_family a") simp_all
  with parse_show_address [OF assms] show ?thesis by simp
qed

text \<open>
  A concrete codec, which shows that the documented laws can hold together: fixed-length numerals
  over the sixteen letters \<open>a\<close> to \<open>p\<close>, forty of them for an address and two for a byte.
\<close>

definition nibble :: "nat \<Rightarrow> char" where
  "nibble d = char_of (97 + d)"

definition nibble_val :: "char \<Rightarrow> nat" where
  "nibble_val c = byte c - 97"

fun encode_nibbles :: "nat \<Rightarrow> nat \<Rightarrow> string" where
  "encode_nibbles 0 n = []"
| "encode_nibbles (Suc k) n = encode_nibbles k (n div 16) @ [nibble (n mod 16)]"

definition decode_nibbles :: "string \<Rightarrow> nat" where
  "decode_nibbles s = foldl (\<lambda>acc c. 16 * acc + nibble_val c) 0 s"

fun decode_pairs :: "string \<Rightarrow> u8 list" where
  "decode_pairs (c # d # s) = of_nat (16 * nibble_val c + nibble_val d) # decode_pairs s"
| "decode_pairs _ = []"

definition letter_codec :: codec where
  "letter_codec =
     \<lparr>address_from_str = (\<lambda>s. Some (of_nat (decode_nibbles (drop 2 s)))),
      to_checksum = (\<lambda>a. ''0x'' @ encode_nibbles 40 (unat a)),
      b58_encode = (\<lambda>b. concat (map (\<lambda>x. encode_nibbles 2 (unat x)) b)),
      b58_decode = (\<lambda>s. Some (decode_pairs s))\<rparr>"

lemma nibble_val_nibble [simp]: "d < 16 \<Longrightarrow> nibble_val (nibble d) = d"
  by (simp add: nibble_val_def nibble_def of_char_of)

lemma nibble_lower: "d < 16 \<Longrightarrow> is_lower (nibble d)"
  by (simp add: nibble_def is_lower_def of_char_of)

lemma encode_nibbles_facts:
  "length (encode_nibbles k n) = k" "list_all is_lower (encode_nibbles k n)"
  "decode_nibbles (encode_nibbles k n) = n mod 16 ^ k"
proof (induction k arbitrary: n)
  case (Suc k)
  case 3
  have "n mod (16 * 16 ^ k) = 16 * (n div 16 mod 16 ^ k) + n mod 16"
    by (simp add: mod_mult2_eq)
  with Suc show ?case by (simp add: decode_nibbles_def)
qed (simp_all add: decode_nibbles_def nibble_lower)

lemma encode_nibbles_2: "encode_nibbles 2 n = [nibble (n div 16 mod 16), nibble (n mod 16)]"
  by (simp add: numeral_2_eq_2)

lemma byte_nibbles: "n < 256 \<Longrightarrow> 16 * (n div 16 mod 16) + n mod 16 = n" for n :: nat
  by (simp add: less_mult_imp_div_less)

lemma decode_pairs_encode:
  "decode_pairs (concat (map (\<lambda>x. encode_nibbles 2 (unat x)) b)) = b"
proof (induction b)
  case (Cons x b)
  have "unat x < 2 ^ LENGTH(8)" by (rule unsigned_less)
  then have "unat x < 256" by simp
  then have "of_nat (16 * (unat x div 16 mod 16) + unat x mod 16) = x"
    by (subst byte_nibbles) simp_all
  moreover have "decode_pairs (nibble (unat x div 16 mod 16) # nibble (unat x mod 16) # s)
      = of_nat (16 * (unat x div 16 mod 16) + unat x mod 16) # decode_pairs s" for s
    by simp
  ultimately show ?case using Cons by (simp only: encode_nibbles_2 list.map concat.simps append.simps)
qed simp

lemma codec_ok_letter [simp]: "codec_ok letter_codec"
proof -
  have "of_nat (decode_nibbles (encode_nibbles 40 (unat a))) = a" for a :: address
  proof -
    have "unat a < 2 ^ LENGTH(160)" by (rule unsigned_less)
    then show ?thesis by (simp add: encode_nibbles_facts)
  qed
  moreover have "list_all is_alnum (encode_nibbles k n)" for k n
    using encode_nibbles_facts(2) [of k n] by (auto simp: list_all_iff is_alnum_def)
  moreover have "CHR ''0'' \<notin> set (encode_nibbles k n)" for k n
    using encode_nibbles_facts(2) [of k n] by (auto simp: list_all_iff is_lower_def)
  moreover have "is_alnum (CHR ''0'')" "is_alnum (CHR ''x'')"
    by (simp_all add: is_alnum_def is_digit_def is_lower_def)
  ultimately show ?thesis
    by (auto simp: codec_ok_def letter_codec_def encode_nibbles_facts decode_pairs_encode
        starts_with_def list_all_iff)
qed

definition sample_key :: pubkey where
  "sample_key = SolanaPubkey (replicate 32 7)"

theorem parse_any_show_address_witness:
  "parse_any_address letter_codec (show_address letter_codec (SolanaAddress sample_key))
     = Inr (SolanaAddress sample_key)"
  using parse_any_show_address [OF codec_ok_letter, of "SolanaAddress sample_key"]
  by (simp add: sample_key_def)

end
