(* ===== verification/Assets.thy ===== *)
theory Assets
  imports Identifiers
begin

text \<open>
  Account ids (CAIP-10) and asset ids (CAIP-19), the second half of
  \<open>crates/domain/src/chain.rs\<close>, and the order the code derives on them, which the payment
  checks sort by.
\<close>

section \<open>Accounts\<close>

datatype account_id = AccountId (account_chain: chain_id) (account_addr: account_address)

definition account_new :: "codec \<Rightarrow> chain_id \<Rightarrow> account_address \<Rightarrow> domain_error + account_id" where
  "account_new k c a =
     (if family c \<noteq> Some (address_family a)
      then Inl (invalid (''address '' @ show_address k a @ '' does not belong to chain '' @ show_chain c))
      else Inr (AccountId c a))"

definition show_account :: "codec \<Rightarrow> account_id \<Rightarrow> string" where
  "show_account k x = show_chain (account_chain x) @ '':'' @ show_address k (account_addr x)"

definition parse_account :: "codec \<Rightarrow> string \<Rightarrow> domain_error + account_id" where
  "parse_account k s =
     and_then (ok_or (invalid (quoted s @ '' is not a CAIP-10 account id'')) (rsplit_once (CHR '':'') s))
       (\<lambda>(chain, addr). and_then (parse_chain chain) (\<lambda>c.
          and_then (ok_or (invalid (''unsupported chain namespace in '' @ quoted s)) (family c)) (\<lambda>f.
            and_then (parse_address k f addr) (\<lambda>a. account_new k c a))))"

definition wf_account :: "account_id \<Rightarrow> bool" where
  "wf_account x \<longleftrightarrow> wf_chain (account_chain x) \<and> wf_address (account_addr x)
     \<and> family (account_chain x) = Some (address_family (account_addr x))"

text \<open>
  Whatever the CAIP-10 parser returns is a well-formed account, of an address on a chain of
  its own family, and every well-formed account parses back from its canonical text.
\<close>

theorem parse_account_correct:
  assumes "codec_ok k"
  shows "(parse_account k s = Inr x \<longrightarrow> wf_account x)
    \<and> (wf_account y \<longrightarrow> parse_account k (show_account k y) = Inr y)"
proof (intro conjI impI)
  assume "parse_account k s = Inr x"
  then obtain c f a where "wf_chain c" "family c = Some f" "wf_address a" "address_family a = f"
      "account_new k c a = Inr x"
    by (auto simp: parse_account_def and_then_Inr parse_chain_iff dest: parse_address_wf)
  then show "wf_account x" by (auto simp: account_new_def wf_account_def split: if_splits)
next
  assume wf: "wf_account y"
  have "CHR '':'' \<notin> set (show_address k (account_addr y))"
    using show_address_chars [OF assms] separators(1) by blast
  then have "rsplit_once (CHR '':'') (show_account k y)
      = Some (show_chain (account_chain y), show_address k (account_addr y))"
    by (simp add: show_account_def rsplit_once_append)
  moreover have "parse_chain (show_chain (account_chain y)) = Inr (account_chain y)"
    using wf by (simp add: parse_chain_iff wf_account_def)
  moreover note parse_show_address [OF assms, of "account_addr y"]
  ultimately show "parse_account k (show_account k y) = Inr y"
    using wf by (cases y) (simp add: parse_account_def account_new_def wf_account_def)
qed

theorem parse_account_correct_witness:
  "parse_account letter_codec (show_account letter_codec
       (AccountId (ChainId ''solana'' ''5eykt4UsFv8P8NJdTREpY1vzqKqZKvdp'') (SolanaAddress sample_key)))
     = Inr (AccountId (ChainId ''solana'' ''5eykt4UsFv8P8NJdTREpY1vzqKqZKvdp'') (SolanaAddress sample_key))"
proof -
  have "wf_account (AccountId (ChainId ''solana'' ''5eykt4UsFv8P8NJdTREpY1vzqKqZKvdp'')
      (SolanaAddress sample_key))"
    by code_simp
  with parse_account_correct [OF codec_ok_letter] show ?thesis by blast
qed

section \<open>Assets\<close>

datatype asset_ref = Native u32 | Erc20 address | SplToken pubkey

datatype asset_id = AssetId (asset_chain: chain_id) (asset: asset_ref)

definition native_asset :: "chain_id \<Rightarrow> u32 \<Rightarrow> asset_id" where
  "native_asset c slip44 = AssetId c (Native slip44)"

fun is_native :: "asset_id \<Rightarrow> bool" where
  "is_native (AssetId _ (Native _)) = True"
| "is_native _ = False"

fun show_asset_ref :: "codec \<Rightarrow> asset_ref \<Rightarrow> string" where
  "show_asset_ref k (Native slip44) = ''slip44:'' @ show_nat (unat slip44)"
| "show_asset_ref k (Erc20 a) = ''erc20:'' @ to_checksum k a"
| "show_asset_ref k (SplToken m) = ''token:'' @ show_pubkey k m"

definition show_asset :: "codec \<Rightarrow> asset_id \<Rightarrow> string" where
  "show_asset k a = show_chain (asset_chain a) @ ''/'' @ show_asset_ref k (asset a)"

definition bad_asset :: "string \<Rightarrow> domain_error" where
  "bad_asset s = invalid (quoted s @ '' is not a supported CAIP-19 asset id'')"

definition parse_asset_ref ::
    "codec \<Rightarrow> string \<Rightarrow> chain_family option \<Rightarrow> string \<Rightarrow> string \<Rightarrow> domain_error + asset_ref" where
  "parse_asset_ref k s f ns r =
     (if ns = ''slip44'' then
        and_then (ok_or (bad_asset s) (parse_uint 32 r)) (\<lambda>n. Inr (Native (of_nat n)))
      else if f = Some Evm \<and> ns = ''erc20'' then
        and_then (parse_address k Evm r) (\<lambda>a. case a of
            EvmAddress x \<Rightarrow> Inr (Erc20 x)
          | SolanaAddress _ \<Rightarrow> Inl (bad_asset s))
      else if f = Some Solana \<and> ns = ''token'' then
        and_then (parse_pubkey k r) (\<lambda>m. Inr (SplToken m))
      else Inl (bad_asset s))"

definition parse_asset :: "codec \<Rightarrow> string \<Rightarrow> domain_error + asset_id" where
  "parse_asset k s =
     and_then (ok_or (bad_asset s) (split_once (CHR ''/'') s)) (\<lambda>(chain, rest).
       and_then (parse_chain chain) (\<lambda>c.
         and_then (ok_or (bad_asset s) (split_once (CHR '':'') rest)) (\<lambda>(ns, r).
           and_then (parse_asset_ref k s (family c) ns r) (\<lambda>a. Inr (AssetId c a)))))"

fun wf_asset :: "asset_id \<Rightarrow> bool" where
  "wf_asset (AssetId c (Native _)) = wf_chain c"
| "wf_asset (AssetId c (Erc20 _)) = (wf_chain c \<and> family c = Some Evm)"
| "wf_asset (AssetId c (SplToken m)) = (wf_chain c \<and> family c = Some Solana \<and> length (key_bytes m) = 32)"

lemma wf_asset_chain: "wf_asset a \<Longrightarrow> wf_chain (asset_chain a)"
  by (cases a rule: wf_asset.cases) auto

lemma parse_asset_ref_wf:
  "parse_asset_ref k s (family c) ns r = Inr x \<Longrightarrow> wf_chain c \<Longrightarrow> wf_asset (AssetId c x)"
  by (auto simp: parse_asset_ref_def and_then_def parse_pubkey_def ok_or_def
      simp del: parse_address.simps
      split: if_splits sum.split_asm option.split_asm account_address.split_asm)

lemma parse_asset_wf: "parse_asset k s = Inr a \<Longrightarrow> wf_asset a"
  by (auto simp: parse_asset_def and_then_Inr parse_chain_iff dest: parse_asset_ref_wf)

lemma parse_show_asset_ref:
  assumes "codec_ok k" and "wf_asset (AssetId c r)"
  shows "\<exists>ns t. show_asset_ref k r = ns @ '':'' @ t \<and> CHR '':'' \<notin> set ns
    \<and> parse_asset_ref k s (family c) ns t = Inr r"
proof (cases r)
  case (Native n)
  have "unat n < 2 ^ 32" using unsigned_less [of n] by simp
  with Native show ?thesis
    by (intro exI [of _ "''slip44''"] exI [of _ "show_nat (unat n)"])
      (simp add: parse_asset_ref_def parse_show_uint)
next
  case (Erc20 x)
  with assms parse_show_address [OF assms(1), of "EvmAddress x"] show ?thesis
    by (intro exI [of _ "''erc20''"] exI [of _ "to_checksum k x"])
      (simp add: parse_asset_ref_def)
next
  case (SplToken m)
  with assms parse_show_pubkey [OF assms(1), of m] show ?thesis
    by (intro exI [of _ "''token''"] exI [of _ "show_pubkey k m"])
      (simp add: parse_asset_ref_def)
qed

text \<open>
  Whatever the CAIP-19 parser returns is a well-formed asset (an ERC-20 contract on an EVM
  chain, an SPL mint on a Solana chain, or a native coin), and every well-formed asset parses back
  from its canonical text; so no two assets share a text.
\<close>

theorem parse_asset_correct:
  assumes "codec_ok k"
  shows "(parse_asset k s = Inr a \<longrightarrow> wf_asset a)
    \<and> (wf_asset b \<longrightarrow> parse_asset k (show_asset k b) = Inr b)"
proof (intro conjI impI)
  assume "parse_asset k s = Inr a"
  then show "wf_asset a" by (rule parse_asset_wf)
next
  assume wf: "wf_asset b"
  then have c: "wf_chain (asset_chain b)" by (rule wf_asset_chain)
  then have "CHR ''/'' \<notin> set (show_chain (asset_chain b))"
    using ok_ns_chars ok_ref_chars separators(2)
    by (fastforce simp: wf_chain_def show_chain_def)
  then have "split_once (CHR ''/'') (show_asset k b)
      = Some (show_chain (asset_chain b), show_asset_ref k (asset b))"
    by (simp add: show_asset_def split_once_append)
  moreover have "parse_chain (show_chain (asset_chain b)) = Inr (asset_chain b)"
    using c by (simp add: parse_chain_iff)
  moreover obtain ns t where "show_asset_ref k (asset b) = ns @ '':'' @ t" "CHR '':'' \<notin> set ns"
      "parse_asset_ref k (show_asset k b) (family (asset_chain b)) ns t = Inr (asset b)"
    using parse_show_asset_ref [OF assms, of "asset_chain b" "asset b" "show_asset k b"] wf
    by auto
  ultimately show "parse_asset k (show_asset k b) = Inr b"
    by (simp add: parse_asset_def split_once_append)
qed

theorem parse_asset_correct_witness:
  "parse_asset letter_codec (show_asset letter_codec (AssetId (ChainId ''eip155'' ''8453'') (Erc20 7)))
     = Inr (AssetId (ChainId ''eip155'' ''8453'') (Erc20 7))"
proof -
  have "wf_asset (AssetId (ChainId ''eip155'' ''8453'') (Erc20 7))" by code_simp
  with parse_asset_correct [OF codec_ok_letter] show ?thesis by blast
qed

section \<open>The derived order\<close>

text \<open>
  \<open>#[derive(Ord)]\<close> compares fields in the order they are declared and variants in the order
  they are declared. The key of an asset lists the four things compared, in that order.
\<close>

fun ref_key :: "asset_ref \<Rightarrow> nat list list" where
  "ref_key (Native n) = [[0], [unat n]]"
| "ref_key (Erc20 a) = [[1], [unat a]]"
| "ref_key (SplToken m) = [[2], map unat (key_bytes m)]"

definition asset_key :: "asset_id \<Rightarrow> nat list list" where
  "asset_key a = map of_char (namespace (asset_chain a)) # map of_char (reference (asset_chain a))
     # ref_key (asset a)"

lemma map_of_char_inject: "map (of_char :: char \<Rightarrow> nat) s = map of_char t \<longleftrightarrow> s = t"
  by (rule inj_map_eq_map) (simp add: inj_on_def)

lemma map_unat_inject: "map unat xs = map unat ys \<longleftrightarrow> xs = ys" for xs ys :: "'a::len word list"
  by (rule inj_map_eq_map) (simp add: inj_on_def word_unat_eq_iff)

lemma ref_key_inject: "ref_key a = ref_key b \<longleftrightarrow> a = b"
  by (cases a; cases b) (auto simp: word_unat_eq_iff map_unat_inject pubkey.expand)

lemma asset_key_inject: "asset_key a = asset_key b \<longleftrightarrow> a = b"
  by (cases a; cases b; cases "asset_chain a"; cases "asset_chain b")
    (auto simp: asset_key_def map_of_char_inject ref_key_inject)

instantiation asset_id :: linorder
begin

definition less_eq_asset_id :: "asset_id \<Rightarrow> asset_id \<Rightarrow> bool" where
  "less_eq_asset_id a b \<longleftrightarrow> asset_key a \<le> asset_key b"

definition less_asset_id :: "asset_id \<Rightarrow> asset_id \<Rightarrow> bool" where
  "less_asset_id a b \<longleftrightarrow> asset_key a < asset_key b"

instance
  by standard
    (auto simp: less_eq_asset_id_def less_asset_id_def less_le_not_le
      simp flip: asset_key_inject dest: order.antisym)

end

end
