(* ===== verification/Transactions.thy ===== *)
theory Transactions
  imports Assets
begin

text \<open>
  Normalized transactions and risk verdicts (\<open>crates/domain/src/tx.rs\<close>,
  \<open>crates/domain/src/market.rs\<close>): finality and severity with their derived orders,
  transfers, balance changes and the merged risk level.
\<close>

section \<open>Finality\<close>

datatype finality = Unverifiable | Pending | Confirmed (confirmations: u64) | Safe | Finalized

fun finality_rank :: "finality \<Rightarrow> nat" where
  "finality_rank Unverifiable = 0"
| "finality_rank Pending = 1"
| "finality_rank (Confirmed _) = 2"
| "finality_rank Safe = 3"
| "finality_rank Finalized = 4"

definition finality_conf :: "finality \<Rightarrow> u64" where
  "finality_conf f = (case f of Confirmed n \<Rightarrow> n | _ \<Rightarrow> 0)"

lemma finality_eqI:
  "finality_rank a = finality_rank b \<Longrightarrow> finality_conf a = finality_conf b \<Longrightarrow> a = b"
  by (cases a; cases b) (auto simp: finality_conf_def)

text \<open>The derived order: variants as declared, two \<open>Confirmed\<close> by their confirmations.\<close>

instantiation finality :: linorder
begin

definition less_eq_finality :: "finality \<Rightarrow> finality \<Rightarrow> bool" where
  "less_eq_finality a b \<longleftrightarrow> finality_rank a < finality_rank b
     \<or> finality_rank a = finality_rank b \<and> finality_conf a \<le> finality_conf b"

definition less_finality :: "finality \<Rightarrow> finality \<Rightarrow> bool" where
  "less_finality a b \<longleftrightarrow> finality_rank a < finality_rank b
     \<or> finality_rank a = finality_rank b \<and> finality_conf a < finality_conf b"

instance
  by standard (auto simp: less_eq_finality_def less_finality_def intro: finality_eqI)

end

lemma finality_top: "Finalized \<le> f \<longleftrightarrow> f = Finalized" "f \<le> Finalized"
  by (cases f; simp add: less_eq_finality_def finality_conf_def)+

section \<open>Transactions\<close>

text \<open>
  The raw RPC object of a transaction is a value of the JSON library, kept as the type
  parameter \<open>'j\<close>: the code only prints it.
\<close>

datatype tx_status = TxPending | TxSuccess | TxFailed | TxDropped | TxNotFound

record block_ref =
  number :: u64
  block_hash :: "string option"
  timestamp :: "datetime option"

datatype transfer_kind = NativeTransfer | TokenTransfer | InternalTransfer

record transfer =
  tr_chain :: chain_id
  tr_tx_hash :: string
  log_index :: "u64 option"
  tr_kind :: transfer_kind
  tr_asset :: asset_id
  tr_from :: "account_address option"
  tr_to :: account_address
  tr_amount :: amount
  tr_block :: "block_ref option"

record balance_delta =
  delta_owner :: account_address
  delta_asset :: asset_id
  before :: amount
  after :: amount
  withheld_fee :: "amount option"

definition received :: "balance_delta \<Rightarrow> amount option" where
  "received d = (case amount_sub (after d) (before d) of Inl _ \<Rightarrow> None | Inr r \<Rightarrow> r)"

record 'j tx =
  tx_chain :: chain_id
  tx_hash :: string
  status :: tx_status
  tx_finality :: finality
  tx_block :: "block_ref option"
  tx_from :: "account_address option"
  tx_to :: "account_address option"
  fee :: "amount option"
  transfers :: "transfer list"
  balance_deltas :: "balance_delta list"
  tx_raw :: "'j option"

text \<open>
  The amount received according to a balance change is exactly what, added to the balance before,
  gives the balance after; there is none when the balance decreased or the scales differ.
\<close>

lemma received_exact:
  "received d = Some r \<longleftrightarrow> decimals (after d) = decimals (before d) \<and> amount_add (before d) r = Inr (after d)"
proof -
  have "received d = Some r \<longleftrightarrow> amount_sub (after d) (before d) = Inr (Some r)"
    by (auto simp: received_def split: sum.splits)
  also have "\<dots> \<longleftrightarrow> decimals (after d) = decimals (before d) \<and> amount_add (before d) r = Inr (after d)"
    by (auto simp: amount_sub_Inr amount_add_Inr)
  finally show ?thesis .
qed

section \<open>Risk\<close>

datatype severity = SInfo | SLow | SMedium | SHigh | SCritical

datatype risk_level = RUnknown | RLow | RMedium | RHigh | RCritical

fun severity_rank :: "severity \<Rightarrow> nat" where
  "severity_rank SInfo = 0"
| "severity_rank SLow = 1"
| "severity_rank SMedium = 2"
| "severity_rank SHigh = 3"
| "severity_rank SCritical = 4"

fun risk_rank :: "risk_level \<Rightarrow> nat" where
  "risk_rank RUnknown = 0"
| "risk_rank RLow = 1"
| "risk_rank RMedium = 2"
| "risk_rank RHigh = 3"
| "risk_rank RCritical = 4"

lemma severity_rank_inject: "severity_rank a = severity_rank b \<longleftrightarrow> a = b"
  by (cases a; cases b) simp_all

lemma risk_rank_inject: "risk_rank a = risk_rank b \<longleftrightarrow> a = b"
  by (cases a; cases b) simp_all

instantiation severity :: linorder
begin

definition less_eq_severity :: "severity \<Rightarrow> severity \<Rightarrow> bool" where
  "less_eq_severity a b \<longleftrightarrow> severity_rank a \<le> severity_rank b"

definition less_severity :: "severity \<Rightarrow> severity \<Rightarrow> bool" where
  "less_severity a b \<longleftrightarrow> severity_rank a < severity_rank b"

instance
  by standard (auto simp: less_eq_severity_def less_severity_def severity_rank_inject)

end

instantiation risk_level :: linorder
begin

definition less_eq_risk_level :: "risk_level \<Rightarrow> risk_level \<Rightarrow> bool" where
  "less_eq_risk_level a b \<longleftrightarrow> risk_rank a \<le> risk_rank b"

definition less_risk_level :: "risk_level \<Rightarrow> risk_level \<Rightarrow> bool" where
  "less_risk_level a b \<longleftrightarrow> risk_rank a < risk_rank b"

instance
  by standard (auto simp: less_eq_risk_level_def less_risk_level_def risk_rank_inject)

end

record risk_flag =
  flag_code :: string
  flag_severity :: severity
  flag_source :: string
  detail :: "string option"

text \<open>\<open>Iterator::max\<close>, of a possibly empty iterator.\<close>

fun max_opt :: "'a::linorder list \<Rightarrow> 'a option" where
  "max_opt [] = None"
| "max_opt (x # xs) = (case max_opt xs of None \<Rightarrow> Some x | Some y \<Rightarrow> Some (max x y))"

lemma max_opt_None [simp]: "max_opt xs = None \<longleftrightarrow> xs = []"
  by (cases xs) (auto split: option.splits)

lemma max_opt_Some: "max_opt xs = Some m \<Longrightarrow> m \<in> set xs \<and> (\<forall>x \<in> set xs. x \<le> m)"
  by (induction xs arbitrary: m) (auto simp: max_def split: option.splits if_splits)

definition merge_level :: "risk_flag list \<Rightarrow> nat \<Rightarrow> risk_level" where
  "merge_level flags answered_sources =
     (if answered_sources = 0 then RUnknown
      else case max_opt (map flag_severity flags) of
          None \<Rightarrow> RLow
        | Some SInfo \<Rightarrow> RLow
        | Some SLow \<Rightarrow> RLow
        | Some SMedium \<Rightarrow> RMedium
        | Some SHigh \<Rightarrow> RHigh
        | Some SCritical \<Rightarrow> RCritical)"

lemma merge_level_rank:
  assumes "answered \<noteq> 0"
  shows "risk_rank (merge_level flags answered)
    = max 1 (Max (insert 0 (severity_rank ` flag_severity ` set flags)))"
proof (cases "max_opt (map flag_severity flags)")
  case None
  with assms show ?thesis by (simp add: merge_level_def)
next
  case (Some m)
  from max_opt_Some [OF this]
  have m: "m \<in> flag_severity ` set flags" "\<forall>s \<in> flag_severity ` set flags. severity_rank s \<le> severity_rank m"
    by (auto simp: less_eq_severity_def)
  then have "Max (insert 0 (severity_rank ` flag_severity ` set flags)) = severity_rank m"
    by (intro Max_eqI) auto
  with assms Some show ?thesis by (cases m) (simp_all add: merge_level_def)
qed

text \<open>
  Once any source answered, the merged risk level is that of the most severe flag and at
  least \<open>Low\<close>: no flag is ever hidden by another source's clean verdict. With no answer it is
  \<open>Unknown\<close>, never \<open>Low\<close>. Consulting more sources never lowers the level.
\<close>

theorem merge_level_correct:
  "(merge_level flags n = RUnknown \<longleftrightarrow> n = 0)
   \<and> (n \<noteq> 0 \<longrightarrow> (\<forall>f \<in> set flags. severity_rank (flag_severity f) \<le> risk_rank (merge_level flags n)))
   \<and> (n \<noteq> 0 \<longrightarrow> RLow < merge_level flags n \<longrightarrow>
        (\<exists>f \<in> set flags. severity_rank (flag_severity f) = risk_rank (merge_level flags n)))
   \<and> (n \<le> n' \<longrightarrow> set flags \<subseteq> set flags' \<longrightarrow> merge_level flags n \<le> merge_level flags' n')"
proof -
  let ?S = "\<lambda>flags. insert 0 (severity_rank ` flag_severity ` set flags)"
  have unknown: "merge_level flags n = RUnknown \<longleftrightarrow> n = 0"
    using merge_level_rank [of n flags] by (cases "n = 0") (auto simp: merge_level_def)
  have upper: "severity_rank (flag_severity f) \<le> Max (?S flags)" if "f \<in> set flags" for f
    using that by (intro Max_ge) auto
  have attained: "\<exists>f \<in> set flags. severity_rank (flag_severity f) = Max (?S flags)"
    if "0 < Max (?S flags)"
    using that Max_in [of "?S flags"] by auto
  have mono: "merge_level flags n \<le> merge_level flags' n'" if "n \<le> n'" "set flags \<subseteq> set flags'"
  proof (cases "n = 0")
    case False
    with that have "Max (?S flags) \<le> Max (?S flags')" "n' \<noteq> 0"
      by (auto intro!: Max_mono)
    with False show ?thesis
      by (auto simp: less_eq_risk_level_def merge_level_rank)
  qed (simp add: merge_level_def less_eq_risk_level_def)
  show ?thesis
    using unknown upper attained mono
    by (auto simp: merge_level_rank less_risk_level_def le_max_iff_disj)
qed

theorem merge_level_correct_witness:
  "merge_level [\<lparr>flag_code = ''honeypot'', flag_severity = SCritical, flag_source = ''goplus'',
      detail = None\<rparr>] 1 \<noteq> RUnknown"
  using merge_level_correct [of "[\<lparr>flag_code = ''honeypot'', flag_severity = SCritical,
      flag_source = ''goplus'', detail = None\<rparr>]" 1 0 "[]"] by simp

end
