(* ===== verification/Stablecoins.thy ===== *)
theory Stablecoins
  imports Transactions
begin

text \<open>
  The canonical stablecoin registry (\<open>crates/protocols/src/stablecoins.rs\<close>). Reading the
  TOML file is a library's work; the model starts at its rows. The parameter \<open>pc\<close> is
  \<open>Address::parse_checksummed(_, None)\<close>. A date is its number of days.
\<close>

datatype issuance = NativeIssuance | Oft | Bridged | ExchangePeg

datatype freeze_check = IsBlacklisted | IsBlackListed | IsBlocked | IsFrozen | AccountPaused
  | TokenAccountState | NoFreeze

datatype pause_check = Paused | NoPause

fun freeze_method :: "freeze_check \<Rightarrow> string" where
  "freeze_method IsBlacklisted = ''isBlacklisted(address)''"
| "freeze_method IsBlackListed = ''isBlackListed(address)''"
| "freeze_method IsBlocked = ''isBlocked(address)''"
| "freeze_method IsFrozen = ''isFrozen(address)''"
| "freeze_method AccountPaused = ''accountPaused(address)''"
| "freeze_method TokenAccountState = ''tokenAccount.state''"
| "freeze_method NoFreeze = ''none''"

record stablecoin_entry =
  entry_asset :: asset_id
  entry_address :: string
  symbol :: string
  aliases :: "string list"
  coin_name :: string
  issuer_entity :: string
  peg :: string
  entry_decimals :: u8
  issuance :: issuance
  freeze_check :: freeze_check
  pause_check :: pause_check
  deprecated_check :: bool
  token_program :: "string option"
  extensions :: "string list"
  permanent_delegate :: bool
  cctp_domain :: "u32 option"
  oft_adapter :: "string option"
  chainlink_feed :: "string option"
  pyth_feed_id :: "string option"
  mica_emt :: "bool option"
  source_url :: string
  verified_at :: int
  coin_note :: "string option"

text \<open>One row of the file: the date is optional and the asset is still a chain and a text.\<close>

record coin_row =
  row_chain :: chain_id
  row_address :: string
  row_symbol :: string
  row_aliases :: "string list"
  row_name :: string
  row_issuer_entity :: string
  row_peg :: string
  row_decimals :: u8
  row_issuance :: issuance
  row_freeze_check :: freeze_check
  row_pause_check :: pause_check
  row_deprecated_check :: bool
  row_token_program :: "string option"
  row_extensions :: "string list"
  row_permanent_delegate :: bool
  row_cctp_domain :: "u32 option"
  row_oft_adapter :: "string option"
  row_chainlink_feed :: "string option"
  row_pyth_feed_id :: "string option"
  row_mica_emt :: "bool option"
  row_source_url :: string
  row_verified_at :: "int option"
  row_note :: "string option"

definition eq_ignore_ascii_case :: "string \<Rightarrow> string \<Rightarrow> bool" where
  "eq_ignore_ascii_case a b \<longleftrightarrow> map to_lower a = map to_lower b"

definition matches_symbol :: "stablecoin_entry \<Rightarrow> string \<Rightarrow> bool" where
  "matches_symbol e s \<longleftrightarrow> eq_ignore_ascii_case (symbol e) s
     \<or> list_ex (\<lambda>a. eq_ignore_ascii_case a s) (aliases e)"

section \<open>Loading\<close>

definition row_asset :: "codec \<Rightarrow> chain_family \<Rightarrow> string \<Rightarrow> string + asset_ref" where
  "row_asset k f address = (case f of
       Evm \<Rightarrow> (case address_from_str k address of
           None \<Rightarrow> Inl (''invalid EVM address '' @ address)
         | Some a \<Rightarrow>
             if to_checksum k a \<noteq> address
             then Inl (''EVM address '' @ address @ '' is not EIP-55 checksummed (expected ''
                       @ to_checksum k a @ '')'')
             else Inr (Erc20 a))
     | Solana \<Rightarrow> map_err (\<lambda>_. ''invalid Solana mint '' @ address)
         (and_then (parse_pubkey k address) (\<lambda>m. Inr (SplToken m))))"

definition list_of_opt :: "'a option \<Rightarrow> 'a list" where
  "list_of_opt x = (case x of None \<Rightarrow> [] | Some v \<Rightarrow> [v])"

definition validate_row ::
    "codec \<Rightarrow> (string \<Rightarrow> address option) \<Rightarrow> coin_row \<Rightarrow> string + stablecoin_entry" where
  "validate_row k pc r =
     (if \<not> starts_with ''https://'' (row_source_url r) then Inl ''missing or non-https source_url'' else
      and_then (ok_or ''missing verified_at'' (row_verified_at r)) (\<lambda>verified.
      and_then (ok_or ''unsupported chain namespace'' (family (row_chain r))) (\<lambda>f.
      and_then (row_asset k f (row_address r)) (\<lambda>a.
      and_then (if f = Evm then
          (case find (\<lambda>x. pc x = None)
              (list_of_opt (row_oft_adapter r) @ list_of_opt (row_chainlink_feed r)) of
             Some x \<Rightarrow> Inl (''address '' @ x @ '' is not EIP-55 checksummed'')
           | None \<Rightarrow> Inr ())
        else Inr ()) (\<lambda>_.
      if f = Solana \<and> row_token_program r = None then Inl ''Solana rows need token_program''
      else if length (row_peg r) \<noteq> 3 \<or> \<not> list_all is_upper (row_peg r)
      then Inl (''peg '' @ quoted (row_peg r) @ '' is not an ISO 4217 code'')
      else Inr \<lparr>entry_asset = AssetId (row_chain r) a, entry_address = row_address r,
        symbol = row_symbol r, aliases = row_aliases r, coin_name = row_name r,
        issuer_entity = row_issuer_entity r, peg = row_peg r, entry_decimals = row_decimals r,
        issuance = row_issuance r, freeze_check = row_freeze_check r,
        pause_check = row_pause_check r, deprecated_check = row_deprecated_check r,
        token_program = row_token_program r, extensions = row_extensions r,
        permanent_delegate = row_permanent_delegate r, cctp_domain = row_cctp_domain r,
        oft_adapter = row_oft_adapter r, chainlink_feed = row_chainlink_feed r,
        pyth_feed_id = row_pyth_feed_id r, mica_emt = row_mica_emt r,
        source_url = row_source_url r, verified_at = verified, coin_note = row_note r\<rparr>)))))"

text \<open>The loop of \<open>parse\<close>: the entries kept and the errors met so far.\<close>

definition add_row :: "codec \<Rightarrow> (string \<Rightarrow> address option) \<Rightarrow> nat \<Rightarrow> coin_row
    \<Rightarrow> stablecoin_entry list \<times> string list \<Rightarrow> stablecoin_entry list \<times> string list" where
  "add_row k pc i r = (\<lambda>(entries, errors).
     let at = ''stablecoin['' @ show_nat i @ ''] '' @ row_symbol r @ '' on '' @ show_chain (row_chain r)
     in case validate_row k pc r of
          Inl e \<Rightarrow> (entries, errors @ [at @ '': '' @ e])
        | Inr e \<Rightarrow>
            if list_ex (\<lambda>x. entry_asset x = entry_asset e) entries
            then (entries, errors @ [at @ '': duplicate address '' @ entry_address e])
            else if list_ex (\<lambda>x. asset_chain (entry_asset x) = asset_chain (entry_asset e)
                   \<and> matches_symbol x (symbol e)) entries
            then (entries, errors @ [at @ '': duplicate symbol on chain''])
            else (entries @ [e], errors))"

fun add_rows :: "codec \<Rightarrow> (string \<Rightarrow> address option) \<Rightarrow> nat \<Rightarrow> coin_row list
    \<Rightarrow> stablecoin_entry list \<times> string list \<Rightarrow> stablecoin_entry list \<times> string list" where
  "add_rows k pc i [] st = st"
| "add_rows k pc i (r # rs) st = add_rows k pc (Suc i) rs (add_row k pc i r st)"

definition parse_registry ::
    "codec \<Rightarrow> (string \<Rightarrow> address option) \<Rightarrow> coin_row list \<Rightarrow> string + stablecoin_entry list" where
  "parse_registry k pc rows =
     (let (entries, errors) = add_rows k pc 0 rows ([], [])
      in if errors = [] then Inr entries else Inl (join [CHR 0x0A] errors))"

section \<open>Lookups\<close>

definition by_asset :: "stablecoin_entry list \<Rightarrow> asset_id \<Rightarrow> stablecoin_entry option" where
  "by_asset reg a = find (\<lambda>e. entry_asset e = a) reg"

definition by_symbol :: "stablecoin_entry list \<Rightarrow> chain_id \<Rightarrow> string \<Rightarrow> stablecoin_entry option" where
  "by_symbol reg c s = find (\<lambda>e. asset_chain (entry_asset e) = c \<and> matches_symbol e s) reg"

definition for_chain :: "stablecoin_entry list \<Rightarrow> chain_id \<Rightarrow> stablecoin_entry list" where
  "for_chain reg c = filter (\<lambda>e. asset_chain (entry_asset e) = c) reg"

definition asset_on :: "codec \<Rightarrow> chain_id \<Rightarrow> string \<Rightarrow> asset_id option" where
  "asset_on k c address = Option.bind (family c) (\<lambda>f. case parse_address k f address of
       Inr (EvmAddress a) \<Rightarrow> if f = Evm then Some (AssetId c (Erc20 a)) else None
     | Inr (SolanaAddress m) \<Rightarrow> if f = Solana then Some (AssetId c (SplToken m)) else None
     | Inl _ \<Rightarrow> None)"

definition resolve_coin ::
    "codec \<Rightarrow> stablecoin_entry list \<Rightarrow> chain_id \<Rightarrow> string \<Rightarrow> stablecoin_entry option" where
  "resolve_coin k reg c token0 =
     (let token = trim token0 in
      case parse_asset k token of
        Inr a \<Rightarrow> if asset_chain a = c then by_asset reg a else None
      | Inl _ \<Rightarrow> (case asset_on k c token of
            Some a \<Rightarrow> by_asset reg a
          | None \<Rightarrow> by_symbol reg c token))"

text \<open>\<open>resolve_canonical\<close> of \<open>crates/app/src/ops/stablecoin.rs\<close>, over the loaded registry.\<close>

definition resolve_canonical :: "codec \<Rightarrow> string + stablecoin_entry list \<Rightarrow> chain_id \<Rightarrow> string
    \<Rightarrow> string \<Rightarrow> domain_error + stablecoin_entry" where
  "resolve_canonical k registry c chain_name token =
     and_then (map_err (\<lambda>e. internal (''stablecoin registry invalid: '' @ e)) registry) (\<lambda>reg.
       let known = map symbol (for_chain reg c);
           h = (if known = [] then ''no verified stablecoins are registered for this chain''
                else ''registered here: '' @ join '', '' known)
       in ok_or (with_hint h (invalid (quoted token @ '' is not a canonical stablecoin on ''
            @ chain_name @ '' ('' @ show_chain c @ '')''))) (resolve_coin k reg c token))"

section \<open>What a loaded registry guarantees\<close>

text \<open>
  Every entry is of a supported family, its text is the canonical address of its asset, and no
  later entry repeats the asset or the symbol of an earlier one.
\<close>

definition entry_ok :: "codec \<Rightarrow> stablecoin_entry \<Rightarrow> bool" where
  "entry_ok k e \<longleftrightarrow> family (asset_chain (entry_asset e)) \<noteq> None
     \<and> \<not> is_native (entry_asset e)
     \<and> (\<forall>a. asset (entry_asset e) = Erc20 a \<longrightarrow> to_checksum k a = entry_address e)
     \<and> length (peg e) = 3"

fun no_clash :: "stablecoin_entry list \<Rightarrow> stablecoin_entry \<Rightarrow> bool" where
  "no_clash [] e = True"
| "no_clash (x # xs) e = (entry_asset x \<noteq> entry_asset e
     \<and> \<not> (asset_chain (entry_asset x) = asset_chain (entry_asset e) \<and> matches_symbol x (symbol e))
     \<and> no_clash xs e)"

definition registry_ok :: "codec \<Rightarrow> stablecoin_entry list \<Rightarrow> bool" where
  "registry_ok k es \<longleftrightarrow> list_all (entry_ok k) es
     \<and> (\<forall>i < length es. no_clash (take i es) (es ! i))"

lemma no_clash_iff: "no_clash xs e \<longleftrightarrow> (\<forall>x \<in> set xs. entry_asset x \<noteq> entry_asset e
     \<and> \<not> (asset_chain (entry_asset x) = asset_chain (entry_asset e) \<and> matches_symbol x (symbol e)))"
  by (induction xs) auto

lemma registry_ok_snoc:
  "registry_ok k (es @ [e]) \<longleftrightarrow> registry_ok k es \<and> entry_ok k e \<and> no_clash es e"
  by (auto simp: registry_ok_def nth_append less_Suc_eq)

lemma row_asset_Inr:
  assumes "row_asset k f s = Inr a"
  shows "\<not> is_native (AssetId c a)" "a = Erc20 x \<Longrightarrow> to_checksum k x = s"
  using assms
  by (auto simp: row_asset_def and_then_def map_err_def
      split: chain_family.splits option.splits if_splits sum.splits)

lemma validate_row_ok: "validate_row k pc r = Inr e \<Longrightarrow> entry_ok k e"
  by (auto simp: validate_row_def and_then_Inr entry_ok_def row_asset_Inr split: if_splits)

lemma add_row_ok: "registry_ok k (fst st) \<Longrightarrow> registry_ok k (fst (add_row k pc i r st))"
  by (cases st) (auto simp: add_row_def Let_def registry_ok_snoc no_clash_iff list_ex_iff
      dest: validate_row_ok split: sum.splits)

lemma add_rows_ok: "registry_ok k (fst st) \<Longrightarrow> registry_ok k (fst (add_rows k pc i rs st))"
  by (induction rs arbitrary: i st) (auto simp: add_row_ok)

lemma find_nth_first:
  "i < length xs \<Longrightarrow> P (xs ! i) \<Longrightarrow> (\<forall>x \<in> set (take i xs). \<not> P x) \<Longrightarrow> find P xs = Some (xs ! i)"
proof (induction xs arbitrary: i)
  case (Cons x xs)
  then show ?case by (cases i) auto
qed simp

lemma matches_own_symbol [simp]: "matches_symbol e (symbol e)"
  by (simp add: matches_symbol_def eq_ignore_ascii_case_def)

text \<open>
  A registry that loads is unambiguous. Every entry is found by its own asset and, on its
  own chain, by its own symbol; whatever a lookup by asset returns has that asset; and an ERC-20
  entry's printed address is the checksummed address of the asset it is matched by.
\<close>

theorem parsed_registry_unambiguous:
  assumes "parse_registry k pc rows = Inr reg" and "e \<in> set reg"
  shows "by_asset reg (entry_asset e) = Some e
    \<and> by_symbol reg (asset_chain (entry_asset e)) (symbol e) = Some e
    \<and> (\<forall>a. asset (entry_asset e) = Erc20 a \<longrightarrow> to_checksum k a = entry_address e)"
proof -
  have ok: "registry_ok k reg"
    using assms(1) add_rows_ok [of k "([], [])" pc 0 rows]
    by (auto simp: parse_registry_def registry_ok_def Let_def split: prod.splits if_splits)
  obtain i where i: "i < length reg" "reg ! i = e"
    using assms(2) by (auto simp: in_set_conv_nth)
  with ok have "no_clash (take i reg) e" and "entry_ok k e"
    by (auto simp: registry_ok_def list_all_length)
  then show ?thesis
    using find_nth_first [of i reg "\<lambda>x. entry_asset x = entry_asset e"]
      find_nth_first [of i reg "\<lambda>x. asset_chain (entry_asset x) = asset_chain (entry_asset e)
        \<and> matches_symbol x (symbol e)"] i
    by (auto simp: by_asset_def by_symbol_def no_clash_iff entry_ok_def)
qed

definition sample_row :: coin_row where
  "sample_row = \<lparr>row_chain = ChainId ''eip155'' ''8453'',
     row_address = to_checksum letter_codec 7, row_symbol = ''USDC'', row_aliases = [],
     row_name = ''USD Coin'', row_issuer_entity = ''Circle'', row_peg = ''USD'', row_decimals = 6,
     row_issuance = NativeIssuance, row_freeze_check = IsBlacklisted, row_pause_check = Paused,
     row_deprecated_check = False, row_token_program = None, row_extensions = [],
     row_permanent_delegate = False, row_cctp_domain = None, row_oft_adapter = None,
     row_chainlink_feed = None, row_pyth_feed_id = None, row_mica_emt = None,
     row_source_url = ''https://circle.com'', row_verified_at = Some 20000, row_note = None\<rparr>"

definition sample_entry :: stablecoin_entry where
  "sample_entry = \<lparr>entry_asset = AssetId (ChainId ''eip155'' ''8453'') (Erc20 7),
     entry_address = to_checksum letter_codec 7, symbol = ''USDC'', aliases = [],
     coin_name = ''USD Coin'', issuer_entity = ''Circle'', peg = ''USD'', entry_decimals = 6,
     issuance = NativeIssuance, freeze_check = IsBlacklisted, pause_check = Paused,
     deprecated_check = False, token_program = None, extensions = [],
     permanent_delegate = False, cctp_domain = None, oft_adapter = None,
     chainlink_feed = None, pyth_feed_id = None, mica_emt = None,
     source_url = ''https://circle.com'', verified_at = 20000, coin_note = None\<rparr>"

lemma sample_registry: "parse_registry letter_codec Map.empty [sample_row] = Inr [sample_entry]"
  using codec_checksum(1) [OF codec_ok_letter, of 7]
  by (simp add: parse_registry_def add_row_def validate_row_def row_asset_def sample_row_def
      sample_entry_def family_def list_of_opt_def starts_with_def is_upper_def Let_def)

theorem parsed_registry_unambiguous_witness:
  "by_symbol [sample_entry] (ChainId ''eip155'' ''8453'') ''USDC'' = Some sample_entry"
  using parsed_registry_unambiguous [OF sample_registry, of sample_entry]
  by (simp add: sample_entry_def)

text \<open>
  Resolving user input never matches a token by name when the input is an address. If the
  text is a CAIP-19 id or an address on the chain, the entry found has exactly that asset; if not,
  the entry is on the chain asked for and answers to the symbol.
\<close>

theorem resolve_coin_correct:
  assumes "resolve_coin k reg c token = Some e"
  shows "e \<in> set reg \<and> asset_chain (entry_asset e) = c
    \<and> (\<forall>a. parse_asset k (trim token) = Inr a \<longrightarrow> entry_asset e = a)
    \<and> (\<forall>a. \<not> is_ok (parse_asset k (trim token)) \<longrightarrow> asset_on k c (trim token) = Some a \<longrightarrow> entry_asset e = a)
    \<and> (\<not> is_ok (parse_asset k (trim token)) \<longrightarrow> asset_on k c (trim token) = None \<longrightarrow> matches_symbol e (trim token))"
proof -
  have on: "asset_chain a = c" if "asset_on k c t = Some a" for a t
    using that by (auto simp: asset_on_def split: Option.bind_splits sum.splits account_address.splits
        if_splits)
  have by_a: "x \<in> set reg \<and> entry_asset x = a" if "by_asset reg a = Some x" for x a
    using that by (auto simp: by_asset_def find_Some_iff)
  have by_s: "x \<in> set reg \<and> asset_chain (entry_asset x) = c \<and> matches_symbol x s"
    if "by_symbol reg c s = Some x" for x s
    using that by (auto simp: by_symbol_def find_Some_iff)
  show ?thesis
  proof (cases "parse_asset k (trim token)")
    case (Inr a)
    with assms have "asset_chain a = c" "by_asset reg a = Some e"
      by (simp_all add: resolve_coin_def Let_def split: if_splits)
    with by_a [OF this(2)] Inr show ?thesis by simp
  next
    case (Inl err)
    show ?thesis
    proof (cases "asset_on k c (trim token)")
      case (Some a)
      with Inl assms have "by_asset reg a = Some e" by (simp add: resolve_coin_def Let_def)
      with by_a [OF this] on [OF Some] Inl Some show ?thesis by simp
    next
      case None
      with Inl assms have "by_symbol reg c (trim token) = Some e"
        by (simp add: resolve_coin_def Let_def)
      with by_s [OF this] Inl None show ?thesis by simp
    qed
  qed
qed

theorem resolve_coin_correct_witness:
  "matches_symbol sample_entry ''usdc''"
proof -
  let ?c = "ChainId ''eip155'' ''8453''"
  have trimmed: "trim ''usdc'' = ''usdc''"
    by (rule trim_id) (simp add: is_space_def)
  have no_asset: "parse_asset letter_codec ''usdc'' = Inl (bad_asset ''usdc'')"
    by (simp add: parse_asset_def)
  have no_address: "asset_on letter_codec ?c ''usdc'' = None"
    by (simp add: asset_on_def family_def trimmed Let_def)
  have "map to_lower ''USDC'' = map to_lower ''usdc''" by code_simp
  then have "matches_symbol sample_entry ''usdc''"
    by (simp only: sample_entry_def matches_symbol_def eq_ignore_ascii_case_def
        stablecoin_entry.simps simp_thms)
  then have "resolve_coin letter_codec [sample_entry] ?c ''usdc'' = Some sample_entry"
    by (simp add: resolve_coin_def trimmed no_asset no_address by_symbol_def Let_def)
      (simp add: sample_entry_def)
  from resolve_coin_correct [OF this] show ?thesis
    by (simp add: trimmed no_asset no_address)
qed

end
