(* ===== verification/Payments.thy ===== *)
theory Payments
  imports Stablecoins
begin

text \<open>
  Payment verification, deposit listing and payment requests
  (\<open>crates/app/src/ops/payments.rs\<close>). The decision functions are translated branch by
  branch. What they use from outside the repository is a parameter: \<open>k\<close> prints addresses,
  \<open>fsr\<close> reads decimal integers, and \<open>js\<close> prints a raw JSON transaction.
\<close>

section \<open>Data\<close>

datatype min_finality = MinConfirmed | MinSafe | MinFinalized

fun finality_floor :: "min_finality \<Rightarrow> finality" where
  "finality_floor MinConfirmed = Confirmed 0"
| "finality_floor MinSafe = Safe"
| "finality_floor MinFinalized = Finalized"

datatype payment_status = PayPending | PayConfirmed | PayFinalized | PayFailed | Underpaid
  | Overpaid | WrongToken | PayUnverifiable

record expected_payment =
  exp_asset :: asset_id
  exp_recipient :: account_address
  exp_amount :: amount
  exp_finality :: finality
  exp_reference :: "string option"

record quorum_info =
  agreeing :: nat
  required :: nat

record payment_check =
  pay_status :: payment_status
  pay_asset :: asset_id
  pay_recipient :: account_address
  pay_expected :: amount
  net_received :: amount
  pay_withheld :: "amount option"
  payer :: "account_address option"
  pay_block :: "block_ref option"
  pay_finality :: finality
  meets_min_finality :: bool
  idempotency_key :: string
  reference_found :: "bool option"
  other_assets_received :: "asset_id list"
  pay_quorum :: "quorum_info option"
  pay_notes :: "string list"

section \<open>Deciding a payment\<close>

fun contains :: "string \<Rightarrow> string \<Rightarrow> bool" where
  "contains p [] = (p = [])"
| "contains p (c # s) = (starts_with p (c # s) \<or> contains p s)"

text \<open>The loop over the balance changes of the recipient in the expected asset.\<close>

definition or_else_amount :: "domain_error + amount \<Rightarrow> amount \<Rightarrow> amount" where
  "or_else_amount r a = (case r of Inl _ \<Rightarrow> a | Inr s \<Rightarrow> s)"

definition count_delta :: "u8 \<Rightarrow> amount \<times> amount option \<times> bool \<Rightarrow> balance_delta
    \<Rightarrow> amount \<times> amount option \<times> bool" where
  "count_delta dec = (\<lambda>(net, withheld, mismatch) d.
     if decimals (after d) \<noteq> dec then (net, withheld, True)
     else ((case received d of None \<Rightarrow> net | Some r \<Rightarrow> or_else_amount (amount_add net r) net),
           (case withheld_fee d of
              None \<Rightarrow> withheld
            | Some f \<Rightarrow> Some (case withheld of None \<Rightarrow> f | Some w \<Rightarrow> or_else_amount (amount_add w f) w)),
           mismatch))"

definition own_deltas :: "expected_payment \<Rightarrow> 'j tx \<Rightarrow> balance_delta list" where
  "own_deltas e t =
     filter (\<lambda>d. delta_owner d = exp_recipient e \<and> delta_asset d = exp_asset e) (balance_deltas t)"

definition matched_transfer :: "expected_payment \<Rightarrow> 'j tx \<Rightarrow> transfer option" where
  "matched_transfer e t =
     find (\<lambda>x. tr_to x = exp_recipient e \<and> tr_asset x = exp_asset e) (transfers t)"

definition other_assets :: "expected_payment \<Rightarrow> 'j tx \<Rightarrow> asset_id list" where
  "other_assets e t = remdups_adj (sort
     (map delta_asset (filter (\<lambda>d. case received d of None \<Rightarrow> False | Some r \<Rightarrow> \<not> is_zero r)
        (filter (\<lambda>d. delta_owner d = exp_recipient e \<and> delta_asset d \<noteq> exp_asset e) (balance_deltas t)))
      @ map tr_asset (filter (\<lambda>x. tr_to x = exp_recipient e \<and> tr_asset x \<noteq> exp_asset e
          \<and> \<not> is_zero (tr_amount x)) (transfers t))))"

definition other_note :: "codec \<Rightarrow> stablecoin_entry list \<Rightarrow> asset_id \<Rightarrow> string" where
  "other_note k reg a = (case by_asset reg a of
       Some e \<Rightarrow> ''received canonical '' @ symbol e @ '' ('' @ show_asset k a @ ''), not the expected token''
     | None \<Rightarrow> if is_native a then ''received the native asset ('' @ show_asset k a @ '')''
         else ''received '' @ show_asset k a @ '', which is not a registry stablecoin (possible spoof)'')"

text \<open>\<open>chain:tx[:logIndex]\<close>, built the same way by the check and by the deposit list.\<close>

definition payment_key :: "chain_id \<Rightarrow> string \<Rightarrow> u64 option \<Rightarrow> string" where
  "payment_key c h i = (case i of
       Some n \<Rightarrow> show_chain c @ '':'' @ h @ '':'' @ show_nat (unat n)
     | None \<Rightarrow> show_chain c @ '':'' @ h)"

definition status_of :: "expected_payment \<Rightarrow> 'j tx \<Rightarrow> amount \<Rightarrow> bool \<Rightarrow> payment_status \<times> string list" where
  "status_of e t net mismatch =
     (if status t = TxFailed \<or> status t = TxDropped then (PayFailed, [])
      else if tx_finality t = Unverifiable
      then (PayUnverifiable, [''amounts are hidden (e.g. confidential transfer)''])
      else if status t = TxPending \<or> status t = TxNotFound \<or> \<not> exp_finality e \<le> tx_finality t
      then (PayPending, [])
      else if mismatch
      then (PayUnverifiable, [''balance change decimals differ from the registry''])
      else if own_deltas e t = [] \<and> matched_transfer e t \<noteq> None
      then (PayUnverifiable, [''transfer found but no balance change data for the recipient''])
      else if is_zero net \<and> other_assets e t \<noteq> [] then (WrongToken, [])
      else (if raw net < raw (exp_amount e) then Underpaid
            else if raw (exp_amount e) < raw net then Overpaid
            else if tx_finality t = Finalized then PayFinalized
            else PayConfirmed, []))"

definition check_payment :: "codec \<Rightarrow> ('j \<Rightarrow> string) \<Rightarrow> expected_payment \<Rightarrow> 'j tx
    \<Rightarrow> stablecoin_entry list \<Rightarrow> payment_check" where
  "check_payment k js e t reg =
     (let (net, withheld, mismatch) =
            foldl (count_delta (decimals (exp_amount e)))
              (zero_amount (decimals (exp_amount e)), None, False) (own_deltas e t);
          matched = matched_transfer e t;
          others = other_assets e t;
          found = Option.bind (exp_reference e) (\<lambda>r. map_option (\<lambda>raw. contains r (js raw)) (tx_raw t));
          (st, why) = status_of e t net mismatch
      in \<lparr>pay_status = st, pay_asset = exp_asset e, pay_recipient = exp_recipient e,
          pay_expected = exp_amount e, net_received = net, pay_withheld = withheld,
          payer = or_opt (Option.bind matched tr_from) (tx_from t),
          pay_block = tx_block t, pay_finality = tx_finality t,
          meets_min_finality = (exp_finality e \<le> tx_finality t),
          idempotency_key = payment_key (tx_chain t) (tx_hash t) (Option.bind matched log_index),
          reference_found = found, other_assets_received = others, pay_quorum = None,
          pay_notes = map (other_note k reg) others
            @ (if found = Some False then [''reference/memo not found in this transaction''] else [])
            @ why\<rparr>)"

definition parse_amount :: "(string \<Rightarrow> u256 option) \<Rightarrow> string option \<Rightarrow> string option \<Rightarrow> u8
    \<Rightarrow> domain_error + amount" where
  "parse_amount fsr amt r d =
     and_then (case (amt, r) of
         (Some a, None) \<Rightarrow> parse_units fsr a d
       | (None, Some r) \<Rightarrow>
           and_then (ok_or (invalid (''amount_raw '' @ quoted r @ '' is not an integer'')) (fsr (trim r)))
             (\<lambda>n. Inr (new_amount n d))
       | _ \<Rightarrow> Inl (invalid
           ''give exactly one of `amount` (e.g. \"10.5\") or `amount_raw` (base units)''))
     (\<lambda>a. if is_zero a then Inl (invalid ''amount must be greater than zero'') else Inr a)"

section \<open>What the recipient gained\<close>

text \<open>
  The specification: the increase of a balance in base units, with no 256-bit arithmetic, and the
  total over the recipient's balance changes in the expected asset.
\<close>

definition increase :: "balance_delta \<Rightarrow> nat" where
  "increase d = (if decimals (before d) = decimals (after d)
     then unat (raw (after d)) - unat (raw (before d)) else 0)"

definition gained :: "u8 \<Rightarrow> balance_delta list \<Rightarrow> nat" where
  "gained dec ds = sum_list (map increase (filter (\<lambda>d. decimals (after d) = dec) ds))"

lemma increase_received:
  "increase d = (case received d of None \<Rightarrow> 0 | Some r \<Rightarrow> unat (raw r))"
proof (cases "received d")
  case None
  then show ?thesis
    by (auto simp: received_def increase_def amount_sub_def same_scale_def unat_ops
        split: sum.splits if_splits)
next
  case (Some r)
  then have "amount_sub (after d) (before d) = Inr (Some r)"
    by (auto simp: received_def split: sum.splits)
  then have "decimals (before d) = decimals (after d)"
      "unat (raw (after d)) = unat (raw (before d)) + unat (raw r)"
    by (simp_all add: amount_sub_Inr)
  then show ?thesis using Some by (simp add: increase_def)
qed

lemma count_deltas:
  assumes "decimals net = dec" and "unat (raw net) + gained dec ds < 2 ^ 256"
    and "foldl (count_delta dec) (net, w, m) ds = (net', w', m')"
  shows "decimals net' = dec \<and> unat (raw net') = unat (raw net) + gained dec ds
    \<and> (m' \<longleftrightarrow> m \<or> (\<exists>d \<in> set ds. decimals (after d) \<noteq> dec))"
  using assms
proof (induction ds arbitrary: net w m)
  case Nil
  then show ?case by (simp add: gained_def)
next
  case (Cons d ds)
  show ?case
  proof (cases "decimals (after d) = dec")
    case False
    with Cons.prems have "foldl (count_delta dec) (net, w, True) ds = (net', w', m')"
      by (simp add: count_delta_def)
    with Cons.IH [OF Cons.prems(1) _ this] Cons.prems(2) False show ?thesis
      by (auto simp: gained_def)
  next
    case True
    define net1 where
      "net1 = (case received d of None \<Rightarrow> net | Some r \<Rightarrow> or_else_amount (amount_add net r) net)"
    have g: "gained dec (d # ds) = increase d + gained dec ds"
      using True by (simp add: gained_def)
    have step: "\<exists>w1. foldl (count_delta dec) (net1, w1, m) ds = (net', w', m')"
      using Cons.prems(3) True by (auto simp: count_delta_def net1_def)
    have net1: "decimals net1 = dec \<and> unat (raw net1) = unat (raw net) + increase d"
    proof (cases "received d")
      case None
      with Cons.prems(1) show ?thesis by (simp add: net1_def increase_received)
    next
      case (Some r)
      then have "decimals r = dec"
        using True by (auto simp: received_exact amount_add_Inr)
      moreover have "unat (raw net) + unat (raw r) < 2 ^ LENGTH(256)"
        using Cons.prems(2) g Some by (simp add: increase_received)
      ultimately obtain s where s: "amount_add net r = Inr s"
        using Cons.prems(1) by (auto simp: amount_add_def same_scale_def checked_add_def)
      then have "decimals s = decimals net \<and> unat (raw s) = unat (raw net) + unat (raw r)"
        by (simp add: amount_add_Inr)
      with s Some Cons.prems(1) show ?thesis
        by (simp add: net1_def or_else_amount_def increase_received)
    qed
    then have "unat (raw net1) + gained dec ds < 2 ^ 256"
      using Cons.prems(2) g by simp
    with step net1 Cons.IH show ?thesis
      using True g by fastforce
  qed
qed

definition pay_decimals :: "expected_payment \<Rightarrow> u8" where
  "pay_decimals e = decimals (exp_amount e)"

text \<open>The total gain is a 256-bit number, as every balance is.\<close>

definition gain_fits :: "expected_payment \<Rightarrow> 'j tx \<Rightarrow> bool" where
  "gain_fits e t \<longleftrightarrow> gained (pay_decimals e) (own_deltas e t) < 2 ^ 256"

definition well_scaled :: "expected_payment \<Rightarrow> 'j tx \<Rightarrow> bool" where
  "well_scaled e t \<longleftrightarrow> list_all (\<lambda>d. decimals (after d) = pay_decimals e) (own_deltas e t)"

lemma check_payment_net:
  assumes "gain_fits e t"
  shows "\<exists>net. raw net = raw (net_received (check_payment k js e t reg))
    \<and> unat (raw net) = gained (pay_decimals e) (own_deltas e t)
    \<and> pay_status (check_payment k js e t reg) = fst (status_of e t net (\<not> well_scaled e t))"
proof -
  obtain net w m where fold: "foldl (count_delta (pay_decimals e))
      (zero_amount (pay_decimals e), None, False) (own_deltas e t) = (net, w, m)"
    by (metis prod_cases3)
  from count_deltas [OF _ _ this] assms
  have "unat (raw net) = gained (pay_decimals e) (own_deltas e t)" "m \<longleftrightarrow> \<not> well_scaled e t"
    by (auto simp: gain_fits_def well_scaled_def list_all_iff)
  with fold show ?thesis
    by (intro exI [of _ net])
      (auto simp: check_payment_def pay_decimals_def Let_def split: prod.splits)
qed

lemma paid_status_facts:
  assumes "gain_fits e t" and "raw (exp_amount e) \<noteq> 0"
  shows "(pay_status (check_payment k js e t reg) \<in> {PayConfirmed, PayFinalized} \<longleftrightarrow>
      status t = TxSuccess \<and> tx_finality t \<noteq> Unverifiable \<and> exp_finality e \<le> tx_finality t
      \<and> well_scaled e t
      \<and> gained (pay_decimals e) (own_deltas e t) = unat (raw (exp_amount e)))
    \<and> (pay_status (check_payment k js e t reg) = PayFinalized \<longrightarrow> tx_finality t = Finalized)
    \<and> (pay_status (check_payment k js e t reg) = PayConfirmed \<longrightarrow> tx_finality t \<noteq> Finalized)
    \<and> unat (raw (net_received (check_payment k js e t reg)))
        = gained (pay_decimals e) (own_deltas e t)"
proof -
  obtain net where net: "raw net = raw (net_received (check_payment k js e t reg))"
      "unat (raw net) = gained (pay_decimals e) (own_deltas e t)"
      "pay_status (check_payment k js e t reg) = fst (status_of e t net (\<not> well_scaled e t))"
    using check_payment_net [OF assms(1), of k js reg] by blast
  have eq: "unat (raw net) = unat (raw (exp_amount e)) \<longleftrightarrow> raw net = raw (exp_amount e)"
    by (simp add: word_unat_eq_iff)
  have some: "own_deltas e t \<noteq> []" if "raw net = raw (exp_amount e)"
    using that net(2) assms(2) by (auto simp: gained_def unsigned_eq_0_iff)
  show ?thesis
    unfolding net(3) net(1) [symmetric] net(2) [symmetric] eq
    using some assms(2)
    by (cases "status t") (auto simp: status_of_def is_zero_def)
qed

lemmas paid_status_iff = paid_status_facts [THEN conjunct1]

text \<open>
  C3: a payment counts as paid exactly when the transaction succeeded, its finality is known and
  reached what was asked, every balance change of the recipient in the expected token has the
  registry's decimals, and these changes add up to exactly the expected amount. The transfer
  events, other tokens and the reference have no influence. It is final exactly when the
  transaction is.
\<close>

theorem paid_iff_exact_gain:
  assumes "gain_fits e t" and "raw (exp_amount e) \<noteq> 0"
  shows "(pay_status (check_payment k js e t reg) \<in> {PayConfirmed, PayFinalized} \<longleftrightarrow>
      status t = TxSuccess \<and> tx_finality t \<noteq> Unverifiable \<and> exp_finality e \<le> tx_finality t
      \<and> well_scaled e t
      \<and> gained (pay_decimals e) (own_deltas e t) = unat (raw (exp_amount e)))
    \<and> (pay_status (check_payment k js e t reg) = PayFinalized \<longrightarrow> tx_finality t = Finalized)
    \<and> (pay_status (check_payment k js e t reg) = PayConfirmed \<longrightarrow> tx_finality t \<noteq> Finalized)
    \<and> unat (raw (net_received (check_payment k js e t reg)))
        = gained (pay_decimals e) (own_deltas e t)"
  by (rule paid_status_facts [OF assms])

definition sample_expected :: expected_payment where
  "sample_expected = \<lparr>exp_asset = AssetId (ChainId ''eip155'' ''8453'') (Erc20 7),
     exp_recipient = EvmAddress 9, exp_amount = new_amount 10000000 6, exp_finality = Finalized,
     exp_reference = None\<rparr>"

definition sample_tx :: "string tx" where
  "sample_tx = \<lparr>tx_chain = ChainId ''eip155'' ''8453'', tx_hash = ''0xabc'', status = TxSuccess,
     tx_finality = Finalized, tx_block = None, tx_from = None, tx_to = None, fee = None,
     transfers = [],
     balance_deltas = [\<lparr>delta_owner = EvmAddress 9,
       delta_asset = AssetId (ChainId ''eip155'' ''8453'') (Erc20 7), before = new_amount 5 6,
       after = new_amount 10000005 6, withheld_fee = None\<rparr>],
     tx_raw = None\<rparr>"

theorem paid_iff_exact_gain_witness:
  "pay_status (check_payment letter_codec id sample_expected sample_tx []) = PayFinalized"
proof -
  have gain: "gained (pay_decimals sample_expected) (own_deltas sample_expected sample_tx) = 10000000"
    and fits: "gain_fits sample_expected sample_tx"
    and scaled: "well_scaled sample_expected sample_tx"
    by (simp_all add: gained_def own_deltas_def sample_expected_def sample_tx_def gain_fits_def
        increase_def pay_decimals_def well_scaled_def)
  have "raw (exp_amount sample_expected) \<noteq> 0" "unat (raw (exp_amount sample_expected)) = 10000000"
    by (simp_all add: sample_expected_def)
  with paid_iff_exact_gain [OF fits, of letter_codec id "[]"] gain scaled show ?thesis
    by (auto simp: sample_tx_def sample_expected_def)
qed

lemma finality_update [simp]:
  "own_deltas e (t\<lparr>tx_finality := f\<rparr>) = own_deltas e t"
  "matched_transfer e (t\<lparr>tx_finality := f\<rparr>) = matched_transfer e t"
  "other_assets e (t\<lparr>tx_finality := f\<rparr>) = other_assets e t"
  by (simp_all add: own_deltas_def matched_transfer_def other_assets_def)

text \<open>
  A verdict that rests on the chain's content does not change while the transaction gets
  more final: a payment judged paid stays paid, and only moves from confirmed to finalized; a
  failed, under- or overpaid, wrong-token or undecidable one stays what it is.
\<close>

theorem verdict_stable:
  assumes "pay_status (check_payment k js e t reg) = v" and "v \<noteq> PayPending"
    and "tx_finality t \<noteq> Unverifiable" and "tx_finality t \<le> f"
  shows "pay_status (check_payment k js e (t\<lparr>tx_finality := f\<rparr>) reg)
    = (if v = PayConfirmed \<and> f = Finalized then PayFinalized else v)"
proof -
  let ?t = "t\<lparr>tx_finality := f\<rparr>"
  obtain net w m where fold: "foldl (count_delta (decimals (exp_amount e)))
      (zero_amount (decimals (exp_amount e)), None, False) (own_deltas e t) = (net, w, m)"
    by (metis prod_cases3)
  then have st: "pay_status (check_payment k js e t reg) = fst (status_of e t net m)"
      "pay_status (check_payment k js e ?t reg) = fst (status_of e ?t net m)"
    by (simp_all add: check_payment_def Let_def split: prod.splits)
  have known: "f \<noteq> Unverifiable" "exp_finality e \<le> tx_finality t \<longrightarrow> exp_finality e \<le> f"
    using assms(3,4) by (cases "tx_finality t"; auto simp: less_eq_finality_def)+
  have top: "tx_finality t = Finalized \<Longrightarrow> f = Finalized"
    using assms(4) finality_top by simp
  have v: "v = fst (status_of e t net m)" using assms(1) st(1) by simp
  consider "status t = TxFailed \<or> status t = TxDropped"
    | "status t = TxSuccess" "exp_finality e \<le> tx_finality t"
    using v assms(2,3) by (cases "status t") (auto simp: status_of_def split: if_split_asm)
  then show ?thesis
  proof cases
    case 1
    then show ?thesis unfolding st(2) v by (auto simp: status_of_def)
  next
    case 2
    with known top assms(3) show ?thesis
      unfolding st(2) v by (auto simp: status_of_def)
  qed
qed

theorem verdict_stable_witness:
  "pay_status (check_payment letter_codec id (sample_expected\<lparr>exp_finality := Confirmed 0\<rparr>)
     (sample_tx\<lparr>tx_finality := Finalized\<rparr>) []) = PayFinalized"
proof -
  let ?e = "sample_expected\<lparr>exp_finality := Confirmed 0\<rparr>"
  let ?t = "sample_tx\<lparr>tx_finality := Confirmed 3\<rparr>"
  have paid: "pay_status (check_payment letter_codec id ?e ?t []) = PayConfirmed"
    by (simp add: check_payment_def own_deltas_def matched_transfer_def other_assets_def
        sample_expected_def sample_tx_def count_delta_def received_def amount_sub_def
        same_scale_def checked_sub_def amount_add_def checked_add_def or_else_amount_def
        status_of_def less_eq_finality_def finality_conf_def is_zero_def zero_amount_def new_amount_def)
  have "Confirmed 3 \<le> Finalized" by (rule finality_top)
  with verdict_stable [OF paid, of Finalized] show ?thesis
    by (simp add: sample_tx_def)
qed

section \<open>Idempotency keys\<close>

lemma show_chain_inject:
  assumes "wf_chain c" and "wf_chain d" and "show_chain c = show_chain d"
  shows "c = d"
proof -
  have "parse_chain (show_chain d) = Inr c"
    using assms(1) by (simp only: parse_chain_iff assms(3) simp_thms)
  moreover have "parse_chain (show_chain d) = Inr d"
    using assms(2) by (simp only: parse_chain_iff simp_thms)
  ultimately show ?thesis by simp
qed

lemma append_sep_inject:
  fixes a b :: string
  assumes "d \<notin> set a" and "d \<notin> set b" and "a @ d # s = b @ d # t"
  shows "a = b \<and> s = t"
proof -
  have "split_once d (b @ d # t) = Some (a, s)"
    using split_once_append [OF assms(1), of s] by (simp only: assms(3))
  with split_once_append [OF assms(2), of t] show ?thesis by simp
qed

text \<open>The text of a chain has exactly one colon.\<close>

lemma payment_key_parts:
  assumes "wf_chain c" and "CHR '':'' \<notin> set h"
  shows "payment_key c h i = namespace c @ CHR '':'' # reference c @ CHR '':'' # h
      @ (case i of None \<Rightarrow> [] | Some n \<Rightarrow> CHR '':'' # show_nat (unat n))"
    and "CHR '':'' \<notin> set (namespace c)" "CHR '':'' \<notin> set (reference c)"
  using assms ok_ns_chars [of "namespace c" "CHR '':''"] ok_ref_chars [of "reference c" "CHR '':''"]
  by (auto simp: payment_key_def show_chain_def wf_chain_def split: option.splits)

lemma payment_key_inject:
  assumes "wf_chain c" and "wf_chain d" and "CHR '':'' \<notin> set h" and "CHR '':'' \<notin> set g"
    and "payment_key c h i = payment_key d g j"
  shows "c = d \<and> h = g \<and> i = j"
proof -
  let ?tl = "\<lambda>i. case i of None \<Rightarrow> [] | Some n \<Rightarrow> CHR '':'' # show_nat (unat n)"
  note pc = payment_key_parts [OF assms(1,3)] and pd = payment_key_parts [OF assms(2,4)]
  have "namespace c = namespace d
      \<and> reference c @ CHR '':'' # h @ ?tl i = reference d @ CHR '':'' # g @ ?tl j"
    by (rule append_sep_inject [OF pc(2) pd(2)]) (use assms(5) pc(1) pd(1) in simp)
  moreover from this have r: "reference c = reference d \<and> h @ ?tl i = g @ ?tl j"
    by (intro append_sep_inject [OF pc(3) pd(3)]) simp
  moreover have "h = g \<and> i = j"
  proof (cases i; cases j)
    fix m n
    assume "i = Some m" "j = Some n"
    with r append_sep_inject [OF assms(3,4), of "show_nat (unat m)" "show_nat (unat n)"]
    show ?thesis by (simp add: word_unat_eq_iff)
  qed (use r assms(3,4) in auto)
  ultimately show ?thesis by (simp add: chain_id.expand)
qed

text \<open>
  C4: two payments have the same idempotency key only if they are the same payment: the key
  determines the chain, the transaction and the log index, so crediting once per key credits each
  payment once.
\<close>

theorem payment_key_injective:
  assumes "wf_chain c" and "wf_chain d" and "CHR '':'' \<notin> set h" and "CHR '':'' \<notin> set g"
    and "payment_key c h i = payment_key d g j"
  shows "c = d \<and> h = g \<and> i = j"
  by (rule payment_key_inject [OF assms])

theorem payment_key_injective_witness:
  "payment_key (chain_evm 8453) ''0xabc'' (Some 7) \<noteq> payment_key (chain_evm 8453) ''0xabc'' None"
  using payment_key_injective [of "chain_evm 8453" "chain_evm 8453" "''0xabc''" "''0xabc''"
      "Some 7" None] wf_chain_evm
  by auto

section \<open>Amounts asked for\<close>

text \<open>
  An amount that is accepted is positive, has the token's decimals and comes from exactly one
  of the two inputs, without rounding: the decimal text denotes exactly that many base units, and
  a text of digits is exactly that number. The printed form of every positive amount is accepted.
\<close>

theorem parse_amount_correct:
  assumes "dec_parser fsr"
  shows "(parse_amount fsr amt r d = Inr x \<longrightarrow> raw x \<noteq> 0 \<and> decimals x = d
      \<and> ((\<exists>a. amt = Some a \<and> r = None \<and> denotes (trim a) (unat d) (unat (raw x)))
        \<or> (\<exists>s. amt = None \<and> r = Some s
             \<and> (trim s \<noteq> [] \<and> all_digits (trim s) \<longrightarrow> unat (raw x) = read_dec (trim s)))))
    \<and> (raw y \<noteq> 0 \<longrightarrow> parse_amount fsr (Some (format_units y)) None (decimals y) = Inr y)"
proof (intro conjI impI)
  assume "parse_amount fsr amt r d = Inr x"
  then have nz: "raw x \<noteq> 0"
    and src: "(\<exists>a. amt = Some a \<and> r = None \<and> parse_units fsr a d = Inr x)
      \<or> (\<exists>s n. amt = None \<and> r = Some s \<and> fsr (trim s) = Some n \<and> x = new_amount n d)"
    by (auto simp: parse_amount_def and_then_Inr is_zero_def split: option.splits if_splits)
  have "unat n = read_dec (trim s)"
    if "fsr (trim s) = Some n" "trim s \<noteq> []" "all_digits (trim s)" for s n
    using assms that of_nat_fits [of "read_dec (trim s)" n]
    by (auto simp: dec_parser_def split: if_splits)
  with src show "raw x \<noteq> 0" "decimals x = d"
    "(\<exists>a. amt = Some a \<and> r = None \<and> denotes (trim a) (unat d) (unat (raw x)))
      \<or> (\<exists>s. amt = None \<and> r = Some s
           \<and> (trim s \<noteq> [] \<and> all_digits (trim s) \<longrightarrow> unat (raw x) = read_dec (trim s)))"
    using nz by (auto simp: parse_units_iff [OF assms])
next
  assume "raw y \<noteq> 0"
  then show "parse_amount fsr (Some (format_units y)) None (decimals y) = Inr y"
    by (simp add: parse_amount_def parse_format_id [OF assms] is_zero_def)
qed

theorem parse_amount_correct_witness:
  "parse_amount std_parser (Some (format_units (new_amount 10500000 6))) None 6
     = Inr (new_amount 10500000 6)"
  using parse_amount_correct [OF dec_parser_std, of _ _ _ _ "new_amount 10500000 6"] by simp

section \<open>Deposits\<close>

record deposit =
  dep_symbol :: string
  dep_key :: string
  dep_transfer :: transfer

definition canonical_deposit :: "stablecoin_entry list \<Rightarrow> transfer \<Rightarrow> deposit option" where
  "canonical_deposit tokens t = map_option
     (\<lambda>e. \<lparr>dep_symbol = symbol e, dep_key = payment_key (tr_chain t) (tr_tx_hash t) (log_index t),
        dep_transfer = t\<rparr>)
     (find (\<lambda>e. entry_asset e = tr_asset t) tokens)"

definition canonical_deposits ::
    "transfer list \<Rightarrow> account_address \<Rightarrow> stablecoin_entry list \<Rightarrow> deposit list" where
  "canonical_deposits ts recipient tokens = List.map_filter (canonical_deposit tokens)
     (filter (\<lambda>t. tr_to t = recipient \<and> tr_kind t = TokenTransfer \<and> \<not> is_zero (tr_amount t)) ts)"

definition is_deposit :: "account_address \<Rightarrow> stablecoin_entry list \<Rightarrow> transfer \<Rightarrow> bool" where
  "is_deposit recipient tokens t \<longleftrightarrow> tr_to t = recipient \<and> tr_kind t = TokenTransfer
     \<and> raw (tr_amount t) \<noteq> 0 \<and> (\<exists>e \<in> set tokens. entry_asset e = tr_asset t)"

definition transfer_id :: "transfer \<Rightarrow> chain_id \<times> string \<times> u64 option" where
  "transfer_id t = (tr_chain t, tr_tx_hash t, log_index t)"

lemma deposits_transfers:
  "map dep_transfer (canonical_deposits ts recipient tokens) = filter (is_deposit recipient tokens) ts"
proof (induction ts)
  case (Cons t ts)
  have "(find (\<lambda>e. entry_asset e = tr_asset t) tokens = None)
      = (\<forall>e \<in> set tokens. entry_asset e \<noteq> tr_asset t)"
    by (auto simp: find_None_iff)
  with Cons show ?case
    by (cases "find (\<lambda>e. entry_asset e = tr_asset t) tokens")
      (auto simp: canonical_deposits_def is_deposit_def is_zero_def canonical_deposit_def
        List.map_filter_simps dest: find_SomeD)
qed (simp add: canonical_deposits_def List.map_filter_simps)

lemma deposit_entry:
  "x \<in> set (canonical_deposits ts recipient tokens) \<Longrightarrow>
     dep_key x = payment_key (tr_chain (dep_transfer x)) (tr_tx_hash (dep_transfer x))
       (log_index (dep_transfer x))
     \<and> (\<exists>e \<in> set tokens. entry_asset e = tr_asset (dep_transfer x) \<and> dep_symbol x = symbol e)"
  by (auto simp: canonical_deposits_def canonical_deposit_def set_map_filter_iff dest!: find_SomeD)

text \<open>
  The deposit list keeps, in order and with nothing added or dropped, exactly the non-zero
  token transfers to the recipient whose contract or mint is one of the tokens asked for, each
  under the symbol of the registry entry of that asset. If the transfers are distinct log entries,
  their idempotency keys are distinct.
\<close>

theorem deposits_exact:
  assumes "\<forall>t \<in> set ts. wf_chain (tr_chain t) \<and> CHR '':'' \<notin> set (tr_tx_hash t)"
    and "distinct (map transfer_id ts)"
  shows "map dep_transfer (canonical_deposits ts recipient tokens)
      = filter (is_deposit recipient tokens) ts
    \<and> (\<forall>x \<in> set (canonical_deposits ts recipient tokens). \<exists>e \<in> set tokens.
         entry_asset e = tr_asset (dep_transfer x) \<and> dep_symbol x = symbol e)
    \<and> distinct (map dep_key (canonical_deposits ts recipient tokens))"
proof -
  let ?ds = "canonical_deposits ts recipient tokens"
  let ?key = "\<lambda>t. payment_key (tr_chain t) (tr_tx_hash t) (log_index t)"
  have keys: "map dep_key ?ds = map ?key (filter (is_deposit recipient tokens) ts)"
    using deposit_entry [of _ ts recipient tokens]
    by (auto simp flip: deposits_transfers)
  have inj: "inj_on ?key (set ts)" if "distinct (map transfer_id ts)"
  proof (rule inj_onI)
    fix x y
    assume xy: "x \<in> set ts" "y \<in> set ts" "?key x = ?key y"
    with assms(1) payment_key_inject have "transfer_id x = transfer_id y"
      unfolding transfer_id_def by blast
    with xy that show "x = y" by (auto simp: distinct_map inj_on_def)
  qed
  have "distinct (map dep_key ?ds)"
    unfolding keys using inj [OF assms(2)] assms(2)
    by (auto simp: distinct_map intro: inj_on_subset)
  with deposits_transfers deposit_entry show ?thesis by blast
qed

definition sample_transfer :: transfer where
  "sample_transfer = \<lparr>tr_chain = ChainId ''eip155'' ''8453'', tr_tx_hash = ''0xabc'',
     log_index = Some 7, tr_kind = TokenTransfer,
     tr_asset = AssetId (ChainId ''eip155'' ''8453'') (Erc20 7), tr_from = None,
     tr_to = EvmAddress 9, tr_amount = new_amount 10 6, tr_block = None\<rparr>"

theorem deposits_exact_witness:
  "map dep_transfer (canonical_deposits [sample_transfer] (EvmAddress 9) [sample_entry])
     = [sample_transfer]"
proof -
  have "wf_chain (ChainId ''eip155'' ''8453'')" by code_simp
  then have "\<forall>t \<in> set [sample_transfer]. wf_chain (tr_chain t) \<and> CHR '':'' \<notin> set (tr_tx_hash t)"
    and "distinct (map transfer_id [sample_transfer])"
    by (simp_all add: sample_transfer_def)
  from deposits_exact [OF this, of "EvmAddress 9" "[sample_entry]"] show ?thesis
    by (simp add: is_deposit_def sample_transfer_def sample_entry_def)
qed

section \<open>Payment requests\<close>

definition hex_upper :: "nat \<Rightarrow> char" where
  "hex_upper d = (if d < 10 then char_of (48 + d) else char_of (55 + d))"

definition unreserved :: "char \<Rightarrow> bool" where
  "unreserved c \<longleftrightarrow> is_alnum c \<or> c \<in> {CHR ''-'', CHR ''_'', CHR ''.'', CHR 0x7E}"

definition pct_char :: "char \<Rightarrow> string" where
  "pct_char c = (if unreserved c then [c]
     else [CHR 0x25, hex_upper (byte c div 16), hex_upper (byte c mod 16)])"

definition pct :: "string \<Rightarrow> string" where
  "pct s = concat (map pct_char s)"

definition eip681_uri :: "codec \<Rightarrow> stablecoin_entry \<Rightarrow> u64 \<Rightarrow> account_address \<Rightarrow> amount \<Rightarrow> string" where
  "eip681_uri k e chain to a = ''ethereum:'' @ entry_address e @ ''@'' @ show_nat (unat chain)
     @ ''/transfer?address='' @ show_address k to @ ''&uint256='' @ show_nat (unat (raw a))"

fun push_params :: "(string \<times> string option) list \<Rightarrow> string" where
  "push_params [] = []"
| "push_params ((name, None) # ps) = push_params ps"
| "push_params ((name, Some v) # ps) = ''&'' @ name @ ''='' @ pct v @ push_params ps"

definition solana_pay_url :: "codec \<Rightarrow> stablecoin_entry \<Rightarrow> account_address \<Rightarrow> amount \<Rightarrow> pubkey
    \<Rightarrow> string option \<Rightarrow> string option \<Rightarrow> string option \<Rightarrow> string" where
  "solana_pay_url k e to a refkey label msg memo =
     ''solana:'' @ show_address k to @ ''?amount='' @ format_units a @ ''&spl-token=''
     @ entry_address e @ ''&reference='' @ show_pubkey k refkey
     @ push_params [(''label'', label), (''message'', msg), (''memo'', memo)]"

text \<open>How a wallet reads the query of such a link: cut at every ampersand, then at the equals
  sign, and decode the percent escapes.\<close>

definition hex_val :: "char \<Rightarrow> nat" where
  "hex_val c = (if is_digit c then byte c - 48 else byte c - 55)"

fun pct_decode :: "string \<Rightarrow> string" where
  "pct_decode (c # h # l # s) = (if c = CHR 0x25
     then char_of (16 * hex_val h + hex_val l) # pct_decode s else c # pct_decode (h # l # s))"
| "pct_decode (c # s) = c # pct_decode s"
| "pct_decode [] = []"

fun split_on :: "char \<Rightarrow> string \<Rightarrow> string list" where
  "split_on d [] = [[]]"
| "split_on d (c # s) = (if c = d then [] # split_on d s
     else (case split_on d s of [] \<Rightarrow> [[c]] | w # ws \<Rightarrow> (c # w) # ws))"

definition read_param :: "string \<Rightarrow> string \<times> string" where
  "read_param p = (case split_once (CHR ''='') p of
     None \<Rightarrow> (p, []) | Some (n, v) \<Rightarrow> (n, pct_decode v))"

definition read_query :: "string \<Rightarrow> (string \<times> string) list" where
  "read_query url = (case split_once (CHR ''?'') url of
     None \<Rightarrow> [] | Some (_, q) \<Rightarrow> map read_param (split_on (CHR ''&'') q))"

lemma hex_upper_facts:
  "d < 16 \<Longrightarrow> hex_val (hex_upper d) = d" "d < 16 \<Longrightarrow> is_alnum (hex_upper d)"
  by (auto simp: hex_upper_def hex_val_def is_digit_def is_alnum_def is_upper_def of_char_of)

lemma byte_bound: "byte c < 256"
  by (rule nat_of_char_less_256)

lemma pct_decode_char: "pct_decode (pct_char c @ s) = c # pct_decode s"
proof (cases "unreserved c")
  case True
  then have "c \<noteq> CHR 0x25"
    by (auto simp: unreserved_def is_alnum_def is_lower_def is_upper_def is_digit_def)
  with True show ?thesis
    by (cases s rule: pct_decode.cases) (auto simp: pct_char_def)
next
  case False
  have "byte c div 16 < 16" using byte_bound [of c] by (simp add: less_mult_imp_div_less)
  then have "pct_decode (pct_char c @ s) = char_of (16 * (byte c div 16) + byte c mod 16) # pct_decode s"
    using False by (simp add: pct_char_def hex_upper_facts)
  then show ?thesis by simp
qed

lemma pct_decode_pct: "pct_decode (pct s) = s"
  by (induction s) (simp_all add: pct_def pct_decode_char)

lemma pct_decode_plain: "CHR 0x25 \<notin> set s \<Longrightarrow> pct_decode s = s"
  by (induction s rule: pct_decode.induct) auto

text \<open>Characters that structure a link; none of them occurs in an encoded value.\<close>

definition plain :: "string \<Rightarrow> bool" where
  "plain s \<longleftrightarrow> list_all (\<lambda>c. c \<notin> {CHR ''&'', CHR ''='', CHR ''?'', CHR ''@'', CHR ''/''}) s"

lemma plain_simps [simp]:
  "plain []" "plain (CHR ''.'' # s) \<longleftrightarrow> plain s" "plain (s @ t) \<longleftrightarrow> plain s \<and> plain t"
  by (simp_all add: plain_def)

lemma alnum_plain: "list_all is_alnum s \<Longrightarrow> plain s \<and> CHR 0x25 \<notin> set s"
  by (auto simp: plain_def list_all_iff is_alnum_def is_lower_def is_upper_def is_digit_def)

lemma pct_plain: "plain (pct s)"
proof (induction s)
  case (Cons c s)
  have "byte c div 16 < 16" using byte_bound [of c] by (simp add: less_mult_imp_div_less)
  then have "plain (pct_char c)"
    using alnum_plain [of "[hex_upper (byte c div 16), hex_upper (byte c mod 16)]"]
      alnum_plain [of "[c]"]
    by (auto simp: pct_char_def unreserved_def plain_def hex_upper_facts)
  with Cons show ?case by (simp add: pct_def)
qed (simp add: pct_def)

lemma all_digits_plain: "all_digits s \<Longrightarrow> plain s \<and> CHR 0x25 \<notin> set s"
  using alnum_plain [of s] by (auto simp: all_digits_def list_all_iff is_alnum_def)

lemma split_on_absent: "d \<notin> set s \<Longrightarrow> split_on d s = [s]"
  by (induction s) auto

lemma split_on_not_Nil [simp]: "split_on d s \<noteq> []"
  by (cases s) (auto split: list.splits)

lemma split_on_append: "d \<notin> set a \<Longrightarrow> split_on d (a @ d # b) = a # split_on d b"
  by (induction a) auto

lemma read_param_pair:
  "CHR ''='' \<notin> set n \<Longrightarrow> read_param (n @ CHR ''='' # v) = (n, pct_decode v)"
  by (simp add: read_param_def split_once_append)

fun given_params :: "(string \<times> string option) list \<Rightarrow> (string \<times> string) list" where
  "given_params [] = []"
| "given_params ((name, None) # ps) = given_params ps"
| "given_params ((name, Some v) # ps) = (name, v) # given_params ps"

text \<open>Reading a list of parameters that follow a first one.\<close>

lemma read_pushed:
  assumes "CHR ''&'' \<notin> set a" and "\<forall>(n, v) \<in> set ps. plain n"
  shows "map read_param (split_on (CHR ''&'') (a @ push_params ps)) = read_param a # given_params ps"
  using assms
proof (induction ps arbitrary: a rule: push_params.induct)
  case (3 n v ps)
  let ?p = "n @ CHR ''='' # pct v"
  have n: "CHR ''&'' \<notin> set n" "CHR ''='' \<notin> set n"
    using "3.prems"(2) by (auto simp: plain_def list_all_iff)
  moreover have "CHR ''&'' \<notin> set (pct v)"
    using pct_plain [of v] by (auto simp: plain_def list_all_iff)
  ultimately have "map read_param (split_on (CHR ''&'') (?p @ push_params ps))
      = read_param ?p # given_params ps"
    using "3.prems"(2) by (intro "3.IH") auto
  moreover have "read_param ?p = (n, v)"
    using n(2) by (simp add: read_param_pair pct_decode_pct)
  ultimately show ?case
    using split_on_append [OF "3.prems"(1), of "?p @ push_params ps"] by simp
qed (simp_all add: split_on_absent)

lemma format_units_plain: "plain (format_units a) \<and> CHR 0x25 \<notin> set (format_units a)"
proof -
  define p where "p = pad_left (unat (decimals a) + 1) (show_nat (unat (raw a)))"
  have "all_digits p" by (simp add: p_def)
  then have "all_digits (take n p)" "all_digits (drop n p)" for n
    by (auto simp: all_digits_def list_all_iff dest: in_set_takeD in_set_dropD)
  then have parts: "plain (take n p) \<and> CHR 0x25 \<notin> set (take n p)"
      "plain (trim_zeros (drop n p)) \<and> CHR 0x25 \<notin> set (trim_zeros (drop n p))" for n
    using all_digits_plain all_digits_trim_zeros by blast+
  have whole: "plain (show_nat n) \<and> CHR 0x25 \<notin> set (show_nat n)" for n
    by (rule all_digits_plain) simp
  have dot: "plain ''.''" by (simp add: plain_def)
  show ?thesis
    using parts [of "length p - unat (decimals a)"] whole [of "unat (raw a)"] dot
    unfolding format_units_def Let_def p_def [symmetric] by simp
qed

lemma show_address_plain: "codec_ok k \<Longrightarrow> list_all is_alnum (show_address k a)"
  by (cases a) (auto simp: codec_ok_def show_pubkey_def)

text \<open>
  C21: a Solana Pay link read back by a wallet asks for exactly what was requested: the amount,
  the mint and the reference, then the label, message and memo that were given, each with its
  text unchanged. Whatever characters these texts contain, they cannot add or replace a parameter.
\<close>

theorem solana_pay_url_reads_back:
  assumes "codec_ok k" and "list_all is_alnum (entry_address e)"
  shows "read_query (solana_pay_url k e to a refkey label msg memo) =
    (''amount'', format_units a) # (''spl-token'', entry_address e)
    # (''reference'', show_pubkey k refkey)
    # given_params [(''label'', label), (''message'', msg), (''memo'', memo)]"
proof -
  let ?tail = "push_params [(''label'', label), (''message'', msg), (''memo'', memo)]"
  let ?a = "''amount='' @ format_units a" and ?t = "''spl-token='' @ entry_address e"
    and ?r = "''reference='' @ show_pubkey k refkey"
  have e: "plain (entry_address e)" "CHR 0x25 \<notin> set (entry_address e)"
    using alnum_plain [OF assms(2)] by auto
  have r: "plain (show_pubkey k refkey)" "CHR 0x25 \<notin> set (show_pubkey k refkey)"
    using alnum_plain [OF show_address_plain [OF assms(1), of "SolanaAddress refkey"]] by auto
  have "plain (''solana:'' @ show_address k to)"
    using alnum_plain [OF show_address_plain [OF assms(1), of to]] by (simp add: plain_def)
  then have "CHR ''?'' \<notin> set (''solana:'' @ show_address k to)"
    by (auto simp: plain_def list_all_iff)
  from split_once_append [OF this, of "?a @ ''&'' @ ?t @ ''&'' @ ?r @ ?tail"]
  have q: "read_query (solana_pay_url k e to a refkey label msg memo)
      = map read_param (split_on (CHR ''&'') (?a @ CHR ''&'' # ?t @ CHR ''&'' # ?r @ ?tail))"
    by (simp add: read_query_def solana_pay_url_def)
  have amp: "CHR ''&'' \<notin> set ?a" "CHR ''&'' \<notin> set ?t" "CHR ''&'' \<notin> set ?r"
    using e(1) r(1) format_units_plain [of a] by (auto simp: plain_def list_all_iff)
  have "map read_param (split_on (CHR ''&'') (?r @ ?tail))
      = read_param ?r # given_params [(''label'', label), (''message'', msg), (''memo'', memo)]"
    by (rule read_pushed [OF amp(3)]) (simp add: plain_def)
  moreover have "read_param ?a = (''amount'', format_units a)"
      "read_param ?t = (''spl-token'', entry_address e)"
      "read_param ?r = (''reference'', show_pubkey k refkey)"
    using format_units_plain [of a] e(2) r(2)
      read_param_pair [of "''amount''" "format_units a"]
      read_param_pair [of "''spl-token''" "entry_address e"]
      read_param_pair [of "''reference''" "show_pubkey k refkey"]
    by (simp_all add: pct_decode_plain)
  ultimately show ?thesis
    unfolding q split_on_append [OF amp(1)] split_on_append [OF amp(2)] by simp
qed

theorem solana_pay_url_reads_back_witness:
  "read_query (solana_pay_url letter_codec (sample_entry\<lparr>entry_address := ''mint''\<rparr>)
       (SolanaAddress sample_key) (new_amount 10 6) sample_key None None (Some ''a&amount=9''))
     = [(''amount'', format_units (new_amount 10 6)), (''spl-token'', ''mint''),
        (''reference'', show_pubkey letter_codec sample_key), (''memo'', ''a&amount=9'')]"
  using solana_pay_url_reads_back [OF codec_ok_letter, of "sample_entry\<lparr>entry_address := ''mint''\<rparr>"
      "SolanaAddress sample_key" "new_amount 10 6" sample_key None None "Some ''a&amount=9''"]
  by (simp add: is_alnum_def is_lower_def)

lemma digits_end: "all_digits s \<Longrightarrow> all_digits t \<Longrightarrow> \<not> is_digit c \<Longrightarrow> c \<notin> set s \<and> c \<notin> set t"
  using all_digits_in by blast

text \<open>
  An EIP-681 link determines the token contract, the chain, the recipient and the number of
  base units: two requests with the same link ask for the same payment.
\<close>

theorem eip681_uri_injective:
  assumes "codec_ok k" and "plain (entry_address e)" and "plain (entry_address e')"
    and "eip681_uri k e c to a = eip681_uri k e' c' to' a'" and "wf_address to" and "wf_address to'"
    and "address_family to = address_family to'"
  shows "entry_address e = entry_address e' \<and> c = c' \<and> to = to' \<and> raw a = raw a'"
proof -
  let ?n = "\<lambda>c. show_nat (unat (c::u64))" and ?m = "\<lambda>a. show_nat (unat (raw a))"
  have sep: "x \<notin> set s" if "plain s" "x \<in> {CHR ''&'', CHR ''='', CHR ''?'', CHR ''@'', CHR ''/''}" for x s
    using that by (auto simp: plain_def list_all_iff)
  have num: "plain (?n c)" for c
    using all_digits_plain by simp
  have addr: "plain (show_address k x)" for x
    using alnum_plain [OF show_address_plain [OF assms(1)]] by simp
  have uri: "entry_address e @ CHR ''@'' # (?n c @ CHR ''/'' # (''transfer?address=''
        @ show_address k to @ CHR ''&'' # (''uint256='' @ ?m a)))
      = entry_address e' @ CHR ''@'' # (?n c' @ CHR ''/'' # (''transfer?address=''
        @ show_address k to' @ CHR ''&'' # (''uint256='' @ ?m a')))"
    using assms(4) by (simp add: eip681_uri_def)
  have 1: "entry_address e = entry_address e' \<and>
      ?n c @ CHR ''/'' # (''transfer?address='' @ show_address k to @ CHR ''&'' # (''uint256='' @ ?m a))
      = ?n c' @ CHR ''/'' # (''transfer?address='' @ show_address k to' @ CHR ''&'' # (''uint256='' @ ?m a'))"
    by (rule append_sep_inject [OF sep [OF assms(2)] sep [OF assms(3)] uri]) simp_all
  have 2: "?n c = ?n c' \<and> ''transfer?address='' @ show_address k to @ CHR ''&'' # (''uint256='' @ ?m a)
      = ''transfer?address='' @ show_address k to' @ CHR ''&'' # (''uint256='' @ ?m a')"
    by (rule append_sep_inject [OF sep [OF num] sep [OF num] conjunct2 [OF 1]]) simp_all
  have tail: "show_address k to @ CHR ''&'' # (''uint256='' @ ?m a)
      = show_address k to' @ CHR ''&'' # (''uint256='' @ ?m a')"
    by (rule same_append_eq [THEN iffD1, OF conjunct2 [OF 2]])
  have "show_address k to = show_address k to' \<and> ''uint256='' @ ?m a = ''uint256='' @ ?m a'"
    by (rule append_sep_inject [OF sep [OF addr] sep [OF addr] tail]) simp_all
  then have 3: "show_address k to = show_address k to' \<and> ?m a = ?m a'"
    by (simp only: same_append_eq)
  have "parse_address k (address_family to') (show_address k to') = Inr to"
    using parse_show_address [OF assms(1,5)] by (simp only: assms(7) conjunct1 [OF 3])
  then have "to = to'"
    using parse_show_address [OF assms(1,6)] by (simp only: sum.inject)
  with conjunct1 [OF 1] conjunct1 [OF 2] conjunct2 [OF 3] show ?thesis
    by (simp add: word_unat_eq_iff)
qed

theorem eip681_uri_injective_witness:
  "raw (new_amount 10 6) = raw (new_amount 10 18)"
proof -
  let ?e = "sample_entry\<lparr>entry_address := ''0xabc''\<rparr>"
  have "plain (entry_address ?e)" by (simp add: plain_def)
  moreover have "eip681_uri letter_codec ?e 8453 (EvmAddress 9) (new_amount 10 6)
      = eip681_uri letter_codec ?e 8453 (EvmAddress 9) (new_amount 10 18)"
    by (simp add: eip681_uri_def)
  ultimately show ?thesis
    using eip681_uri_injective [OF codec_ok_letter, of ?e ?e 8453 "EvmAddress 9" "new_amount 10 6"
        8453 "EvmAddress 9" "new_amount 10 18"] by simp
qed

end
