(* ===== verification/Capabilities.thy ===== *)
theory Capabilities
  imports Payments
begin

text \<open>
  Capabilities, vendor facts and port handles (\<open>crates/ports/src/registration.rs\<close>). A port is
  an implementation behind a trait object; the model keeps it as the type parameter \<open>'p\<close>.
\<close>

datatype capability = CapEvmRpc | CapSolanaRpc | CapTokenBalances | CapTransferHistory
  | CapFeeEstimate | CapSimulate | CapBroadcast | CapPrivateRelay | CapPrice | CapPriceHistory
  | CapTokenMetadata | CapTokenRisk | CapSwapQuote | CapSanctions | CapFx

definition all_capabilities :: "capability list" where
  "all_capabilities = [CapEvmRpc, CapSolanaRpc, CapTokenBalances, CapTransferHistory,
     CapFeeEstimate, CapSimulate, CapBroadcast, CapPrivateRelay, CapPrice, CapPriceHistory,
     CapTokenMetadata, CapTokenRisk, CapSwapQuote, CapSanctions, CapFx]"

fun cap_as_str :: "capability \<Rightarrow> string" where
  "cap_as_str CapEvmRpc = ''evm_rpc''"
| "cap_as_str CapSolanaRpc = ''solana_rpc''"
| "cap_as_str CapTokenBalances = ''token_balances''"
| "cap_as_str CapTransferHistory = ''transfer_history''"
| "cap_as_str CapFeeEstimate = ''fee_estimate''"
| "cap_as_str CapSimulate = ''simulate''"
| "cap_as_str CapBroadcast = ''broadcast''"
| "cap_as_str CapPrivateRelay = ''private_relay''"
| "cap_as_str CapPrice = ''price''"
| "cap_as_str CapPriceHistory = ''price_history''"
| "cap_as_str CapTokenMetadata = ''token_metadata''"
| "cap_as_str CapTokenRisk = ''token_risk''"
| "cap_as_str CapSwapQuote = ''swap_quote''"
| "cap_as_str CapSanctions = ''sanctions''"
| "cap_as_str CapFx = ''fx''"

definition cap_from_str :: "string \<Rightarrow> string + capability" where
  "cap_from_str s = ok_or (''unknown capability '' @ quoted s)
     (find (\<lambda>c. cap_as_str c = s) all_capabilities)"

fun is_chain_bound :: "capability \<Rightarrow> bool" where
  "is_chain_bound CapEvmRpc = True"
| "is_chain_bound CapSolanaRpc = True"
| "is_chain_bound CapTokenBalances = True"
| "is_chain_bound CapTransferHistory = True"
| "is_chain_bound CapFeeEstimate = True"
| "is_chain_bound CapSimulate = True"
| "is_chain_bound CapBroadcast = True"
| "is_chain_bound CapPrivateRelay = True"
| "is_chain_bound _ = False"

record rpc_features =
  get_logs_max_range :: "u64 option"
  simulate_v1 :: bool
  debug_trace :: bool

record vendor_meta =
  vendor_id :: string
  display_name :: string
  meta_requires_key :: bool
  meta_signup_url :: "string option"
  meta_rpc_features :: rpc_features

text \<open>
  A handle is the capability its variant names and the implementation it holds. Every trait is
  extracted from its own variant only, except \<open>Broadcaster\<close>, which has two.
\<close>

datatype 'p port_handle = PortHandle (handle_capability: capability) (handle_port: 'p)

datatype port_trait = EvmRpcT | SolanaRpcT | TokenBalancesT | TransferHistoryT | FeeOracleT
  | SimulatorT | BroadcasterT | PriceFeedT | PriceHistoryT | TokenMetadataT | TokenRiskT
  | SwapQuoterT | SanctionsScreenerT | FxRatesT

fun trait_of :: "capability \<Rightarrow> port_trait" where
  "trait_of CapEvmRpc = EvmRpcT"
| "trait_of CapSolanaRpc = SolanaRpcT"
| "trait_of CapTokenBalances = TokenBalancesT"
| "trait_of CapTransferHistory = TransferHistoryT"
| "trait_of CapFeeEstimate = FeeOracleT"
| "trait_of CapSimulate = SimulatorT"
| "trait_of CapBroadcast = BroadcasterT"
| "trait_of CapPrivateRelay = BroadcasterT"
| "trait_of CapPrice = PriceFeedT"
| "trait_of CapPriceHistory = PriceHistoryT"
| "trait_of CapTokenMetadata = TokenMetadataT"
| "trait_of CapTokenRisk = TokenRiskT"
| "trait_of CapSwapQuote = SwapQuoterT"
| "trait_of CapSanctions = SanctionsScreenerT"
| "trait_of CapFx = FxRatesT"

definition extract_port :: "port_trait \<Rightarrow> 'p port_handle \<Rightarrow> 'p option" where
  "extract_port t h = (if trait_of (handle_capability h) = t then Some (handle_port h) else None)"

record ('p, 'q) registration =
  reg_vendor :: vendor_meta
  reg_ports :: "(chain_id option \<times> 'p port_handle) list"
  reg_quota_reporter :: "'q option"

definition new_registration :: "vendor_meta \<Rightarrow> ('p, 'q) registration" where
  "new_registration v = \<lparr>reg_vendor = v, reg_ports = [], reg_quota_reporter = None\<rparr>"

definition chain_port :: "chain_id \<Rightarrow> 'p port_handle \<Rightarrow> ('p, 'q) registration \<Rightarrow> ('p, 'q) registration" where
  "chain_port c h r = r\<lparr>reg_ports := reg_ports r @ [(Some c, h)]\<rparr>"

definition global_port :: "'p port_handle \<Rightarrow> ('p, 'q) registration \<Rightarrow> ('p, 'q) registration" where
  "global_port h r = r\<lparr>reg_ports := reg_ports r @ [(None, h)]\<rparr>"

definition with_quota_reporter :: "'q \<Rightarrow> ('p, 'q) registration \<Rightarrow> ('p, 'q) registration" where
  "with_quota_reporter q r = r\<lparr>reg_quota_reporter := Some q\<rparr>"

lemma cap_as_str_inject: "cap_as_str c = cap_as_str d \<Longrightarrow> c = d"
  by (cases c; cases d; simp)

lemma all_capabilities_complete: "c \<in> set all_capabilities"
  by (cases c) (simp_all add: all_capabilities_def)

lemma cap_from_str_iff: "cap_from_str s = Inr c \<longleftrightarrow> s = cap_as_str c"
proof
  assume "cap_from_str s = Inr c"
  then show "s = cap_as_str c"
    by (auto simp: cap_from_str_def dest: find_SomeD)
next
  assume s: "s = cap_as_str c"
  then have "find (\<lambda>d. cap_as_str d = s) all_capabilities \<noteq> None"
    using all_capabilities_complete [of c] by (auto simp: find_None_iff)
  then obtain d where "find (\<lambda>d. cap_as_str d = s) all_capabilities = Some d" by auto
  with s show "cap_from_str s = Inr c"
    using find_SomeD [of "\<lambda>d. cap_as_str d = s" all_capabilities d] cap_as_str_inject [of d c]
    by (simp add: cap_from_str_def)
qed

end
