(* ===== verification/Config.thy ===== *)
theory Config
  imports Capabilities
begin

text \<open>
  The configuration: its schema (\<open>crates/config/src/settings.rs\<close>), the built-in registry of
  chains and vendors (\<open>crates/config/src/registry.rs\<close>) and what is derived from both
  (\<open>crates/config/src/resolve.rs\<close>, \<open>crates/config/src/redacted.rs\<close>).

  A \<open>BTreeMap\<close> is the list of its entries in key order, a \<open>HashMap\<close> a list of entries whose
  order nothing depends on; both are read with \<open>map_of\<close>. A redacted secret is its text.
\<close>

section \<open>The schema\<close>

datatype mode = SelfHosted | Hosted

record server_settings =
  mode :: mode
  http_bind :: string
  public_bind :: "string option"
  admin_bind :: "string option"
  dashboard :: bool
  tool_profile :: string
  enabled_tools :: "string list"
  disabled_tools :: "string list"
  data_dir :: string
  cache_max_entries :: u64
  quota_poll_secs :: u64
  warmup :: bool

definition default_server :: server_settings where
  "default_server = \<lparr>mode = SelfHosted, http_bind = ''127.0.0.1:8787'', public_bind = None,
     admin_bind = None, dashboard = True, tool_profile = ''all'', enabled_tools = [],
     disabled_tools = [], data_dir = ''./data'', cache_max_entries = 20000,
     quota_poll_secs = 300, warmup = True\<rparr>"

record window_budget =
  rps :: "u64 option"
  per_minute :: "u64 option"
  daily :: "u64 option"
  monthly :: "u64 option"

definition no_budget :: window_budget where
  "no_budget = \<lparr>rps = None, per_minute = None, daily = None, monthly = None\<rparr>"

datatype on_exhausted = Skip | AllowOverage

record vendor_settings =
  vs_enabled :: "bool option"
  vs_limit :: window_budget
  vs_cap :: window_budget
  vs_reserve_pct :: "u8 option"
  vs_on_exhausted :: "on_exhausted option"
  vs_costs :: "(string \<times> u64) list"
  vs_alert_pct :: "u8 list option"

definition default_vendor_settings :: vendor_settings where
  "default_vendor_settings = \<lparr>vs_enabled = None, vs_limit = no_budget, vs_cap = no_budget,
     vs_reserve_pct = None, vs_on_exhausted = None, vs_costs = [], vs_alert_pct = None\<rparr>"

type_synonym order = "string list"

text \<open>Reading an order: the names are trimmed, empty ones dropped, and none left is an error.\<close>

definition order_of_list :: "string list \<Rightarrow> string + order" where
  "order_of_list names = (let l = filter (\<lambda>s. s \<noteq> []) (map trim names) in
     if l = [] then Inl ''vendor order must not be empty'' else Inr l)"

definition order_of_csv :: "string \<Rightarrow> string + order" where
  "order_of_csv s = order_of_list (split_on (CHR '','') s)"

record routing_settings =
  route_defaults :: "(capability \<times> order) list"
  route_chains :: "(string \<times> (capability \<times> order) list) list"

datatype strategy = StratFailover | StratQuorum | StratAggregate | StratFanOut | StratHedged

record operation_settings =
  os_enabled :: "bool option"
  os_strategy :: "strategy option"
  os_quorum :: "u8 option"
  os_fan_out :: "u8 option"
  os_hedge_delay_ms :: "u64 option"
  os_cache_ttl_secs :: "u64 option"
  os_order :: "(capability \<times> order) list"

definition default_operation :: operation_settings where
  "default_operation = \<lparr>os_enabled = None, os_strategy = None, os_quorum = None, os_fan_out = None,
     os_hedge_delay_ms = None, os_cache_ttl_secs = None, os_order = []\<rparr>"

record client_limits =
  requests_per_minute :: "u32 option"
  daily_requests :: "u64 option"
  monthly_credits :: "u64 option"
  limits_profile :: "string option"

definition limits_or :: "client_limits \<Rightarrow> client_limits \<Rightarrow> client_limits" where
  "limits_or l b = \<lparr>requests_per_minute = or_opt (requests_per_minute l) (requests_per_minute b),
     daily_requests = or_opt (daily_requests l) (daily_requests b),
     monthly_credits = or_opt (monthly_credits l) (monthly_credits b),
     limits_profile = or_opt (limits_profile l) (limits_profile b)\<rparr>"

record clients_settings =
  cl_default :: client_limits
  cl_overrides :: "(string \<times> client_limits) list"

definition default_clients :: clients_settings where
  "default_clients = \<lparr>cl_default = \<lparr>requests_per_minute = Some 30, daily_requests = Some 1000,
     monthly_credits = Some 200000, limits_profile = Some ''payments''\<rparr>, cl_overrides = []\<rparr>"

record custom_rpc =
  rpc_chain :: string
  rpc_url_secret :: string

record chain_override =
  co_enabled :: "bool option"
  co_public_rpc :: "string list option"

type_synonym vendor_keys = "(string \<times> string) list"

definition vendor_key :: "vendor_keys \<Rightarrow> string \<Rightarrow> string option" where
  "vendor_key ks field = Option.bind (map_of ks field) (\<lambda>v. if v = [] then None else Some v)"

section \<open>Chains\<close>

record native_info =
  nat_symbol :: string
  nat_decimals :: u8
  nat_slip44 :: u32

record finality_policy =
  fp_policy :: string
  fp_default :: "string option"
  fp_note :: "string option"

record chain_entry =
  ce_id :: chain_id
  ce_name :: string
  ce_aliases :: "string list"
  ce_family :: chain_family
  ce_native :: native_info
  ce_block_time_ms :: u64
  ce_finality :: finality_policy
  ce_multicall3 :: "string option"
  ce_public_rpc :: "string list"
  ce_explorer :: "string option"
  ce_enabled :: bool

record chain_registry =
  cr_chains :: "chain_entry list"
  cr_index :: "(string \<times> nat) list"

definition lower :: "string \<Rightarrow> string" where
  "lower s = map to_lower s"

definition chain_keys :: "chain_entry \<Rightarrow> string list" where
  "chain_keys c = show_chain (ce_id c) # ce_aliases c"

text \<open>The inner loop of \<open>ChainRegistry::new\<close>: every key of chain \<open>i\<close> enters the index once.\<close>

fun index_keys :: "nat \<Rightarrow> string list \<Rightarrow> (string \<times> nat) list \<Rightarrow> string + (string \<times> nat) list" where
  "index_keys i [] ix = Inr ix"
| "index_keys i (k # ks) ix = (if map_of ix (lower k) \<noteq> None
     then Inl (''duplicate chain id/alias '' @ quoted k)
     else index_keys i ks ((lower k, i) # ix))"

fun index_chains :: "nat \<Rightarrow> chain_entry list \<Rightarrow> (string \<times> nat) list \<Rightarrow> string + (string \<times> nat) list" where
  "index_chains i [] ix = Inr ix"
| "index_chains i (c # cs) ix = and_then (index_keys i (chain_keys c) ix) (\<lambda>ix.
     if family (ce_id c) \<noteq> Some (ce_family c)
     then Inl (''chain '' @ show_chain (ce_id c) @ '' family mismatch'')
     else index_chains (Suc i) cs ix)"

definition registry_new :: "chain_entry list \<Rightarrow> string + chain_registry" where
  "registry_new cs = and_then (index_chains 0 cs []) (\<lambda>ix. Inr \<lparr>cr_chains = cs, cr_index = ix\<rparr>)"

definition find_chain :: "chain_registry \<Rightarrow> string \<Rightarrow> chain_entry option" where
  "find_chain r s = Option.bind (map_of (cr_index r) (lower (trim s))) (nth_opt (cr_chains r))"

definition enabled_chains :: "chain_registry \<Rightarrow> chain_entry list" where
  "enabled_chains r = filter ce_enabled (cr_chains r)"

definition enabled_names :: "chain_registry \<Rightarrow> string list" where
  "enabled_names r = map (\<lambda>c. unwrap_or (show_chain (ce_id c)) (hd_opt (ce_aliases c))) (enabled_chains r)"

definition resolve_chain :: "chain_registry \<Rightarrow> string \<Rightarrow> domain_error + chain_entry" where
  "resolve_chain r s = and_then
     (ok_or (with_hint (''supported: '' @ join '', '' (enabled_names r))
        (new_error UnsupportedChain (''unknown chain '' @ quoted s))) (find_chain r s))
     (\<lambda>e. if \<not> ce_enabled e
       then Inl (new_error UnsupportedChain (''chain '' @ show_chain (ce_id e) @ '' is disabled''))
       else Inr e)"

section \<open>Vendors\<close>

datatype reset_rule = CalendarMonth | DailyUtc | Rolling

datatype usage_unit = UnitRequests | UnitCredits

record vendor_entry =
  ve_display_name :: string
  ve_requires_key :: bool
  ve_keys :: "(string \<times> string) list"
  ve_signup_url :: "string option"
  ve_free_tier_verified :: bool
  ve_tier :: "u8 option"
  ve_enabled :: "bool option"
  ve_unit :: usage_unit
  ve_reset :: reset_rule
  ve_limit :: window_budget
  ve_default_cost :: u64
  ve_costs :: "(string \<times> u64) list"
  ve_rpc_features :: rpc_features
  ve_rpc_urls :: "(string \<times> string) list"
  ve_note :: "string option"

record registry =
  reg_chains :: chain_registry
  reg_vendors :: "(string \<times> vendor_entry) list"
  reg_default_order :: "(capability \<times> order) list"
  reg_default_order_chain :: "(chain_id \<times> (capability \<times> order) list) list"

record settings =
  set_server :: server_settings
  set_vendors :: "(string \<times> vendor_settings) list"
  set_keys :: "(string \<times> vendor_keys) list"
  set_routing :: routing_settings
  set_operations :: "(string \<times> operation_settings) list"
  set_clients :: clients_settings
  set_custom_rpc :: "(string \<times> custom_rpc) list"
  set_chain_overrides :: "(string \<times> chain_override) list"
  set_extra_chains :: "chain_entry list"

record loaded =
  settings :: settings
  registry :: registry
  locked :: "(string list \<times> string) list"

definition has_key :: "('a \<times> 'b) list \<Rightarrow> 'a \<Rightarrow> bool" where
  "has_key m k \<longleftrightarrow> map_of m k \<noteq> None"

text \<open>The file of vendors: default orders per chain are keyed by an id or alias there.\<close>

fun canonical_orders :: "chain_registry \<Rightarrow> (string \<times> (capability \<times> order) list) list
    \<Rightarrow> string + (chain_id \<times> (capability \<times> order) list) list" where
  "canonical_orders r [] = Inr []"
| "canonical_orders r ((k, v) # m) =
     and_then (ok_or (''vendors.toml default_order_chain: unknown chain '' @ quoted k) (find_chain r k))
       (\<lambda>c. and_then (canonical_orders r m) (\<lambda>ms.
          Inr (if has_key ms (ce_id c) then ms else (ce_id c, v) # ms)))"

definition registry_parse :: "chain_entry list \<Rightarrow> (string \<times> vendor_entry) list
    \<Rightarrow> (capability \<times> order) list \<Rightarrow> (string \<times> (capability \<times> order) list) list \<Rightarrow> string + registry" where
  "registry_parse cs vs orders chain_orders =
     and_then (registry_new cs) (\<lambda>r.
     and_then (canonical_orders r chain_orders) (\<lambda>co.
       Inr \<lparr>reg_chains = r, reg_vendors = vs, reg_default_order = orders,
         reg_default_order_chain = co\<rparr>))"

text \<open>
  The names in the file of vendors that the program is built with (\<open>registry/vendors.toml\<close>): its vendors,
  and the orders it gives for all chains and for Solana.
\<close>

definition builtin_vendor_ids :: "string list" where
  "builtin_vendor_ids = [
     ''public'', ''rpc'', ''alchemy'', ''quicknode'', ''helius'', ''moralis'', ''ankr'', ''coingecko'',
     ''geckoterminal'', ''defillama'', ''dexscreener'', ''birdeye'', ''jupiter'', ''pyth'', ''goplus'',
     ''honeypot_is'', ''rugcheck'', ''oneinch'', ''velora'', ''cow'', ''zeroex'', ''uniswap_api'', ''okx_dex'',
     ''flashbots'', ''mev_blocker'', ''jito'', ''helius_sender'', ''chainalysis_oracle'', ''trm'',
     ''frankfurter'', ''openexchangerates'']"

definition builtin_orders :: "(capability \<times> order) list" where
  "builtin_orders = [
     (CapEvmRpc, [''alchemy'', ''quicknode'', ''public'']),
     (CapSolanaRpc, [''helius'', ''quicknode'', ''public'']),
     (CapTokenBalances, [''alchemy'', ''moralis'', ''rpc'']),
     (CapTransferHistory, [''alchemy'', ''moralis'', ''rpc'']),
     (CapFeeEstimate, [''rpc'']),
     (CapSimulate, [''rpc'']),
     (CapBroadcast, [''alchemy'', ''quicknode'', ''public'']),
     (CapPrivateRelay, [''flashbots'', ''mev_blocker'']),
     (CapPrice, [''coingecko'', ''defillama'', ''geckoterminal'', ''dexscreener'']),
     (CapPriceHistory, [''coingecko'', ''defillama'', ''pyth'']),
     (CapTokenMetadata, [''rpc'', ''coingecko'']),
     (CapTokenRisk, [''goplus'', ''honeypot_is'', ''rugcheck'']),
     (CapSwapQuote, [''oneinch'', ''velora'', ''cow'']),
     (CapSanctions, [''chainalysis_oracle'', ''trm'']),
     (CapFx, [''frankfurter'', ''openexchangerates''])]"

definition builtin_chain_orders :: "(string \<times> (capability \<times> order) list) list" where
  "builtin_chain_orders = [(''solana:5eykt4UsFv8P8NJdTREpY1vzqKqZKvdp'', [
     (CapTokenBalances, [''helius'', ''rpc'']),
     (CapTransferHistory, [''rpc'']),
     (CapFeeEstimate, [''helius'', ''quicknode'', ''rpc'']),
     (CapBroadcast, [''helius'', ''quicknode'', ''public'']),
     (CapPrivateRelay, [''jito'', ''helius_sender'']),
     (CapPrice, [''jupiter'', ''birdeye'', ''defillama'', ''coingecko'']),
     (CapTokenMetadata, [''rpc'', ''helius'', ''jupiter'']),
     (CapTokenRisk, [''rugcheck'', ''goplus'']),
     (CapSwapQuote, [''jupiter'']),
     (CapSanctions, [''trm''])])]"

end
