(* ===== verification/Resolve.thy ===== *)
theory Resolve
  imports Config
begin

text \<open>
  What routing asks of a loaded configuration (\<open>crates/config/src/resolve.rs\<close>): the order of
  vendors, their status, budgets, costs and URLs, and the scrubbing of secrets
  (\<open>crates/config/src/redacted.rs\<close>).
\<close>

section \<open>Orders\<close>

datatype order_level = LevelOperation | LevelChain | LevelDefault | LevelBuiltIn

record order_resolution =
  order_vendors :: "string list"
  order_level :: order_level

definition custom_rpc_for :: "loaded \<Rightarrow> chain_id \<Rightarrow> string list" where
  "custom_rpc_for l c = map fst (filter (\<lambda>(_, r).
     (case find_chain (reg_chains (registry l)) (rpc_chain r) of None \<Rightarrow> False | Some e \<Rightarrow> ce_id e = c))
     (set_custom_rpc (settings l)))"

definition operation_order :: "loaded \<Rightarrow> capability \<Rightarrow> string option \<Rightarrow> order option" where
  "operation_order l cap op = Option.bind op (\<lambda>o1.
     Option.bind (map_of (set_operations (settings l)) o1) (\<lambda>os. map_of (os_order os) cap))"

definition chain_order :: "loaded \<Rightarrow> capability \<Rightarrow> chain_id \<Rightarrow> order option" where
  "chain_order l cap c = find_map (\<lambda>(k, caps).
     if (case find_chain (reg_chains (registry l)) k of None \<Rightarrow> False | Some e \<Rightarrow> ce_id e = c)
     then map_of caps cap else None)
     (route_chains (set_routing (settings l)))"

definition builtin_order :: "loaded \<Rightarrow> capability \<Rightarrow> chain_id option \<Rightarrow> order" where
  "builtin_order l cap chain = unwrap_or [] (or_opt
     (Option.bind chain (\<lambda>c. Option.bind (map_of (reg_default_order_chain (registry l)) c)
        (\<lambda>m. map_of m cap)))
     (map_of (reg_default_order (registry l)) cap))"

definition resolve_order ::
    "loaded \<Rightarrow> capability \<Rightarrow> chain_id option \<Rightarrow> string option \<Rightarrow> order_resolution" where
  "resolve_order l cap chain op =
     (case operation_order l cap op of
        Some o1 \<Rightarrow> \<lparr>order_vendors = o1, order_level = LevelOperation\<rparr>
      | None \<Rightarrow>
     (case Option.bind chain (chain_order l cap) of
        Some o1 \<Rightarrow> \<lparr>order_vendors = o1, order_level = LevelChain\<rparr>
      | None \<Rightarrow>
     (case map_of (route_defaults (set_routing (settings l))) cap of
        Some o1 \<Rightarrow> \<lparr>order_vendors = o1, order_level = LevelDefault\<rparr>
      | None \<Rightarrow>
          \<lparr>order_vendors = (case chain of
               Some c \<Rightarrow> if cap \<in> {CapEvmRpc, CapSolanaRpc, CapBroadcast} then custom_rpc_for l c else []
             | None \<Rightarrow> []) @ builtin_order l cap chain,
           order_level = LevelBuiltIn\<rparr>)))"

section \<open>Vendor status\<close>

datatype vendor_status = Active | Disabled bool | MissingKey "string list" | UnknownVendor

definition key :: "loaded \<Rightarrow> string \<Rightarrow> string \<Rightarrow> string option" where
  "key l vendor field = Option.bind (map_of (set_keys (settings l)) vendor) (\<lambda>ks. vendor_key ks field)"

definition missing_keys :: "loaded \<Rightarrow> string \<Rightarrow> vendor_entry \<Rightarrow> string list" where
  "missing_keys l vendor e = map snd (filter (\<lambda>(field, _). key l vendor field = None) (ve_keys e))"

definition vendor_enabled :: "loaded \<Rightarrow> string \<Rightarrow> vendor_entry \<Rightarrow> bool" where
  "vendor_enabled l vendor e = unwrap_or (ve_free_tier_verified e)
     (or_opt (Option.bind (map_of (set_vendors (settings l)) vendor) vs_enabled) (ve_enabled e))"

definition vendor_status :: "loaded \<Rightarrow> string \<Rightarrow> vendor_status" where
  "vendor_status l vendor =
     (if vendor = ''rpc'' \<or> has_key (set_custom_rpc (settings l)) vendor then Active
      else case map_of (reg_vendors (registry l)) vendor of
          None \<Rightarrow> UnknownVendor
        | Some e \<Rightarrow>
            if \<not> vendor_enabled l vendor e then Disabled (\<not> ve_free_tier_verified e)
            else if ve_requires_key e \<and> missing_keys l vendor e \<noteq> []
            then MissingKey (missing_keys l vendor e)
            else Active)"

definition vendor_meta_of :: "loaded \<Rightarrow> string \<Rightarrow> vendor_meta" where
  "vendor_meta_of l vendor =
     (let e = map_of (reg_vendors (registry l)) vendor in
      \<lparr>vendor_id = vendor,
       display_name = (case e of None \<Rightarrow> vendor | Some e \<Rightarrow> ve_display_name e),
       meta_requires_key = (case e of None \<Rightarrow> False | Some e \<Rightarrow> ve_requires_key e),
       meta_signup_url = Option.bind e ve_signup_url,
       meta_rpc_features = (case e of
            None \<Rightarrow> \<lparr>get_logs_max_range = None, simulate_v1 = False, debug_trace = False\<rparr>
          | Some e \<Rightarrow> ve_rpc_features e)\<rparr>)"

section \<open>Budgets and costs\<close>

record effective_budget =
  eb_unit :: usage_unit
  eb_reset :: reset_rule
  eb_limit :: window_budget
  eb_cap :: window_budget
  eb_reserve_pct :: u8
  eb_on_exhausted :: on_exhausted
  effective :: window_budget
  eb_alert_pct :: "u8 list"

definition overlay :: "window_budget \<Rightarrow> window_budget \<Rightarrow> window_budget" where
  "overlay base over = \<lparr>rps = or_opt (rps over) (rps base),
     per_minute = or_opt (per_minute over) (per_minute base),
     daily = or_opt (daily over) (daily base), monthly = or_opt (monthly over) (monthly base)\<rparr>"

definition min_opt :: "u64 option \<Rightarrow> u64 option \<Rightarrow> u64 option" where
  "min_opt a b = (case (a, b) of
       (None, _) \<Rightarrow> b | (_, None) \<Rightarrow> a | (Some x, Some y) \<Rightarrow> Some (min x y))"

definition keep :: "u8 \<Rightarrow> u64 option \<Rightarrow> u64 option" where
  "keep reserve v = map_option (\<lambda>v. sat_mul v (100 - ucast reserve) div 100) v"

definition settings_of_vendor :: "loaded \<Rightarrow> string \<Rightarrow> vendor_settings" where
  "settings_of_vendor l vendor =
     unwrap_or default_vendor_settings (map_of (set_vendors (settings l)) vendor)"

definition effective_budget_of :: "loaded \<Rightarrow> string \<Rightarrow> effective_budget option" where
  "effective_budget_of l vendor = map_option (\<lambda>e.
     let vs = settings_of_vendor l vendor;
         lim = overlay (ve_limit e) (vs_limit vs);
         r = unwrap_or 10 (vs_reserve_pct vs)
     in \<lparr>eb_unit = ve_unit e, eb_reset = ve_reset e, eb_limit = lim, eb_cap = vs_cap vs,
         eb_reserve_pct = r, eb_on_exhausted = unwrap_or Skip (vs_on_exhausted vs),
         effective = \<lparr>rps = min_opt (rps (vs_cap vs)) (rps lim),
           per_minute = min_opt (per_minute (vs_cap vs)) (per_minute lim),
           daily = min_opt (daily (vs_cap vs)) (keep r (daily lim)),
           monthly = min_opt (monthly (vs_cap vs)) (keep r (monthly lim))\<rparr>,
         eb_alert_pct = unwrap_or [75, 90] (vs_alert_pct vs)\<rparr>)
     (map_of (reg_vendors (registry l)) vendor)"

definition cost :: "loaded \<Rightarrow> string \<Rightarrow> string \<Rightarrow> u64" where
  "cost l vendor meth =
     (case Option.bind (map_of (set_vendors (settings l)) vendor) (\<lambda>v. map_of (vs_costs v) meth) of
        Some c \<Rightarrow> c
      | None \<Rightarrow> (case map_of (reg_vendors (registry l)) vendor of
            None \<Rightarrow> 1
          | Some e \<Rightarrow> unwrap_or (ve_default_cost e) (map_of (ve_costs e) meth)))"

definition operation :: "loaded \<Rightarrow> string \<Rightarrow> operation_settings" where
  "operation l op = unwrap_or default_operation (map_of (set_operations (settings l)) op)"

definition limits_of_client :: "loaded \<Rightarrow> string \<Rightarrow> client_limits" where
  "limits_of_client l client =
     (let d = cl_default (set_clients (settings l)) in
      case map_of (cl_overrides (set_clients (settings l))) client of
        None \<Rightarrow> d | Some o1 \<Rightarrow> limits_or o1 d)"

section \<open>URLs\<close>

definition public_rpc_urls :: "loaded \<Rightarrow> chain_id \<Rightarrow> string list" where
  "public_rpc_urls l c = (case find_chain (reg_chains (registry l)) (show_chain c) of
     None \<Rightarrow> [] | Some e \<Rightarrow> ce_public_rpc e)"

text \<open>
  The loop that fills a template: the outer option is \<open>None\<close> when the loop does not end, the
  inner one when a brace is not closed or a key is missing.
\<close>

partial_function (option) fill_template ::
    "(string \<Rightarrow> string option) \<Rightarrow> string \<Rightarrow> string option option" where
  "fill_template keys url =
     (case split_once (CHR ''{'') url of
        None \<Rightarrow> Some (Some url)
      | Some (front, rest) \<Rightarrow> (case split_once (CHR ''}'') rest of
          None \<Rightarrow> Some None
        | Some (field, tail) \<Rightarrow> (case keys field of
            None \<Rightarrow> Some None
          | Some v \<Rightarrow> fill_template keys (front @ v @ tail))))"

definition rpc_url :: "loaded \<Rightarrow> string \<Rightarrow> chain_id \<Rightarrow> string option option" where
  "rpc_url l vendor c =
     (case map_of (set_custom_rpc (settings l)) vendor of
        Some r \<Rightarrow> Some (case find_chain (reg_chains (registry l)) (rpc_chain r) of
            None \<Rightarrow> None
          | Some e \<Rightarrow> if ce_id e = c then Some (rpc_url_secret r) else None)
      | None \<Rightarrow>
          if vendor = ''public'' then Some (hd_opt (public_rpc_urls l c))
          else case Option.bind (map_of (reg_vendors (registry l)) vendor)
                 (\<lambda>e. map_of (ve_rpc_urls e) (show_chain c)) of
              None \<Rightarrow> Some None
            | Some template \<Rightarrow> fill_template (key l vendor) template)"

section \<open>Scrubbing\<close>

text \<open>\<open>str::replace\<close> for a non-empty pattern: leftmost matches, not overlapping.\<close>

function replace_all :: "string \<Rightarrow> string \<Rightarrow> string \<Rightarrow> string" where
  "replace_all p r s =
     (if p = [] \<or> s = [] then s
      else if starts_with p s then r @ replace_all p r (drop (length p) s)
      else hd s # replace_all p r (tl s))"
  by pat_completeness auto
termination
  by (relation "measure (\<lambda>(p, r, s). length s)") auto

declare replace_all.simps [simp del]

definition scrub_text :: "string \<Rightarrow> string list \<Rightarrow> string" where
  "scrub_text text secrets =
     foldl (\<lambda>acc s. replace_all s ''***'' acc) text (filter (\<lambda>s. 6 \<le> length s) secrets)"

definition secret_values :: "loaded \<Rightarrow> string list" where
  "secret_values l = filter (\<lambda>s. s \<noteq> [])
     (concat (map (\<lambda>(_, ks). map snd ks) (set_keys (settings l)))
      @ map (\<lambda>(_, c). rpc_url_secret c) (set_custom_rpc (settings l)))"

definition scrub :: "loaded \<Rightarrow> string \<Rightarrow> string" where
  "scrub l text = scrub_text text (secret_values l)"

section \<open>Properties\<close>

lemma min_opt_le:
  "min_opt a b = Some m \<Longrightarrow> a = Some x \<Longrightarrow> m \<le> x"
  "min_opt a b = Some m \<Longrightarrow> b = Some y \<Longrightarrow> m \<le> y"
  by (auto simp: min_opt_def split: option.splits)

lemma min_opt_None [simp]: "min_opt a b = None \<longleftrightarrow> a = None \<and> b = None"
  by (auto simp: min_opt_def split: option.splits)

lemma unat_reserve: "unat (r :: u8) \<le> 100 \<Longrightarrow> unat (100 - ucast r :: u64) = 100 - unat r"
proof -
  assume r: "unat r \<le> 100"
  have "unat (ucast r :: u64) = unat r"
    by (simp add: unsigned_ucast_eq take_bit_nat_eq_self_iff) (use r in simp)
  with r have "ucast r \<le> (100 :: u64)" by (simp add: word_le_nat_alt)
  with \<open>unat (ucast r :: u64) = unat r\<close> show ?thesis by (simp add: unat_sub)
qed

text \<open>What is kept of a limit, in natural numbers.\<close>

lemma keep_value:
  assumes "unat r \<le> 100" and "keep r v = Some k" and "v = Some x"
  shows "unat k = min (unat x * (100 - unat r)) (2 ^ 64 - 1) div 100"
    and "unat k * 100 \<le> unat x * (100 - unat r)"
proof -
  have "k = sat_mul x (100 - ucast r) div 100"
    using assms(2,3) by (simp add: keep_def)
  then show eq: "unat k = min (unat x * (100 - unat r)) (2 ^ 64 - 1) div 100"
    using assms(1) by (simp add: unat_div unat_sat_mul unat_reserve)
  have "unat k * 100 \<le> min (unat x * (100 - unat r)) (2 ^ 64 - 1)"
    unfolding eq by (rule div_times_less_eq_dividend)
  then show "unat k * 100 \<le> unat x * (100 - unat r)" by simp
qed

lemma keep_None [simp]: "keep r v = None \<longleftrightarrow> v = None"
  by (simp add: keep_def)

definition within :: "u64 option \<Rightarrow> u64 option \<Rightarrow> bool" where
  "within a bound = (case bound of None \<Rightarrow> True
     | Some y \<Rightarrow> (case a of None \<Rightarrow> False | Some x \<Rightarrow> x \<le> y))"

lemma min_opt_within: "within (min_opt a b) a" "within (min_opt a b) b"
  by (auto simp: within_def min_opt_def split: option.splits)

lemma min_opt_keep_within:
  assumes "unat r \<le> 100" and "v = Some x" and "min_opt a (keep r v) = Some m"
  shows "unat m * 100 \<le> unat x * (100 - unat r)"
proof -
  obtain k where k: "keep r v = Some k" using assms(2) by (simp add: keep_def)
  have "m \<le> k" by (rule min_opt_le(2) [OF assms(3) k])
  then have "unat m * 100 \<le> unat k * 100" by (simp add: word_le_nat_alt)
  also have "\<dots> \<le> unat x * (100 - unat r)" by (rule keep_value(2) [OF assms(1) k assms(2)])
  finally show ?thesis .
qed

text \<open>
  The budget that routing enforces never exceeds what the operator or the vendor allows: every
  window stays within the operator's cap, the rate windows within the vendor's limit, and the
  daily and monthly windows within the limit less its reserve. A window with a cap or a limit is
  always enforced.
\<close>

theorem effective_budget_within:
  assumes "effective_budget_of l vendor = Some b" and "unat (eb_reserve_pct b) \<le> 100"
  shows "within (rps (effective b)) (rps (eb_cap b)) \<and> within (rps (effective b)) (rps (eb_limit b))
    \<and> within (per_minute (effective b)) (per_minute (eb_cap b))
    \<and> within (per_minute (effective b)) (per_minute (eb_limit b))
    \<and> within (daily (effective b)) (daily (eb_cap b))
    \<and> within (monthly (effective b)) (monthly (eb_cap b))
    \<and> (\<forall>x. daily (eb_limit b) = Some x \<longrightarrow>
        (\<exists>m. daily (effective b) = Some m \<and> unat m * 100 \<le> unat x * (100 - unat (eb_reserve_pct b))))
    \<and> (\<forall>x. monthly (eb_limit b) = Some x \<longrightarrow>
        (\<exists>m. monthly (effective b) = Some m \<and> unat m * 100 \<le> unat x * (100 - unat (eb_reserve_pct b))))"
proof -
  have eff: "rps (effective b) = min_opt (rps (eb_cap b)) (rps (eb_limit b))"
      "per_minute (effective b) = min_opt (per_minute (eb_cap b)) (per_minute (eb_limit b))"
      "daily (effective b) = min_opt (daily (eb_cap b)) (keep (eb_reserve_pct b) (daily (eb_limit b)))"
      "monthly (effective b) = min_opt (monthly (eb_cap b)) (keep (eb_reserve_pct b) (monthly (eb_limit b)))"
    using assms(1) by (auto simp: effective_budget_of_def Let_def)
  have reserve: "\<exists>m. min_opt c (keep (eb_reserve_pct b) v) = Some m
      \<and> unat m * 100 \<le> unat x * (100 - unat (eb_reserve_pct b))" if "v = Some x" for c v x
  proof -
    have "min_opt c (keep (eb_reserve_pct b) v) \<noteq> None" using that by simp
    then obtain m where "min_opt c (keep (eb_reserve_pct b) v) = Some m" by blast
    with min_opt_keep_within [OF assms(2) that this] show ?thesis by blast
  qed
  show ?thesis
    unfolding eff using min_opt_within reserve by auto
qed

section \<open>Filling a template\<close>

text \<open>The number of braces opened decreases when no key value contains one.\<close>

lemma fill_template_ends:
  assumes "\<And>f v. keys f = Some v \<Longrightarrow> CHR ''{'' \<notin> set v"
  shows "\<exists>r. fill_template keys url = Some r \<and> (\<forall>u. r = Some u \<longrightarrow> CHR ''{'' \<notin> set u)"
proof (induction "count_list url (CHR ''{'')" arbitrary: url rule: less_induct)
  case less
  show ?case
  proof (cases "split_once (CHR ''{'') url")
    case None
    then show ?thesis
      using split_once_None [THEN iffD1, OF None] by (simp add: fill_template.simps)
  next
    case (Some p)
    then obtain front rest where p: "split_once (CHR ''{'') url = Some (front, rest)" by (cases p) auto
    then have url: "url = front @ CHR ''{'' # rest" by (simp add: split_once_Some)
    show ?thesis
    proof (cases "split_once (CHR ''}'') rest")
      case None
      with p show ?thesis by (simp add: fill_template.simps)
    next
      case (Some q)
      then obtain field tail where q: "split_once (CHR ''}'') rest = Some (field, tail)" by (cases q) auto
      then have rest: "rest = field @ CHR ''}'' # tail" by (simp add: split_once_Some)
      show ?thesis
      proof (cases "keys field")
        case None
        with p q show ?thesis by (simp add: fill_template.simps)
      next
        case (Some v)
        have "count_list v (CHR ''{'') = 0"
          using assms [OF Some] by (simp add: count_list_0_iff)
        then have "count_list (front @ v @ tail) (CHR ''{'') < count_list url (CHR ''{'')"
          by (simp add: url rest)
        from less [OF this] show ?thesis
          using p q Some by (simp add: fill_template.simps [of keys url])
      qed
    qed
  qed
qed


lemma fill_template_loops:
  "fill_template keys url = Some r \<Longrightarrow> keys field = Some (front @ CHR ''{'' # field @ CHR ''}'' # aft)
    \<Longrightarrow> CHR ''{'' \<notin> set front \<Longrightarrow> CHR ''}'' \<notin> set field \<Longrightarrow> CHR ''{'' \<notin> set pre
    \<Longrightarrow> url = pre @ CHR ''{'' # field @ CHR ''}'' # post \<Longrightarrow> False"
proof (induction keys url r arbitrary: pre post
    rule: fill_template.raw_induct [rotated, consumes 1, case_names step])
  case (step f keys url r)
  have "split_once (CHR ''{'') url = Some (pre, field @ CHR ''}'' # post)"
    "split_once (CHR ''}'') (field @ CHR ''}'' # post) = Some (field, post)"
    using step.prems by (simp_all add: split_once_append)
  with step have "f keys (pre @ (front @ CHR ''{'' # field @ CHR ''}'' # aft) @ post) = Some r"
    by simp
  from step.IH [OF this, of "pre @ front" "aft @ post"] step.prems show False by simp
qed

lemma fill_template_diverges:
  "fill_template (\<lambda>_. Some ''{api_key}'') ''https://node/{api_key}'' = None"
proof (rule ccontr)
  assume "\<not> ?thesis"
  then obtain r where r: "fill_template (\<lambda>_. Some ''{api_key}'') ''https://node/{api_key}'' = Some r"
    by (simp only: not_None_eq) blast
  show False
    by (rule fill_template_loops [OF r, where field = "''api_key''" and front = "[]" and aft = "[]"
          and pre = "''https://node/''" and post = "[]"]) simp_all
qed

text \<open>
  C29: as long as no key contains an opening brace, building an RPC URL always ends, and a URL
  built from a vendor's template has no placeholder left: either every key was there or there is
  no URL.
\<close>

theorem rpc_url_total:
  assumes "\<forall>field v. key l vendor field = Some v \<longrightarrow> CHR ''{'' \<notin> set v"
  shows "\<exists>r. rpc_url l vendor c = Some r
    \<and> (\<forall>u. r = Some u \<longrightarrow> map_of (set_custom_rpc (settings l)) vendor = None \<longrightarrow> vendor \<noteq> ''public''
        \<longrightarrow> CHR ''{'' \<notin> set u)"
proof -
  have "\<exists>r. fill_template (key l vendor) t = Some r \<and> (\<forall>u. r = Some u \<longrightarrow> CHR ''{'' \<notin> set u)" for t
    by (rule fill_template_ends) (use assms in blast)
  then show ?thesis
    by (auto simp: rpc_url_def split: option.splits)
qed

section \<open>Scrubbing\<close>

definition star_free :: "string \<Rightarrow> bool" where
  "star_free s \<longleftrightarrow> CHR ''*'' \<notin> set s"

lemma starts_with_Cons: "starts_with (p # ps) (c # s) \<longleftrightarrow> p = c \<and> starts_with ps s"
  by (auto simp: starts_with_def)

lemma starts_with_Nil [simp]: "starts_with [] s" "starts_with p [] \<longleftrightarrow> p = []"
  by (auto simp: starts_with_def)

lemma contains_iff: "contains p s \<longleftrightarrow> (\<exists>a b. s = a @ p @ b)"
proof (induction s)
  case (Cons c s)
  have "starts_with p (c # s) \<longleftrightarrow> (\<exists>b. c # s = p @ b)"
    by (metis append_eq_conv_conj append_take_drop_id starts_with_def)
  with Cons show ?case
    by (auto simp: Cons_eq_append_conv)
qed simp

lemma contains_append2: "contains q t \<Longrightarrow> contains q (s @ t)"
  by (metis append.assoc contains_iff)

lemma star_free_after: "q \<noteq> [] \<Longrightarrow> star_free q \<Longrightarrow> contains q (''***'' @ s) \<Longrightarrow> contains q s"
  by (cases q) (auto simp: star_free_def starts_with_Cons)

lemma replace_all_trivial [simp]: "replace_all [] r s = s" "replace_all p r [] = []"
  by (simp_all add: replace_all.simps)

lemma replace_all_match:
  "p \<noteq> [] \<Longrightarrow> s \<noteq> [] \<Longrightarrow> starts_with p s \<Longrightarrow> replace_all p r s = r @ replace_all p r (drop (length p) s)"
  by (simp add: replace_all.simps [of p r s])

lemma replace_all_miss:
  "p \<noteq> [] \<Longrightarrow> \<not> starts_with p (c # t) \<Longrightarrow> replace_all p r (c # t) = c # replace_all p r t"
  by (simp add: replace_all.simps [of p r "c # t"])

text \<open>One step of the loop at a time: the text is empty, starts with the pattern, or does not.\<close>

lemma replace_all_cases [case_names trivial match miss]:
  assumes "p = [] \<or> s = [] \<Longrightarrow> Q"
    and "p \<noteq> [] \<Longrightarrow> s \<noteq> [] \<Longrightarrow> starts_with p s \<Longrightarrow> Q"
    and "\<And>c t. p \<noteq> [] \<Longrightarrow> s = c # t \<Longrightarrow> \<not> starts_with p (c # t) \<Longrightarrow> Q"
  shows Q
  using assms by (cases s) auto

lemma starts_with_replaced:
  "star_free q \<Longrightarrow> starts_with q (replace_all p ''***'' s) \<Longrightarrow> starts_with q s"
proof (induction s arbitrary: q)
  case (Cons c t)
  show ?case
  proof (cases q)
    case q: (Cons d q')
    show ?thesis
    proof (cases p "c # t" rule: replace_all_cases)
      case match
      with Cons.prems q show ?thesis
        by (simp add: replace_all_match starts_with_Cons star_free_def)
    next
      case miss
      with Cons q show ?thesis
        by (auto simp: replace_all_miss starts_with_Cons star_free_def)
    qed (use Cons in auto)
  qed simp
qed simp

lemma contains_drop: "contains q (drop n s) \<Longrightarrow> contains q s"
  by (metis append_take_drop_id contains_append2)

lemma contains_replaced:
  "q \<noteq> [] \<Longrightarrow> star_free q \<Longrightarrow> contains q (replace_all p ''***'' s) \<Longrightarrow> contains q s"
proof (induction "length s" arbitrary: s rule: less_induct)
  case less
  show ?case
  proof (cases p s rule: replace_all_cases)
    case match
    then have "replace_all p ''***'' s = ''***'' @ replace_all p ''***'' (drop (length p) s)"
      by (rule replace_all_match)
    with less.prems star_free_after have "contains q (replace_all p ''***'' (drop (length p) s))"
      by metis
    with less.hyps [of "drop (length p) s"] less.prems match show ?thesis
      using contains_drop by simp
  next
    case (miss c t)
    with less.prems have "starts_with q (replace_all p ''***'' s) \<or> contains q (replace_all p ''***'' t)"
      by (simp add: replace_all_miss)
    with less.hyps [of t] less.prems miss starts_with_replaced show ?thesis by auto
  qed (use less in auto)
qed

lemma replaced_absent: "p \<noteq> [] \<Longrightarrow> star_free p \<Longrightarrow> \<not> contains p (replace_all p ''***'' s)"
proof (induction "length s" arbitrary: s rule: less_induct)
  case less
  show ?case
  proof (cases p s rule: replace_all_cases)
    case match
    then have "replace_all p ''***'' s = ''***'' @ replace_all p ''***'' (drop (length p) s)"
      by (rule replace_all_match)
    moreover have "\<not> contains p (replace_all p ''***'' (drop (length p) s))"
      using less match by simp
    ultimately show ?thesis using star_free_after less.prems by metis
  next
    case (miss c t)
    with less.prems have "\<not> starts_with p (replace_all p ''***'' s)"
      using starts_with_replaced by blast
    with less.hyps [of t] less.prems miss show ?thesis
      by (simp add: replace_all_miss)
  qed (use less.prems in auto)
qed

lemma foldl_replace_absent:
  assumes "list_all (\<lambda>s. s \<noteq> [] \<and> star_free s) ss" and "q \<noteq> []" and "star_free q"
    and "q \<in> set ss \<or> \<not> contains q acc"
  shows "\<not> contains q (foldl (\<lambda>acc s. replace_all s ''***'' acc) acc ss)"
  using assms
proof (induction ss arbitrary: acc)
  case (Cons s ss)
  have "\<not> contains q (replace_all s ''***'' acc)" if "q = s \<or> \<not> contains q acc"
    using that Cons.prems contains_replaced replaced_absent by blast
  with Cons show ?case by (cases "q \<in> set ss") auto
qed simp

text \<open>
  After scrubbing, no secret of at least six bytes occurs in the text, provided the secrets
  themselves contain no asterisk: replacing one secret can neither leave nor create another.
\<close>

theorem scrub_hides_secrets:
  assumes "list_all star_free (secret_values l)" and "s \<in> set (secret_values l)" and "6 \<le> length s"
  shows "\<not> contains s (scrub l text)"
  unfolding scrub_def scrub_text_def
  by (rule foldl_replace_absent) (use assms in \<open>auto simp: list_all_iff\<close>)

text \<open>
  The secrets are replaced one after the other, so a secret that is the beginning of another one
  leaves the rest of the longer one in the text.
\<close>

lemma scrub_leaves_rest:
  "scrub_text ''url?key=abcdefXYZ123'' [''abcdef'', ''abcdefXYZ123''] = ''url?key=***XYZ123''"
  by code_simp

end
