(* ===== verification/Json.thy ===== *)
theory Json
  imports Complex_Main Prelude
begin

text \<open>
  JSON values as the readers see them (\<open>serde_json::Value\<close>): indexing a missing key or position
  gives null, and the typed views are options. Also \<open>BTreeMap\<close>, as the list of its entries in
  key order.
\<close>

section \<open>Values\<close>

datatype json = JNull | JBool bool | JInt int | JReal rat | JStr string | JArr "json list"
  | JObj "(string \<times> json) list"

fun jget :: "json \<Rightarrow> string \<Rightarrow> json" where
  "jget (JObj m) k = (case map_of m k of None \<Rightarrow> JNull | Some v \<Rightarrow> v)"
| "jget _ k = JNull"

fun elements :: "json \<Rightarrow> json list" where
  "elements (JArr xs) = xs"
| "elements _ = []"

definition jat :: "json \<Rightarrow> nat \<Rightarrow> json" where
  "jat v i = (if i < length (elements v) then elements v ! i else JNull)"

fun as_str :: "json \<Rightarrow> string option" where
  "as_str (JStr s) = Some s"
| "as_str _ = None"

fun as_u64 :: "json \<Rightarrow> u64 option" where
  "as_u64 (JInt n) = (if 0 \<le> n \<and> n < 2 ^ 64 then Some (of_int n) else None)"
| "as_u64 _ = None"

fun as_i64 :: "json \<Rightarrow> int option" where
  "as_i64 (JInt n) = (if - (2 ^ 63) \<le> n \<and> n < 2 ^ 63 then Some n else None)"
| "as_i64 _ = None"

fun as_bool :: "json \<Rightarrow> bool option" where
  "as_bool (JBool b) = Some b"
| "as_bool _ = None"

definition is_null :: "json \<Rightarrow> bool" where
  "is_null v \<longleftrightarrow> v = JNull"

definition narrow_u8 :: "u64 \<Rightarrow> u8 option" where
  "narrow_u8 n = (if n < 256 then Some (ucast n) else None)"

section \<open>Ordered maps\<close>

text \<open>\<open>entry(k)\<close> and then a change of the value, which starts out as \<open>d\<close>.\<close>

fun bt_alter :: "'v \<Rightarrow> 'k::linorder \<Rightarrow> ('v \<Rightarrow> 'v) \<Rightarrow> ('k \<times> 'v) list \<Rightarrow> ('k \<times> 'v) list" where
  "bt_alter d k f [] = [(k, f d)]"
| "bt_alter d k f ((a, v) # m) =
     (if k < a then (k, f d) # (a, v) # m
      else if k = a then (a, f v) # m
      else (a, v) # bt_alter d k f m)"

definition key_sorted :: "('k::linorder \<times> 'v) list \<Rightarrow> bool" where
  "key_sorted m \<longleftrightarrow> sorted_wrt (<) (map fst m)"

lemma set_bt_alter_keys: "fst ` set (bt_alter d k f m) = insert k (fst ` set m)"
  by (induction d k f m rule: bt_alter.induct) auto

lemma key_sorted_alter [simp]: "key_sorted m \<Longrightarrow> key_sorted (bt_alter d k f m)"
proof (induction d k f m rule: bt_alter.induct)
  case (2 d k f a v m)
  have "\<forall>x \<in> fst ` set (bt_alter d k f m). a < x" if "a < k"
    using that "2.prems" set_bt_alter_keys [of d k f m] by (auto simp: key_sorted_def)
  with 2 show ?case by (auto simp: key_sorted_def)
qed (simp add: key_sorted_def)

lemma key_sorted_Nil [simp]: "key_sorted []"
  by (simp add: key_sorted_def)

lemma map_of_alter:
  "key_sorted m \<Longrightarrow> map_of (bt_alter d k f m) x
     = (if x = k then Some (f (case map_of m k of None \<Rightarrow> d | Some v \<Rightarrow> v)) else map_of m x)"
proof (induction d k f m rule: bt_alter.induct)
  case (2 d k f a v m)
  have "map_of m k = None" if "k < a"
    using that "2.prems" by (force simp: key_sorted_def map_of_eq_None_iff)
  with 2 show ?case by (auto simp: key_sorted_def)
qed simp

lemma key_sorted_distinct: "key_sorted m \<Longrightarrow> distinct (map fst m)"
  by (induction m) (auto simp: key_sorted_def)

end
