(* ===== verification/ConfigLoader.thy ===== *)
theory ConfigLoader
  imports Resolve Json "HOL-Library.AList"
begin

text \<open>
  Loading a configuration (\<open>crates/config/src/loader.rs\<close>): the environment layer, the chains
  added or changed by the settings, and validation. Merging the layers and decoding them into
  settings is done by a library and starts after the environment layer; reading files is I/O.
  Whether a text is a socket address is the parameter \<open>is_addr\<close>.
\<close>

section \<open>Issues\<close>

datatype issue_severity = IssueError | IssueWarning

record issue =
  issue_severity :: issue_severity
  issue_path :: string
  issue_message :: string

definition issue_error :: "string \<Rightarrow> string \<Rightarrow> issue" where
  "issue_error p m = \<lparr>issue_severity = IssueError, issue_path = p, issue_message = m\<rparr>"

definition issue_warning :: "string \<Rightarrow> string \<Rightarrow> issue" where
  "issue_warning p m = \<lparr>issue_severity = IssueWarning, issue_path = p, issue_message = m\<rparr>"

lemma issue_simps [simp]:
  "issue_severity (issue_error p m) = IssueError" "issue_severity (issue_warning p m) = IssueWarning"
  by (simp_all add: issue_error_def issue_warning_def)

section \<open>The environment layer\<close>

definition env_get :: "(string \<times> string) list \<Rightarrow> string \<Rightarrow> string option" where
  "env_get env k = Option.bind (map_of env k) (\<lambda>v. if trim v = [] then None else Some v)"

definition typed_value :: "string \<Rightarrow> json" where
  "typed_value s = (let t = trim s in
     if t = ''true'' then JBool True
     else if t = ''false'' then JBool False
     else (case parse_uint 64 t of Some n \<Rightarrow> JInt (int n) | None \<Rightarrow> JStr t))"

definition object_of :: "json option \<Rightarrow> (string \<times> json) list" where
  "object_of j = (case j of Some (JObj m) \<Rightarrow> m | _ \<Rightarrow> [])"

fun insert_path :: "(string \<times> json) list \<Rightarrow> string list \<Rightarrow> json \<Rightarrow> (string \<times> json) list" where
  "insert_path m [] v = m"
| "insert_path m [k] v = AList.update k v m"
| "insert_path m (k # p) v = AList.update k (JObj (insert_path (object_of (map_of m k)) p v)) m"

fun get_path :: "(string \<times> json) list \<Rightarrow> string list \<Rightarrow> json option" where
  "get_path m [] = Some (JObj m)"
| "get_path m [k] = map_of m k"
| "get_path m (k # p) = (case map_of m k of Some (JObj o1) \<Rightarrow> get_path o1 p | _ \<Rightarrow> None)"

text \<open>\<open>str::split("__")\<close>.\<close>

fun split_segments :: "string \<Rightarrow> string list" where
  "split_segments (c # d # s) = (if c = CHR ''_'' \<and> d = CHR ''_'' then [] # split_segments s
     else (case split_segments (d # s) of [] \<Rightarrow> [[c]] | w # ws \<Rightarrow> (c # w) # ws))"
| "split_segments s = [s]"

record env_state =
  env_root :: "(string \<times> json) list"
  env_locked :: "(string list \<times> string) list"
  env_issues :: "issue list"
  legacy_used :: bool

definition env_var :: "string \<Rightarrow> string \<times> string \<Rightarrow> env_state \<Rightarrow> env_state" where
  "env_var prefix = (\<lambda>(var, raw) st.
     case strip_prefix prefix var of
       None \<Rightarrow> st
     | Some rest \<Rightarrow>
         let path = map lower (split_segments rest) in
         if [] \<in> set path
         then st\<lparr>env_issues := env_issues st @ [issue_warning var ''ignored: empty path segment'']\<rparr>
         else st\<lparr>legacy_used := (legacy_used st \<or> prefix = ''BDM__''),
            env_root := insert_path (env_root st) path (typed_value raw),
            env_locked := AList.update path var (env_locked st)\<rparr>)"

definition env_key :: "(string \<times> string) list \<Rightarrow> string \<Rightarrow> string \<times> string \<Rightarrow> env_state \<Rightarrow> env_state" where
  "env_key env vendor = (\<lambda>(field, var) st.
     case env_get env var of
       None \<Rightarrow> st
     | Some v \<Rightarrow> st\<lparr>env_root := insert_path (env_root st) [''keys'', vendor, field] (JStr v),
         env_locked := AList.update [''keys'', vendor, field] var (env_locked st)\<rparr>)"

definition env_rpc_url :: "(string \<times> string) list \<Rightarrow> env_state \<Rightarrow> env_state" where
  "env_rpc_url env st = (case env_get env ''RPC_URL'' of
       None \<Rightarrow> st
     | Some url \<Rightarrow> st\<lparr>
         env_issues := env_issues st @ [issue_warning ''RPC_URL''
           ''deprecated: RPC_URL now applies to Ethereum (eip155:1) only; use [custom_rpc] or vendor keys''],
         env_root := insert_path (env_root st) [''custom_rpc'', ''rpc_url'']
           (JObj [(''chain'', JStr ''eip155:1''), (''url'', JStr url)]),
         env_locked := AList.update [''custom_rpc'', ''rpc_url''] ''RPC_URL'' (env_locked st)\<rparr>)"

definition env_layer ::
    "(string \<times> vendor_entry) list \<Rightarrow> (string \<times> string) list \<Rightarrow> env_state" where
  "env_layer vendors env =
     (let st0 = \<lparr>env_root = [], env_locked = [], env_issues = [], legacy_used = False\<rparr>;
          st1 = fold (env_var ''ODM__'') env (fold (env_var ''BDM__'') env st0);
          st2 = (if legacy_used st1
                 then st1\<lparr>env_issues := env_issues st1 @ [issue_warning ''BDM__''
                   ''environment variables with prefix BDM__ are deprecated; rename them to ODM__'']\<rparr>
                 else st1);
          st3 = fold (\<lambda>(vendor, e). fold (env_key env vendor) (ve_keys e)) vendors st2
      in env_rpc_url env st3)"

text \<open>Two paths are compared up to the shorter one.\<close>

definition comparable :: "string list \<Rightarrow> string list \<Rightarrow> bool" where
  "comparable p q \<longleftrightarrow> list_all (\<lambda>(a, b). a = b) (zip p q)"

definition locked_by :: "loaded \<Rightarrow> string list \<Rightarrow> string option" where
  "locked_by l path = map_option snd (find (\<lambda>(p, _). comparable p path) (locked l))"

section \<open>Chains\<close>

fun update_first :: "('a \<Rightarrow> bool) \<Rightarrow> ('a \<Rightarrow> 'a) \<Rightarrow> 'a list \<Rightarrow> 'a list" where
  "update_first P f [] = []"
| "update_first P f (x # xs) = (if P x then f x # xs else x # update_first P f xs)"

definition override_chain :: "chain_override \<Rightarrow> chain_entry \<Rightarrow> chain_entry" where
  "override_chain ov c = c\<lparr>ce_enabled := unwrap_or (ce_enabled c) (co_enabled ov),
     ce_public_rpc := unwrap_or (ce_public_rpc c) (co_public_rpc ov)\<rparr>"

fun apply_overrides :: "chain_registry \<Rightarrow> (string \<times> chain_override) list \<Rightarrow> chain_entry list
    \<Rightarrow> string + chain_entry list" where
  "apply_overrides tmp [] cs = Inr cs"
| "apply_overrides tmp ((k, ov) # m) cs =
     and_then (ok_or (''chain_overrides: unknown chain '' @ quoted k) (find_chain tmp k))
       (\<lambda>e. apply_overrides tmp m
          (update_first (\<lambda>c. ce_id c = ce_id e) (override_chain ov) cs))"

definition apply_chain_changes :: "registry \<Rightarrow> settings \<Rightarrow> string + registry" where
  "apply_chain_changes r s =
     (let cs = cr_chains (reg_chains r) @ set_extra_chains s in
      and_then (registry_new cs) (\<lambda>tmp.
      and_then (apply_overrides tmp (set_chain_overrides s) cs) (\<lambda>cs.
      and_then (registry_new cs) (\<lambda>cr. Inr (r\<lparr>reg_chains := cr\<rparr>)))))"

section \<open>Validation\<close>

definition known_vendor :: "loaded \<Rightarrow> string \<Rightarrow> bool" where
  "known_vendor l v \<longleftrightarrow> has_key (reg_vendors (registry l)) v \<or> has_key (set_custom_rpc (settings l)) v"

definition check_order :: "loaded \<Rightarrow> string \<Rightarrow> order \<Rightarrow> issue list" where
  "check_order l path vs = map (\<lambda>v. issue_error path (''unknown vendor '' @ quoted v))
     (filter (\<lambda>v. \<not> known_vendor l v) vs)"

definition order_issues :: "loaded \<Rightarrow> issue list" where
  "order_issues l = (let s = settings l in
     concat (map (\<lambda>(cap, vs). check_order l (''routing.defaults.'' @ cap_as_str cap) vs)
       (route_defaults (set_routing s)))
   @ concat (map (\<lambda>(chain, caps). concat (map (\<lambda>(cap, vs).
         check_order l (''routing.chains.\"'' @ chain @ ''\".'' @ cap_as_str cap) vs) caps))
       (route_chains (set_routing s)))
   @ concat (map (\<lambda>(op, os). concat (map (\<lambda>(cap, vs).
         check_order l (''operations.'' @ op @ ''.order.'' @ cap_as_str cap) vs) (os_order os)))
       (set_operations s)))"

definition chain_issues :: "loaded \<Rightarrow> issue list" where
  "chain_issues l = map (\<lambda>(chain, _). issue_error (''routing.chains.\"'' @ chain @ ''\"'')
       (''unknown chain '' @ quoted chain))
     (filter (\<lambda>(chain, _). find_chain (reg_chains (registry l)) chain = None)
       (route_chains (set_routing (settings l))))"

definition custom_rpc_issues :: "loaded \<Rightarrow> issue list" where
  "custom_rpc_issues l = concat (map (\<lambda>(name, c).
       (if find_chain (reg_chains (registry l)) (rpc_chain c) = None
        then [issue_error (''custom_rpc.'' @ name @ ''.chain'') (''unknown chain '' @ quoted (rpc_chain c))]
        else [])
     @ (if \<not> (starts_with ''https://'' (rpc_url_secret c) \<or> starts_with ''http://'' (rpc_url_secret c))
        then [issue_error (''custom_rpc.'' @ name @ ''.url'') ''must be an http(s) URL''] else [])
     @ (if has_key (reg_vendors (registry l)) name
        then [issue_error (''custom_rpc.'' @ name) ''name collides with a built-in vendor id''] else []))
     (set_custom_rpc (settings l)))"

definition bind_issue :: "(string \<Rightarrow> bool) \<Rightarrow> string \<Rightarrow> string \<Rightarrow> issue list" where
  "bind_issue is_addr path v = (if is_addr v then []
     else [issue_error path (quoted v @ '' is not a socket address (host:port)'')])"

definition server_issues :: "(string \<Rightarrow> bool) \<Rightarrow> loaded \<Rightarrow> issue list" where
  "server_issues is_addr l = (let sv = set_server (settings l) in
     bind_issue is_addr ''server.http_bind'' (http_bind sv)
     @ (case public_bind sv of None \<Rightarrow> [] | Some b \<Rightarrow> bind_issue is_addr ''server.public_bind'' b)
     @ (case admin_bind sv of None \<Rightarrow> [] | Some b \<Rightarrow> bind_issue is_addr ''server.admin_bind'' b)
     @ (if mode sv = Hosted then
          (if public_bind sv = None
           then [issue_error ''server.public_bind'' ''hosted mode requires public_bind''] else [])
        @ (if admin_bind sv \<noteq> None \<and> admin_bind sv = public_bind sv
           then [issue_error ''server.admin_bind'' ''admin_bind must differ from public_bind''] else [])
        else []))"

definition cap_issue :: "string \<Rightarrow> string \<Rightarrow> u64 option \<Rightarrow> u64 option \<Rightarrow> issue list" where
  "cap_issue v w cap most = (case (cap, most) of
       (Some c, Some li) \<Rightarrow> if li < c
         then [issue_warning (''vendors.'' @ v @ ''.cap.'' @ w) (''cap '' @ show_nat (unat c)
            @ '' is above the vendor limit '' @ show_nat (unat li) @ ''; the limit still applies'')]
         else []
     | _ \<Rightarrow> [])"

definition vendor_issues :: "loaded \<Rightarrow> issue list" where
  "vendor_issues l = concat (map (\<lambda>(v, vs).
     let most = overlay (case map_of (reg_vendors (registry l)) v of None \<Rightarrow> no_budget | Some e \<Rightarrow> ve_limit e)
               (vs_limit vs)
     in (if \<not> known_vendor l v
         then [issue_warning (''vendors.'' @ v) (''unknown vendor '' @ quoted v @ '' (ignored)'')] else [])
      @ (if (case vs_reserve_pct vs of None \<Rightarrow> False | Some r \<Rightarrow> 100 < r)
         then [issue_error (''vendors.'' @ v @ ''.reserve_pct'') ''must be 0..=100''] else [])
      @ cap_issue v ''rps'' (rps (vs_cap vs)) (rps most)
      @ cap_issue v ''per_minute'' (per_minute (vs_cap vs)) (per_minute most)
      @ cap_issue v ''daily'' (daily (vs_cap vs)) (daily most)
      @ cap_issue v ''monthly'' (monthly (vs_cap vs)) (monthly most))
     (set_vendors (settings l)))"

definition operation_issues :: "loaded \<Rightarrow> issue list" where
  "operation_issues l = concat (map (\<lambda>(op, os).
       (if os_strategy os = Some StratQuorum \<and> unwrap_or 2 (os_quorum os) < 2
        then [issue_error (''operations.'' @ op @ ''.quorum'') ''quorum must be >= 2''] else [])
     @ (if os_fan_out os = Some 0
        then [issue_error (''operations.'' @ op @ ''.fan_out'') ''fan_out must be >= 1''] else []))
     (set_operations (settings l)))"

definition validate :: "(string \<Rightarrow> bool) \<Rightarrow> loaded \<Rightarrow> issue list" where
  "validate is_addr l = order_issues l @ chain_issues l @ custom_rpc_issues l
     @ server_issues is_addr l @ vendor_issues l @ operation_issues l"

text \<open>The end of \<open>load_texts\<close>: a configuration is loaded when no issue is an error.\<close>

definition finish_load :: "(string \<Rightarrow> bool) \<Rightarrow> issue list \<Rightarrow> loaded \<Rightarrow> issue list + loaded \<times> issue list" where
  "finish_load is_addr issues l =
     (let found = issues @ validate is_addr l;
          (errors, warnings) = partition (\<lambda>i. issue_severity i = IssueError) found
      in if errors \<noteq> [] then Inl (errors @ warnings) else Inr (l, warnings))"

text \<open>
  \<open>load_texts\<close>. Merging the two files with the environment tree and decoding the result is the
  parameter \<open>decode\<close>; it gives settings or a list of issues.
\<close>

definition load_texts :: "(string \<Rightarrow> bool)
    \<Rightarrow> (string \<Rightarrow> string \<Rightarrow> (string \<times> json) list \<Rightarrow> issue list + settings) \<Rightarrow> registry
    \<Rightarrow> (string \<times> string) list \<Rightarrow> string \<Rightarrow> string \<Rightarrow> issue list + loaded \<times> issue list" where
  "load_texts is_addr decode reg env config secrets =
     (let st = env_layer (reg_vendors reg) env in
      case decode config secrets (env_root st) of
        Inl errs \<Rightarrow> Inl (env_issues st @ errs)
      | Inr s \<Rightarrow> (case apply_chain_changes reg s of
            Inl e \<Rightarrow> Inl (env_issues st @ [issue_error ''extra_chains'' e])
          | Inr r \<Rightarrow> finish_load is_addr (env_issues st)
              \<lparr>settings = s, registry = r, locked = env_locked st\<rparr>))"

section \<open>Chain lookup\<close>

text \<open>Entries of the index are never lost, and every key of the chain gets one.\<close>

lemma index_keys_keep:
  "index_keys i ks ix = Inr ix' \<Longrightarrow> map_of ix k = Some j \<Longrightarrow> map_of ix' k = Some j"
proof (induction ks arbitrary: ix)
  case (Cons x ks)
  then have "k \<noteq> lower x" by auto
  with Cons show ?case by (simp split: if_splits)
qed simp

lemma index_keys_has:
  "index_keys i ks ix = Inr ix' \<Longrightarrow> k \<in> set ks \<Longrightarrow> map_of ix' (lower k) = Some i"
proof (induction ks arbitrary: ix)
  case (Cons x ks)
  then have "index_keys i ks ((lower x, i) # ix) = Inr ix'" by (simp split: if_splits)
  with Cons index_keys_keep [OF this, of "lower x" i] show ?case by auto
qed simp

lemma index_chains_keep:
  "index_chains i cs ix = Inr ix' \<Longrightarrow> map_of ix k = Some j \<Longrightarrow> map_of ix' k = Some j"
  by (induction cs arbitrary: i ix) (auto simp: and_then_Inr index_keys_keep split: if_splits)

lemma index_chains_has:
  assumes "index_chains i cs ix = Inr ix'" and "n < length cs"
  shows "(k \<in> set (chain_keys (cs ! n)) \<longrightarrow> map_of ix' (lower k) = Some (i + n))
    \<and> family (ce_id (cs ! n)) = Some (ce_family (cs ! n))"
  using assms
proof (induction cs arbitrary: i ix n)
  case (Cons c cs)
  then obtain jx where jx: "index_keys i (chain_keys c) ix = Inr jx"
      "index_chains (Suc i) cs jx = Inr ix'" "family (ce_id c) = Some (ce_family c)"
    by (auto simp: and_then_Inr split: if_splits)
  show ?case
  proof (cases n)
    case 0
    with jx(3) index_keys_has [OF jx(1), of k] index_chains_keep [OF jx(2), of "lower k" i]
    show ?thesis by simp
  next
    case (Suc m)
    with Cons.IH [OF jx(2), of m] Cons.prems(2) show ?thesis by simp
  qed
qed simp

text \<open>
  In a chain registry that is built, every chain is found by its CAIP-2 id and by each of its
  aliases, in any letter case and with white space around it, and has the family of its id. A
  chain that is switched off is found but not resolved.
\<close>

theorem registry_finds_chains:
  assumes "registry_new cs = Inr r" and "c \<in> set cs" and "k \<in> set (chain_keys c)"
    and "lower (trim s) = lower k"
  shows "find_chain r s = Some c \<and> family (ce_id c) = Some (ce_family c)
    \<and> (resolve_chain r s = Inr c \<longleftrightarrow> ce_enabled c)"
proof -
  obtain n where n: "n < length cs" "cs ! n = c"
    using assms(2) by (auto simp: in_set_conv_nth)
  obtain ix where ix: "index_chains 0 cs [] = Inr ix" "r = \<lparr>cr_chains = cs, cr_index = ix\<rparr>"
    using assms(1) by (auto simp: registry_new_def and_then_Inr)
  have "map_of ix (lower k) = Some n"
    using index_chains_has [OF ix(1), of n k] n assms(3) by simp
  then have "find_chain r s = Some c"
    using ix(2) n assms(4) by (simp add: find_chain_def nth_opt_def)
  with index_chains_has [OF ix(1), of n k] n show ?thesis
    by (simp add: resolve_chain_def)
qed

section \<open>What a loaded configuration guarantees\<close>

lemma check_order_known: "check_order l p vs = [] \<longleftrightarrow> list_all (known_vendor l) vs"
  by (induction vs) (auto simp: check_order_def)

lemma find_map_map_of:
  "find_map (\<lambda>(k, m). if P k then map_of m c else None) xs = Some v
    \<Longrightarrow> \<exists>k m. (k, m) \<in> set xs \<and> (c, v) \<in> set m"
proof (induction xs)
  case (Cons x xs)
  obtain k m where x: "x = (k, m)" by (cases x)
  show ?case
  proof (cases "if P k then map_of m c else None")
    case None
    with Cons x show ?thesis by auto
  next
    case (Some y)
    with Cons.prems x have "map_of m c = Some v" by (auto split: if_splits)
    with x show ?thesis by (auto dest: map_of_SomeD)
  qed
qed simp

definition orders_known :: "loaded \<Rightarrow> bool" where
  "orders_known l \<longleftrightarrow> list_all (\<lambda>(_, vs). list_all (known_vendor l) vs) (reg_default_order (registry l))
     \<and> list_all (\<lambda>(_, m). list_all (\<lambda>(_, vs). list_all (known_vendor l) vs) m)
         (reg_default_order_chain (registry l))"

lemma known_vendor_status: "known_vendor l v \<Longrightarrow> vendor_status l v \<noteq> UnknownVendor"
  by (auto simp: known_vendor_def vendor_status_def has_key_def split: if_splits)

lemma no_order_issues:
  assumes "order_issues l = []"
  shows "(cap, vs) \<in> set (route_defaults (set_routing (settings l))) \<Longrightarrow> list_all (known_vendor l) vs"
    and "(k, m) \<in> set (route_chains (set_routing (settings l))) \<Longrightarrow> (cap, vs) \<in> set m
      \<Longrightarrow> list_all (known_vendor l) vs"
    and "(op, os) \<in> set (set_operations (settings l)) \<Longrightarrow> (cap, vs) \<in> set (os_order os)
      \<Longrightarrow> list_all (known_vendor l) vs"
  using assms unfolding order_issues_def Let_def
  by (fastforce simp: check_order_known)+

lemma resolved_order_known:
  assumes "order_issues l = []" and "orders_known l"
  shows "list_all (known_vendor l) (order_vendors (resolve_order l cap chain op))"
proof -
  have custom: "list_all (known_vendor l) (custom_rpc_for l c)" for c
    by (auto simp: list_all_iff custom_rpc_for_def known_vendor_def has_key_def
        map_of_eq_None_iff split: option.splits)
  have builtin: "list_all (known_vendor l) (builtin_order l cap chain)"
  proof (cases "Option.bind chain (\<lambda>c. Option.bind (map_of (reg_default_order_chain (registry l)) c)
        (\<lambda>m. map_of m cap))")
    case None
    then have b: "builtin_order l cap chain = unwrap_or [] (map_of (reg_default_order (registry l)) cap)"
      by (simp add: builtin_order_def)
    show ?thesis
    proof (cases "map_of (reg_default_order (registry l)) cap")
      case (Some vs)
      then have "(cap, vs) \<in> set (reg_default_order (registry l))" by (rule map_of_SomeD)
      with assms(2) b Some show ?thesis by (auto simp: orders_known_def list_all_iff)
    qed (simp add: b)
  next
    case (Some vs)
    then show ?thesis
      using assms(2) unfolding builtin_order_def orders_known_def
      by (fastforce simp: list_all_iff split: Option.bind_splits dest!: map_of_SomeD)
  qed
  have "list_all (known_vendor l) vs" if "operation_order l cap op = Some vs" for vs
    using that no_order_issues(3) [OF assms(1)]
    by (fastforce simp: operation_order_def split: Option.bind_splits dest!: map_of_SomeD)
  moreover have "list_all (known_vendor l) vs" if "chain_order l cap c = Some vs" for vs c
    using that no_order_issues(2) [OF assms(1)]
    by (auto simp: chain_order_def dest!: find_map_map_of)
  moreover have "list_all (known_vendor l) vs"
    if "map_of (route_defaults (set_routing (settings l))) cap = Some vs" for vs
    using that no_order_issues(1) [OF assms(1)] by (blast dest: map_of_SomeD)
  ultimately show ?thesis
    using custom builtin by (auto simp: resolve_order_def split: option.splits Option.bind_splits)
qed

lemma validated_reserve:
  assumes "\<forall>i \<in> set (vendor_issues l). issue_severity i \<noteq> IssueError"
    and "effective_budget_of l v = Some b"
  shows "unat (eb_reserve_pct b) \<le> 100"
proof (cases "map_of (set_vendors (settings l)) v")
  case None
  with assms(2) show ?thesis
    by (auto simp: effective_budget_of_def settings_of_vendor_def default_vendor_settings_def Let_def)
next
  case (Some vs)
  then have "(v, vs) \<in> set (set_vendors (settings l))" by (rule map_of_SomeD)
  with assms(1) have "\<not> (case vs_reserve_pct vs of None \<Rightarrow> False | Some r \<Rightarrow> 100 < r)"
    by (fastforce simp: vendor_issues_def Let_def)
  with Some assms(2) show ?thesis
    by (auto simp: effective_budget_of_def settings_of_vendor_def Let_def unwrap_or_def
        word_less_nat_alt split: option.splits)
qed

lemma finish_load_Inr:
  "finish_load is_addr issues l = Inr (l', ws) \<Longrightarrow>
     l' = l \<and> (\<forall>i \<in> set (validate is_addr l). issue_severity i \<noteq> IssueError)"
  by (auto simp: finish_load_def Let_def filter_empty_conv split: if_splits)

text \<open>Loading changes no vendor and no built-in order, and those of the built-in file name its own vendors.\<close>

lemma builtin_known: "list_all (\<lambda>(_, vs). list_all (\<lambda>v. v \<in> set builtin_vendor_ids) vs) builtin_orders"
  "list_all (\<lambda>(_, m). list_all (\<lambda>(_, vs). list_all (\<lambda>v. v \<in> set builtin_vendor_ids) vs) m) builtin_chain_orders"
  by code_simp+

lemma canonical_orders_set:
  "canonical_orders r m = Inr co \<Longrightarrow> (c, v) \<in> set co \<Longrightarrow> \<exists>k. (k, v) \<in> set m"
  by (induction r m arbitrary: co rule: canonical_orders.induct) (fastforce simp: and_then_Inr split: if_splits)+

lemma builtin_orders_known:
  assumes "registry_parse cs vs builtin_orders builtin_chain_orders = Inr reg" and "set (map fst vs) = set builtin_vendor_ids"
    and "reg_vendors (registry l) = reg_vendors reg" and "reg_default_order (registry l) = reg_default_order reg"
    and "reg_default_order_chain (registry l) = reg_default_order_chain reg"
  shows "orders_known l"
proof -
  obtain r co where co: "canonical_orders r builtin_chain_orders = Inr co" and reg: "reg = \<lparr>reg_chains = r, reg_vendors = vs,
      reg_default_order = builtin_orders, reg_default_order_chain = co\<rparr>"
    using assms(1) by (auto simp: registry_parse_def and_then_Inr)
  have known: "known_vendor l v" if "v \<in> set builtin_vendor_ids" for v
    using that assms(2,3) by (simp add: known_vendor_def has_key_def reg map_of_eq_None_iff) 
  have "list_all (\<lambda>(_, vs). list_all (known_vendor l) vs) m" if "(c, m) \<in> set co" for c m
    using canonical_orders_set [OF co that] builtin_known(2) known by (fastforce simp: list_all_iff)
  with builtin_known(1) known assms(4,5) show ?thesis
    unfolding orders_known_def by (fastforce simp: list_all_iff reg)
qed

lemma apply_changes_frame:
  "apply_chain_changes r s = Inr r' \<Longrightarrow> reg_vendors r' = reg_vendors r \<and> reg_default_order r' = reg_default_order r
     \<and> reg_default_order_chain r' = reg_default_order_chain r"
  by (auto simp: apply_chain_changes_def and_then_Inr Let_def)

text \<open>
  C30: whatever the files and the environment say, in a configuration that loads every vendor a routing
  order names is known, for every capability, chain and operation, the built-in orders included; and every
  vendor's reserve is at most 100 percent, which the budget computation relies on. The registry is the
  built-in one: its vendors and orders are those of its file, its chains may be any.
\<close>

theorem loaded_config_sound:
  assumes "registry_parse cs vs builtin_orders builtin_chain_orders = Inr reg" and "set (map fst vs) = set builtin_vendor_ids"
    and "load_texts is_addr decode reg env config secrets = Inr (l, ws)"
  shows "(\<forall>v \<in> set (order_vendors (resolve_order l cap chain op)). vendor_status l v \<noteq> UnknownVendor)
    \<and> (\<forall>v b. effective_budget_of l v = Some b \<longrightarrow> unat (eb_reserve_pct b) \<le> 100)"
proof -
  from assms(3) obtain s r where applied: "apply_chain_changes reg s = Inr r" "registry l = r"
    and ok: "\<forall>i \<in> set (validate is_addr l). issue_severity i \<noteq> IssueError"
    by (auto simp: load_texts_def Let_def dest!: finish_load_Inr split: sum.splits)
  from apply_changes_frame [OF applied(1)] have "orders_known l"
    by (intro builtin_orders_known [OF assms(1,2)]) (simp_all add: applied(2))
  have "\<forall>i \<in> set (order_issues l). issue_severity i = IssueError"
    by (auto simp: order_issues_def check_order_def Let_def)
  with ok have "order_issues l = []"
    by (cases "order_issues l") (auto simp: validate_def)
  note known = resolved_order_known [OF this \<open>orders_known l\<close>]
  have "\<forall>i \<in> set (vendor_issues l). issue_severity i \<noteq> IssueError"
    using ok by (simp add: validate_def)
  from validated_reserve [OF this] known show ?thesis
    using known_vendor_status unfolding list_all_iff by blast
qed

section \<open>The environment layer\<close>

lemma comparable_simps [simp]:
  "comparable [] q" "comparable p []"
  "comparable (a # p) (b # q) \<longleftrightarrow> a = b \<and> comparable p q"
  by (simp_all add: comparable_def)

lemma get_insert_same: "p \<noteq> [] \<Longrightarrow> get_path (insert_path m p v) p = Some v"
proof (induction m p v rule: insert_path.induct)
  case (3 m k j p v)
  then show ?case by (simp add: update_conv')
qed (simp_all add: update_conv')

lemma get_object: "p \<noteq> [] \<Longrightarrow>
    get_path m (k # p) = get_path (object_of (map_of m k)) p"
proof (cases p)
  case (Cons j q)
  assume "p \<noteq> []"
  have "get_path [] (j # q) = None" by (cases q) simp_all
  with Cons show ?thesis
    by (auto simp: object_of_def split: option.splits json.splits)
qed simp

lemma get_insert_other:
  "\<not> comparable p q \<Longrightarrow> get_path (insert_path m p v) q = get_path m q"
proof (induction m p v arbitrary: q rule: insert_path.induct)
  case (2 m k v)
  then obtain k' q' where "q = k' # q'" "k \<noteq> k'" by (cases q) auto
  then show ?case by (cases q') (simp_all add: update_conv')
next
  case (3 m k j p v)
  from 3(2) obtain k' q' where q: "q = k' # q'" by (cases q) auto
  show ?case
  proof (cases "k' = k")
    case True
    with 3(2) q have nc: "\<not> comparable (j # p) q'" by simp
    then have ne: "q' \<noteq> []" by auto
    from 3(1) [OF nc] show ?thesis
      unfolding q True get_object [OF ne] by (simp add: update_conv' object_of_def)
  next
    case False
    with q show ?thesis by (cases q') (auto simp: update_conv')
  qed
qed simp

definition env_path :: "string \<Rightarrow> string list" where
  "env_path rest = map lower (split_segments rest)"

text \<open>A variable that sets no part of \<open>path\<close> keeps what was set there.\<close>

definition sets_at :: "string \<Rightarrow> env_state \<Rightarrow> string list \<Rightarrow> json \<Rightarrow> string \<Rightarrow> bool" where
  "sets_at prefix st path v var \<longleftrightarrow> get_path (env_root st) path = Some v
     \<and> map_of (env_locked st) path = Some var"

definition unrelated :: "string \<Rightarrow> string list \<Rightarrow> string \<times> string \<Rightarrow> bool" where
  "unrelated prefix path = (\<lambda>(var, _). case strip_prefix prefix var of
     None \<Rightarrow> True | Some rest \<Rightarrow> \<not> comparable (env_path rest) path)"

lemma env_var_keeps:
  assumes "unrelated prefix path x" and "sets_at prefix st path v var"
  shows "sets_at prefix (env_var prefix x st) path v var"
proof (cases x)
  case (Pair w val)
  show ?thesis
  proof (cases "strip_prefix prefix w")
    case None
    with assms(2) Pair show ?thesis by (simp add: env_var_def)
  next
    case (Some rest)
    with assms(1) Pair have nc: "\<not> comparable (env_path rest) path"
      by (simp add: unrelated_def)
    then have "env_path rest \<noteq> path" by (auto simp: comparable_def list_all_iff zip_same_conv_map)
    with nc Some Pair assms(2) show ?thesis
      by (simp add: env_var_def sets_at_def env_path_def Let_def get_insert_other update_conv')
  qed
qed

lemma env_vars_keep:
  "list_all (unrelated prefix path) xs \<Longrightarrow> sets_at prefix st path v var
    \<Longrightarrow> sets_at prefix (fold (env_var prefix) xs st) path v var"
  by (induction xs arbitrary: st) (simp_all add: env_var_keeps)

lemma env_var_sets:
  "[] \<notin> set (env_path rest) \<Longrightarrow>
    sets_at prefix (env_var prefix (prefix @ rest, val) st) (env_path rest) (typed_value val) (prefix @ rest)"
proof -
  assume "[] \<notin> set (env_path rest)"
  moreover have "env_path rest \<noteq> []"
    by (cases rest rule: split_segments.cases) (auto simp: env_path_def split: list.splits)
  ultimately show ?thesis
    by (simp add: env_var_def sets_at_def env_path_def Let_def get_insert_same update_conv')
qed

text \<open>
  A variable \<open>ODM__A__B\<close> decides the setting at its path, whatever variables with the old
  prefix say about it, unless a later variable of the new prefix sets a part of the same path; and
  the setting is then locked by that variable.
\<close>

theorem odm_variable_wins:
  assumes "env = xs @ (''ODM__'' @ rest, val) # ys" and "[] \<notin> set (env_path rest)"
    and "list_all (unrelated ''ODM__'' (env_path rest)) ys"
    and "env_get env ''RPC_URL'' = None"
  shows "get_path (env_root (env_layer [] env)) (env_path rest) = Some (typed_value val)
    \<and> map_of (env_locked (env_layer [] env)) (env_path rest) = Some (''ODM__'' @ rest)"
proof -
  define st0 where "st0 = \<lparr>env_root = [], env_locked = [], env_issues = [], legacy_used = False\<rparr>"
  define st1 where "st1 = fold (env_var ''ODM__'') xs (fold (env_var ''BDM__'') env st0)"
  have "sets_at ''ODM__'' (fold (env_var ''ODM__'') ys (env_var ''ODM__'' (''ODM__'' @ rest, val) st1))
      (env_path rest) (typed_value val) (''ODM__'' @ rest)"
    by (rule env_vars_keep [OF assms(3) env_var_sets [OF assms(2)]])
  moreover have "fold (env_var ''ODM__'') env (fold (env_var ''BDM__'') env st0)
      = fold (env_var ''ODM__'') ys (env_var ''ODM__'' (''ODM__'' @ rest, val) st1)"
    by (simp add: assms(1) st1_def)
  ultimately show ?thesis
    using assms(4) unfolding env_layer_def st0_def [symmetric] Let_def
    by (simp add: env_rpc_url_def sets_at_def)
qed

theorem odm_variable_wins_witness:
  "get_path (env_root (env_layer [] [(''BDM__SERVER__DASHBOARD'', ''false''),
      (''ODM__SERVER__DASHBOARD'', ''true'')])) [''server'', ''dashboard''] = Some (JBool True)"
proof -
  have p: "env_path ''SERVER__DASHBOARD'' = [''server'', ''dashboard'']" by code_simp
  have t: "typed_value ''true'' = JBool True" by code_simp
  show ?thesis
    using odm_variable_wins [of _ "[(''BDM__SERVER__DASHBOARD'', ''false'')]" "''SERVER__DASHBOARD''"
        "''true''" "[]"] by (simp add: p t env_get_def)
qed

section \<open>A sample configuration\<close>

definition sample_chain :: chain_entry where
  "sample_chain = \<lparr>ce_id = ChainId ''eip155'' ''8453'', ce_name = ''Base'', ce_aliases = [''base''],
     ce_family = Evm, ce_native = \<lparr>nat_symbol = ''ETH'', nat_decimals = 18, nat_slip44 = 60\<rparr>,
     ce_block_time_ms = 2000, ce_finality = \<lparr>fp_policy = ''tags'', fp_default = None, fp_note = None\<rparr>,
     ce_multicall3 = None, ce_public_rpc = [], ce_explorer = None, ce_enabled = True\<rparr>"

definition sample_chains :: chain_registry where
  "sample_chains = \<lparr>cr_chains = [sample_chain], cr_index = [(''base'', 0), (''eip155:8453'', 0)]\<rparr>"

lemma sample_chains_new: "registry_new [sample_chain] = Inr sample_chains"
  by code_simp

theorem registry_finds_chains_witness:
  "find_chain sample_chains '' BASE'' = Some sample_chain"
proof -
  have "lower (trim '' BASE'') = lower ''base''" by code_simp
  from registry_finds_chains [OF sample_chains_new _ _ this, of sample_chain] show ?thesis
    by (simp add: sample_chain_def chain_keys_def)
qed

definition sample_vendor :: vendor_entry where
  "sample_vendor = \<lparr>ve_display_name = ''Node'', ve_requires_key = True, ve_keys = [(''api_key'', ''NODE_KEY'')],
     ve_signup_url = None, ve_free_tier_verified = True, ve_tier = None, ve_enabled = None,
     ve_unit = UnitRequests, ve_reset = CalendarMonth,
     ve_limit = \<lparr>rps = Some 5, per_minute = None, daily = None, monthly = Some 1000\<rparr>,
     ve_default_cost = 1, ve_costs = [],
     ve_rpc_features = \<lparr>get_logs_max_range = None, simulate_v1 = False, debug_trace = False\<rparr>,
     ve_rpc_urls = [(''eip155:8453'', ''https://node/{api_key}'')], ve_note = None\<rparr>"

definition sample_registry_of :: registry where
  "sample_registry_of = \<lparr>reg_chains = sample_chains, reg_vendors = [(''node'', sample_vendor)],
     reg_default_order = [(CapEvmRpc, [''node''])], reg_default_order_chain = []\<rparr>"

definition sample_settings :: settings where
  "sample_settings = \<lparr>set_server = default_server, set_vendors = [],
     set_keys = [(''node'', [(''api_key'', ''abcdef123456'')])],
     set_routing = \<lparr>route_defaults = [], route_chains = []\<rparr>, set_operations = [],
     set_clients = default_clients, set_custom_rpc = [], set_chain_overrides = [],
     set_extra_chains = []\<rparr>"

definition sample_loaded :: loaded where
  "sample_loaded = \<lparr>settings = sample_settings, registry = sample_registry_of, locked = []\<rparr>"

lemma sample_load:
  "load_texts (\<lambda>_. True) (\<lambda>_ _ _. Inr sample_settings) sample_registry_of [] [] []
    = Inr (sample_loaded, [])"
  by code_simp

definition builtin_sample :: "string + registry" where
  "builtin_sample = registry_parse [sample_chain\<lparr>ce_id := ChainId ''solana'' ''5eykt4UsFv8P8NJdTREpY1vzqKqZKvdp'', ce_family := Solana\<rparr>]
     (map (\<lambda>v. (v, sample_vendor)) builtin_vendor_ids) builtin_orders builtin_chain_orders"

lemma builtin_sample_loads:
  "is_ok (and_then (map_err (\<lambda>_. []) builtin_sample) (\<lambda>reg. load_texts (\<lambda>_. True) (\<lambda>_ _ _. Inr (sample_settings\<lparr>set_keys := []\<rparr>)) reg [] [] []))"
  by code_simp

theorem loaded_config_sound_witness:
  "\<exists>reg l ws. builtin_sample = Inr reg
     \<and> load_texts (\<lambda>_. True) (\<lambda>_ _ _. Inr (sample_settings\<lparr>set_keys := []\<rparr>)) reg [] [] [] = Inr (l, ws)
     \<and> list_all (\<lambda>v. vendor_status l v \<noteq> UnknownVendor) (order_vendors (resolve_order l CapPrice None None))"
proof -
  from builtin_sample_loads obtain reg l ws where run: "builtin_sample = Inr reg"
    "load_texts (\<lambda>_. True) (\<lambda>_ _ _. Inr (sample_settings\<lparr>set_keys := []\<rparr>)) reg [] [] [] = Inr (l, ws)"
    by (auto simp: is_ok_def and_then_def map_err_def split: sum.splits)
  from loaded_config_sound [OF run(1) [unfolded builtin_sample_def] _ run(2), of CapPrice None None] run show ?thesis
    by (auto simp: list_all_iff)
qed

theorem effective_budget_within_witness:
  "\<exists>b m. effective_budget_of sample_loaded ''node'' = Some b \<and> monthly (effective b) = Some m
     \<and> unat m * 100 \<le> 1000 * 90"
proof -
  obtain b where b: "effective_budget_of sample_loaded ''node'' = Some b"
      "eb_reserve_pct b = 10" "monthly (eb_limit b) = Some 1000"
    by (auto simp: effective_budget_of_def sample_loaded_def sample_registry_of_def
        sample_settings_def settings_of_vendor_def default_vendor_settings_def sample_vendor_def
        overlay_def no_budget_def Let_def)
  with effective_budget_within [OF b(1)] show ?thesis by auto
qed

lemma sample_key_value: "key sample_loaded vendor field = Some v \<Longrightarrow> v = ''abcdef123456''"
  by (auto simp: key_def sample_loaded_def sample_settings_def vendor_key_def
      split: Option.bind_splits if_splits)

theorem rpc_url_total_witness:
  "\<exists>r. rpc_url sample_loaded ''node'' (ChainId ''eip155'' ''8453'') = Some r"
proof -
  have "\<forall>field v. key sample_loaded ''node'' field = Some v \<longrightarrow> CHR ''{'' \<notin> set v"
    by (auto dest!: sample_key_value)
  from rpc_url_total [OF this] show ?thesis by blast
qed

theorem scrub_hides_secrets_witness:
  "\<not> contains ''abcdef123456'' (scrub sample_loaded ''https://node/abcdef123456'')"
proof -
  have "secret_values sample_loaded = [''abcdef123456'']"
    by (simp add: secret_values_def sample_loaded_def sample_settings_def)
  then show ?thesis
    using scrub_hides_secrets [of sample_loaded "''abcdef123456''" "''https://node/abcdef123456''"]
    by (simp add: star_free_def)
qed

end
