(* ===== verification/Counters.thy ===== *)
theory Counters
  imports ConfigLoader
begin

text \<open>
  Usage counters (\<open>crates/routing/src/store.rs\<close>): the trait as the locales \<open>metered\<close> (the part that
  metering and the guard use) and \<open>counter_store\<close>, with the laws their callers rely on, and the in-memory store, which satisfies them. Dates come from a
  calendar library; the record \<open>calendar\<close> is the parameter for it; \<open>chrono_of_std\<close> is the calendar library's signed
  duration for an unsigned one, when it is in its range.
\<close>

section \<open>Windows\<close>

datatype window_key = Day string | Month string

record calendar =
  day_text :: "datetime \<Rightarrow> string"
  month_text :: "datetime \<Rightarrow> string"
  next_day :: "datetime \<Rightarrow> datetime option"
  next_month :: "datetime \<Rightarrow> datetime option"
  chrono_of_std :: "duration \<Rightarrow> int option"

definition window_day :: "calendar \<Rightarrow> datetime \<Rightarrow> window_key" where
  "window_day cal now = Day (day_text cal now)"

definition window_month :: "calendar \<Rightarrow> datetime \<Rightarrow> window_key" where
  "window_month cal now = Month (month_text cal now)"

fun resets_at :: "calendar \<Rightarrow> window_key \<Rightarrow> datetime \<Rightarrow> datetime" where
  "resets_at cal (Day _) now = unwrap_or now (next_day cal now)"
| "resets_at cal (Month _) now = unwrap_or now (next_month cal now)"

record dims =
  dim_method :: string
  dim_tool :: "string option"
  dim_chain :: "string option"
  dim_client :: "string option"

section \<open>The interface\<close>

text \<open>What metering and the quota guard need of a store: adding a cost, and the total of a window.\<close>

locale metered =
  fixes add :: "'s \<Rightarrow> string \<Rightarrow> window_key \<Rightarrow> u64 \<Rightarrow> dims \<Rightarrow> 's"
    and total :: "'s \<Rightarrow> string \<Rightarrow> window_key \<Rightarrow> u64"
    and valid :: "'s \<Rightarrow> bool"
  assumes valid_add: "valid s \<Longrightarrow> valid (add s v w n d)"
    and total_add: "valid s \<Longrightarrow>
      total (add s v w n d) v' w' = total s v' w' + (if v' = v \<and> w' = w then n else 0)"
begin

text \<open>A sequence of requests, each added to one window of one vendor.\<close>

definition add_all :: "'s \<Rightarrow> (string \<times> window_key \<times> u64 \<times> dims) list \<Rightarrow> 's" where
  "add_all s xs = foldl (\<lambda>s (v, w, n, d). add s v w n d) s xs"

definition spent :: "string \<Rightarrow> window_key \<Rightarrow> (string \<times> window_key \<times> u64 \<times> dims) list \<Rightarrow> nat" where
  "spent v w xs = sum_list (map (\<lambda>(v', w', n, _). if v' = v \<and> w' = w then unat n else 0) xs)"

lemma spent_simps [simp]:
  "spent v w [] = 0"
  "spent v w ((v', w', n, d) # xs) = (if v' = v \<and> w' = w then unat n else 0) + spent v w xs"
  by (simp_all add: spent_def)

lemma add_all_valid: "valid s \<Longrightarrow> valid (add_all s xs)"
  unfolding add_all_def by (induction xs arbitrary: s) (auto simp: valid_add)

text \<open>While it fits, a total is exactly what was there plus what was spent since.\<close>

lemma total_add_all:
  "valid s \<Longrightarrow> unat (total s v w) + spent v w xs < 2 ^ 64 \<Longrightarrow>
    unat (total (add_all s xs) v w) = unat (total s v w) + spent v w xs"
proof (induction xs arbitrary: s)
  case (Cons x xs)
  obtain v' w' n d where x: "x = (v', w', n, d)" by (cases x) auto
  have step: "unat (total (add s v' w' n d) v w)
      = unat (total s v w) + (if v' = v \<and> w' = w then unat n else 0)"
    using Cons.prems x by (auto simp: total_add unat_add_fits)
  have "unat (total (add_all (add s v' w' n d) xs) v w)
      = unat (total (add s v' w' n d) v w) + spent v w xs"
    by (rule Cons.IH) (use Cons.prems x step in \<open>simp_all add: valid_add\<close>)
  with step x show ?case by (simp add: add_all_def)
qed (simp add: add_all_def)

lemma total_mono:
  "valid s \<Longrightarrow> unat (total s v w) + spent v w xs < 2 ^ 64 \<Longrightarrow> total s v w \<le> total (add_all s xs) v w"
  by (simp add: word_le_nat_alt total_add_all)

end

text \<open>The whole trait: the rows of the breakdown split the total.\<close>

locale counter_store = metered add total valid
  for add :: "'s \<Rightarrow> string \<Rightarrow> window_key \<Rightarrow> u64 \<Rightarrow> dims \<Rightarrow> 's"
    and total :: "'s \<Rightarrow> string \<Rightarrow> window_key \<Rightarrow> u64"
    and valid :: "'s \<Rightarrow> bool" +
  fixes breakdown :: "'s \<Rightarrow> string \<Rightarrow> window_key \<Rightarrow> (dims \<times> u64) list"
  assumes breakdown_total: "valid s \<Longrightarrow> sum_list (map snd (breakdown s v w)) = total s v w"
begin

lemma breakdown_mono:
  "valid s \<Longrightarrow> unat (total s v w) + spent v w xs < 2 ^ 64 \<Longrightarrow>
    sum_list (map snd (breakdown s v w)) \<le> sum_list (map snd (breakdown (add_all s xs) v w))"
  by (simp add: breakdown_total add_all_valid total_mono)

end

section \<open>The in-memory store\<close>

record memory_store =
  totals :: "((string \<times> window_key) \<times> u64) list"
  rows :: "((string \<times> window_key \<times> dims) \<times> u64) list"

definition empty_store :: memory_store where
  "empty_store = \<lparr>totals = [], rows = []\<rparr>"

text \<open>\<open>*map.entry(key).or_default() += n\<close>.\<close>

fun bump :: "'k \<Rightarrow> u64 \<Rightarrow> ('k \<times> u64) list \<Rightarrow> ('k \<times> u64) list" where
  "bump k n [] = [(k, n)]"
| "bump k n ((k', m) # xs) = (if k = k' then (k', m + n) # xs else (k', m) # bump k n xs)"

definition mem_add :: "memory_store \<Rightarrow> string \<Rightarrow> window_key \<Rightarrow> u64 \<Rightarrow> dims \<Rightarrow> memory_store" where
  "mem_add s v w n d = s\<lparr>totals := bump (v, w) n (totals s), rows := bump (v, w, d) n (rows s)\<rparr>"

definition mem_total :: "memory_store \<Rightarrow> string \<Rightarrow> window_key \<Rightarrow> u64" where
  "mem_total s v w = unwrap_or 0 (map_of (totals s) (v, w))"

definition mem_breakdown :: "memory_store \<Rightarrow> string \<Rightarrow> window_key \<Rightarrow> (dims \<times> u64) list" where
  "mem_breakdown s v w = map (\<lambda>((_, _, d), n). (d, n))
     (filter (\<lambda>((v', w', _), _). v' = v \<and> w' = w) (rows s))"

definition mem_valid :: "memory_store \<Rightarrow> bool" where
  "mem_valid s \<longleftrightarrow> (\<forall>v w. sum_list (map snd (mem_breakdown s v w)) = mem_total s v w)"

lemma map_of_bump:
  "unwrap_or 0 (map_of (bump k n xs) k') = unwrap_or 0 (map_of xs k') + (if k' = k then n else 0)"
  by (induction xs) (auto simp: ac_simps)

lemma sum_bump:
  "sum_list (map snd (filter (P \<circ> fst) (bump k n xs))) = sum_list (map snd (filter (P \<circ> fst) xs))
     + (if P k then n else 0)"
  by (induction xs) (auto simp: ac_simps)

lemma sum_breakdown:
  "sum_list (map snd (mem_breakdown s v w))
    = sum_list (map snd (filter ((\<lambda>(v', w', _). v' = v \<and> w' = w) \<circ> fst) (rows s)))"
proof -
  have "map snd (mem_breakdown s v w) = map snd (filter ((\<lambda>(v', w', _). v' = v \<and> w' = w) \<circ> fst) (rows s))"
    by (auto simp: mem_breakdown_def case_prod_unfold comp_def)
  then show ?thesis by simp
qed

lemma mem_total_add:
  "mem_total (mem_add s v w n d) v' w' = mem_total s v' w' + (if v' = v \<and> w' = w then n else 0)"
  by (simp add: mem_total_def mem_add_def map_of_bump)

lemma mem_valid_add: "mem_valid s \<Longrightarrow> mem_valid (mem_add s v w n d)"
  unfolding mem_valid_def sum_breakdown mem_total_add
  by (auto simp: mem_add_def sum_bump)

interpretation memory: counter_store mem_add mem_total mem_valid mem_breakdown
  by unfold_locales (simp_all add: mem_valid_add mem_total_add mem_valid_def [THEN iffD1, rule_format])

lemma mem_valid_empty [simp]: "mem_valid empty_store"
  by (simp add: mem_valid_def mem_breakdown_def mem_total_def empty_store_def)

text \<open>
  The usage of a vendor in a window is exactly what its requests in that window cost, and the
  rows of the breakdown always add up to it: requests of other vendors and windows never count.
\<close>

theorem usage_adds_up:
  assumes "memory.spent v w xs < 2 ^ 64"
  shows "unat (mem_total (memory.add_all empty_store xs) v w) = memory.spent v w xs
    \<and> sum_list (map snd (mem_breakdown (memory.add_all empty_store xs) v w))
        = mem_total (memory.add_all empty_store xs) v w"
proof -
  have "mem_total empty_store v w = 0" by (simp add: mem_total_def empty_store_def)
  with memory.total_add_all [OF mem_valid_empty, of v w xs] assms
    memory.breakdown_total [OF memory.add_all_valid [OF mem_valid_empty]]
  show ?thesis by simp
qed

definition sample_dims :: dims where
  "sample_dims = \<lparr>dim_method = ''eth_call'', dim_tool = None, dim_chain = None, dim_client = None\<rparr>"

theorem usage_adds_up_witness:
  "unat (mem_total (memory.add_all empty_store
     [(''alchemy'', Day ''2026-01-01'', 26, sample_dims), (''public'', Day ''2026-01-01'', 1, sample_dims),
      (''alchemy'', Day ''2026-01-01'', 10, sample_dims)]) ''alchemy'' (Day ''2026-01-01'')) = 36"
  using usage_adds_up [of "''alchemy''" "Day ''2026-01-01''"
    "[(''alchemy'', Day ''2026-01-01'', 26, sample_dims), (''public'', Day ''2026-01-01'', 1, sample_dims),
      (''alchemy'', Day ''2026-01-01'', 10, sample_dims)]"]
  by simp

end
