(* ===== verification/RuntimeState.thy ===== *)
theory RuntimeState
  imports Complex_Main Counters
begin

text \<open>
  The state kept per vendor while the configuration changes under it
  (\<open>crates/routing/src/state.rs\<close>): circuit breaker, quota marks, token buckets and counters.

  Every method takes the lock of its map once, so each is one atomic step on the record
  \<open>runtime\<close>. Time is an argument: \<open>inst\<close> is the monotonic clock in nanoseconds, \<open>utc\<close> the
  wall clock. Floating-point numbers are rationals, so rounding errors are not modelled.
\<close>

record clock =
  inst :: nat
  utc :: datetime

section \<open>Data\<close>

datatype breaker_state = BClosed | BOpen | BHalfOpen

datatype breaker = Closed u32 | Open nat | HalfOpen bool

fun breaker_view :: "breaker \<Rightarrow> breaker_state" where
  "breaker_view (Closed _) = BClosed"
| "breaker_view (Open _) = BOpen"
| "breaker_view (HalfOpen _) = BHalfOpen"

datatype window_kind = KindSecond | KindMinute | KindDay | KindMonth

record rate_limit_snapshot =
  rl_limit :: "u64 option"
  rl_remaining :: "u64 option"
  rl_reset_after :: "duration option"
  rl_window :: "window_kind option"
  rl_retry_after :: "duration option"

record vendor_state =
  st_breaker :: breaker
  st_ok :: u64
  st_failed :: u64
  st_latency_ms :: "rat option"
  st_last_error :: "string option"
  st_exhausted_until :: "datetime option"
  st_last_rate_limit :: "(rate_limit_snapshot \<times> datetime) option"

definition default_state :: vendor_state where
  "default_state = \<lparr>st_breaker = Closed 0, st_ok = 0, st_failed = 0, st_latency_ms = None,
     st_last_error = None, st_exhausted_until = None, st_last_rate_limit = None\<rparr>"

record usage_snapshot =
  day_used :: u64
  month_used :: u64
  day_budget :: "u64 option"
  month_budget :: "u64 option"
  rps_limit :: "u64 option"
  per_minute_limit :: "u64 option"
  header_remaining :: "u64 option"
  header_limit :: "u64 option"

record vendor_health =
  vh_vendor :: string
  vh_breaker :: breaker_state
  vh_ok :: u64
  vh_failed :: u64
  vh_consecutive :: u32
  vh_latency_ms :: "u64 option"
  vh_last_error :: "string option"
  vh_exhausted_until :: "datetime option"
  vh_usage :: usage_snapshot

section \<open>Token buckets\<close>

record token_bucket =
  tokens :: rat
  last_at :: nat

definition full_bucket :: "rat \<Rightarrow> nat \<Rightarrow> token_bucket" where
  "full_bucket cap now = \<lparr>tokens = cap, last_at = now\<rparr>"

definition secs :: "nat \<Rightarrow> rat" where
  "secs ns = of_nat ns / 1000000000"

text \<open>Take one token, or the wait until the next one is due.\<close>

definition take_token :: "token_bucket \<Rightarrow> rat \<Rightarrow> rat \<Rightarrow> nat \<Rightarrow> (duration + unit) \<times> token_bucket" where
  "take_token b cap per_sec now =
     (let refill = secs (now - last_at b) * per_sec;
          t = min (tokens b + refill) cap;
          l = max (last_at b) now
      in if 1 \<le> t then (Inr (), \<lparr>tokens = t - 1, last_at = l\<rparr>)
         else (Inl (nat (round ((1 - t) / per_sec * 1000000000))), \<lparr>tokens = t, last_at = l\<rparr>))"

record limit =
  lim_cap :: rat
  lim_per_sec :: rat
  lim_bucket :: token_bucket

definition new_limit :: "u64 option \<Rightarrow> rat \<Rightarrow> nat \<Rightarrow> limit option" where
  "new_limit n period now = Option.bind n (\<lambda>n. if n = 0 then None else
     Some \<lparr>lim_cap = of_nat (unat n), lim_per_sec = of_nat (unat n) / period,
       lim_bucket = full_bucket (of_nat (unat n)) now\<rparr>)"

text \<open>
  \<open>Limit::acquire\<close>: sleeping moves the clock by the wait, and by at least one tick of it, since
  the loop reads the clock again after it woke up.
\<close>

function acquire_limit :: "limit \<Rightarrow> duration \<Rightarrow> nat \<Rightarrow> nat \<Rightarrow> bool \<times> limit \<times> nat" where
  "acquire_limit lm max_wait start now =
     (case take_token (lim_bucket lm) (lim_cap lm) (lim_per_sec lm) now of
        (Inr _, b) \<Rightarrow> (True, lm\<lparr>lim_bucket := b\<rparr>, now)
      | (Inl wait, b) \<Rightarrow>
          if wait + (now - start) \<le> max_wait
          then acquire_limit (lm\<lparr>lim_bucket := b\<rparr>) max_wait start (now + max wait 1)
          else (False, lm\<lparr>lim_bucket := b\<rparr>, now))"
  by pat_completeness auto
termination
  by (relation "measure (\<lambda>(lm, max_wait, start, now). max_wait + 1 + start - now)") auto

declare acquire_limit.simps [simp del]

record limiters =
  lim_params :: "u64 option \<times> u64 option"
  lim_rps :: "limit option"
  lim_minute :: "limit option"

section \<open>The runtime state\<close>

record 's runtime =
  vendors :: "string \<Rightarrow> vendor_state"
  rt_limiters :: "string \<Rightarrow> limiters option"
  store :: 's
  threshold :: u32
  cooldown :: duration

definition new_runtime :: "'s \<Rightarrow> u32 \<Rightarrow> duration \<Rightarrow> 's runtime" where
  "new_runtime s thr cd = \<lparr>vendors = (\<lambda>_. default_state), rt_limiters = (\<lambda>_. None), store = s,
     threshold = max thr 1, cooldown = cd\<rparr>"

definition with_vendor :: "string \<Rightarrow> (vendor_state \<Rightarrow> vendor_state) \<Rightarrow> 's runtime \<Rightarrow> 's runtime" where
  "with_vendor v f rt = rt\<lparr>vendors := (vendors rt)(v := f (vendors rt v))\<rparr>"

fun breaker_next :: "breaker \<Rightarrow> nat \<Rightarrow> bool \<times> breaker" where
  "breaker_next (Closed n) now = (True, Closed n)"
| "breaker_next (Open u) now = (if u \<le> now then (True, HalfOpen True) else (False, Open u))"
| "breaker_next (HalfOpen False) now = (True, HalfOpen True)"
| "breaker_next (HalfOpen True) now = (False, HalfOpen True)"

definition breaker_allows :: "'s runtime \<Rightarrow> string \<Rightarrow> clock \<Rightarrow> bool \<times> 's runtime" where
  "breaker_allows rt v c = (let (ok, b) = breaker_next (st_breaker (vendors rt v)) (inst c)
     in (ok, with_vendor v (\<lambda>s. s\<lparr>st_breaker := b\<rparr>) rt))"

text \<open>\<open>usage\<close> reads the counter store.\<close>

definition quota_block :: "calendar \<Rightarrow> ('s \<Rightarrow> string \<Rightarrow> window_key \<Rightarrow> u64) \<Rightarrow> 's runtime \<Rightarrow> string
    \<Rightarrow> effective_budget option \<Rightarrow> clock \<Rightarrow> string option" where
  "quota_block cal usage rt v budget c =
     (if (case st_exhausted_until (vendors rt v) of None \<Rightarrow> False | Some t \<Rightarrow> utc c < t)
      then Some ''quota_exhausted''
      else case budget of
          None \<Rightarrow> None
        | Some b \<Rightarrow>
            if eb_on_exhausted b = AllowOverage then None
            else let over = (\<lambda>lm key. case lm of None \<Rightarrow> False | Some l \<Rightarrow> l \<le> usage (store rt) v key)
                 in if over (daily (effective b)) (window_day cal (utc c))
                      \<or> over (monthly (effective b)) (window_month cal (utc c))
                    then Some ''quota_reserve'' else None)"

definition acquire_opt :: "limit option \<Rightarrow> duration \<Rightarrow> nat \<Rightarrow> bool \<times> limit option \<times> nat" where
  "acquire_opt l max_wait now = (case l of
       None \<Rightarrow> (True, None, now)
     | Some lm \<Rightarrow> (let (ok, lm, t) = acquire_limit lm max_wait now now in (ok, Some lm, t)))"

definition advance :: "clock \<Rightarrow> nat \<Rightarrow> clock" where
  "advance c t = c\<lparr>inst := t, utc := utc c + (int t - int (inst c))\<rparr>"

definition acquire :: "'s runtime \<Rightarrow> string \<Rightarrow> effective_budget option \<Rightarrow> duration \<Rightarrow> clock
    \<Rightarrow> bool \<times> 's runtime \<times> clock" where
  "acquire rt v budget max_wait c =
     (let params = (case budget of None \<Rightarrow> (None, None)
          | Some b \<Rightarrow> (rps (effective b), per_minute (effective b)))
      in if params = (None, None) then (True, rt, c)
         else let fresh = \<lparr>lim_params = params, lim_rps = new_limit (fst params) 1 (inst c),
                    lim_minute = new_limit (snd params) 60 (inst c)\<rparr>;
                  l = (case rt_limiters rt v of
                         None \<Rightarrow> fresh | Some l \<Rightarrow> if lim_params l = params then l else fresh);
                  (ok1, r, t1) = acquire_opt (lim_rps l) max_wait (inst c);
                  (ok2, m, t2) = (if ok1 then acquire_opt (lim_minute l) max_wait t1
                                  else (False, lim_minute l, t1))
              in (ok2, rt\<lparr>rt_limiters := (rt_limiters rt)(v := Some (l\<lparr>lim_rps := r, lim_minute := m\<rparr>))\<rparr>,
                  advance c t2))"

definition composite :: "string \<Rightarrow> bool" where
  "composite v \<longleftrightarrow> v = ''rpc''"

text \<open>Whether an error counts for the breaker, and the mark it leaves.\<close>

fun breaker_failure :: "provider_error \<Rightarrow> bool" where
  "breaker_failure (Transient _) = True"
| "breaker_failure (Fatal _) = True"
| "breaker_failure (Unsupported _) = True"
| "breaker_failure _ = False"

definition exhausted_mark :: "calendar \<Rightarrow> bool \<Rightarrow> provider_error \<Rightarrow> datetime \<Rightarrow> datetime option \<Rightarrow> datetime option" where
  "exhausted_mark cal pseudo e now old = (if pseudo then old else (case e of
       RateLimited retry \<Rightarrow>
         Some (now + unwrap_or 0 (chrono_of_std cal (unwrap_or (from_secs 10) retry)))
     | QuotaExhausted resets \<Rightarrow> Some (unwrap_or (now + int (from_secs 3600)) resets)
     | _ \<Rightarrow> old))"

definition trip :: "u32 \<Rightarrow> nat \<Rightarrow> breaker \<Rightarrow> breaker" where
  "trip thr until b = (case b of
       Closed n \<Rightarrow> if n + 1 < thr then Closed (n + 1) else Open until
     | _ \<Rightarrow> Open until)"

definition ewma :: "rat option \<Rightarrow> duration \<Rightarrow> rat" where
  "ewma prev latency = (let ms = of_nat latency / 1000000 in
     case prev of None \<Rightarrow> ms | Some p \<Rightarrow> p * (8 / 10) + ms * (2 / 10))"

definition record_result :: "calendar \<Rightarrow> string \<Rightarrow> provider_error option \<Rightarrow> duration \<Rightarrow> clock
    \<Rightarrow> 's runtime \<Rightarrow> 's runtime" where
  "record_result cal v err latency c rt = with_vendor v (\<lambda>s.
     let s1 = s\<lparr>st_latency_ms := Some (ewma (st_latency_ms s) latency)\<rparr>;
         s2 = (case err of None \<Rightarrow> s1
               | Some e \<Rightarrow> s1\<lparr>st_last_error := Some (reason e),
                   st_exhausted_until := exhausted_mark cal (composite v) e (utc c) (st_exhausted_until s)\<rparr>);
         failure = (case err of None \<Rightarrow> False | Some e \<Rightarrow> breaker_failure e)
     in if failure
        then s2\<lparr>st_failed := st_failed s + 1,
          st_breaker := (if composite v then st_breaker s
                         else trip (threshold rt) (inst c + cooldown rt) (st_breaker s))\<rparr>
        else s2\<lparr>st_ok := (if err = None then st_ok s + 1 else st_ok s), st_breaker := Closed 0\<rparr>) rt"

definition record_rate_limit :: "calendar \<Rightarrow> string \<Rightarrow> rate_limit_snapshot \<Rightarrow> clock
    \<Rightarrow> 's runtime \<Rightarrow> 's runtime" where
  "record_rate_limit cal v snap c rt = with_vendor v (\<lambda>s.
     (if rl_remaining snap = Some 0 \<or> rl_retry_after snap \<noteq> None
      then s\<lparr>st_exhausted_until := Some (utc c + unwrap_or 0 (chrono_of_std cal
          (unwrap_or (from_secs 60) (or_opt (rl_retry_after snap) (rl_reset_after snap)))))\<rparr>
      else s)\<lparr>st_last_rate_limit := Some (snap, utc c)\<rparr>) rt"

definition health :: "calendar \<Rightarrow> ('s \<Rightarrow> string \<Rightarrow> window_key \<Rightarrow> u64) \<Rightarrow> 's runtime \<Rightarrow> string
    \<Rightarrow> effective_budget option \<Rightarrow> clock \<Rightarrow> vendor_health" where
  "health cal usage rt v budget c =
     (let s = vendors rt v in
      \<lparr>vh_vendor = v, vh_breaker = breaker_view (st_breaker s), vh_ok = st_ok s, vh_failed = st_failed s,
       vh_consecutive = (case st_breaker s of Closed n \<Rightarrow> n | _ \<Rightarrow> threshold rt),
       vh_latency_ms = map_option (\<lambda>r. of_nat (nat (round r))) (st_latency_ms s),
       vh_last_error = st_last_error s,
       vh_exhausted_until = Option.bind (st_exhausted_until s) (\<lambda>t. if utc c < t then Some t else None),
       vh_usage = \<lparr>day_used = usage (store rt) v (window_day cal (utc c)),
         month_used = usage (store rt) v (window_month cal (utc c)),
         day_budget = Option.bind budget (\<lambda>b. daily (effective b)),
         month_budget = Option.bind budget (\<lambda>b. monthly (effective b)),
         rps_limit = Option.bind budget (\<lambda>b. rps (effective b)),
         per_minute_limit = Option.bind budget (\<lambda>b. per_minute (effective b)),
         header_remaining = Option.bind (st_last_rate_limit s) (\<lambda>(r, _). rl_remaining r),
         header_limit = Option.bind (st_last_rate_limit s) (\<lambda>(r, _). rl_limit r)\<rparr>\<rparr>)"

text \<open>The usage sink: a request costs its credits in the day and in the month.\<close>

record call_context =
  ctx_tool :: "string option"
  ctx_client :: "string option"
  ctx_chain :: "chain_id option"

definition request_dims :: "string \<Rightarrow> call_context \<Rightarrow> dims" where
  "request_dims meth ctx = \<lparr>dim_method = meth, dim_tool = ctx_tool ctx,
     dim_chain = map_option show_chain (ctx_chain ctx), dim_client = ctx_client ctx\<rparr>"

definition record_request :: "calendar \<Rightarrow> ('s \<Rightarrow> string \<Rightarrow> window_key \<Rightarrow> u64 \<Rightarrow> dims \<Rightarrow> 's)
    \<Rightarrow> loaded \<Rightarrow> string \<Rightarrow> string \<Rightarrow> call_context \<Rightarrow> clock \<Rightarrow> 's runtime \<Rightarrow> 's runtime" where
  "record_request cal add l v meth ctx c rt =
     (let n = cost l v meth; d = request_dims meth ctx
      in rt\<lparr>store := add (add (store rt) v (window_day cal (utc c)) n d)
           v (window_month cal (utc c)) n d\<rparr>)"

section \<open>Token buckets never exceed their rate\<close>

fun run_takes :: "token_bucket \<Rightarrow> rat \<Rightarrow> rat \<Rightarrow> nat list \<Rightarrow> nat \<times> token_bucket" where
  "run_takes b cap per_sec [] = (0, b)"
| "run_takes b cap per_sec (t # ts) =
     (case take_token b cap per_sec t of (r, b1) \<Rightarrow>
      case run_takes b1 cap per_sec ts of (n, b2) \<Rightarrow> (if is_ok r then n + 1 else n, b2))"

lemma secs_add: "a \<le> b \<Longrightarrow> b \<le> c \<Longrightarrow> secs (c - b) + secs (b - a) = secs (c - a)"
  by (simp add: secs_def of_nat_diff diff_divide_distrib)

lemma take_token_step:
  assumes "take_token b cap per_sec t = (r, b')"
  shows "(if is_ok r then 1 else 0) + tokens b' \<le> tokens b + per_sec * secs (last_at b' - last_at b)"
    and "last_at b' = max (last_at b) t"
    and "0 \<le> tokens b \<Longrightarrow> 0 \<le> per_sec \<Longrightarrow> 0 \<le> cap \<Longrightarrow> 0 \<le> tokens b'"
    and "tokens b' \<le> cap"
proof -
  have "max (last_at b) t - last_at b = t - last_at b" by (simp add: max_def)
  then show "(if is_ok r then 1 else 0) + tokens b' \<le> tokens b + per_sec * secs (last_at b' - last_at b)"
    using assms by (auto simp: take_token_def Let_def min_def mult.commute split: if_splits)
  show "last_at b' = max (last_at b) t" "tokens b' \<le> cap"
    using assms by (auto simp: take_token_def Let_def split: if_splits)
  assume "0 \<le> tokens b" "0 \<le> per_sec" "0 \<le> cap"
  moreover have "0 \<le> secs n" for n by (simp add: secs_def)
  ultimately show "0 \<le> tokens b'"
    using assms by (auto simp: take_token_def Let_def min_def split: if_splits)
qed

lemma run_takes_bound:
  assumes "run_takes b cap per_sec ts = (n, b')" and "0 \<le> tokens b" and "0 \<le> per_sec" and "0 \<le> cap"
  shows "of_nat n + tokens b' \<le> tokens b + per_sec * secs (last_at b' - last_at b)
    \<and> last_at b' = foldl max (last_at b) ts \<and> last_at b \<le> last_at b' \<and> 0 \<le> tokens b'"
  using assms
proof (induction ts arbitrary: b n)
  case Nil
  then show ?case by (simp add: secs_def)
next
  case (Cons t ts)
  obtain r b1 where step: "take_token b cap per_sec t = (r, b1)" by fastforce
  obtain m b2 where rest: "run_takes b1 cap per_sec ts = (m, b2)" by fastforce
  have n: "n = (if is_ok r then m + 1 else m)" "b' = b2"
    using Cons.prems(1) step rest by auto
  note one = take_token_step [OF step]
  have ih: "of_nat m + tokens b' \<le> tokens b1 + per_sec * secs (last_at b' - last_at b1)"
      "last_at b' = foldl max (last_at b1) ts" "last_at b1 \<le> last_at b'" "0 \<le> tokens b'"
    using Cons.IH [OF rest [folded n(2)]] one(3) Cons.prems by auto
  have le: "last_at b \<le> last_at b1" using one(2) by simp
  have "per_sec * secs (last_at b' - last_at b1) + per_sec * secs (last_at b1 - last_at b)
      = per_sec * secs (last_at b' - last_at b)"
    using secs_add [OF le ih(3)] by (simp flip: distrib_left)
  with ih(1) one(1) n(1) have "of_nat n + tokens b' \<le> tokens b + per_sec * secs (last_at b' - last_at b)"
    by (auto split: if_splits)
  with ih le one(2) show ?case by auto
qed

text \<open>
  A rate limit holds under any pattern of calls: however many times a token is asked for, and
  even when the clock readings arrive out of order, the number granted from a full bucket is at
  most the burst plus the refill of the time that passed.
\<close>

theorem bucket_rate:
  assumes "run_takes (full_bucket cap t0) cap per_sec ts = (n, b)" and "0 \<le> per_sec" and "0 \<le> cap"
  shows "of_nat n \<le> cap + per_sec * secs (foldl max t0 ts - t0)"
proof -
  have f: "tokens (full_bucket cap t0) = cap" "last_at (full_bucket cap t0) = t0"
    by (simp_all add: full_bucket_def)
  have "0 \<le> tokens (full_bucket cap t0)" using assms(3) f by simp
  from run_takes_bound [OF assms(1) this assms(2,3), unfolded f]
  have "of_nat n + tokens b \<le> cap + per_sec * secs (last_at b - t0) \<and> last_at b = foldl max t0 ts
      \<and> 0 \<le> tokens b" by blast
  then have "of_nat n + tokens b \<le> cap + per_sec * secs (foldl max t0 ts - t0)" "0 \<le> tokens b"
    by metis+
  then show ?thesis by linarith
qed

theorem bucket_rate_witness:
  "(of_nat 3 :: rat) \<le> 2 + 1 * secs (foldl max 0 [0, 1, 2, 1000000000, 3] - 0)"
proof -
  have "run_takes (full_bucket 2 0) 2 1 [0, 1, 2, 1000000000, 3]
      = (3, snd (run_takes (full_bucket 2 0) 2 1 [0, 1, 2, 1000000000, 3]))"
    by (simp add: full_bucket_def take_token_def secs_def)
  from bucket_rate [OF this] show ?thesis by simp
qed

section \<open>Circuit breaker\<close>

text \<open>Every access to the state, in the order the locks are taken.\<close>

datatype rt_op = OpAllows string
  | OpRecord string "provider_error option" duration
  | OpRateLimit string rate_limit_snapshot
  | OpAcquire string "effective_budget option" duration
  | OpRequest loaded string string call_context

fun run_op :: "calendar \<Rightarrow> ('s \<Rightarrow> string \<Rightarrow> window_key \<Rightarrow> u64 \<Rightarrow> dims \<Rightarrow> 's) \<Rightarrow> rt_op \<times> clock
    \<Rightarrow> 's runtime \<Rightarrow> 's runtime" where
  "run_op cal add (OpAllows v, c) rt = snd (breaker_allows rt v c)"
| "run_op cal add (OpRecord v e d, c) rt = record_result cal v e d c rt"
| "run_op cal add (OpRateLimit v s, c) rt = record_rate_limit cal v s c rt"
| "run_op cal add (OpAcquire v b d, c) rt = fst (snd (acquire rt v b d c))"
| "run_op cal add (OpRequest l v m x, c) rt = record_request cal add l v m x c rt"

inductive reachable :: "calendar \<Rightarrow> ('s \<Rightarrow> string \<Rightarrow> window_key \<Rightarrow> u64 \<Rightarrow> dims \<Rightarrow> 's) \<Rightarrow> 's runtime \<Rightarrow> bool"
  for cal add where
  start: "reachable cal add (new_runtime s thr cd)"
| step: "reachable cal add rt \<Longrightarrow> reachable cal add (run_op cal add x rt)"

inductive_cases reachableE: "reachable cal add rt"

lemma runtime_simps [simp]:
  "vendors (with_vendor v f rt) = (vendors rt)(v := f (vendors rt v))"
  "threshold (with_vendor v f rt) = threshold rt" "cooldown (with_vendor v f rt) = cooldown rt"
  "store (with_vendor v f rt) = store rt" "rt_limiters (with_vendor v f rt) = rt_limiters rt"
  by (simp_all add: with_vendor_def)

lemma acquire_frame [simp]:
  "vendors (fst (snd (acquire rt v b d c))) = vendors rt"
  "threshold (fst (snd (acquire rt v b d c))) = threshold rt"
  "cooldown (fst (snd (acquire rt v b d c))) = cooldown rt"
  "store (fst (snd (acquire rt v b d c))) = store rt"
  by (auto simp: acquire_def Let_def split: prod.splits)

lemma request_frame [simp]:
  "vendors (record_request cal add l v m x c rt) = vendors rt"
  "threshold (record_request cal add l v m x c rt) = threshold rt"
  "cooldown (record_request cal add l v m x c rt) = cooldown rt"
  by (simp_all add: record_request_def Let_def)

lemma allows_frame [simp]:
  "threshold (snd (breaker_allows rt v c)) = threshold rt"
  "cooldown (snd (breaker_allows rt v c)) = cooldown rt"
  "store (snd (breaker_allows rt v c)) = store rt"
  "rt_limiters (snd (breaker_allows rt v c)) = rt_limiters rt"
  "st_breaker (vendors (snd (breaker_allows rt v c)) w)
     = (if w = v then snd (breaker_next (st_breaker (vendors rt v)) (inst c)) else st_breaker (vendors rt w))"
  "st_exhausted_until (vendors (snd (breaker_allows rt v c)) w) = st_exhausted_until (vendors rt w)"
  by (simp_all add: breaker_allows_def Let_def case_prod_unfold)

lemma record_frame [simp]:
  "threshold (record_result cal v e d c rt) = threshold rt"
  "cooldown (record_result cal v e d c rt) = cooldown rt"
  "store (record_result cal v e d c rt) = store rt"
  "threshold (record_rate_limit cal v s c rt) = threshold rt"
  "cooldown (record_rate_limit cal v s c rt) = cooldown rt"
  "w \<noteq> v \<Longrightarrow> vendors (record_result cal v e d c rt) w = vendors rt w"
  by (simp_all add: record_result_def record_rate_limit_def)

lemma rate_limit_breaker [simp]:
  "st_breaker (vendors (record_rate_limit cal v s c rt) w) = st_breaker (vendors rt w)"
  by (simp add: record_rate_limit_def)

lemma record_breaker:
  "st_breaker (vendors (record_result cal v e d c rt) v) =
     (if (case e of None \<Rightarrow> False | Some e \<Rightarrow> breaker_failure e)
      then if composite v then st_breaker (vendors rt v)
           else trip (threshold rt) (inst c + cooldown rt) (st_breaker (vendors rt v))
      else Closed 0)"
  by (simp add: record_result_def Let_def)

lemmas rt_frame = acquire_frame request_frame allows_frame record_frame

fun breaker_ok :: "u32 \<Rightarrow> breaker \<Rightarrow> bool" where
  "breaker_ok thr (Closed n) = (n < thr)"
| "breaker_ok thr (Open u) = True"
| "breaker_ok thr (HalfOpen p) = p"

definition runtime_ok :: "'s runtime \<Rightarrow> bool" where
  "runtime_ok rt \<longleftrightarrow> 0 < threshold rt \<and> (\<forall>v. breaker_ok (threshold rt) (st_breaker (vendors rt v)))"

lemma breaker_next_ok: "breaker_ok thr b \<Longrightarrow> breaker_ok thr (snd (breaker_next b now))"
  by (cases "(b, now)" rule: breaker_next.cases) auto

lemma trip_ok: "breaker_ok thr (trip thr u b)"
  by (cases b) (auto simp: trip_def)

lemma record_ok:
  assumes "0 < threshold rt" and "breaker_ok (threshold rt) (st_breaker (vendors rt w))"
  shows "breaker_ok (threshold rt) (st_breaker (vendors (record_result cal v e d c rt) w))"
  using assms trip_ok by (cases "w = v") (auto simp: record_breaker)

lemma run_op_ok: "runtime_ok rt \<Longrightarrow> runtime_ok (run_op cal add x rt)"
  by (cases "(cal, add, x, rt)" rule: run_op.cases)
    (auto simp: runtime_ok_def breaker_next_ok record_ok)

lemma reachable_ok: "reachable cal add rt \<Longrightarrow> runtime_ok rt"
proof (induction rule: reachable.induct)
  case (start s thr cd)
  have "0 < max thr 1" for thr :: u32
    by (cases "thr = 0") (auto simp: max_def word_gt_0)
  then show ?case by (simp add: runtime_ok_def new_runtime_def default_state_def)
qed (rule run_op_ok)

text \<open>
  C27: in every state that any interleaving of requests can reach, a closed breaker has counted
  fewer failures than the threshold, a half-open one has its probe under way, and the failure
  count reported for a vendor never exceeds the threshold.
\<close>

theorem reachable_breakers:
  assumes "reachable cal add rt"
  shows "breaker_ok (threshold rt) (st_breaker (vendors rt v))
    \<and> vh_consecutive (health cal usage rt v b c) \<le> threshold rt"
proof -
  have "breaker_ok (threshold rt) (st_breaker (vendors rt v))"
    using reachable_ok [OF assms] by (simp add: runtime_ok_def)
  then show ?thesis
    by (cases "st_breaker (vendors rt v)") (simp_all add: health_def Let_def)
qed

definition sample_calendar :: calendar where
  "sample_calendar = \<lparr>day_text = (\<lambda>_. ''2026-01-01''), month_text = (\<lambda>_. ''2026-01''),
     next_day = (\<lambda>_. None), next_month = (\<lambda>_. None), chrono_of_std = (\<lambda>d. Some (int d))\<rparr>"

theorem reachable_breakers_witness:
  "vh_consecutive (health sample_calendar mem_total (new_runtime empty_store 5 0) ''alchemy'' None
     \<lparr>inst = 0, utc = 0\<rparr>) \<le> 5"
proof -
  have "reachable sample_calendar mem_add (new_runtime empty_store 5 0)" by (rule reachable.start)
  from reachable_breakers [OF this, of "''alchemy''" mem_total None "\<lparr>inst = 0, utc = 0\<rparr>"]
  show ?thesis by (simp add: new_runtime_def)
qed

section \<open>Opening\<close>

text \<open>A run of results of one vendor, each with its latency and the clock it is recorded at.\<close>

fun record_all :: "calendar \<Rightarrow> string \<Rightarrow> (provider_error option \<times> duration \<times> clock) list
    \<Rightarrow> 's runtime \<Rightarrow> 's runtime" where
  "record_all cal v [] rt = rt"
| "record_all cal v ((e, d, c) # xs) rt = record_all cal v xs (record_result cal v e d c rt)"

definition fails :: "provider_error option \<times> duration \<times> clock \<Rightarrow> bool" where
  "fails x = (case fst x of None \<Rightarrow> False | Some e \<Rightarrow> breaker_failure e)"

definition clock_of :: "provider_error option \<times> duration \<times> clock \<Rightarrow> clock" where
  "clock_of x = snd (snd x)"

text \<open>How many more failures open the breaker.\<close>

fun failures_left :: "u32 \<Rightarrow> breaker \<Rightarrow> nat" where
  "failures_left thr (Closed n) = unat thr - unat n"
| "failures_left thr _ = 1"

lemma trip_left:
  assumes "breaker_ok thr b"
  shows "failures_left thr b \<le> 1 \<Longrightarrow> trip thr u b = Open u"
    and "1 < failures_left thr b \<Longrightarrow> failures_left thr (trip thr u b) = failures_left thr b - 1"
proof -
  have n: "unat (n + 1) = unat n + 1" if "n < thr" for n
  proof -
    have "unat thr < 2 ^ LENGTH(32)" by (rule unsigned_less)
    with that have "unat n + unat (1 :: u32) < 2 ^ LENGTH(32)" by (simp add: word_less_nat_alt)
    from unat_add_fits [of n 1] this show ?thesis by simp
  qed
  {
    assume "failures_left thr b \<le> 1"
    with assms n show "trip thr u b = Open u"
      by (cases b) (auto simp: trip_def word_less_nat_alt)
  next
    assume "1 < failures_left thr b"
    with assms n show "failures_left thr (trip thr u b) = failures_left thr b - 1"
      by (cases b) (auto simp: trip_def word_less_nat_alt)
  }
qed

lemma record_all_opens:
  assumes "runtime_ok rt" and "\<not> composite v" and "list_all fails xs" and "xs \<noteq> []"
    and "failures_left (threshold rt) (st_breaker (vendors rt v)) \<le> length xs"
  shows "st_breaker (vendors (record_all cal v xs rt) v) = Open (inst (clock_of (last xs)) + cooldown rt)"
  using assms
proof (induction xs arbitrary: rt)
  case (Cons x xs)
  obtain e d c where x: "x = (e, d, c)" by (cases x) auto
  let ?rt = "record_result cal v e d c rt"
  have b: "st_breaker (vendors ?rt v) = trip (threshold rt) (inst c + cooldown rt) (st_breaker (vendors rt v))"
    using Cons.prems x by (simp add: record_breaker fails_def)
  have ok: "breaker_ok (threshold rt) (st_breaker (vendors rt v))"
    using Cons.prems(1) by (simp add: runtime_ok_def)
  show ?case
  proof (cases "xs = []")
    case True
    with Cons.prems(5) ok trip_left(1) x b show ?thesis by (simp add: clock_of_def)
  next
    case False
    then have "Suc 0 \<le> length xs" by (cases xs) auto
    have "failures_left (threshold rt) (st_breaker (vendors ?rt v)) \<le> length xs"
    proof (cases "failures_left (threshold rt) (st_breaker (vendors rt v)) \<le> 1")
      case True
      with ok \<open>Suc 0 \<le> length xs\<close> show ?thesis by (simp add: b trip_left(1))
    next
      case more: False
      with ok Cons.prems(5) show ?thesis by (simp add: b trip_left(2))
    qed
    moreover have "runtime_ok ?rt"
      using Cons.prems(1) by (auto simp: runtime_ok_def intro: record_ok)
    ultimately have "st_breaker (vendors (record_all cal v xs ?rt) v)
        = Open (inst (clock_of (last xs)) + cooldown ?rt)"
      using Cons.IH Cons.prems False by auto
    with x False show ?thesis by simp
  qed
qed simp

text \<open>
  A vendor that fails as many times in a row as the threshold is taken out of service until
  the cooldown after the last failure has passed, whatever state it was in before, and gets one
  probe after it. The routed pseudo-vendor \<open>rpc\<close> is never taken out.
\<close>

theorem breaker_opens:
  assumes "reachable cal add rt" and "list_all fails xs" and "unat (threshold rt) \<le> length xs"
  shows "(\<not> composite v \<longrightarrow>
      fst (breaker_allows (record_all cal v xs rt) v c)
        = (inst (clock_of (last xs)) + cooldown rt \<le> inst c))
    \<and> (composite v \<longrightarrow> st_breaker (vendors (record_all cal v xs rt) v) = st_breaker (vendors rt v))"
proof (intro conjI impI)
  assume v: "\<not> composite v"
  have ok: "runtime_ok rt" by (rule reachable_ok [OF assms(1)])
  then have "0 < unat (threshold rt)" by (simp add: runtime_ok_def word_less_nat_alt)
  with assms(3) have ne: "xs \<noteq> []" by auto
  have "failures_left (threshold rt) (st_breaker (vendors rt v)) \<le> unat (threshold rt)"
    using \<open>0 < unat (threshold rt)\<close> by (cases "st_breaker (vendors rt v)") auto
  from record_all_opens [OF ok v assms(2) ne, of cal] this assms(3)
  show "fst (breaker_allows (record_all cal v xs rt) v c)
      = (inst (clock_of (last xs)) + cooldown rt \<le> inst c)"
    by (simp add: breaker_allows_def Let_def case_prod_unfold)
next
  assume v: "composite v"
  show "st_breaker (vendors (record_all cal v xs rt) v) = st_breaker (vendors rt v)"
    using assms(2)
  proof (induction xs arbitrary: rt)
    case (Cons x xs)
    then show ?case
      using v by (cases x) (simp add: record_breaker fails_def)
  qed simp
qed

theorem breaker_opens_witness:
  "\<not> fst (breaker_allows (record_all sample_calendar ''alchemy''
      [(Some (Transient ''timeout''), 5, \<lparr>inst = 100, utc = 0\<rparr>),
       (Some (Fatal ''bad''), 5, \<lparr>inst = 200, utc = 0\<rparr>)] (new_runtime empty_store 2 30))
      ''alchemy'' \<lparr>inst = 229, utc = 0\<rparr>)"
proof -
  have "reachable sample_calendar mem_add (new_runtime empty_store 2 30)" by (rule reachable.start)
  moreover have "threshold (new_runtime empty_store 2 30) = 2" by (simp add: new_runtime_def)
  ultimately show ?thesis
    using breaker_opens [of sample_calendar mem_add "new_runtime empty_store 2 30"
        "[(Some (Transient ''timeout''), 5, \<lparr>inst = 100, utc = 0\<rparr>),
          (Some (Fatal ''bad''), 5, \<lparr>inst = 200, utc = 0\<rparr>)]" "''alchemy''" "\<lparr>inst = 229, utc = 0\<rparr>"]
    by (simp add: fails_def composite_def clock_of_def new_runtime_def)
qed

section \<open>Probing\<close>

fun records :: "string \<Rightarrow> rt_op \<times> clock \<Rightarrow> bool" where
  "records v (OpRecord w _ _, _) = (w = v)"
| "records v _ = False"

lemma probing_stays:
  "\<not> records v x \<Longrightarrow> st_breaker (vendors rt v) = HalfOpen True \<Longrightarrow>
    st_breaker (vendors (run_op cal add x rt) v) = HalfOpen True"
  by (cases "(cal, add, x, rt)" rule: run_op.cases) auto

lemma probing_stays_all:
  "list_all (\<lambda>x. \<not> records v x) xs \<Longrightarrow> st_breaker (vendors rt v) = HalfOpen True \<Longrightarrow>
    st_breaker (vendors (fold (run_op cal add) xs rt) v) = HalfOpen True"
  by (induction xs arbitrary: rt) (simp_all add: probing_stays)

text \<open>
  C28: an open breaker past its cooldown lets exactly one request through: whatever happens next,
  at whatever time, every later request is refused until a result of that vendor is recorded.
\<close>

theorem single_probe:
  assumes "st_breaker (vendors rt v) = Open u" and "u \<le> inst c"
    and "list_all (\<lambda>x. \<not> records v x) xs"
  shows "fst (breaker_allows rt v c)
    \<and> \<not> fst (breaker_allows (fold (run_op cal add) xs (snd (breaker_allows rt v c))) v c')"
proof -
  have "st_breaker (vendors (snd (breaker_allows rt v c)) v) = HalfOpen True"
    using assms(1,2) by simp
  from probing_stays_all [OF assms(3) this] show ?thesis
    using assms(1,2) by (simp add: breaker_allows_def Let_def case_prod_unfold)
qed

definition open_runtime :: "memory_store runtime" where
  "open_runtime = with_vendor ''alchemy'' (\<lambda>s. s\<lparr>st_breaker := Open 100\<rparr>) (new_runtime empty_store 5 30)"

theorem single_probe_witness:
  "\<not> fst (breaker_allows (snd (breaker_allows open_runtime ''alchemy'' \<lparr>inst = 130, utc = 0\<rparr>))
     ''alchemy'' \<lparr>inst = 10 ^ 18, utc = 0\<rparr>)"
  using single_probe [of open_runtime "''alchemy''" 100 "\<lparr>inst = 130, utc = 0\<rparr>" "[]"]
  by (simp add: open_runtime_def)

section \<open>The quota guard\<close>

text \<open>
  The quota guard lets a vendor through exactly when no mark excludes it and what its requests
  of the day and of the month cost is still below the effective budget of each, unless the
  operator allows overage. Requests of other vendors have no influence.
\<close>

theorem quota_guard:
  assumes "memory.spent v (window_day cal (utc c)) xs < 2 ^ 64"
    and "memory.spent v (window_month cal (utc c)) xs < 2 ^ 64"
  shows "quota_block cal mem_total (rt\<lparr>store := memory.add_all empty_store xs\<rparr>) v (Some b) c = None
    \<longleftrightarrow> (\<forall>t. st_exhausted_until (vendors rt v) = Some t \<longrightarrow> t \<le> utc c)
      \<and> (eb_on_exhausted b = AllowOverage
        \<or> (\<forall>x. daily (effective b) = Some x \<longrightarrow> memory.spent v (window_day cal (utc c)) xs < unat x)
          \<and> (\<forall>x. monthly (effective b) = Some x \<longrightarrow>
                memory.spent v (window_month cal (utc c)) xs < unat x))"
proof -
  have "unat (mem_total (memory.add_all empty_store xs) v w) = memory.spent v w xs"
    if "memory.spent v w xs < 2 ^ 64" for w
    using memory.total_add_all [OF mem_valid_empty, of v w xs] that
    by (simp add: mem_total_def empty_store_def)
  with assms show ?thesis
    by (auto simp: quota_block_def word_le_nat_alt Let_def split: option.splits)
qed

definition sample_budget :: effective_budget where
  "sample_budget = \<lparr>eb_unit = UnitCredits, eb_reset = CalendarMonth, eb_limit = no_budget,
     eb_cap = no_budget, eb_reserve_pct = 10, eb_on_exhausted = Skip,
     effective = no_budget\<lparr>monthly := Some 30\<rparr>, eb_alert_pct = []\<rparr>"

theorem quota_guard_witness:
  "quota_block sample_calendar mem_total
     ((new_runtime empty_store 5 30)\<lparr>store := memory.add_all empty_store
        [(''alchemy'', Month ''2026-01'', 30, sample_dims)]\<rparr>)
     ''alchemy'' (Some sample_budget) \<lparr>inst = 0, utc = 0\<rparr> \<noteq> None"
  using quota_guard [of "''alchemy''" sample_calendar "\<lparr>inst = 0, utc = 0\<rparr>"
      "[(''alchemy'', Month ''2026-01'', 30, sample_dims)]" "new_runtime empty_store 5 30" sample_budget]
  by (simp add: sample_calendar_def sample_budget_def window_day_def window_month_def)

end
