(* ===== verification/Router.thy ===== *)
theory Router
  imports RuntimeState
begin

text \<open>
  The router (\<open>crates/routing/src/registry.rs\<close>, \<open>crates/routing/src/router.rs\<close>): which vendors
  can serve a request, one attempt on one vendor, and the four ways to combine attempts.

  A call to a vendor is an oracle \<open>call\<close>: what it replies, how long it takes, what every other
  task does to the runtime state meanwhile (\<open>during\<close>) and the jitter before a retry. An oracle
  is asked by the position of the candidate and the number of the try. Attempts that run
  concurrently start at the same time, and their effects on the state are applied in list order.
\<close>

section \<open>Registered ports\<close>

record ('p, 'q) provider_registry =
  pr_ports :: "((capability \<times> chain_id option) \<times> (string \<times> 'p port_handle) list) list"
  pr_vendors :: "(string \<times> vendor_meta) list"
  pr_quota_reporters :: "(string \<times> 'q) list"

definition empty_registry :: "('p, 'q) provider_registry" where
  "empty_registry = \<lparr>pr_ports = [], pr_vendors = [], pr_quota_reporters = []\<rparr>"

definition add_port :: "string \<Rightarrow> chain_id option \<times> 'p port_handle
    \<Rightarrow> ((capability \<times> chain_id option) \<times> (string \<times> 'p port_handle) list) list
    \<Rightarrow> ((capability \<times> chain_id option) \<times> (string \<times> 'p port_handle) list) list" where
  "add_port vendor = (\<lambda>(chain, h) ports.
     let k = (handle_capability h, chain)
     in AList.update k (AList.update vendor h (unwrap_or [] (map_of ports k))) ports)"

definition registry_add ::
    "('p, 'q) registration \<Rightarrow> ('p, 'q) provider_registry \<Rightarrow> ('p, 'q) provider_registry" where
  "registry_add r reg = (let v = vendor_id (reg_vendor r) in
     reg\<lparr>pr_ports := fold (add_port v) (reg_ports r) (pr_ports reg),
       pr_quota_reporters := (case reg_quota_reporter r of
           None \<Rightarrow> pr_quota_reporters reg | Some q \<Rightarrow> AList.update v q (pr_quota_reporters reg)),
       pr_vendors := AList.update v (reg_vendor r) (pr_vendors reg)\<rparr>)"

definition registry_of :: "('p, 'q) registration list \<Rightarrow> ('p, 'q) provider_registry" where
  "registry_of rs = fold registry_add rs empty_registry"

definition port_at :: "('p, 'q) provider_registry \<Rightarrow> capability \<Rightarrow> chain_id option \<Rightarrow> string
    \<Rightarrow> 'p port_handle option" where
  "port_at reg cap chain vendor =
     Option.bind (map_of (pr_ports reg) (cap, chain)) (\<lambda>m. map_of m vendor)"

definition registry_get :: "('p, 'q) provider_registry \<Rightarrow> capability \<Rightarrow> chain_id option \<Rightarrow> string
    \<Rightarrow> 'p port_handle option" where
  "registry_get reg cap chain vendor = or_opt
     (Option.bind chain (\<lambda>c. port_at reg cap (Some c) vendor)) (port_at reg cap None vendor)"

definition registered_for ::
    "('p, 'q) provider_registry \<Rightarrow> capability \<Rightarrow> chain_id option \<Rightarrow> string list" where
  "registered_for reg cap chain = remdups_adj (sort (map fst
     (unwrap_or [] (Option.bind chain (\<lambda>c. map_of (pr_ports reg) (cap, Some c)))
      @ unwrap_or [] (map_of (pr_ports reg) (cap, None)))))"

section \<open>Requests and answers\<close>

datatype source_kind = Primary | Fallback | Aggregate | Cache

datatype attempt_outcome = AttemptOk | AttemptSkipped | AttemptFailed

record attempt =
  att_vendor :: string
  att_outcome :: attempt_outcome
  att_reason :: "string option"
  att_code :: "error_code option"
  att_latency_ms :: "u64 option"

record provenance =
  pv_chain :: "chain_id option"
  pv_provider :: "string option"
  pv_tried :: "attempt list"
  pv_block :: "block_ref option"
  pv_finality :: "finality option"
  pv_source :: source_kind
  pv_cached :: bool
  pv_latency_ms :: u64
  pv_as_of :: datetime

definition new_provenance :: "source_kind \<Rightarrow> datetime \<Rightarrow> provenance" where
  "new_provenance s now = \<lparr>pv_chain = None, pv_provider = None, pv_tried = [], pv_block = None,
     pv_finality = None, pv_source = s, pv_cached = False, pv_latency_ms = 0, pv_as_of = now\<rparr>"

record router_options =
  attempt_timeout :: duration
  retries :: u32
  breaker_threshold :: u32
  breaker_cooldown :: duration
  max_rate_wait :: duration

definition default_options :: router_options where
  "default_options = \<lparr>attempt_timeout = from_secs 10, retries = 1, breaker_threshold = 5,
     breaker_cooldown = from_secs 30, max_rate_wait = from_secs 1\<rparr>"

definition attempt_timeout_for :: "router_options \<Rightarrow> string \<Rightarrow> duration" where
  "attempt_timeout_for o1 vendor =
     (if vendor = ''public'' then min (attempt_timeout o1) (from_secs 6) else attempt_timeout o1)"

record route_req =
  rq_capability :: capability
  rq_chain :: "chain_id option"
  rq_op :: "string option"
  rq_confirm_not_found :: bool

definition new_req :: "capability \<Rightarrow> route_req" where
  "new_req cap = \<lparr>rq_capability = cap, rq_chain = None, rq_op = None, rq_confirm_not_found = False\<rparr>"

record 't routed =
  rd_value :: 't
  rd_provenance :: provenance

record route_error =
  re_error :: domain_error
  re_attempts :: "attempt list"

record 't quorum_outcome =
  qo_value :: 't
  qo_agreeing :: nat
  qo_required :: nat

text \<open>What routing reads: configuration, registered ports, options, calendar and counters.\<close>

record ('s, 'p, 'q) router_env =
  r_config :: loaded
  r_registry :: "('p, 'q) provider_registry"
  r_options :: router_options
  r_calendar :: calendar
  r_usage :: "'s \<Rightarrow> string \<Rightarrow> window_key \<Rightarrow> u64"

section \<open>Candidates\<close>

definition skip_row :: "string \<Rightarrow> string \<Rightarrow> attempt" where
  "skip_row vendor why = \<lparr>att_vendor = vendor, att_outcome = AttemptSkipped, att_reason = Some why,
     att_code = None, att_latency_ms = None\<rparr>"

text \<open>One vendor of the order: its port, or why it is skipped. Only the breaker changes.\<close>

definition consider_vendor :: "('s, 'p, 'q) router_env \<Rightarrow> port_trait \<Rightarrow> route_req \<Rightarrow> clock \<Rightarrow> string
    \<Rightarrow> 's runtime \<Rightarrow> (string + 'p) \<times> 's runtime" where
  "consider_vendor rx t req c vendor rt =
     (case vendor_status (r_config rx) vendor of
        MissingKey vars \<Rightarrow> (Inl (''missing_key ('' @ join '', '' vars @ '')''), rt)
      | Disabled unverified \<Rightarrow>
          (Inl (if unverified then ''disabled (free tier unverified)'' else ''disabled''), rt)
      | UnknownVendor \<Rightarrow> (Inl ''unknown_vendor'', rt)
      | Active \<Rightarrow>
          (case Option.bind (registry_get (r_registry rx) (rq_capability req) (rq_chain req) vendor)
                  (extract_port t) of
             None \<Rightarrow> (Inl ''not_available_for_chain'', rt)
           | Some port \<Rightarrow>
               (case quota_block (r_calendar rx) (r_usage rx) rt vendor
                       (effective_budget_of (r_config rx) vendor) c of
                  Some why \<Rightarrow> (Inl why, rt)
                | None \<Rightarrow> (let (ok, rt') = breaker_allows rt vendor c
                    in (if ok then Inr port else Inl ''breaker_open'', rt')))))"

fun consider_all :: "('s, 'p, 'q) router_env \<Rightarrow> port_trait \<Rightarrow> route_req \<Rightarrow> clock \<Rightarrow> string list
    \<Rightarrow> 's runtime \<Rightarrow> (string \<times> 'p) list \<times> attempt list \<times> 's runtime" where
  "consider_all rx t req c [] rt = ([], [], rt)"
| "consider_all rx t req c (v # vs) rt =
     (let (r, rt1) = consider_vendor rx t req c v rt;
          (list, skipped, rt2) = consider_all rx t req c vs rt1
      in case r of
           Inl why \<Rightarrow> (list, skip_row v why # skipped, rt2)
         | Inr port \<Rightarrow> ((v, port) # list, skipped, rt2))"

definition order_of :: "('s, 'p, 'q) router_env \<Rightarrow> route_req \<Rightarrow> string list" where
  "order_of rx req =
     order_vendors (resolve_order (r_config rx) (rq_capability req) (rq_chain req) (rq_op req))"

section \<open>One attempt\<close>

record ('s, 't) call =
  reply :: "provider_error + 't"
  took :: duration
  during :: "'s runtime \<Rightarrow> 's runtime"
  jitter_ms :: nat

definition err_of :: "provider_error + 't \<Rightarrow> provider_error option" where
  "err_of r = (case r of Inl e \<Rightarrow> Some e | Inr _ \<Rightarrow> None)"

definition attempt_row :: "string \<Rightarrow> attempt_outcome \<Rightarrow> string option \<Rightarrow> error_code option \<Rightarrow> nat
    \<Rightarrow> clock \<Rightarrow> attempt" where
  "attempt_row vendor out why code started c = \<lparr>att_vendor = vendor, att_outcome = out,
     att_reason = why, att_code = code, att_latency_ms = Some (as_millis (inst c - started))\<rparr>"

definition timed :: "duration \<Rightarrow> ('s, 't) call \<Rightarrow> (provider_error + 't) \<times> duration" where
  "timed timeout x = (if took x \<le> timeout then (reply x, took x)
     else (Inl (Transient ''timeout''), timeout))"

text \<open>The loop of \<open>attempt\<close>, from try number \<open>n\<close> on.\<close>

function tries_from :: "('s, 'p, 'q) router_env \<Rightarrow> string \<Rightarrow> (nat \<Rightarrow> ('s, 't) call) \<Rightarrow> nat
    \<Rightarrow> 's runtime \<Rightarrow> clock \<Rightarrow> (provider_error + 't) \<times> 's runtime \<times> clock" where
  "tries_from rx v calls n rt c =
     (let (r, d) = timed (attempt_timeout_for (r_options rx) v) (calls n);
          c1 = advance c (inst c + d);
          rt1 = record_result (r_calendar rx) v (err_of r) d c1 (during (calls n) rt)
      in if (case r of Inl e \<Rightarrow> is_retryable e | Inr _ \<Rightarrow> False) \<and> n < unat (retries (r_options rx))
         then tries_from rx v calls (n + 1) rt1 (advance c1 (inst c1 + jitter_ms (calls n) * 1000000))
         else (r, rt1, c1))"
  by pat_completeness auto
termination
  by (relation "measure (\<lambda>(rx, v, calls, n, rt, c). unat (retries (r_options rx)) - n)") auto

declare tries_from.simps [simp del]

definition try_vendor :: "('s, 'p, 'q) router_env \<Rightarrow> string \<Rightarrow> (nat \<Rightarrow> ('s, 't) call) \<Rightarrow> 's runtime
    \<Rightarrow> clock \<Rightarrow> ((provider_error + 't) \<times> attempt) \<times> 's runtime \<times> clock" where
  "try_vendor rx v calls rt c =
     (let (ok, rt1, c1) = acquire rt v (effective_budget_of (r_config rx) v)
            (max_rate_wait (r_options rx)) c
      in if \<not> ok
         then ((Inl (RateLimited None),
             attempt_row v AttemptSkipped (Some ''local_rate_limit'') None (inst c) c1), rt1, c1)
         else let (r, rt2, c2) = tries_from rx v calls 0 rt1 c1
              in ((r, case r of
                     Inr _ \<Rightarrow> attempt_row v AttemptOk None None (inst c) c2
                   | Inl e \<Rightarrow> attempt_row v AttemptFailed
                       (Some (scrub (r_config rx) (show_provider_error e))) (Some (provider_code e))
                       (inst c) c2), rt2, c2))"

section \<open>Errors and provenance\<close>

definition provenance_of :: "route_req \<Rightarrow> attempt list \<Rightarrow> string option \<Rightarrow> string option \<Rightarrow> nat
    \<Rightarrow> clock \<Rightarrow> provenance" where
  "provenance_of req attempts winner head started c =
     (new_provenance (if winner \<noteq> None \<and> winner = head then Primary else Fallback) (utc c))
       \<lparr>pv_chain := rq_chain req, pv_provider := winner, pv_tried := attempts,
        pv_latency_ms := as_millis (inst c - started)\<rparr>"

definition missing_vars :: "attempt list \<Rightarrow> string list" where
  "missing_vars attempts = List.map_filter
     (\<lambda>a. Option.bind (att_reason a) (\<lambda>r.
        Option.bind (strip_prefix ''missing_key ('' r) (strip_suffix '')''))) attempts"

definition no_provider_error :: "route_req \<Rightarrow> attempt list \<Rightarrow> domain_error" where
  "no_provider_error req attempts =
     (let m = missing_vars attempts in
      (new_error UnsupportedCapability (''no usable provider for '' @ quoted (cap_as_str (rq_capability req))
         @ (case rq_chain req of None \<Rightarrow> [] | Some c \<Rightarrow> '' on '' @ show_chain c)))
      \<lparr>hint := Some (if m = [] then ''check the routing order and vendor status in the dashboard''
          else ''add an API key: '' @ join '' or '' m)\<rparr>)"

definition failed_rows :: "attempt list \<Rightarrow> attempt list" where
  "failed_rows attempts = filter (\<lambda>a. att_outcome a = AttemptFailed) attempts"

definition all_failed_error :: "provider_error \<Rightarrow> attempt list \<Rightarrow> domain_error" where
  "all_failed_error e attempts = with_hint (''last error: '' @ reason e)
     (new_error AllProvidersFailed (''all providers failed: '' @ join '', ''
        (map (\<lambda>a. att_vendor a @ '' ('' @ unwrap_or ''error'' (att_reason a) @ '')'') (failed_rows attempts))))"

definition route_error_of :: "route_req \<Rightarrow> provider_error option \<Rightarrow> attempt list \<Rightarrow> route_error" where
  "route_error_of req last_err attempts = \<lparr>re_error =
     (case last_err of
        None \<Rightarrow> if list_all (\<lambda>a. att_outcome a = AttemptSkipped) attempts
          then no_provider_error req attempts
          else new_error AllProvidersFailed ''all providers failed''
      | Some (Invalid m) \<Rightarrow> invalid m
      | Some NotFound \<Rightarrow> new_error ENotFound ''not found''
      | Some (RateLimited r) \<Rightarrow> domain_error_of (RateLimited r)
      | Some (QuotaExhausted r) \<Rightarrow> domain_error_of (QuotaExhausted r)
      | Some (Unsupported m) \<Rightarrow>
          if list_all (\<lambda>a. att_code a = Some UnsupportedCapability) (failed_rows attempts)
          then new_error UnsupportedCapability m
          else all_failed_error (Unsupported m) attempts
      | Some e \<Rightarrow> all_failed_error e attempts),
     re_attempts = attempts\<rparr>"

section \<open>Failover\<close>

fun failover_from :: "('s, 'p, 'q) router_env \<Rightarrow> route_req \<Rightarrow> string option \<Rightarrow> nat
    \<Rightarrow> ('p \<Rightarrow> nat \<Rightarrow> nat \<Rightarrow> ('s, 't) call) \<Rightarrow> nat \<Rightarrow> (string \<times> 'p) list \<Rightarrow> attempt list
    \<Rightarrow> provider_error option \<Rightarrow> bool \<Rightarrow> 's runtime \<Rightarrow> clock
    \<Rightarrow> (route_error + 't routed) \<times> 's runtime \<times> clock" where
  "failover_from rx req head started calls i [] attempts last_err nf rt c =
     (Inl (route_error_of req last_err attempts), rt, c)"
| "failover_from rx req head started calls i ((v, p) # cs) attempts last_err nf rt c =
     (let ((r, row), rt1, c1) = try_vendor rx v (calls p i) rt c;
          attempts1 = attempts @ [row]
      in case r of
           Inr x \<Rightarrow> (Inr \<lparr>rd_value = x,
             rd_provenance = provenance_of req attempts1 (Some v) head started c1\<rparr>, rt1, c1)
         | Inl e \<Rightarrow>
             if e = NotFound \<and> rq_confirm_not_found req \<and> \<not> nf
             then failover_from rx req head started calls (i + 1) cs attempts1 (Some NotFound) True rt1 c1
             else if allows_failover e
             then failover_from rx req head started calls (i + 1) cs attempts1 (Some e) nf rt1 c1
             else (Inl (route_error_of req (Some e) attempts1), rt1, c1))"

definition failover :: "('s, 'p, 'q) router_env \<Rightarrow> port_trait \<Rightarrow> route_req
    \<Rightarrow> ('p \<Rightarrow> nat \<Rightarrow> nat \<Rightarrow> ('s, 't) call) \<Rightarrow> 's runtime \<Rightarrow> clock
    \<Rightarrow> (route_error + 't routed) \<times> 's runtime \<times> clock" where
  "failover rx t req calls rt c =
     (let (cs, skipped, rt1) = consider_all rx t req c (order_of rx req) rt
      in failover_from rx req (hd_opt (order_of rx req)) (inst c) calls 0 cs skipped None False rt1 c)"

section \<open>Asking several vendors\<close>

text \<open>\<open>join_all\<close>: all start at \<open>c\<close>; the wave ends with the last of them.\<close>

fun wave :: "('s, 'p, 'q) router_env \<Rightarrow> ('p \<Rightarrow> nat \<Rightarrow> nat \<Rightarrow> ('s, 't) call) \<Rightarrow> nat
    \<Rightarrow> (string \<times> 'p) list \<Rightarrow> 's runtime \<Rightarrow> clock \<Rightarrow> clock
    \<Rightarrow> (string \<times> (provider_error + 't) \<times> attempt) list \<times> 's runtime \<times> clock" where
  "wave rx calls i [] rt c latest = ([], rt, latest)"
| "wave rx calls i ((v, p) # cs) rt c latest =
     (let (ra, rt1, c1) = try_vendor rx v (calls p i) rt c;
          (rs, rt2, c2) = wave rx calls (i + 1) cs rt1 c (if inst latest < inst c1 then c1 else latest)
      in ((v, ra) # rs, rt2, c2))"

definition note_result :: "string \<times> (provider_error + 't) \<times> attempt
    \<Rightarrow> (string \<times> 't) list \<times> attempt list \<times> provider_error option
    \<Rightarrow> (string \<times> 't) list \<times> attempt list \<times> provider_error option" where
  "note_result = (\<lambda>(v, r, row) (oks, attempts, last_err).
     case r of Inr x \<Rightarrow> (oks @ [(v, x)], attempts @ [row], last_err)
       | Inl e \<Rightarrow> (oks, attempts @ [row], Some e))"

text \<open>After the first wave, one more candidate at a time until \<open>n\<close> have answered.\<close>

fun backfill :: "('s, 'p, 'q) router_env \<Rightarrow> ('p \<Rightarrow> nat \<Rightarrow> nat \<Rightarrow> ('s, 't) call) \<Rightarrow> nat \<Rightarrow> nat
    \<Rightarrow> (string \<times> 'p) list \<Rightarrow> (string \<times> 't) list \<times> attempt list \<times> provider_error option
    \<Rightarrow> 's runtime \<Rightarrow> clock
    \<Rightarrow> ((string \<times> 't) list \<times> attempt list \<times> provider_error option) \<times> 's runtime \<times> clock" where
  "backfill rx calls n i [] st rt c = (st, rt, c)"
| "backfill rx calls n i ((v, p) # cs) st rt c =
     (if n \<le> length (fst st) then (st, rt, c)
      else let (ra, rt1, c1) = try_vendor rx v (calls p i) rt c
           in backfill rx calls n (i + 1) cs (note_result (v, ra) st) rt1 c1)"

definition collect_n :: "('s, 'p, 'q) router_env \<Rightarrow> port_trait \<Rightarrow> route_req \<Rightarrow> nat
    \<Rightarrow> ('p \<Rightarrow> nat \<Rightarrow> nat \<Rightarrow> ('s, 't) call) \<Rightarrow> 's runtime \<Rightarrow> clock
    \<Rightarrow> ((string \<times> 't) list \<times> attempt list \<times> provider_error option) \<times> 's runtime \<times> clock" where
  "collect_n rx t req n calls rt c =
     (let (cs, skipped, rt1) = consider_all rx t req c (order_of rx req) rt;
          (rs, rt2, c2) = wave rx calls 0 (take n cs) rt1 c c
      in backfill rx calls n (length (take n cs)) (drop n cs)
           (fold note_result rs ([], skipped, None)) rt2 c2)"

definition skipped_first :: "attempt list \<Rightarrow> attempt list" where
  "skipped_first attempts = filter (\<lambda>a. att_outcome a = AttemptSkipped) attempts
     @ filter (\<lambda>a. att_outcome a \<noteq> AttemptSkipped) attempts"

definition conflict_error :: "(string \<times> 't) list \<Rightarrow> ('t \<Rightarrow> string) \<Rightarrow> domain_error" where
  "conflict_error oks ky = new_error Conflict (''providers disagree: ''
     @ join '', '' (map (\<lambda>(v, x). v @ ''='' @ ky x) oks))"

definition set_source :: "source_kind \<Rightarrow> provenance \<Rightarrow> provenance" where
  "set_source s p = p\<lparr>pv_source := s\<rparr>"

definition quorum :: "('s, 'p, 'q) router_env \<Rightarrow> port_trait \<Rightarrow> route_req \<Rightarrow> nat \<Rightarrow> ('t \<Rightarrow> string)
    \<Rightarrow> ('p \<Rightarrow> nat \<Rightarrow> nat \<Rightarrow> ('s, 't) call) \<Rightarrow> 's runtime \<Rightarrow> clock
    \<Rightarrow> (route_error + 't quorum_outcome routed) \<times> 's runtime \<times> clock" where
  "quorum rx t req n ky calls rt c =
     (let ((oks, attempts, last_err), rt1, c1) = collect_n rx t req (max n 1) calls rt c
      in (case oks of
            [] \<Rightarrow> Inl (route_error_of req last_err attempts)
          | (v, x) # rest \<Rightarrow>
              if list_ex (\<lambda>(_, y). ky y \<noteq> ky x) rest
              then Inl \<lparr>re_error = conflict_error oks ky, re_attempts = skipped_first attempts\<rparr>
              else let p = provenance_of req attempts (Some v) (hd_opt (order_of rx req)) (inst c) c1
                   in Inr \<lparr>rd_value = \<lparr>qo_value = x, qo_agreeing = length oks, qo_required = n\<rparr>,
                       rd_provenance = (if 1 < length oks then set_source Aggregate p else p)\<rparr>,
          rt1, c1))"

definition aggregate :: "('s, 'p, 'q) router_env \<Rightarrow> port_trait \<Rightarrow> route_req \<Rightarrow> nat
    \<Rightarrow> ('p \<Rightarrow> nat \<Rightarrow> nat \<Rightarrow> ('s, 't) call) \<Rightarrow> 's runtime \<Rightarrow> clock
    \<Rightarrow> (route_error + (string \<times> 't) list routed) \<times> 's runtime \<times> clock" where
  "aggregate rx t req n calls rt c =
     (let ((oks, attempts, last_err), rt1, c1) = collect_n rx t req (max n 1) calls rt c
      in (case oks of
            [] \<Rightarrow> Inl (route_error_of req last_err attempts)
          | (v, x) # rest \<Rightarrow> Inr \<lparr>rd_value = oks,
              rd_provenance = (set_source Aggregate
                (provenance_of req attempts (Some v) (hd_opt (order_of rx req)) (inst c) c1))
                \<lparr>pv_provider := Some ''aggregate''\<rparr>\<rparr>,
          rt1, c1))"

definition last_error :: "(string \<times> (provider_error + 't) \<times> attempt) list \<Rightarrow> provider_error option" where
  "last_error rs = hd_opt (rev (List.map_filter (\<lambda>(_, r, _). err_of r) rs))"

definition fan_out :: "('s, 'p, 'q) router_env \<Rightarrow> port_trait \<Rightarrow> route_req
    \<Rightarrow> ('p \<Rightarrow> nat \<Rightarrow> nat \<Rightarrow> ('s, 't) call) \<Rightarrow> 's runtime \<Rightarrow> clock
    \<Rightarrow> (route_error + (string \<times> (provider_error + 't)) list routed) \<times> 's runtime \<times> clock" where
  "fan_out rx t req calls rt c =
     (let (cs, skipped, rt1) = consider_all rx t req c (order_of rx req) rt;
          (rs, rt2, c2) = wave rx calls 0 cs rt1 c c;
          attempts = skipped @ map (\<lambda>(_, _, row). row) rs;
          out = map (\<lambda>(v, r, _). (v, r)) rs
      in (case find (\<lambda>(_, r). is_ok r) out of
            None \<Rightarrow> Inl (route_error_of req (last_error rs) attempts)
          | Some (v, _) \<Rightarrow> Inr \<lparr>rd_value = out, rd_provenance = set_source Aggregate
              (provenance_of req attempts (Some v) (hd_opt (order_of rx req)) (inst c) c2)\<rparr>,
          rt2, c2))"

text \<open>\<open>Router::health\<close>: every vendor the configuration or the registry knows, once, by name.\<close>

definition known_ids :: "('s, 'p, 'q) router_env \<Rightarrow> string list" where
  "known_ids rx = remdups_adj (sort (map fst (reg_vendors (registry (r_config rx)))
     @ map fst (set_custom_rpc (settings (r_config rx)))
     @ map (\<lambda>(_, m). vendor_id m) (pr_vendors (r_registry rx))))"

definition router_health :: "('s, 'p, 'q) router_env \<Rightarrow> 's runtime \<Rightarrow> clock \<Rightarrow> vendor_health list" where
  "router_health rx rt c = map (\<lambda>v. health (r_calendar rx) (r_usage rx) rt v
     (effective_budget_of (r_config rx) v) c) (known_ids rx)"

definition new_router :: "'s \<Rightarrow> router_options \<Rightarrow> 's runtime" where
  "new_router s o1 = new_runtime s (breaker_threshold o1) (breaker_cooldown o1)"

end
