(* ===== verification/Routing.thy ===== *)
theory Routing
  imports Router "HOL-Library.Sublist"
begin

text \<open>
  What the router guarantees: which vendors become candidates, how often one is tried, and what
  each strategy returns as a function of what the vendors answered.
\<close>

section \<open>Ports\<close>

lemma port_at_add_port:
  "port_at (reg\<lparr>pr_ports := add_port v (chain', h) (pr_ports reg)\<rparr>) cap chain w =
     (if w = v \<and> cap = handle_capability h \<and> chain = chain' then Some h else port_at reg cap chain w)"
  by (auto simp: port_at_def add_port_def Let_def update_conv' unwrap_or_def split: option.splits)

definition registered_port :: "('p, 'q) registration \<Rightarrow> capability \<Rightarrow> chain_id option \<Rightarrow> 'p port_handle option" where
  "registered_port r cap chain = map_option snd
     (find (\<lambda>(ch, h). ch = chain \<and> handle_capability h = cap) (rev (reg_ports r)))"

lemma port_at_fold:
  "port_at (reg\<lparr>pr_ports := fold (add_port v) ps (pr_ports reg)\<rparr>) cap chain w =
     (if w = v then or_opt (map_option snd (find (\<lambda>(ch, h). ch = chain \<and> handle_capability h = cap) (rev ps)))
        (port_at reg cap chain w) else port_at reg cap chain w)"
proof (induction ps rule: rev_induct)
  case (snoc x ps)
  obtain ch h where x: "x = (ch, h)" by (cases x)
  let ?reg = "reg\<lparr>pr_ports := fold (add_port v) ps (pr_ports reg)\<rparr>"
  have "reg\<lparr>pr_ports := fold (add_port v) (ps @ [x]) (pr_ports reg)\<rparr>
      = ?reg\<lparr>pr_ports := add_port v (ch, h) (pr_ports ?reg)\<rparr>"
    by (simp add: x)
  with snoc port_at_add_port [where reg = ?reg and v = v and chain' = ch and h = h and cap = cap
      and chain = chain and w = w] show ?case
    by (auto simp: x)
qed simp

lemma port_at_add:
  "port_at (registry_add r reg) cap chain w =
     (if w = vendor_id (reg_vendor r) then or_opt (registered_port r cap chain) (port_at reg cap chain w)
      else port_at reg cap chain w)"
proof -
  let ?v = "vendor_id (reg_vendor r)"
  have "port_at (registry_add r reg) cap chain w
      = port_at (reg\<lparr>pr_ports := fold (add_port ?v) (reg_ports r) (pr_ports reg)\<rparr>) cap chain w"
    by (simp add: registry_add_def Let_def port_at_def)
  then show ?thesis by (simp add: port_at_fold registered_port_def)
qed

text \<open>
  Registering a vendor changes its own ports only: the latest port it registers for a
  capability and chain is the one found, other vendors keep theirs, and a request on a chain
  prefers a port bound to that chain over a chain-agnostic one.
\<close>

theorem registration_exact:
  "registry_get (registry_add r reg) cap chain w =
     (if w = vendor_id (reg_vendor r)
      then or_opt (Option.bind chain (\<lambda>c. or_opt (registered_port r cap (Some c)) (port_at reg cap (Some c) w)))
             (or_opt (registered_port r cap None) (port_at reg cap None w))
      else registry_get reg cap chain w)"
  by (cases chain) (simp_all add: registry_get_def port_at_add)

section \<open>Candidates\<close>

definition usable :: "('s, 'p, 'q) router_env \<Rightarrow> port_trait \<Rightarrow> route_req \<Rightarrow> clock \<Rightarrow> 's runtime
    \<Rightarrow> string \<times> 'p \<Rightarrow> bool" where
  "usable rx t req c rt = (\<lambda>(v, p). vendor_status (r_config rx) v = Active
     \<and> Option.bind (registry_get (r_registry rx) (rq_capability req) (rq_chain req) v) (extract_port t) = Some p
     \<and> quota_block (r_calendar rx) (r_usage rx) rt v (effective_budget_of (r_config rx) v) c = None)"

lemma consider_usable:
  "consider_vendor rx t req c v rt = (Inr p, rt') \<Longrightarrow> usable rx t req c rt (v, p) \<and> fst (breaker_allows rt v c)"
  by (auto simp: consider_vendor_def usable_def Let_def
      split: vendor_status.splits option.splits prod.splits if_splits)

lemma quota_block_cong:
  "store rt' = store rt \<Longrightarrow> st_exhausted_until (vendors rt' w) = st_exhausted_until (vendors rt w)
    \<Longrightarrow> quota_block cal us rt' w b c = quota_block cal us rt w b c"
  by (simp only: quota_block_def)

text \<open>Considering a vendor leaves the counters and the quota marks alone.\<close>

lemma consider_quota:
  "consider_vendor rx t req c v rt = (r, rt') \<Longrightarrow> quota_block cal us rt' w b c' = quota_block cal us rt w b c'"
proof -
  assume "consider_vendor rx t req c v rt = (r, rt')"
  then have "rt' = rt \<or> rt' = snd (breaker_allows rt v c)"
    by (auto simp: consider_vendor_def Let_def split: vendor_status.splits option.splits prod.splits)
  then show ?thesis by (auto intro: quota_block_cong)
qed


lemma consider_all_sound:
  assumes "consider_all rx t req c vs rt = (list, skipped, rt')"
  shows "subseq (map fst list) vs \<and> subseq (map att_vendor skipped) vs
    \<and> length list + length skipped = length vs
    \<and> list_all (usable rx t req c rt) list
    \<and> list_all (\<lambda>a. att_outcome a = AttemptSkipped) skipped"
  using assms
proof (induction vs arbitrary: rt rt' list skipped)
  case (Cons v vs)
  obtain r rt1 where step: "consider_vendor rx t req c v rt = (r, rt1)" by fastforce
  obtain l s rt2 where rest: "consider_all rx t req c vs rt1 = (l, s, rt2)"
    by (metis prod_cases3)
  have same: "usable rx t req c rt1 = usable rx t req c rt"
    by (rule ext) (simp add: usable_def consider_quota [OF step] split: prod.splits)
  note ih = Cons.IH [OF rest, unfolded same]
  show ?case
  proof (cases r)
    case (Inl why)
    with Cons.prems step rest ih show ?thesis by (auto simp: skip_row_def)
  next
    case (Inr p)
    with step have "usable rx t req c rt (v, p)"
      using consider_usable [of rx t req c v rt p rt1] by simp
    with Inr Cons.prems step rest ih show ?thesis by auto
  qed
qed simp

text \<open>
  The candidates of a request are vendors of the configured order, in that order, and each of
  them is enabled with its keys present, has a port of the right kind for the chain and is let
  through by the quota guard; every other vendor of the order has a row that says it was skipped.
\<close>

theorem candidates_sound:
  assumes "consider_all rx t req c vs rt = (list, skipped, rt')"
  shows "subseq (map fst list) vs \<and> subseq (map att_vendor skipped) vs
    \<and> length list + length skipped = length vs
    \<and> list_all (usable rx t req c rt) list
    \<and> list_all (\<lambda>a. att_outcome a = AttemptSkipped) skipped"
  by (rule consider_all_sound [OF assms])

section \<open>Retries\<close>

definition attempt_reply :: "('s, 'p, 'q) router_env \<Rightarrow> string \<Rightarrow> ('s, 't) call \<Rightarrow> provider_error + 't" where
  "attempt_reply rx v x = fst (timed (attempt_timeout_for (r_options rx) v) x)"

definition retryable_reply :: "provider_error + 't \<Rightarrow> bool" where
  "retryable_reply r = (case r of Inl e \<Rightarrow> is_retryable e | Inr _ \<Rightarrow> False)"

lemma tries_from_reply:
  "n \<le> unat (retries (r_options rx)) \<Longrightarrow>
    \<exists>k. n \<le> k \<and> k \<le> unat (retries (r_options rx))
      \<and> fst (tries_from rx v calls n rt c) = attempt_reply rx v (calls k)
      \<and> (\<forall>j. n \<le> j \<and> j < k \<longrightarrow> retryable_reply (attempt_reply rx v (calls j)))
      \<and> (retryable_reply (attempt_reply rx v (calls k)) \<longrightarrow> k = unat (retries (r_options rx)))"
proof (induction rx v calls n rt c rule: tries_from.induct)
  case (1 rx v calls n rt c)
  let ?R = "unat (retries (r_options rx))"
  obtain r d where timed: "timed (attempt_timeout_for (r_options rx) v) (calls n) = (r, d)" by fastforce
  then have r: "r = attempt_reply rx v (calls n)" by (simp add: attempt_reply_def)
  show ?case
  proof (cases "retryable_reply r \<and> n < ?R")
    case True
    then have "fst (tries_from rx v calls n rt c)
        = fst (tries_from rx v calls (n + 1)
            (record_result (r_calendar rx) v (err_of r) d (advance c (inst c + d)) (during (calls n) rt))
            (advance (advance c (inst c + d)) (inst (advance c (inst c + d)) + jitter_ms (calls n) * 1000000)))"
      using timed by (subst tries_from.simps) (simp add: retryable_reply_def Let_def)
    moreover have "n + 1 \<le> ?R" using True by simp
    note 1(1) [OF timed [symmetric] refl refl refl _ this]
    ultimately obtain k where k: "n + 1 \<le> k" "k \<le> ?R"
        "fst (tries_from rx v calls n rt c) = attempt_reply rx v (calls k)"
        "\<forall>j. n + 1 \<le> j \<and> j < k \<longrightarrow> retryable_reply (attempt_reply rx v (calls j))"
        "retryable_reply (attempt_reply rx v (calls k)) \<longrightarrow> k = ?R"
      using True unfolding retryable_reply_def by auto
    have "retryable_reply (attempt_reply rx v (calls j))" if "n \<le> j" "j < k" for j
      using k(4) that True r by (cases "j = n") auto
    with k show ?thesis by (intro exI [of _ k]) auto
  next
    case False
    then have "fst (tries_from rx v calls n rt c) = r"
      using timed by (subst tries_from.simps) (auto simp: retryable_reply_def Let_def)
    with False r 1(2) show ?thesis by (intro exI [of _ n]) auto
  qed
qed

text \<open>
  An attempt asks its vendor at most once more than the configured retries, asks again only
  after a transient error or a timeout, and returns the last answer; an answer that is not
  transient is never asked for twice.
\<close>

theorem attempt_retries:
  assumes "att_outcome (snd (fst (try_vendor rx v calls rt c))) \<noteq> AttemptSkipped"
  shows "\<exists>k \<le> unat (retries (r_options rx)).
    fst (fst (try_vendor rx v calls rt c)) = attempt_reply rx v (calls k)
    \<and> (\<forall>j < k. retryable_reply (attempt_reply rx v (calls j)))
    \<and> (retryable_reply (attempt_reply rx v (calls k)) \<longrightarrow> k = unat (retries (r_options rx)))"
proof -
  obtain ok rt1 c1 where acq: "acquire rt v (effective_budget_of (r_config rx) v)
      (max_rate_wait (r_options rx)) c = (ok, rt1, c1)" by (metis prod_cases3)
  with assms have ok by (cases ok) (simp_all add: try_vendor_def attempt_row_def)
  with acq have "fst (fst (try_vendor rx v calls rt c)) = fst (tries_from rx v calls 0 rt1 c1)"
    by (simp add: try_vendor_def Let_def case_prod_unfold)
  with tries_from_reply [of 0 rx v calls rt1 c1] show ?thesis by auto
qed

section \<open>Failover\<close>

text \<open>
  The reference: ask every candidate in turn, then read the decision off the list of replies.
  Asking a vendor cannot undo what was decided before it, so the code may stop early.
\<close>

type_synonym ('s, 't) asked = "string \<times> (provider_error + 't) \<times> attempt \<times> 's runtime \<times> clock"

fun ask_in_turn :: "('s, 'p, 'q) router_env \<Rightarrow> ('p \<Rightarrow> nat \<Rightarrow> nat \<Rightarrow> ('s, 't) call) \<Rightarrow> nat
    \<Rightarrow> (string \<times> 'p) list \<Rightarrow> 's runtime \<Rightarrow> clock \<Rightarrow> ('s, 't) asked list" where
  "ask_in_turn rx calls i [] rt c = []"
| "ask_in_turn rx calls i ((v, p) # cs) rt c =
     (let ((r, row), rt1, c1) = try_vendor rx v (calls p i) rt c
      in (v, r, row, rt1, c1) # ask_in_turn rx calls (i + 1) cs rt1 c1)"

definition said :: "('s, 't) asked \<Rightarrow> provider_error + 't" where
  "said a = fst (snd a)"

definition row_of :: "('s, 't) asked \<Rightarrow> attempt" where
  "row_of a = fst (snd (snd a))"

text \<open>A reply lets the next candidate be asked; \<open>nf\<close> says one already answered not found.\<close>

definition passes :: "bool \<Rightarrow> bool \<Rightarrow> provider_error + 't \<Rightarrow> bool" where
  "passes confirm nf r = (case r of Inr _ \<Rightarrow> False
     | Inl e \<Rightarrow> allows_failover e \<or> (e = NotFound \<and> confirm \<and> \<not> nf))"

definition was_not_found :: "provider_error + 't \<Rightarrow> bool" where
  "was_not_found r \<longleftrightarrow> err_of r = Some NotFound"

lemma was_not_found_iff: "was_not_found r \<longleftrightarrow> r = Inl NotFound"
  by (cases r) (auto simp: was_not_found_def err_of_def)

fun deciding :: "bool \<Rightarrow> bool \<Rightarrow> (provider_error + 't) list \<Rightarrow> nat option" where
  "deciding confirm nf [] = None"
| "deciding confirm nf (r # rs) = (if passes confirm nf r
     then map_option Suc (deciding confirm (nf \<or> was_not_found r) rs) else Some 0)"

definition settled :: "('s, 'p, 'q) router_env \<Rightarrow> route_req \<Rightarrow> string option \<Rightarrow> nat \<Rightarrow> attempt list
    \<Rightarrow> provider_error option \<Rightarrow> bool \<Rightarrow> 's runtime \<Rightarrow> clock \<Rightarrow> ('s, 't) asked list
    \<Rightarrow> (route_error + 't routed) \<times> 's runtime \<times> clock" where
  "settled rx req head started attempts last_err nf rt c T =
     (case deciding (rq_confirm_not_found req) nf (map said T) of
        None \<Rightarrow> (Inl (route_error_of req (case T of [] \<Rightarrow> last_err | _ \<Rightarrow> err_of (said (last T)))
            (attempts @ map row_of T)),
          (case T of [] \<Rightarrow> (rt, c) | _ \<Rightarrow> snd (snd (snd (last T)))))
      | Some k \<Rightarrow>
          let (v, r, row, rt1, c1) = T ! k; tried = attempts @ map row_of (take (k + 1) T)
          in (case r of
                Inl e \<Rightarrow> Inl (route_error_of req (Some e) tried)
              | Inr x \<Rightarrow> Inr \<lparr>rd_value = x,
                  rd_provenance = provenance_of req tried (Some v) head started c1\<rparr>, rt1, c1))"

lemma not_found_stops [simp]: "\<not> allows_failover NotFound"
  by simp

lemma failover_from_settled:
  "failover_from rx req head started calls i cs attempts last_err nf rt c =
     settled rx req head started attempts last_err nf rt c (ask_in_turn rx calls i cs rt c)"
proof (induction rx req head started calls i cs attempts last_err nf rt c rule: failover_from.induct)
  case (1 rx req head started calls i attempts last_err nf rt c)
  then show ?case by (simp add: settled_def)
next
  case (2 rx req head started calls i v p cs attempts last_err nf rt c)
  obtain r row rt1 c1 where step: "try_vendor rx v (calls p i) rt c = ((r, row), rt1, c1)"
    by (metis prod_cases4 prod.collapse)
  let ?T = "ask_in_turn rx calls (i + 1) cs rt1 c1"
  have T: "ask_in_turn rx calls i ((v, p) # cs) rt c = (v, r, row, rt1, c1) # ?T"
    by (simp add: step)
  show ?case
  proof (cases "passes (rq_confirm_not_found req) nf r")
    case False
    then show ?thesis
      by (auto simp: step settled_def passes_def said_def row_of_def split: sum.splits)
  next
    case True
    then obtain e where r: "r = Inl e"
      and e: "allows_failover e \<or> (e = NotFound \<and> rq_confirm_not_found req \<and> \<not> nf)"
      by (auto simp: passes_def split: sum.splits)
    let ?nf = "nf \<or> was_not_found r"
    have "failover_from rx req head started calls i ((v, p) # cs) attempts last_err nf rt c =
        settled rx req head started (attempts @ [row]) (Some e) ?nf rt1 c1 ?T"
    proof (cases "e = NotFound")
      case nf: True
      with e have "rq_confirm_not_found req \<and> \<not> nf" by simp
      with 2(1) [OF refl step [symmetric] refl refl r] nf show ?thesis
        by (simp add: step r was_not_found_def err_of_def Let_def)
    next
      case False
      with e have "allows_failover e" by simp
      with 2(2) [OF refl step [symmetric] refl refl r] False show ?thesis
        by (simp add: step r was_not_found_def err_of_def Let_def)
    qed
    also have "\<dots> = settled rx req head started attempts last_err nf rt c ((v, r, row, rt1, c1) # ?T)"
      using True r
      by (auto simp: settled_def said_def row_of_def err_of_def split: list.splits option.splits)
    finally show ?thesis by (simp only: T)
  qed
qed

text \<open>
  C22: stopping at the first decisive reply gives the same answer, the same error, the same list of
  attempts and the same state as the reference that asks every candidate and then decides.
\<close>

theorem failover_exact:
  "failover rx t req calls rt c = (let (cs, skipped, rt1) = consider_all rx t req c (order_of rx req) rt
     in settled rx req (hd_opt (order_of rx req)) (inst c) skipped None False rt1 c
          (ask_in_turn rx calls 0 cs rt1 c))"
  by (simp add: failover_def failover_from_settled)

lemma deciding_Some:
  "deciding confirm nf rs = Some k \<Longrightarrow> k < length rs
     \<and> (\<forall>j < k. \<exists>e. rs ! j = Inl e \<and> (allows_failover e \<or> (e = NotFound \<and> confirm)))
     \<and> \<not> passes confirm (nf \<or> (\<exists>j < k. was_not_found (rs ! j))) (rs ! k)"
proof (induction rs arbitrary: nf k)
  case (Cons r rs)
  show ?case
  proof (cases "passes confirm nf r")
    case False
    with Cons.prems show ?thesis by auto
  next
    case True
    with Cons.prems obtain k' where k: "k = Suc k'"
        "deciding confirm (nf \<or> was_not_found r) rs = Some k'" by auto
    from True obtain e where "r = Inl e" "allows_failover e \<or> (e = NotFound \<and> confirm)"
      by (auto simp: passes_def split: sum.splits)
    with Cons.IH [OF k(2)] k(1) show ?thesis
      by (auto simp: All_less_Suc2 Ex_less_Suc2)
  qed
qed simp

lemma deciding_first:
  "k < length rs \<Longrightarrow> rs ! k = Inr x \<Longrightarrow> \<forall>j < k. \<exists>e. rs ! j = Inl e \<and> allows_failover e
     \<Longrightarrow> deciding confirm nf rs = Some k"
proof (induction rs arbitrary: nf k)
  case (Cons r rs)
  show ?case
  proof (cases k)
    case 0
    with Cons.prems show ?thesis by (simp add: passes_def)
  next
    case (Suc k')
    with Cons.prems(3) obtain e where "r = Inl e" "allows_failover e" by force
    then have "passes confirm nf r" by (simp add: passes_def)
    moreover have "\<forall>j < k'. \<exists>e. rs ! j = Inl e \<and> allows_failover e"
      using Cons.prems(3) Suc by (force dest: spec [of _ "Suc _"])
    ultimately show ?thesis using Cons Suc by simp
  qed
qed simp

lemma ask_in_turn_vendors [simp]:
  "map fst (ask_in_turn rx calls i cs rt c) = map fst cs"
  "length (ask_in_turn rx calls i cs rt c) = length cs"
  by (induction cs arbitrary: i rt c) (auto simp: case_prod_unfold Let_def)

lemma settled_Inr:
  assumes "settled rx req head started attempts le nf rt c T = (Inr y, rt', c')"
  shows "\<exists>k < length T. said (T ! k) = Inr (rd_value y)
    \<and> (\<forall>j < k. \<exists>e. said (T ! j) = Inl e \<and> (allows_failover e \<or> (e = NotFound \<and> rq_confirm_not_found req)))
    \<and> rd_provenance y = provenance_of req (attempts @ map row_of (take (k + 1) T))
        (Some (fst (T ! k))) head started c'"
proof -
  obtain k where k: "deciding (rq_confirm_not_found req) nf (map said T) = Some k"
    using assms by (auto simp: settled_def split: option.splits)
  note d = deciding_Some [OF k]
  then have len: "k < length T" by simp
  obtain v r row rt1 c1 where Tk: "T ! k = (v, r, row, rt1, c1)" by (metis prod_cases5)
  have "\<exists>x. r = Inr x \<and> y = \<lparr>rd_value = x, rd_provenance = provenance_of req
      (attempts @ map row_of (take (k + 1) T)) (Some v) head started c1\<rparr> \<and> c' = c1"
    using assms by (auto simp: settled_def k Tk Let_def split: sum.splits)
  with d len Tk show ?thesis by (auto simp: said_def)
qed

text \<open>
  C23: a failover that answers returns the first answer in the configured order: every candidate
  before it was asked and gave an error that lets the next one be tried, the provenance names the
  vendor that answered and lists the skipped vendors and every attempt up to that one, and the
  source is primary exactly when the vendor is the head of the configured order.
\<close>

theorem failover_first_answer:
  assumes "failover rx t req calls rt c = (Inr y, rt', c')"
    and "consider_all rx t req c (order_of rx req) rt = (cs, skipped, rt1)"
    and "T = ask_in_turn rx calls 0 cs rt1 c"
  shows "\<exists>k < length cs. said (T ! k) = Inr (rd_value y)
    \<and> (\<forall>j < k. \<exists>e. said (T ! j) = Inl e \<and> (allows_failover e \<or> (e = NotFound \<and> rq_confirm_not_found req)))
    \<and> pv_provider (rd_provenance y) = Some (fst (cs ! k))
    \<and> pv_tried (rd_provenance y) = skipped @ map row_of (take (k + 1) T)
    \<and> (pv_source (rd_provenance y) = Primary \<longleftrightarrow> hd_opt (order_of rx req) = Some (fst (cs ! k)))"
proof -
  from assms have "settled rx req (hd_opt (order_of rx req)) (inst c) skipped None False rt1 c T = (Inr y, rt', c')"
    by (simp add: failover_def failover_from_settled)
  from settled_Inr [OF this] obtain k where k: "k < length T" "said (T ! k) = Inr (rd_value y)"
      "\<forall>j < k. \<exists>e. said (T ! j) = Inl e \<and> (allows_failover e \<or> (e = NotFound \<and> rq_confirm_not_found req))"
      "rd_provenance y = provenance_of req (skipped @ map row_of (take (k + 1) T))
        (Some (fst (T ! k))) (hd_opt (order_of rx req)) (inst c) c'" by blast
  have len: "length T = length cs" using assms(3) by simp
  have "map fst T = map fst cs" using assms(3) by simp
  then have "fst (T ! k) = fst (cs ! k)" using k(1) len by (metis nth_map)
  with k len show ?thesis
    by (intro exI [of _ k]) (auto simp: provenance_of_def new_provenance_def)
qed

text \<open>
  C24: failover answers whenever some candidate would and the candidates before it fail in ways
  that let the next one be tried.
\<close>

theorem failover_live:
  assumes "consider_all rx t req c (order_of rx req) rt = (cs, skipped, rt1)"
    and "k < length cs" and "said (ask_in_turn rx calls 0 cs rt1 c ! k) = Inr x"
    and "\<forall>j < k. \<exists>e. said (ask_in_turn rx calls 0 cs rt1 c ! j) = Inl e \<and> allows_failover e"
  shows "\<exists>prov rt' c'. failover rx t req calls rt c = (Inr \<lparr>rd_value = x, rd_provenance = prov\<rparr>, rt', c')"
proof -
  let ?T = "ask_in_turn rx calls 0 cs rt1 c"
  obtain v r row rt2 c2 where Tk: "?T ! k = (v, r, row, rt2, c2)" by (metis prod_cases5)
  with assms(3) have r: "r = Inr x" by (simp add: said_def)
  have "deciding (rq_confirm_not_found req) False (map said ?T) = Some k"
    using assms by (intro deciding_first [where x = x]) simp_all
  then show ?thesis
    by (simp add: failover_def failover_from_settled assms(1) settled_def Tk r)
qed

lemma route_error_code:
  "err_code (re_error (route_error_of req le ats)) = ENotFound \<longleftrightarrow> le = Some NotFound"
  "re_attempts (route_error_of req le ats) = ats"
  by (auto simp: route_error_of_def new_error_def no_provider_error_def all_failed_error_def
      invalid_def with_hint_def domain_error_of_def with_retry_after_def Let_def
      split: option.splits provider_error.splits)

lemma settled_Inl:
  assumes "settled rx req head started attempts None False rt c T = (Inl e, rt', c')"
    and "err_code (re_error e) = ENotFound"
  shows "\<exists>k < length T. said (T ! k) = Inl NotFound
    \<and> re_attempts e = attempts @ map row_of (take (k + 1) T)
    \<and> (rq_confirm_not_found req \<longrightarrow> (\<exists>j < k. said (T ! j) = Inl NotFound) \<or> k + 1 = length T)"
proof (cases "deciding (rq_confirm_not_found req) False (map said T)")
  case None
  let ?le = "case T of [] \<Rightarrow> None | _ \<Rightarrow> err_of (said (last T))"
  from assms(1) None have e: "e = route_error_of req ?le (attempts @ map row_of T)"
    by (simp add: settled_def split: list.splits)
  with assms(2) have le: "?le = Some NotFound" by (simp add: route_error_code)
  then have "T \<noteq> []" by auto
  with le have "said (last T) = Inl NotFound"
    by (cases T) (auto simp: err_of_def split: sum.splits if_splits)
  with \<open>T \<noteq> []\<close> e show ?thesis
    by (intro exI [of _ "length T - 1"]) (simp add: last_conv_nth route_error_code)
next
  case (Some k)
  obtain v r row rt1 c1 where Tk: "T ! k = (v, r, row, rt1, c1)" by (metis prod_cases5)
  obtain e' where r: "r = Inl e'" "e = route_error_of req (Some e') (attempts @ map row_of (take (k + 1) T))"
    using assms(1) by (auto simp: settled_def Some Tk Let_def split: sum.splits)
  with assms(2) have nf: "e' = NotFound" by (simp add: route_error_code)
  note d = deciding_Some [OF Some]
  with Tk r nf have "rq_confirm_not_found req \<longrightarrow> (\<exists>j < k. was_not_found (said (T ! j)))"
    by (auto simp: passes_def said_def)
  with d Tk r nf show ?thesis
    by (intro exI [of _ k]) (auto simp: said_def route_error_code was_not_found_iff)
qed

text \<open>
  C25: a failover reports "not found" only when the last vendor asked said so, and when the request
  asks for confirmation only if another vendor said so before or no candidate was left to ask.
\<close>

theorem not_found_reported:
  assumes "failover rx t req calls rt c = (Inl e, rt', c')"
    and "err_code (re_error e) = ENotFound"
    and "consider_all rx t req c (order_of rx req) rt = (cs, skipped, rt1)"
    and "T = ask_in_turn rx calls 0 cs rt1 c"
  shows "\<exists>k < length cs. said (T ! k) = Inl NotFound
    \<and> re_attempts e = skipped @ map row_of (take (k + 1) T)
    \<and> (rq_confirm_not_found req \<longrightarrow> (\<exists>j < k. said (T ! j) = Inl NotFound) \<or> k + 1 = length cs)"
proof -
  from assms have "settled rx req (hd_opt (order_of rx req)) (inst c) skipped None False rt1 c T = (Inl e, rt', c')"
    by (simp add: failover_def failover_from_settled)
  from settled_Inl [OF this assms(2)] assms(4) show ?thesis by simp
qed

section \<open>Asking several vendors\<close>

lemma wave_vendors:
  "wave rx calls i cs rt c l = (rs, rt', c') \<Longrightarrow> map fst rs = map fst cs \<and> length rs = length cs"
proof (induction cs arbitrary: i rt l rs rt' c')
  case (Cons x cs)
  obtain v p where x: "x = (v, p)" by (cases x)
  obtain ra rt1 c1 where step: "try_vendor rx v (calls p i) rt c = (ra, rt1, c1)" by (metis prod_cases3)
  obtain rs2 rt2 c2 where rest: "wave rx calls (i + 1) cs rt1 c (if inst l < inst c1 then c1 else l) = (rs2, rt2, c2)"
    by (metis prod_cases3)
  from Cons.IH [OF rest] Cons.prems x step rest show ?case by auto
qed simp






text \<open>
  A fan-out asks every candidate whatever the others answer, reports the answer of each, and
  fails only when all of them failed.
\<close>

theorem fan_out_complete:
  assumes "consider_all rx t req c (order_of rx req) rt = (cs, skipped, rt1)"
    and "wave rx calls 0 cs rt1 c c = (rs, rt2, c2)"
  shows "map fst rs = map fst cs
    \<and> ((\<exists>y. fst (fan_out rx t req calls rt c) = Inr y) \<longleftrightarrow> (\<exists>(v, r, row) \<in> set rs. is_ok r))
    \<and> (\<forall>y. fst (fan_out rx t req calls rt c) = Inr y \<longrightarrow> rd_value y = map (\<lambda>(v, r, _). (v, r)) rs
        \<and> pv_tried (rd_provenance y) = skipped @ map (\<lambda>(_, _, row). row) rs)"
proof (cases "find (\<lambda>(_, r). is_ok r) (map (\<lambda>(v, r, _). (v, r)) rs)")
  case None
  with assms have "\<exists>e. fst (fan_out rx t req calls rt c) = Inl e" by (simp add: fan_out_def Let_def)
  with None wave_vendors [OF assms(2)] show ?thesis by (auto simp: find_None_iff)
next
  case (Some x)
  obtain v r where x: "x = (v, r)" by (cases x)
  with Some assms have "fst (fan_out rx t req calls rt c) = Inr \<lparr>rd_value = map (\<lambda>(v, r, _). (v, r)) rs,
      rd_provenance = set_source Aggregate (provenance_of req (skipped @ map (\<lambda>(_, _, row). row) rs)
        (Some v) (hd_opt (order_of rx req)) (inst c) c2)\<rparr>"
    by (simp add: fan_out_def Let_def)
  moreover have "\<exists>(v, r, row) \<in> set rs. is_ok r"
    using find_SomeD [OF Some] by (auto simp: x)
  ultimately show ?thesis using wave_vendors [OF assms(2)] 
    by (simp add: set_source_def provenance_of_def)
qed

section \<open>Every answer was given by a vendor\<close>

lemma try_vendor_answer:
  assumes "try_vendor rx v calls rt c = ((Inr x, row), rt', c')"
  shows "\<exists>k. reply (calls k) = Inr x"
proof -
  obtain ok rt1 c1 where acq: "acquire rt v (effective_budget_of (r_config rx) v)
      (max_rate_wait (r_options rx)) c = (ok, rt1, c1)" by (metis prod_cases3)
  with assms have "fst (tries_from rx v calls 0 rt1 c1) = Inr x"
    by (auto simp: try_vendor_def Let_def case_prod_unfold split: if_splits)
  with tries_from_reply [of 0 rx v calls rt1 c1] obtain k where "attempt_reply rx v (calls k) = Inr x"
    by auto
  then show ?thesis by (auto simp: attempt_reply_def timed_def split: if_splits)
qed

text \<open>
  The answers \<open>oks\<close> came from the first \<open>m\<close> candidates, each from another position, in order.
\<close>

definition answered :: "('p \<Rightarrow> nat \<Rightarrow> nat \<Rightarrow> ('s, 't) call) \<Rightarrow> (string \<times> 'p) list \<Rightarrow> nat
    \<Rightarrow> (string \<times> 't) list \<Rightarrow> bool" where
  "answered calls cs m oks \<longleftrightarrow> (\<exists>js. sorted_wrt (<) js \<and> (\<forall>i \<in> set js. i < m)
     \<and> list_all2 (\<lambda>i (v, x). \<exists>p k. cs ! i = (v, p) \<and> reply (calls p i k) = Inr x) js oks)"

lemma answered_Nil: "answered calls cs m []"
  unfolding answered_def by (rule exI [of _ "[]"]) simp

lemma answered_mono: "answered calls cs m oks \<Longrightarrow> m \<le> n \<Longrightarrow> answered calls cs n oks"
  unfolding answered_def by (meson order_less_le_trans)

lemma try_vendor_shape: "\<exists>r row rt' c'. try_vendor rx v calls rt c = ((r, row), rt', c')"
  by (metis surj_pair)

lemma answered_note:
  assumes "answered calls cs m oks" and "cs ! m = (v, p)"
    and "try_vendor rx v (calls p m) rt c = ((r, row), rt', c')"
  shows "answered calls cs (Suc m) (fst (note_result (v, r, row) (oks, attempts, le)))"
proof -
  obtain js where js: "sorted_wrt (<) js" "\<forall>i \<in> set js. i < m"
    "list_all2 (\<lambda>i (v, x). \<exists>p k. cs ! i = (v, p) \<and> reply (calls p i k) = Inr x) js oks"
    using assms(1) unfolding answered_def by blast
  show ?thesis
  proof (cases r)
    case (Inl e)
    with js show ?thesis by (auto simp: note_result_def answered_def intro!: exI [of _ js])
  next
    case (Inr x)
    obtain k where "reply (calls p m k) = Inr x"
      using try_vendor_answer [OF assms(3) [unfolded Inr]] by blast
    with Inr js assms(2) have "sorted_wrt (<) (js @ [m])" "\<forall>i \<in> set (js @ [m]). i < Suc m"
      "list_all2 (\<lambda>i (v, x). \<exists>p k. cs ! i = (v, p) \<and> reply (calls p i k) = Inr x) (js @ [m]) (oks @ [(v, x)])"
      by (auto simp: sorted_wrt_append intro!: list_all2_appendI)
    then have "answered calls cs (Suc m) (oks @ [(v, x)])" unfolding answered_def by blast
    with Inr show ?thesis by (simp add: note_result_def)
  qed
qed

lemma drop_step: "drop m cs = x # ys \<Longrightarrow> cs ! m = x \<and> drop (Suc m) cs = ys"
  by (metis drop_Suc nth_via_drop tl_drop list.sel(3))

lemma wave_answered:
  "wave rx calls m as rt c l = (rs, rt', c') \<Longrightarrow> drop m cs = as @ bs \<Longrightarrow> answered calls cs m oks \<Longrightarrow>
     answered calls cs (m + length as) (fst (fold note_result rs (oks, attempts, le)))"
proof (induction as arbitrary: m rt l rs rt' c' oks attempts le)
  case (Cons x as)
  obtain v p where x: "x = (v, p)" by (cases x)
  obtain r row rt1 c1 where tried: "try_vendor rx v (calls p m) rt c = ((r, row), rt1, c1)"
    using try_vendor_shape by blast
  with Cons.prems(1) x obtain rs1 where rs: "rs = (v, r, row) # rs1"
    and rest: "wave rx calls (Suc m) as rt1 c (if inst l < inst c1 then c1 else l) = (rs1, rt', c')"
    by (auto simp: wave.simps Let_def split: prod.splits)
  from drop_step [of m cs x "as @ bs"] Cons.prems(2) x
  have cs: "cs ! m = (v, p)" "drop (Suc m) cs = as @ bs" by simp_all
  obtain oks1 a1 e1 where noted: "note_result (v, r, row) (oks, attempts, le) = (oks1, a1, e1)"
    by (metis prod_cases3)
  from answered_note [OF Cons.prems(3) cs(1) tried, of attempts le] noted
  have "answered calls cs (Suc m) oks1" by simp
  from Cons.IH [OF rest cs(2) this, of a1 e1] show ?case by (simp add: rs noted)
qed (simp add: wave.simps)

lemma backfill_answered:
  "backfill rx calls n m bs st rt c = (st', rt', c') \<Longrightarrow> drop m cs = bs \<Longrightarrow> answered calls cs m (fst st) \<Longrightarrow>
     m + length bs = length cs \<Longrightarrow> answered calls cs (length cs) (fst st')"
proof (induction bs arbitrary: m st rt c)
  case Nil
  then show ?case by auto
next
  case (Cons x bs)
  obtain v p where x: "x = (v, p)" by (cases x)
  show ?case
  proof (cases "n \<le> length (fst st)")
    case True
    with Cons.prems x have "st' = st" by simp
    with Cons.prems(3,4) show ?thesis by (auto intro: answered_mono)
  next
    case False
    obtain r row rt1 c1 where tried: "try_vendor rx v (calls p m) rt c = ((r, row), rt1, c1)"
      using try_vendor_shape by blast
    obtain oks a e where st: "st = (oks, a, e)" by (metis prod_cases3)
    from drop_step [of m cs x bs] Cons.prems(2) x
    have cs: "cs ! m = (v, p)" "drop (Suc m) cs = bs" by simp_all
    have "backfill rx calls n (Suc m) bs (note_result (v, r, row) st) rt1 c1 = (st', rt', c')"
      using Cons.prems(1) False tried x by simp
    moreover have "answered calls cs (Suc m) (fst (note_result (v, r, row) st))"
      using answered_note [of calls cs m oks v p, OF _ cs(1) tried] Cons.prems(3) by (simp add: st)
    ultimately show ?thesis using Cons.IH [OF _ cs(2)] Cons.prems(4) by simp
  qed
qed

lemma collect_n_answered:
  assumes "collect_n rx t req n calls rt c = ((oks, attempts, le), rt', c')"
    and "consider_all rx t req c (order_of rx req) rt = (cs, skipped, rt1)"
  shows "answered calls cs (length cs) oks"
proof -
  obtain rs rt2 c2 where first: "wave rx calls 0 (take n cs) rt1 c c = (rs, rt2, c2)" by (metis prod_cases3)
  from assms first have rest: "backfill rx calls n (length (take n cs)) (drop n cs)
      (fold note_result rs ([], skipped, None)) rt2 c2 = ((oks, attempts, le), rt', c')"
    by (simp add: collect_n_def)
  have "answered calls cs (0 + length (take n cs)) (fst (fold note_result rs ([], skipped, None)))"
    by (rule wave_answered [OF first _ answered_Nil, where bs = "drop n cs"]) simp
  with backfill_answered [OF rest] show ?thesis by (cases "n \<le> length cs") simp_all
qed

lemma failover_answer:
  assumes "failover rx t req calls rt c = (Inr y, rt', c')"
    and "consider_all rx t req c (order_of rx req) rt = (cs, skipped, rt1)"
  shows "\<exists>i < length cs. \<exists>v p k. cs ! i = (v, p) \<and> reply (calls p i k) = Inr (rd_value y)
    \<and> pv_provider (rd_provenance y) = Some v"
proof -
  have asked: "\<exists>v p k. cs ! j = (v, p) \<and> reply (calls p (i + j) k) = Inr x"
    if "j < length cs" "said (ask_in_turn rx calls i cs rt c ! j) = Inr x" for i j cs rt c x
    using that
  proof (induction cs arbitrary: i j rt c)
    case (Cons a cs)
    obtain v p where a: "a = (v, p)" by (cases a)
    obtain r row rt2 c2 where tried: "try_vendor rx v (calls p i) rt c = ((r, row), rt2, c2)"
      using try_vendor_shape by blast
    then have T: "ask_in_turn rx calls i (a # cs) rt c
        = (v, r, row, rt2, c2) # ask_in_turn rx calls (i + 1) cs rt2 c2"
      by (simp add: a ask_in_turn.simps)
    show ?case
    proof (cases j)
      case 0
      with Cons.prems(2) T have "r = Inr x" by (simp add: said_def)
      with try_vendor_answer tried a 0 show ?thesis by fastforce
    next
      case (Suc j')
      with Cons.prems T Cons.IH [of j' "i + 1" rt2 c2] show ?thesis by auto
    qed
  qed simp
  from assms have "settled rx req (hd_opt (order_of rx req)) (inst c) skipped None False rt1 c
      (ask_in_turn rx calls 0 cs rt1 c) = (Inr y, rt', c')"
    by (simp add: failover_def failover_from_settled)
  from settled_Inr [OF this] obtain k where k: "k < length cs" "said (ask_in_turn rx calls 0 cs rt1 c ! k) = Inr (rd_value y)"
    "pv_provider (rd_provenance y) = Some (fst (ask_in_turn rx calls 0 cs rt1 c ! k))"
    by (auto simp: provenance_of_def new_provenance_def)
  moreover have "fst (ask_in_turn rx calls 0 cs rt1 c ! k) = fst (cs ! k)"
    using k(1) ask_in_turn_vendors by (metis nth_map)
  ultimately show ?thesis using asked [OF k(1), of 0 rt1 c "rd_value y"] by fastforce
qed

section \<open>A sample router\<close>

text \<open>Two operator endpoints, \<open>a\<close> and \<open>b\<close>, that both serve prices; \<open>b\<close> also serves FX rates.\<close>

definition sample_endpoint :: custom_rpc where
  "sample_endpoint = \<lparr>rpc_chain = ''base'', rpc_url_secret = ''https://node''\<rparr>"

definition sample_router_settings :: settings where
  "sample_router_settings = sample_settings\<lparr>
     set_routing := \<lparr>route_defaults = [(CapPrice, [''a'', ''b'']), (CapFx, [''b''])], route_chains = []\<rparr>,
     set_custom_rpc := [(''a'', sample_endpoint), (''b'', sample_endpoint)]\<rparr>"

definition sample_meta :: "string \<Rightarrow> vendor_meta" where
  "sample_meta v = \<lparr>vendor_id = v, display_name = v, meta_requires_key = False, meta_signup_url = None,
     meta_rpc_features = \<lparr>get_logs_max_range = None, simulate_v1 = False, debug_trace = False\<rparr>\<rparr>"

definition sample_env :: "(memory_store, nat, unit) router_env" where
  "sample_env = \<lparr>r_config = sample_loaded\<lparr>settings := sample_router_settings\<rparr>,
     r_registry = registry_of
       [global_port (PortHandle CapPrice 0) (new_registration (sample_meta ''a'')),
        global_port (PortHandle CapFx 1) (global_port (PortHandle CapPrice 1) (new_registration (sample_meta ''b'')))],
     r_options = default_options, r_calendar = sample_calendar, r_usage = mem_total\<rparr>"

definition sample_clock :: clock where
  "sample_clock = \<lparr>inst = 0, utc = 0\<rparr>"

definition sample_state :: "memory_store runtime" where
  "sample_state = new_router empty_store default_options"

definition prices :: "route_req" where
  "prices = new_req CapPrice"

definition at_once :: "provider_error + 't \<Rightarrow> (memory_store, 't) call" where
  "at_once r = \<lparr>reply = r, took = 0, during = (\<lambda>rt. rt), jitter_ms = 50\<rparr>"

text \<open>The replies of \<open>a\<close> and of \<open>b\<close>.\<close>

definition answers :: "provider_error + nat \<Rightarrow> provider_error + nat \<Rightarrow> nat \<Rightarrow> nat \<Rightarrow> nat
    \<Rightarrow> (memory_store, nat) call" where
  "answers x y p i n = at_once (if p = 0 then x else y)"

abbreviation considered :: "(string \<times> nat) list \<times> attempt list \<times> memory_store runtime" where
  "considered \<equiv> consider_all sample_env PriceFeedT prices sample_clock (order_of sample_env prices) sample_state"

abbreviation run_failover where
  "run_failover x y \<equiv> failover sample_env PriceFeedT prices (answers x y) sample_state sample_clock"

lemma sample_env_simps [simp]:
  "r_config sample_env = sample_loaded\<lparr>settings := sample_router_settings\<rparr>"
  "r_options sample_env = default_options" "r_calendar sample_env = sample_calendar"
  "rq_capability prices = CapPrice" "rq_chain prices = None"
  by (simp_all add: sample_env_def prices_def new_req_def)

lemma sample_order: "order_of sample_env prices = [''a'', ''b'']"
  by (simp add: order_of_def resolve_order_def operation_order_def sample_loaded_def sample_settings_def
      sample_router_settings_def)

lemma sample_vendors:
  assumes "v \<in> {''a'', ''b''}"
  shows "vendor_status (r_config sample_env) v = Active"
    and "effective_budget_of (r_config sample_env) v = None"
  using assms
  by (auto simp: vendor_status_def sample_router_settings_def has_key_def effective_budget_of_def
      sample_loaded_def sample_registry_of_def)

lemma sample_ports:
  "registry_get (r_registry sample_env) CapPrice None ''a'' = Some (PortHandle CapPrice 0)"
  "registry_get (r_registry sample_env) CapPrice None ''b'' = Some (PortHandle CapPrice 1)"
  by (simp_all add: sample_env_def registry_of_def registry_add_def add_port_def registry_get_def port_at_def
      empty_registry_def new_registration_def global_port_def sample_meta_def unwrap_or_def Let_def)

lemma sample_considered: "fst considered = [(''a'', 0), (''b'', 1)]" "fst (snd considered) = []"
  using sample_vendors [of "''a''"] sample_vendors [of "''b''"] sample_ports
  by (simp_all add: sample_order consider_vendor_def extract_port_def quota_block_def sample_state_def
      new_router_def new_runtime_def default_state_def breaker_allows_def with_vendor_def)

lemma sample_candidates: "considered = ([(''a'', 0), (''b'', 1)], [], snd (snd considered))"
  using sample_considered by (metis prod.collapse)

declare consider_all.simps [simp del] ask_in_turn.simps [simp del] wave.simps [simp del]

theorem candidates_sound_witness:
  "list_all (usable sample_env PriceFeedT prices sample_clock sample_state) [(''a'', 0), (''b'', 1)]"
  using candidates_sound [OF sample_candidates] by blast

text \<open>A vendor that answers at once, and not with a transient error, is asked once.\<close>

lemma sample_try:
  assumes "v \<in> {''a'', ''b''}" and "\<not> retryable_reply r"
  shows "fst (fst (try_vendor sample_env v (\<lambda>n. at_once r) rt c)) = r"
proof -
  have "acquire rt v (effective_budget_of (r_config sample_env) v) w c = (True, rt, c)" for w
    using sample_vendors [OF assms(1)] by (simp add: acquire_def)
  moreover have "fst (tries_from sample_env v (\<lambda>n. at_once r) 0 rt c) = r"
    using assms(2) by (subst tries_from.simps)
      (auto simp: at_once_def timed_def retryable_reply_def Let_def split: sum.splits)
  ultimately show ?thesis by (simp add: try_vendor_def case_prod_unfold Let_def)
qed

lemma sample_tried:
  "v \<in> {''a'', ''b''} \<Longrightarrow> att_outcome (snd (fst (try_vendor sample_env v calls rt c))) \<noteq> AttemptSkipped"
  using sample_vendors(2) [of v]
  by (auto simp: try_vendor_def acquire_def attempt_row_def case_prod_unfold Let_def split: sum.splits)

theorem attempt_retries_witness:
  "\<exists>k \<le> unat (retries (r_options sample_env)).
    fst (fst (try_vendor sample_env ''a'' (\<lambda>n. at_once (Inl NotFound)) sample_state sample_clock))
      = (attempt_reply sample_env ''a'' (at_once (Inl NotFound)) :: provider_error + nat)"
proof -
  have "att_outcome (snd (fst (try_vendor sample_env ''a'' (\<lambda>n. at_once (Inl NotFound :: provider_error + nat))
      sample_state sample_clock))) \<noteq> AttemptSkipped" by (rule sample_tried) simp
  from attempt_retries [OF this] show ?thesis by blast
qed

abbreviation in_turn where
  "in_turn x y \<equiv> ask_in_turn sample_env (answers x y) 0 [(''a'', 0), (''b'', 1)] (snd (snd considered)) sample_clock"

lemma sample_replies:
  assumes "\<not> retryable_reply x" and "\<not> retryable_reply y"
  shows "map said (in_turn x y) = [x, y]"
  using assms sample_try [of "''a''" x] sample_try [of "''b''" y]
  by (simp add: ask_in_turn.simps answers_def [abs_def] case_prod_unfold Let_def said_def)

lemma sample_nth:
  assumes "\<not> retryable_reply x" and "\<not> retryable_reply y"
  shows "said (in_turn x y ! 0) = x" and "said (in_turn x y ! 1) = y"
proof -
  have "map said (in_turn x y) ! k = said (in_turn x y ! k)" if "k < 2" for k
    using that by (subst nth_map) simp_all
  with sample_replies [OF assms] show "said (in_turn x y ! 0) = x" "said (in_turn x y ! 1) = y"
    by (metis nth_Cons_0 zero_less_numeral, metis One_nat_def nth_Cons_0 nth_Cons_Suc one_less_numeral_iff semiring_norm(76))
qed

abbreviation limited :: "provider_error + nat" where
  "limited \<equiv> Inl (RateLimited None)"

lemma not_retryable: "\<not> retryable_reply (Inr x)" "\<not> retryable_reply (Inl NotFound)" "\<not> retryable_reply (Inl (RateLimited d))"
  by (simp_all add: retryable_reply_def)

theorem failover_live_witness:
  "\<exists>prov rt' c'. run_failover limited (Inr 7) = (Inr \<lparr>rd_value = 7, rd_provenance = prov\<rparr>, rt', c')"
  by (rule failover_live [OF sample_candidates, of 1])
    (auto simp: sample_nth [OF not_retryable(3,1), simplified])

lemma sample_settled:
  "run_failover x y = settled sample_env prices (Some ''a'') 0 [] None False (snd (snd considered)) sample_clock
     (in_turn x y)"
  by (simp add: failover_def failover_from_settled case_prod_unfold sample_considered)
    (simp add: sample_order sample_clock_def Let_def)

theorem failover_first_answer_witness:
  "\<exists>y. fst (run_failover limited (Inr 7)) = Inr y \<and> pv_provider (rd_provenance y) = Some ''b''"
proof -
  have "deciding (rq_confirm_not_found prices) False (map said (in_turn limited (Inr 7))) = Some 1"
    using sample_replies [OF not_retryable(3,1)] by (simp add: passes_def)
  moreover have "said (in_turn limited (Inr 7) ! 1) = Inr 7"
    by (rule sample_nth(2) [OF not_retryable(3,1)])
  ultimately obtain y where y: "run_failover limited (Inr 7)
      = (Inr y, fst (snd (run_failover limited (Inr 7))), snd (snd (run_failover limited (Inr 7))))"
    by (auto simp: sample_settled settled_def said_def case_prod_unfold Let_def)
  from failover_first_answer [OF this sample_candidates refl]
  obtain k where k: "k < length [(''a'', 0 :: nat), (''b'', 1)]"
      "said (in_turn limited (Inr 7) ! k) = Inr (rd_value y)"
      "pv_provider (rd_provenance y) = Some (fst ([(''a'', 0), (''b'', 1 :: nat)] ! k))"
    by blast
  then have "k = 1" using sample_nth(1) [OF not_retryable(3,1)] by (cases k) auto
  with y k show ?thesis by (metis fst_conv nth_Cons_0 nth_Cons_Suc One_nat_def)
qed

text \<open>The same request, asking for confirmation of a "not found".\<close>

definition confirming :: route_req where
  "confirming = prices\<lparr>rq_confirm_not_found := True\<rparr>"

lemma consider_confirming:
  "consider_all rx t (req\<lparr>rq_confirm_not_found := b\<rparr>) c vs rt = consider_all rx t req c vs rt"
proof (induction vs arbitrary: rt)
  case (Cons v vs)
  have "consider_vendor rx t (req\<lparr>rq_confirm_not_found := b\<rparr>) c v rt = consider_vendor rx t req c v rt"
    by (simp add: consider_vendor_def split: vendor_status.split)
  with Cons show ?case by (simp add: consider_all.simps)
qed (simp add: consider_all.simps)

lemma confirming_order: "order_of sample_env confirming = order_of sample_env prices"
  by (simp add: confirming_def order_of_def)

lemma confirming_candidates:
  "consider_all sample_env PriceFeedT confirming sample_clock (order_of sample_env confirming) sample_state
    = ([(''a'', 0), (''b'', 1)], [], snd (snd considered))"
  using sample_candidates by (simp only: confirming_order) (simp only: confirming_def consider_confirming)

theorem not_found_reported_witness:
  "rq_confirm_not_found confirming \<and> (\<exists>k < 2. said (in_turn (Inl NotFound) (Inl NotFound) ! k) = Inl NotFound
     \<and> ((\<exists>j < k. said (in_turn (Inl NotFound) (Inl NotFound) ! j) = Inl NotFound) \<or> k + 1 = 2))"
proof -
  let ?T = "in_turn (Inl NotFound) (Inl NotFound)"
  let ?r = "failover sample_env PriceFeedT confirming (answers (Inl NotFound) (Inl NotFound)) sample_state sample_clock"
  have flag: "rq_confirm_not_found confirming" by (simp add: confirming_def)
  have settled: "?r = settled sample_env confirming (Some ''a'') 0 [] None False (snd (snd considered)) sample_clock ?T"
    by (simp add: failover_def failover_from_settled confirming_candidates)
      (simp add: confirming_order sample_order sample_clock_def Let_def)
  have "deciding (rq_confirm_not_found confirming) False (map said ?T) = Some 1"
    using sample_replies [OF not_retryable(2,2)] flag by (simp add: passes_def was_not_found_def err_of_def)
  moreover have "said (?T ! 1) = Inl NotFound" by (rule sample_nth(2) [OF not_retryable(2,2)])
  ultimately obtain e where "?r = (Inl e, fst (snd ?r), snd (snd ?r))" "err_code (re_error e) = ENotFound"
    by (auto simp: settled settled_def said_def case_prod_unfold Let_def route_error_code)
  from not_found_reported [OF this confirming_candidates refl] flag
  obtain k where "k < length [(''a'', 0 :: nat), (''b'', 1)]" "said (?T ! k) = Inl NotFound"
    "(\<exists>j < k. said (?T ! j) = Inl NotFound) \<or> k + 1 = length [(''a'', 0 :: nat), (''b'', 1)]" by blast
  then show ?thesis using flag by (intro conjI exI [of _ k]) simp_all
qed



theorem fan_out_complete_witness:
  "\<exists>rs rt' c'. wave sample_env (answers limited (Inr 7)) 0 [(''a'', 0), (''b'', 1)] (snd (snd considered)) sample_clock sample_clock
     = (rs, rt', c') \<and> map fst rs = [''a'', ''b'']"
proof -
  obtain rs rt' c' where "wave sample_env (answers limited (Inr 7)) 0 [(''a'', 0), (''b'', 1)] (snd (snd considered)) sample_clock sample_clock
     = (rs, rt', c')" by (metis prod_cases3)
  with fan_out_complete [OF sample_candidates this] show ?thesis by auto
qed

section \<open>Two behaviours worth knowing\<close>

lemma sample_consider:
  assumes "v = ''a'' \<and> i = 0 \<or> v = ''b'' \<and> i = 1" and "rq_capability req = CapPrice" and "rq_chain req = None"
    and "st_exhausted_until (vendors rt v) = None" and "fst (breaker_allows rt v c)"
  shows "consider_vendor sample_env PriceFeedT req c v rt = (Inr i, snd (breaker_allows rt v c))"
  using assms sample_vendors [of v] sample_ports
  by (auto simp: consider_vendor_def extract_port_def quota_block_def case_prod_unfold)

lemma sample_cands:
  assumes "rq_capability req = CapPrice" and "rq_chain req = None"
    and "\<forall>v. st_exhausted_until (vendors rt v) = None" and "fst (breaker_allows rt ''a'' c)"
    and "fst (breaker_allows rt ''b'' c)"
  shows "consider_all sample_env PriceFeedT req c [''a'', ''b''] rt
    = ([(''a'', 0), (''b'', 1)], [], snd (breaker_allows (snd (breaker_allows rt ''a'' c)) ''b'' c))"
proof -
  have "fst (breaker_allows (snd (breaker_allows rt ''a'' c)) ''b'' c)"
    using assms(5) by (simp add: breaker_allows_def with_vendor_def case_prod_unfold Let_def)
  with sample_consider [of "''a''" 0 req rt c]
    sample_consider [of "''b''" 1 req "snd (breaker_allows rt ''a'' c)" c] assms
  show ?thesis by (simp add: consider_all.simps)
qed

lemma sample_try_other:
  assumes "v \<in> {''a'', ''b''}" and "\<not> retryable_reply r" and "w \<noteq> v"
  shows "vendors (fst (snd (try_vendor sample_env v (\<lambda>n. at_once r) rt c))) w = vendors rt w"
proof -
  have "acquire rt v (effective_budget_of (r_config sample_env) v) m c = (True, rt, c)" for m
    using sample_vendors [OF assms(1)] by (simp add: acquire_def)
  moreover have "vendors (fst (snd (tries_from sample_env v (\<lambda>n. at_once r) 0 rt c))) w = vendors rt w"
    using assms(2,3) by (subst tries_from.simps)
      (auto simp: at_once_def timed_def retryable_reply_def record_result_def Let_def split: sum.splits)
  ultimately show ?thesis by (simp add: try_vendor_def case_prod_unfold Let_def)
qed

text \<open>
  A vendor whose breaker is open and past its cooldown becomes a candidate, and that takes the one
  probe it is allowed. When an earlier candidate answers, nothing is ever recorded for it: the
  breaker stays half open and refuses every later request, whatever the clock.
\<close>

definition sample_cooled :: "memory_store runtime" where
  "sample_cooled = with_vendor ''b'' (\<lambda>s. s\<lparr>st_breaker := Open 0\<rparr>) sample_state"

lemma unasked_probe_stuck:
  defines "r \<equiv> failover sample_env PriceFeedT prices (answers (Inr 7) (Inr 8)) sample_cooled sample_clock"
  shows "is_ok (fst r)"
    and "\<not> fst (breaker_allows (fst (snd r)) ''b'' c)"
proof -
  let ?rt = "snd (breaker_allows (snd (breaker_allows sample_cooled ''a'' sample_clock)) ''b'' sample_clock)"
  let ?once = "try_vendor sample_env ''a'' (\<lambda>n. at_once (Inr 7 :: provider_error + nat)) ?rt sample_clock"
  have state: "\<forall>v. st_exhausted_until (vendors sample_cooled v) = None"
      "st_breaker (vendors sample_cooled ''a'') = Closed 0" "st_breaker (vendors sample_cooled ''b'') = Open 0"
    by (simp_all add: sample_cooled_def sample_state_def new_router_def new_runtime_def default_state_def)
  then have "fst (breaker_allows sample_cooled ''a'' sample_clock)" "fst (breaker_allows sample_cooled ''b'' sample_clock)"
    by (simp_all add: breaker_allows_def Let_def sample_clock_def)
  from sample_cands [OF _ _ state(1) this, of prices]
  have cands: "consider_all sample_env PriceFeedT prices sample_clock [''a'', ''b''] sample_cooled
      = ([(''a'', 0), (''b'', 1)], [], ?rt)" by simp
  have "fst (fst ?once) = Inr 7" by (rule sample_try) (simp_all add: not_retryable)
  then have r: "is_ok (fst r)" "fst (snd r) = fst (snd ?once)"
    by (simp_all add: r_def failover_def sample_order cands case_prod_unfold Let_def answers_def [abs_def])
  have "st_breaker (vendors ?rt ''b'') = HalfOpen True"
    using state(3) by (simp add: sample_clock_def)
  then have "st_breaker (vendors (fst (snd r)) ''b'') = HalfOpen True"
    using sample_try_other [of "''a''" "Inr 7 :: provider_error + nat" "''b''"]
    by (simp add: r(2) not_retryable)
  then show "is_ok (fst r)" "\<not> fst (breaker_allows (fst (snd r)) ''b'' c)"
    using r(1) by (simp_all add: breaker_allows_def Let_def)
qed

text \<open>
  With \<open>confirm_not_found\<close> set, one vendor that says "not found" is enough when the others fail.
\<close>

lemma not_found_unconfirmed:
  "\<exists>e rt' c'. failover sample_env PriceFeedT (prices\<lparr>rq_confirm_not_found := True\<rparr>)
       (answers limited (Inl NotFound)) sample_state sample_clock = (Inl e, rt', c')
     \<and> err_code (re_error e) = ENotFound"
proof -
  let ?req = "prices\<lparr>rq_confirm_not_found := True\<rparr>"
  let ?rt = "snd (breaker_allows (snd (breaker_allows sample_state ''a'' sample_clock)) ''b'' sample_clock)"
  have state: "\<forall>v. st_exhausted_until (vendors sample_state v) = None"
      "fst (breaker_allows sample_state ''a'' sample_clock)" "fst (breaker_allows sample_state ''b'' sample_clock)"
    by (simp_all add: sample_state_def new_router_def new_runtime_def default_state_def breaker_allows_def)
  have req: "order_of sample_env ?req = [''a'', ''b'']"
    using sample_order by (simp add: order_of_def prices_def new_req_def)
  have cands: "consider_all sample_env PriceFeedT ?req sample_clock [''a'', ''b''] sample_state
      = ([(''a'', 0), (''b'', 1)], [], ?rt)"
    by (rule sample_cands [OF _ _ state]) simp_all
  have a: "fst (fst (try_vendor sample_env ''a'' (\<lambda>n. at_once limited) rt c)) = limited" for rt c
    by (rule sample_try) (simp_all add: not_retryable)
  have b: "fst (fst (try_vendor sample_env ''b'' (\<lambda>n. at_once (Inl NotFound :: provider_error + nat)) rt c)) = Inl NotFound" for rt c
    by (rule sample_try) (simp_all add: not_retryable)
  show ?thesis
    by (simp add: failover_def req cands case_prod_unfold Let_def answers_def [abs_def] a b route_error_code)
qed

end
