(* ===== verification/SolanaWire.thy ===== *)
theory SolanaWire
  imports Transactions
begin

unbundle bit_operations_syntax

text \<open>
  The wire format of Solana transactions (\<open>crates/protocols/src/solana/tx.rs\<close>): a decoder of
  signed transactions and messages, and what is decided with it: the id of a transaction, whether
  it pays the tip of a relay, and the transaction to simulate an unsigned message with.

  A reader is the list of bytes not read yet. Base64 comes from a dependency: \<open>base64\<close> with
  \<open>base64_ok\<close>, what it documents.
\<close>

section \<open>Reading\<close>

definition cut_short :: string where
  "cut_short = ''truncated transaction''"

definition take_bytes :: "nat \<Rightarrow> u8 list \<Rightarrow> string + u8 list \<times> u8 list" where
  "take_bytes n bs = (if n \<le> length bs then Inr (take n bs, drop n bs) else Inl cut_short)"

definition read_u8 :: "u8 list \<Rightarrow> string + u8 \<times> u8 list" where
  "read_u8 bs = (case bs of [] \<Rightarrow> Inl cut_short | b # rest \<Rightarrow> Inr (b, rest))"

text \<open>The loop of \<open>compact\<close>, from byte number \<open>i\<close> with the value read so far.\<close>

function read_compact_from :: "nat \<Rightarrow> nat \<Rightarrow> u8 list \<Rightarrow> string + nat \<times> u8 list" where
  "read_compact_from i v bs =
     (if 3 \<le> i then Inl ''bad compact-u16''
      else and_then (read_u8 bs) (\<lambda>(b, rest).
        let v' = v OR push_bit (7 * i) (unat (b AND 0x7F))
        in if b AND 0x80 = 0 then Inr (v', rest) else read_compact_from (i + 1) v' rest))"
  by pat_completeness auto
termination
  by (relation "measure (\<lambda>(i, v, bs). 3 - i)") auto

declare read_compact_from.simps [simp del]

definition read_compact :: "u8 list \<Rightarrow> string + nat \<times> u8 list" where
  "read_compact bs = read_compact_from 0 0 bs"

function encode_compact :: "nat \<Rightarrow> u8 list" where
  "encode_compact n =
     (let b = of_nat (n AND 0x7F); n' = drop_bit 7 n
      in if n' = 0 then [b] else (b OR 0x80) # encode_compact n')"
  by pat_completeness auto
termination
  by (relation "measure (\<lambda>n. n)") (auto simp: drop_bit_eq_div div_greater_zero_iff split: if_splits)

declare encode_compact.simps [simp del]

text \<open>\<open>(0..n).map(array).collect()\<close>.\<close>

fun read_arrays :: "nat \<Rightarrow> nat \<Rightarrow> u8 list \<Rightarrow> string + u8 list list \<times> u8 list" where
  "read_arrays w 0 bs = Inr ([], bs)"
| "read_arrays w (Suc n) bs = and_then (take_bytes w bs) (\<lambda>(a, rest).
     and_then (read_arrays w n rest) (\<lambda>(as, rest). Inr (a # as, rest)))"

section \<open>Messages\<close>

record wire_ix =
  program_index :: u8
  ix_accounts :: "u8 list"
  ix_data :: "u8 list"

record wire_message =
  required_signatures :: u8
  msg_keys :: "u8 list list"
  recent_blockhash :: "u8 list"
  msg_instructions :: "wire_ix list"

definition read_ix :: "u8 list \<Rightarrow> string + wire_ix \<times> u8 list" where
  "read_ix bs = and_then (read_u8 bs) (\<lambda>(p, bs).
     and_then (read_compact bs) (\<lambda>(n, bs).
     and_then (take_bytes n bs) (\<lambda>(accounts, bs).
     and_then (read_compact bs) (\<lambda>(n, bs).
     and_then (take_bytes n bs) (\<lambda>(data, bs).
       Inr (\<lparr>program_index = p, ix_accounts = accounts, ix_data = data\<rparr>, bs))))))"

fun read_ixs :: "nat \<Rightarrow> u8 list \<Rightarrow> string + wire_ix list \<times> u8 list" where
  "read_ixs 0 bs = Inr ([], bs)"
| "read_ixs (Suc n) bs = and_then (read_ix bs) (\<lambda>(i, bs).
     and_then (read_ixs n bs) (\<lambda>(ixs, bs). Inr (i # ixs, bs)))"

text \<open>The first bytes: a version prefix, or the number of signatures at once.\<close>

definition read_required :: "u8 list \<Rightarrow> string + u8 \<times> u8 list" where
  "read_required bs = and_then (read_u8 bs) (\<lambda>(first, bs).
     if first AND 0x80 \<noteq> 0 then
       if first AND 0x7F \<noteq> 0
       then Inl (''unsupported transaction version '' @ show_nat (unat (first AND 0x7F)))
       else read_u8 bs
     else Inr (first, bs))"

definition decode_message :: "u8 list \<Rightarrow> string + wire_message" where
  "decode_message bs = and_then (read_required bs) (\<lambda>(required, bs).
     and_then (take_bytes 2 bs) (\<lambda>(_, bs).
     and_then (read_compact bs) (\<lambda>(n, bs).
     and_then (read_arrays 32 n bs) (\<lambda>(keys, bs).
     and_then (take_bytes 32 bs) (\<lambda>(blockhash, bs).
     and_then (read_compact bs) (\<lambda>(n, bs).
     and_then (read_ixs n bs) (\<lambda>(ixs, _).
       Inr \<lparr>required_signatures = required, msg_keys = keys, recent_blockhash = blockhash,
         msg_instructions = ixs\<rparr>)))))))"

text \<open>The signatures, and the bytes of the message.\<close>

definition decode_tx :: "u8 list \<Rightarrow> string + u8 list list \<times> u8 list" where
  "decode_tx bs = and_then (read_compact bs) (\<lambda>(n, bs). read_arrays 64 n bs)"

record base64 =
  b64_encode :: "u8 list \<Rightarrow> string"
  b64_decode :: "string \<Rightarrow> u8 list option"

definition base64_ok :: "base64 \<Rightarrow> bool" where
  "base64_ok b \<longleftrightarrow> (\<forall>bs. b64_decode b (b64_encode b bs) = Some bs
     \<and> list_all (\<lambda>c. \<not> is_space c) (b64_encode b bs))"

definition decode_signed :: "base64 \<Rightarrow> string \<Rightarrow> domain_error + u8 list list \<times> wire_message" where
  "decode_signed b s = and_then
     (ok_or (invalid ''signed transaction is not valid base64'') (b64_decode b (trim s))) (\<lambda>bytes.
     and_then (map_err invalid (decode_tx bytes)) (\<lambda>(sigs, msg).
     and_then (map_err invalid (decode_message msg)) (\<lambda>m.
       if sigs = [] \<or> length sigs \<noteq> unat (required_signatures m)
       then Inl (invalid (''transaction has '' @ show_nat (length sigs)
         @ '' signatures, message requires '' @ show_nat (unat (required_signatures m))))
       else Inr (sigs, m))))"

definition no_signature :: "u8 list" where
  "no_signature = replicate 64 0"

definition signature_of :: "codec \<Rightarrow> base64 \<Rightarrow> string \<Rightarrow> domain_error + string" where
  "signature_of k b s = and_then (decode_signed b s) (\<lambda>(sigs, _).
     and_then (ok_or (invalid ''transaction is not signed'')
         (Option.bind (hd_opt sigs) (\<lambda>x. if x \<noteq> no_signature then Some x else None)))
       (\<lambda>first. Inr (b58_encode k first)))"

section \<open>Relay tips\<close>

definition system_program :: string where
  "system_program = ''11111111111111111111111111111111''"

definition compute_budget_program :: string where
  "compute_budget_program = ''ComputeBudget111111111111111111111111111111''"

definition key_text :: "codec \<Rightarrow> wire_message \<Rightarrow> u8 \<Rightarrow> string option" where
  "key_text k m i = map_option (b58_encode k) (nth_opt (msg_keys m) (unat i))"

definition le_nat :: "u8 list \<Rightarrow> nat" where
  "le_nat bs = foldr (\<lambda>b acc. unat b + 256 * acc) bs 0"

definition sets_price :: "codec \<Rightarrow> wire_message \<Rightarrow> wire_ix \<Rightarrow> bool" where
  "sets_price k m ix \<longleftrightarrow> key_text k m (program_index ix) = Some compute_budget_program
     \<and> length (ix_data ix) = 9 \<and> hd_opt (ix_data ix) = Some 3"

definition is_sol_transfer :: "codec \<Rightarrow> wire_message \<Rightarrow> wire_ix \<Rightarrow> bool" where
  "is_sol_transfer k m ix \<longleftrightarrow> key_text k m (program_index ix) = Some system_program
     \<and> length (ix_data ix) = 12 \<and> take 4 (ix_data ix) = [2, 0, 0, 0]"

definition goes_to_tip :: "codec \<Rightarrow> string list \<Rightarrow> wire_message \<Rightarrow> wire_ix \<Rightarrow> bool" where
  "goes_to_tip k tips m ix \<longleftrightarrow>
     (case Option.bind (nth_opt (ix_accounts ix) 1) (key_text k m) of None \<Rightarrow> False | Some d \<Rightarrow> d \<in> set tips)"

definition tip_step :: "codec \<Rightarrow> string list \<Rightarrow> wire_message \<Rightarrow> bool \<times> u64 \<Rightarrow> wire_ix \<Rightarrow> bool \<times> u64" where
  "tip_step k tips m = (\<lambda>(price, tip) ix.
     if sets_price k m ix then (True, tip)
     else if is_sol_transfer k m ix \<and> goes_to_tip k tips m ix
     then (price, sat_add tip (of_nat (le_nat (take 8 (drop 4 (ix_data ix))))))
     else (price, tip))"

definition check_tip :: "codec \<Rightarrow> base64 \<Rightarrow> string \<Rightarrow> string list \<Rightarrow> u64 \<Rightarrow> bool \<Rightarrow> domain_error + unit" where
  "check_tip k b s tips min_tip require_price = and_then (decode_signed b s) (\<lambda>(_, m).
     let (price, tip) = foldl (tip_step k tips m) (False, 0) (msg_instructions m)
     in if require_price \<and> \<not> price
        then Inl (invalid ''transaction has no SetComputeUnitPrice instruction'')
        else if tip < min_tip
        then Inl (invalid (''tip of '' @ show_nat (unat tip)
          @ '' lamports to a relay tip account is below the minimum '' @ show_nat (unat min_tip)))
        else Inr ())"

section \<open>Unsigned transactions\<close>

definition unsigned_message_of :: "codec \<Rightarrow> base64 \<Rightarrow> string \<Rightarrow> domain_error + string \<times> string" where
  "unsigned_message_of k b s = and_then
     (ok_or (invalid ''transaction is not valid base64'') (b64_decode b (trim s))) (\<lambda>bytes.
     and_then (map_err invalid (decode_tx bytes)) (\<lambda>(sigs, msg).
       if list_ex (\<lambda>x. x \<noteq> no_signature) sigs
       then Inl (invalid ''transaction is already partially signed'')
       else and_then (map_err invalid (decode_message msg)) (\<lambda>m.
         Inr (b64_encode b msg, b58_encode k (recent_blockhash m)))))"

definition transaction_for_simulation :: "base64 \<Rightarrow> string \<Rightarrow> domain_error + string" where
  "transaction_for_simulation b s = and_then
     (ok_or (invalid ''message is not valid base64'') (b64_decode b (trim s))) (\<lambda>msg.
     and_then (map_err invalid (decode_message msg)) (\<lambda>m.
       let n = unat (required_signatures m)
       in Inr (b64_encode b (encode_compact n @ replicate (n * 64) 0 @ msg))))"

section \<open>Compact integers\<close>

lemma nat_low7: "n AND 0x7F = n mod 128" for n :: nat
proof -
  have "n AND 0x7F = n AND mask 7" by (simp add: mask_eq_exp_minus_1)
  also have "\<dots> = take_bit 7 n" by (simp only: take_bit_eq_mask)
  also have "\<dots> = n mod 128" by (simp add: take_bit_eq_mod)
  finally show ?thesis .
qed

lemma or_push: "v < 2 ^ k \<Longrightarrow> v OR push_bit k y = v + y * 2 ^ k" for v y :: nat
proof -
  assume "v < 2 ^ k"
  then have "take_bit k v = v" by (simp add: take_bit_nat_eq_self)
  then have "n < k" if "bit v n" for n using that by (metis bit_take_bit_iff)
  then have "v AND push_bit k y = 0"
    by (intro bit_eqI) (force simp: bit_and_iff bit_push_bit_iff)
  then show ?thesis by (simp add: disjunctive_add_eq_or [symmetric] push_bit_eq_mult)
qed

lemma flag7:
  assumes "x < 128"
  shows "(of_nat x :: u8) AND 0x80 = 0" "unat ((of_nat x :: u8) AND 0x7F) = x"
    "(of_nat x OR 0x80 :: u8) AND 0x80 \<noteq> 0" "unat ((of_nat x OR 0x80 :: u8) AND 0x7F) = x"
proof -
  have "list_all (\<lambda>x. (of_nat x :: u8) AND 0x80 = 0 \<and> unat ((of_nat x :: u8) AND 0x7F) = x
      \<and> (of_nat x OR 0x80 :: u8) AND 0x80 \<noteq> 0 \<and> unat ((of_nat x OR 0x80 :: u8) AND 0x7F) = x) [0..<128]"
    by code_simp
  with assms show "(of_nat x :: u8) AND 0x80 = 0" "unat ((of_nat x :: u8) AND 0x7F) = x"
    "(of_nat x OR 0x80 :: u8) AND 0x80 \<noteq> 0" "unat ((of_nat x OR 0x80 :: u8) AND 0x7F) = x"
    by (simp_all add: list_all_iff)
qed

lemma read_compact_from_encode:
  "v < 2 ^ (7 * i) \<Longrightarrow> i < 3 \<Longrightarrow> n < 2 ^ (7 * (3 - i)) \<Longrightarrow>
    read_compact_from i v (encode_compact n @ rest) = Inr (v + n * 2 ^ (7 * i), rest)"
proof (induction n arbitrary: i v rule: encode_compact.induct)
  case (1 n)
  let ?b = "of_nat (n mod 128) :: u8"
  note flags = flag7 [of "n mod 128", simplified]
  have enc: "encode_compact n = (if n div 128 = 0 then [?b] else (?b OR 0x80) # encode_compact (n div 128))"
    by (subst encode_compact.simps) (simp add: nat_low7 drop_bit_eq_div Let_def)
  have add: "v OR push_bit (7 * i) (n mod 128) = v + n mod 128 * 2 ^ (7 * i)"
    by (rule or_push [OF "1.prems"(1)])
  show ?case
  proof (cases "n div 128 = 0")
    case True
    then have "n mod 128 = n" by (simp add: div_eq_0_iff)
    with True add enc flags "1.prems"(2) show ?thesis
      by (subst read_compact_from.simps) (simp add: read_u8_def)
  next
    case False
    then have n: "128 \<le> n" by (simp add: div_eq_0_iff)
    have small: "i + 1 < 3"
    proof (rule ccontr)
      assume "\<not> i + 1 < 3"
      with "1.prems"(2) have "i = 2" by simp
      with "1.prems"(3) n show False by simp
    qed
    let ?v = "v + n mod 128 * 2 ^ (7 * i)"
    have "?v < 2 ^ (7 * i) + n mod 128 * 2 ^ (7 * i)" using "1.prems"(1) by simp
    also have "\<dots> = (1 + n mod 128) * 2 ^ (7 * i)" by (simp add: distrib_right)
    also have "\<dots> \<le> 128 * 2 ^ (7 * i)" by (intro mult_right_mono) (simp_all add: Suc_leI)
    finally have v: "?v < 2 ^ (7 * (i + 1))" by (simp add: power_add)
    have "n < 2 ^ (7 * (3 - (i + 1))) * 128"
    proof -
      have "7 * (3 - i) = 7 * (3 - (i + 1)) + 7" using small by simp
      with "1.prems"(3) show ?thesis by (simp add: power_add)
    qed
    then have m: "n div 128 < 2 ^ (7 * (3 - (i + 1)))" by (simp add: less_mult_imp_div_less)
    have "drop_bit 7 n = n div 128" by (simp add: drop_bit_eq_div)
    then have ih: "read_compact_from (i + 1) ?v (encode_compact (n div 128) @ rest)
        = Inr (?v + n div 128 * 2 ^ (7 * (i + 1)), rest)"
      using "1.IH" [OF refl refl, of ?v "i + 1"] False v small m by simp
    have split: "v + r * e + q * (e * 128) = v + m * e" if "r + q * 128 = m" for v r e q m :: nat
      using that by (auto simp: algebra_simps)
    have total: "?v + n div 128 * 2 ^ (7 * (i + 1)) = v + n * 2 ^ (7 * i)"
      using split [of "n mod 128" "n div 128" n v "2 ^ (7 * i)"] by (simp add: power_add)
    from False add enc flags "1.prems"(2) ih total show ?thesis
      by (subst read_compact_from.simps) (simp add: read_u8_def)
  qed
qed

lemma read_compact_encode [simp]:
  "n < 2 ^ 21 \<Longrightarrow> read_compact (encode_compact n @ rest) = Inr (n, rest)"
  using read_compact_from_encode [of 0 0 n rest] by (simp add: read_compact_def)

section \<open>Messages read back\<close>

text \<open>
  The reference encoder: a message of version 0 or a legacy one, with the two counts of read-only
  keys and whatever follows the instructions (the address lookup tables).
\<close>

definition encode_ix :: "wire_ix \<Rightarrow> u8 list" where
  "encode_ix ix = program_index ix # encode_compact (length (ix_accounts ix)) @ ix_accounts ix
     @ encode_compact (length (ix_data ix)) @ ix_data ix"

definition encode_message :: "bool \<Rightarrow> u8 \<Rightarrow> u8 \<Rightarrow> wire_message \<Rightarrow> u8 list \<Rightarrow> u8 list" where
  "encode_message v0 ro1 ro2 m tables = (if v0 then [0x80] else [])
     @ [required_signatures m, ro1, ro2] @ encode_compact (length (msg_keys m)) @ concat (msg_keys m)
     @ recent_blockhash m @ encode_compact (length (msg_instructions m))
     @ concat (map encode_ix (msg_instructions m)) @ tables"

definition wf_ix :: "wire_ix \<Rightarrow> bool" where
  "wf_ix ix \<longleftrightarrow> length (ix_accounts ix) < 2 ^ 21 \<and> length (ix_data ix) < 2 ^ 21"

definition wf_message :: "bool \<Rightarrow> wire_message \<Rightarrow> bool" where
  "wf_message v0 m \<longleftrightarrow> (v0 \<or> required_signatures m AND 0x80 = 0)
     \<and> list_all (\<lambda>k. length k = 32) (msg_keys m) \<and> length (msg_keys m) < 2 ^ 21
     \<and> length (recent_blockhash m) = 32
     \<and> length (msg_instructions m) < 2 ^ 21 \<and> list_all wf_ix (msg_instructions m)"

lemma take_bytes_append [simp]: "n = length a \<Longrightarrow> take_bytes n (a @ rest) = Inr (a, rest)"
  by (simp add: take_bytes_def)

lemma read_u8_Cons [simp]: "read_u8 (b # rest) = Inr (b, rest)"
  by (simp add: read_u8_def)

lemma read_arrays_concat:
  "list_all (\<lambda>a. length a = w) as \<Longrightarrow> read_arrays w (length as) (concat as @ rest) = Inr (as, rest)"
  by (induction as) simp_all

lemma read_ix_encode: "wf_ix ix \<Longrightarrow> read_ix (encode_ix ix @ rest) = Inr (ix, rest)"
  by (simp add: read_ix_def encode_ix_def wf_ix_def)

lemma read_ixs_encode:
  "list_all wf_ix ixs \<Longrightarrow> read_ixs (length ixs) (concat (map encode_ix ixs) @ rest) = Inr (ixs, rest)"
  by (induction ixs) (simp_all add: read_ix_encode)

lemma decode_encode_message:
  assumes "wf_message v0 m"
  shows "decode_message (encode_message v0 ro1 ro2 m tables) = Inr m"
proof -
  have "read_required ((if v0 then [0x80] else []) @ required_signatures m # rest)
      = Inr (required_signatures m, rest)" for rest
    using assms by (cases v0) (simp_all add: read_required_def wf_message_def)
  moreover have "take_bytes 2 (ro1 # ro2 # rest) = Inr ([ro1, ro2], rest)" for rest
    by (simp add: take_bytes_def)
  ultimately show ?thesis
    using assms by (simp add: decode_message_def encode_message_def wf_message_def
        read_arrays_concat read_ixs_encode)
qed

text \<open>
  A message reads back as what it was built from, legacy or version 0, whatever its read-only
  counts and lookup tables: the signatures it requires, its keys, its blockhash and the accounts
  and data of every instruction.
\<close>

theorem message_roundtrip:
  "wf_message v0 m \<Longrightarrow> decode_message (encode_message v0 ro1 ro2 m tables) = Inr m"
  by (rule decode_encode_message)

section \<open>Transactions read back\<close>

lemma decode_tx_encode:
  "list_all (\<lambda>a. length a = 64) sigs \<Longrightarrow> length sigs < 2 ^ 21 \<Longrightarrow>
    decode_tx (encode_compact (length sigs) @ concat sigs @ msg) = Inr (sigs, msg)"
  by (simp add: decode_tx_def read_arrays_concat)

lemma b64_reads_back [simp]:
  "base64_ok b \<Longrightarrow> b64_decode b (trim (b64_encode b bs)) = Some bs"
  by (simp add: base64_ok_def list_all_iff trim_id)

text \<open>
  The id of a signed transaction is its first signature, for every message and whatever the
  other signatures are, so sending the same bytes again keeps the id; without the required number
  of signatures, or with an empty first one, there is no id.
\<close>

theorem signature_is_first:
  assumes "base64_ok b" and "list_all (\<lambda>a. length a = 64) sigs" and "length sigs < 2 ^ 21"
    and "decode_message msg = Inr m"
    and "s = b64_encode b (encode_compact (length sigs) @ concat sigs @ msg)"
  shows "signature_of k b s = Inr i \<longleftrightarrow> sigs \<noteq> [] \<and> length sigs = unat (required_signatures m)
    \<and> hd sigs \<noteq> no_signature \<and> i = b58_encode k (hd sigs)"
proof -
  have "decode_signed b s = (if sigs = [] \<or> length sigs \<noteq> unat (required_signatures m)
      then Inl (invalid (''transaction has '' @ show_nat (length sigs)
         @ '' signatures, message requires '' @ show_nat (unat (required_signatures m))))
      else Inr (sigs, m))"
    using assms by (simp add: decode_signed_def decode_tx_encode)
  then show ?thesis
    by (cases sigs) (auto simp: signature_of_def and_then_Inr split: if_splits)
qed

lemma zero_signatures:
  "replicate (n * 64) 0 = concat (replicate n no_signature)"
  by (induction n) (simp_all add: no_signature_def replicate_add)

text \<open>
  Wrapping a message for simulation keeps it: unwrapping gives back its bytes and its
  blockhash. What was wrapped is never taken for a signed transaction.
\<close>

theorem simulation_roundtrip:
  assumes "base64_ok b" and "transaction_for_simulation b s = Inr t"
  shows "\<exists>msg m. b64_decode b (trim s) = Some msg \<and> decode_message msg = Inr m
    \<and> unsigned_message_of k b t = Inr (b64_encode b msg, b58_encode k (recent_blockhash m))
    \<and> \<not> is_ok (signature_of k b t)"
proof -
  obtain msg m where msg: "b64_decode b (trim s) = Some msg" "decode_message msg = Inr m"
      "t = b64_encode b (encode_compact (unat (required_signatures m))
        @ replicate (unat (required_signatures m) * 64) 0 @ msg)"
    using assms(2) by (auto simp: transaction_for_simulation_def and_then_Inr Let_def)
  let ?n = "unat (required_signatures m)"
  let ?sigs = "replicate ?n no_signature"
  have "?n < 2 ^ LENGTH(8)" by (rule unsigned_less)
  then have n: "length ?sigs < 2 ^ 21" by simp
  have len: "list_all (\<lambda>a. length a = 64) ?sigs" by (simp add: list_all_iff no_signature_def)
  have "decode_tx (encode_compact ?n @ replicate (?n * 64) 0 @ msg) = Inr (?sigs, msg)"
    using decode_tx_encode [OF len n] by (simp add: zero_signatures)
  with assms(1) msg show ?thesis
    by (cases "?n") (auto simp: unsigned_message_of_def list_ex_iff signature_of_def decode_signed_def
        is_ok_def split: sum.splits)
qed

section \<open>Tips\<close>

definition lamports :: "wire_ix \<Rightarrow> nat" where
  "lamports ix = le_nat (take 8 (drop 4 (ix_data ix)))"

definition tip_total :: "codec \<Rightarrow> string list \<Rightarrow> wire_message \<Rightarrow> nat" where
  "tip_total k tips m = sum_list (map lamports
     (filter (\<lambda>ix. is_sol_transfer k m ix \<and> goes_to_tip k tips m ix) (msg_instructions m)))"

lemma le_nat_bound: "le_nat bs < 256 ^ length bs"
proof (induction bs)
  case (Cons b bs)
  have "unat b < 2 ^ LENGTH(8)" by (rule unsigned_less)
  with Cons show ?case by (simp add: le_nat_def)
qed (simp add: le_nat_def)

lemma lamports_word: "unat (of_nat (lamports ix) :: u64) = lamports ix"
proof -
  have "lamports ix < 256 ^ length (take 8 (drop 4 (ix_data ix)))"
    unfolding lamports_def by (rule le_nat_bound)
  also have "\<dots> \<le> 256 ^ 8" by (rule power_increasing) simp_all
  finally show ?thesis by (simp add: unat_of_nat)
qed

lemma price_not_transfer: "sets_price k m ix \<Longrightarrow> \<not> is_sol_transfer k m ix"
  by (auto simp: sets_price_def is_sol_transfer_def compute_budget_program_def system_program_def)

definition pays_tip :: "codec \<Rightarrow> string list \<Rightarrow> wire_message \<Rightarrow> wire_ix \<Rightarrow> bool" where
  "pays_tip k tips m ix \<longleftrightarrow> is_sol_transfer k m ix \<and> goes_to_tip k tips m ix"

lemma tip_step_cases:
  "tip_step k tips m (price, tip) ix = (price \<or> sets_price k m ix,
     if pays_tip k tips m ix then sat_add tip (of_nat (lamports ix)) else tip)"
  using price_not_transfer [of k m ix]
  by (auto simp: tip_step_def pays_tip_def lamports_def)

lemma tip_fold:
  "fst (foldl (tip_step k tips m) (price, tip) ixs) \<longleftrightarrow> price \<or> (\<exists>ix \<in> set ixs. sets_price k m ix)"
  "unat (snd (foldl (tip_step k tips m) (price, tip) ixs))
     = min (unat tip + sum_list (map lamports (filter (pays_tip k tips m) ixs))) (2 ^ 64 - 1)"
proof (induction ixs arbitrary: price tip)
  case Nil
  case 2
  have "unat tip < 2 ^ LENGTH(64)" by (rule unsigned_less)
  then show ?case by simp
next
  case (Cons ix ixs)
  case 2
  have "unat (sat_add tip (of_nat (lamports ix))) = min (unat tip + lamports ix) (2 ^ 64 - 1)"
    by (simp only: unat_sat_add lamports_word) simp
  then show ?case
    by (cases "pays_tip k tips m ix") (simp_all add: tip_step_cases Cons(2) del: fun_upd_apply)
qed (auto simp: tip_step_cases)

text \<open>
  The relay check accepts a signed transaction exactly when it sets a compute-unit price
  (where that is required) and its transfers to tip accounts add up to the minimum; the sum is
  that of natural numbers, so no overflow can fake or hide a tip.
\<close>

theorem tip_paid:
  assumes "decode_signed b s = Inr (sigs, m)"
  shows "check_tip k b s tips min_tip require_price = Inr () \<longleftrightarrow>
    (require_price \<longrightarrow> (\<exists>ix \<in> set (msg_instructions m). sets_price k m ix))
    \<and> unat min_tip \<le> tip_total k tips m"
proof -
  let ?r = "foldl (tip_step k tips m) (False, 0) (msg_instructions m)"
  have "unat min_tip < 2 ^ LENGTH(64)" by (rule unsigned_less)
  then have "snd ?r < min_tip \<longleftrightarrow> \<not> unat min_tip \<le> tip_total k tips m"
    by (auto simp: word_less_nat_alt tip_fold tip_total_def pays_tip_def [abs_def])
  then show ?thesis
    using assms by (auto simp: check_tip_def case_prod_unfold Let_def tip_fold)
qed

section \<open>A sample transaction\<close>

definition letter_base64 :: base64 where
  "letter_base64 = \<lparr>b64_encode = b58_encode letter_codec, b64_decode = b58_decode letter_codec\<rparr>"

lemma base64_ok_letter [simp]: "base64_ok letter_base64"
  using codec_b58(1,3) [OF codec_ok_letter]
  by (fastforce simp: base64_ok_def letter_base64_def list_all_iff separator_def)

text \<open>A payer sends 1000 lamports to a tip account; the third key is the system program.\<close>

definition sample_message :: wire_message where
  "sample_message = \<lparr>required_signatures = 1,
     msg_keys = [replicate 32 1, replicate 32 2, replicate 32 0], recent_blockhash = replicate 32 9,
     msg_instructions = [\<lparr>program_index = 2, ix_accounts = [0, 1],
       ix_data = [2, 0, 0, 0, 0xE8, 3, 0, 0, 0, 0, 0, 0]\<rparr>]\<rparr>"

definition sample_wire :: "u8 list" where
  "sample_wire = encode_message False 0 1 sample_message []"

lemma sample_wf: "wf_message False sample_message"
  by (simp add: wf_message_def wf_ix_def sample_message_def)

theorem message_roundtrip_witness: "decode_message sample_wire = Inr sample_message"
  unfolding sample_wire_def by (rule message_roundtrip [OF sample_wf])

lemma sample_decodes: "decode_message sample_wire = Inr sample_message"
  unfolding sample_wire_def by (rule decode_encode_message [OF sample_wf])

definition sample_signed :: string where
  "sample_signed = b64_encode letter_base64
     (encode_compact (length [replicate 64 5 :: u8 list]) @ concat [replicate 64 5] @ sample_wire)"

theorem signature_is_first_witness:
  "signature_of letter_codec letter_base64 sample_signed = Inr (b58_encode letter_codec (replicate 64 5))"
  by (subst signature_is_first [OF base64_ok_letter _ _ sample_decodes sample_signed_def])
    (simp_all add: sample_message_def no_signature_def replicate_eq_replicate)

theorem simulation_roundtrip_witness:
  "\<exists>t h. transaction_for_simulation letter_base64 (b64_encode letter_base64 sample_wire) = Inr t
     \<and> unsigned_message_of letter_codec letter_base64 t = Inr (b64_encode letter_base64 sample_wire, h)"
proof -
  obtain t where t: "transaction_for_simulation letter_base64 (b64_encode letter_base64 sample_wire) = Inr t"
    by (simp add: transaction_for_simulation_def sample_decodes Let_def)
  from simulation_roundtrip [OF base64_ok_letter this, of letter_codec] t show ?thesis by auto
qed

definition system_codec :: codec where
  "system_codec = letter_codec\<lparr>b58_encode := (\<lambda>b. if b = replicate 32 0 then system_program
     else b58_encode letter_codec b)\<rparr>"

theorem tip_paid_witness:
  "check_tip system_codec letter_base64 sample_signed [b58_encode system_codec (replicate 32 2)] 1000 False = Inr ()
   \<and> check_tip system_codec letter_base64 sample_signed [b58_encode system_codec (replicate 32 2)] 1001 False \<noteq> Inr ()"
proof -
  have "decode_tx (encode_compact (length [replicate 64 5 :: u8 list]) @ concat [replicate 64 5] @ sample_wire)
      = Inr ([replicate 64 5], sample_wire)"
    by (rule decode_tx_encode) simp_all
  then have dec: "decode_signed letter_base64 sample_signed = Inr ([replicate 64 5], sample_message)"
    unfolding sample_signed_def
    by (simp only: decode_signed_def b64_reads_back [OF base64_ok_letter] ok_or_simps and_then_simps
        map_err_simps prod.case sample_decodes) (simp add: sample_message_def)
  have "tip_total system_codec [b58_encode system_codec (replicate 32 2)] sample_message = 1000"
    by (simp add: tip_total_def sample_message_def is_sol_transfer_def goes_to_tip_def key_text_def
        nth_opt_def system_codec_def lamports_def le_nat_def replicate_eq_replicate)
  with tip_paid [OF dec, of system_codec] show ?thesis by simp
qed

end
