(* ===== verification/SolanaTx.thy ===== *)
theory SolanaTx
  imports SolanaWire Payments ConfigLoader "HOL-Library.Product_Lexorder"
begin

text \<open>
  Reading Solana transactions (\<open>crates/protocols/src/solana/tx.rs\<close>, \<open>solana/mod.rs\<close>): the answer
  of \<open>getTransaction\<close> as a normalized transaction, with balance changes per owner, transfers and
  finality, and the look-up that asks a node for it.

  \<open>fsr\<close> is the decimal parser of 256-bit integers, \<open>ts\<close> the calendar's instant of a Unix time.
\<close>

section \<open>Finality\<close>

definition settled_commitment :: "chain_entry \<Rightarrow> string" where
  "settled_commitment ce =
     (if fp_default (ce_finality ce) = Some ''confirmed'' then ''confirmed'' else ''finalized'')"

definition finality_from_status :: "chain_entry \<Rightarrow> string option \<Rightarrow> u64 option \<Rightarrow> finality" where
  "finality_from_status ce st confs =
     (if st = Some ''finalized'' then Finalized
      else if st = Some ''confirmed'' then
        (if settled_commitment ce = ''confirmed'' then Finalized else Confirmed (unwrap_or 0 confs))
      else Pending)"

definition sol_native_asset :: "chain_entry \<Rightarrow> asset_id" where
  "sol_native_asset ce = native_asset (ce_id ce) (nat_slip44 (ce_native ce))"

definition token_asset :: "chain_entry \<Rightarrow> pubkey \<Rightarrow> asset_id" where
  "token_asset ce mint = AssetId (ce_id ce) (SplToken mint)"

section \<open>Instructions\<close>

definition token_2022_program :: string where
  "token_2022_program = ''TokenzQdBNbLqP5VEhdkAS6EPFLC1PHnBqCXEpPxuEb''"

definition token_programs :: "string list" where
  "token_programs = [''TokenkegQfeZyiNwAJbNbGKPFXCWuBvf9Ss623VQ5DA'', token_2022_program]"

definition account_keys :: "json \<Rightarrow> string list" where
  "account_keys v = List.map_filter (\<lambda>k. or_opt (as_str k) (as_str (jget k ''pubkey''))) (elements v)"

text \<open>The CPIs of outer instruction \<open>i\<close>, in every group that names it.\<close>

definition inner_instructions :: "json \<Rightarrow> nat \<Rightarrow> (u64 \<times> bool \<times> json) list" where
  "inner_instructions meta i = concat (map (\<lambda>grp.
       map (\<lambda>(j, ix). (push_bit 16 (of_nat i) OR (of_nat j + 1), True, ix))
         (enumerate 0 (elements (jget grp ''instructions''))))
     (filter (\<lambda>grp. as_u64 (jget grp ''index'') = Some (of_nat i)) (elements (jget meta ''innerInstructions''))))"

definition instructions :: "json \<Rightarrow> json \<Rightarrow> (u64 \<times> bool \<times> json) list" where
  "instructions msg meta = concat (map (\<lambda>(i, ix).
       (push_bit 16 (of_nat i), False, ix) # inner_instructions meta i)
     (enumerate 0 (elements (jget msg ''instructions''))))"

definition is_confidential :: "codec \<Rightarrow> json \<Rightarrow> bool" where
  "is_confidential k ix =
     (if as_str (jget ix ''programId'') \<noteq> Some token_2022_program then False
      else case as_str (jget (jget ix ''parsed'') ''type'') of
          Some t \<Rightarrow> contains ''confidential'' (lower t)
        | None \<Rightarrow> (case Option.bind (Option.bind (as_str (jget ix ''data'')) (b58_decode k)) hd_opt of
              None \<Rightarrow> False | Some tag \<Rightarrow> tag = 27 \<or> tag = 37))"

record raw_transfer =
  rt_pos :: u64
  rt_inner :: bool
  rt_native :: bool
  rt_source :: string
  rt_destination :: string
  rt_authority :: "string option"
  rt_amount :: u256
  rt_mint :: "string option"
  rt_decimals :: "u8 option"

definition raw_transfer_of :: "(string \<Rightarrow> u256 option) \<Rightarrow> u64 \<times> bool \<times> json \<Rightarrow> raw_transfer option" where
  "raw_transfer_of fsr = (\<lambda>(pos, inner, ix).
     Option.bind (as_str (jget ix ''programId'')) (\<lambda>program.
     Option.bind (as_str (jget (jget ix ''parsed'') ''type'')) (\<lambda>kind.
     let info = jget (jget ix ''parsed'') ''info''; s = (\<lambda>f. as_str (jget info f))
     in if program = system_program \<and> kind \<in> {''transfer'', ''transferWithSeed''} then
          Option.bind (s ''source'') (\<lambda>src. Option.bind (s ''destination'') (\<lambda>dst.
          Option.bind (as_u64 (jget info ''lamports'')) (\<lambda>n.
            Some \<lparr>rt_pos = pos, rt_inner = inner, rt_native = True, rt_source = src,
              rt_destination = dst, rt_authority = None, rt_amount = ucast n, rt_mint = None,
              rt_decimals = None\<rparr>)))
        else if program \<in> set token_programs
            \<and> kind \<in> {''transfer'', ''transferChecked'', ''transferCheckedWithFee''} then
          Option.bind (or_opt (s ''amount'') (as_str (jget (jget info ''tokenAmount'') ''amount''))) (\<lambda>a.
          Option.bind (s ''source'') (\<lambda>src. Option.bind (s ''destination'') (\<lambda>dst.
          Option.bind (fsr a) (\<lambda>n.
            Some \<lparr>rt_pos = pos, rt_inner = inner, rt_native = False, rt_source = src,
              rt_destination = dst, rt_authority = or_opt (s ''authority'') (s ''multisigAuthority''),
              rt_amount = n, rt_mint = s ''mint'',
              rt_decimals = Option.bind (as_u64 (jget (jget info ''tokenAmount'') ''decimals'')) narrow_u8\<rparr>))))
        else None)))"

section \<open>Token accounts\<close>

record token_acct =
  ta_owner :: string
  ta_mint :: string
  ta_program :: string
  ta_decimals :: u8
  ta_pre :: u256
  ta_post :: u256

definition no_acct :: token_acct where
  "no_acct = \<lparr>ta_owner = [], ta_mint = [], ta_program = [], ta_decimals = 0, ta_pre = 0, ta_post = 0\<rparr>"

definition note_balance :: "(string \<Rightarrow> u256 option) \<Rightarrow> string list \<Rightarrow> bool \<Rightarrow> json
    \<Rightarrow> (string \<times> token_acct) list \<Rightarrow> (string \<times> token_acct) list" where
  "note_balance fsr keys post b accts =
     (case Option.bind (as_u64 (jget b ''accountIndex'')) (\<lambda>i. nth_opt keys (unat i)) of
        None \<Rightarrow> accts
      | Some addr \<Rightarrow>
          let ui = jget b ''uiTokenAmount'';
              amount = unwrap_or 0 (Option.bind (as_str (jget ui ''amount'')) fsr)
          in bt_alter no_acct addr (\<lambda>a.
               let a = a\<lparr>ta_owner := unwrap_or addr (as_str (jget b ''owner'')),
                     ta_mint := unwrap_or [] (as_str (jget b ''mint'')),
                     ta_program := unwrap_or [] (as_str (jget b ''programId'')),
                     ta_decimals := ucast (unwrap_or 0 (as_u64 (jget ui ''decimals'')))\<rparr>
               in if post then a\<lparr>ta_post := amount\<rparr> else a\<lparr>ta_pre := amount\<rparr>) accts)"

definition token_accounts :: "(string \<Rightarrow> u256 option) \<Rightarrow> string list \<Rightarrow> json \<Rightarrow> (string \<times> token_acct) list" where
  "token_accounts fsr keys meta =
     fold (note_balance fsr keys True) (elements (jget meta ''postTokenBalances''))
       (fold (note_balance fsr keys False) (elements (jget meta ''preTokenBalances'')) [])"

definition to_transfer :: "codec \<Rightarrow> chain_entry \<Rightarrow> string \<Rightarrow> block_ref \<Rightarrow> (string \<times> token_acct) list
    \<Rightarrow> raw_transfer \<Rightarrow> transfer option" where
  "to_transfer k ce h block accts r =
     (let parts =
        (if rt_native r then
           Some (if rt_inner r then InternalTransfer else NativeTransfer, sol_native_asset ce,
             rt_source r, rt_destination r, nat_decimals (ce_native ce))
         else
           let src = map_of accts (rt_source r); dst = map_of accts (rt_destination r); either = or_opt dst src
           in Option.bind (or_opt (rt_mint r) (map_option ta_mint either)) (\<lambda>mint.
              Option.bind (or_opt (rt_decimals r) (map_option ta_decimals either)) (\<lambda>dec.
              Option.bind (to_option (parse_pubkey k mint)) (\<lambda>m.
                Some (TokenTransfer, token_asset ce m,
                  unwrap_or (rt_source r) (or_opt (map_option ta_owner src) (rt_authority r)),
                  unwrap_or (rt_destination r) (map_option ta_owner dst), dec)))))
      in Option.bind parts (\<lambda>(kind, asset, sender, target, dec).
         Option.bind (to_option (parse_any_address k target)) (\<lambda>to_addr.
           Some \<lparr>tr_chain = ce_id ce, tr_tx_hash = h, log_index = Some (rt_pos r), tr_kind = kind,
             tr_asset = asset, tr_from = to_option (parse_any_address k sender), tr_to = to_addr,
             tr_amount = new_amount (rt_amount r) dec, tr_block = Some block\<rparr>)))"

section \<open>Balance changes\<close>

record agg =
  agg_decimals :: u8
  agg_before :: u256
  agg_after :: u256
  agg_withheld :: u256

definition no_agg :: agg where
  "no_agg = \<lparr>agg_decimals = 0, agg_before = 0, agg_after = 0, agg_withheld = 0\<rparr>"

text \<open>What a Token-2022 account that only received was short of, compared with what was sent.\<close>

definition withheld_in :: "raw_transfer list \<Rightarrow> string \<Rightarrow> token_acct \<Rightarrow> u256" where
  "withheld_in raws addr a =
     (if ta_program a = token_2022_program \<and> \<not> list_ex (\<lambda>r. \<not> rt_native r \<and> rt_source r = addr) raws
      then sat_sub (sum_list (map rt_amount (filter (\<lambda>r. \<not> rt_native r \<and> rt_destination r = addr) raws)))
             (sat_sub (ta_post a) (ta_pre a))
      else 0)"

definition add_acct :: "raw_transfer list \<Rightarrow> string \<times> token_acct
    \<Rightarrow> ((string \<times> string) \<times> agg) list \<Rightarrow> ((string \<times> string) \<times> agg) list" where
  "add_acct raws = (\<lambda>(addr, a). bt_alter no_agg (ta_owner a, ta_mint a) (\<lambda>g.
     \<lparr>agg_decimals = ta_decimals a, agg_before = agg_before g + ta_pre a,
      agg_after = agg_after g + ta_post a, agg_withheld = agg_withheld g + withheld_in raws addr a\<rparr>))"

definition by_owner :: "raw_transfer list \<Rightarrow> (string \<times> token_acct) list \<Rightarrow> ((string \<times> string) \<times> agg) list" where
  "by_owner raws accts = fold (add_acct raws) accts []"

definition agg_changed :: "agg \<Rightarrow> bool" where
  "agg_changed g \<longleftrightarrow> \<not> (agg_before g = agg_after g \<and> agg_withheld g = 0)"

definition owner_address :: "codec \<Rightarrow> string \<Rightarrow> domain_error + account_address" where
  "owner_address k s = and_then (parse_pubkey k s) (\<lambda>p. Inr (SolanaAddress p))"

definition token_delta :: "codec \<Rightarrow> chain_entry \<Rightarrow> (string \<times> string) \<times> agg \<Rightarrow> domain_error + balance_delta" where
  "token_delta k ce = (\<lambda>((owner, mint), g).
     and_then (owner_address k owner) (\<lambda>addr. and_then (parse_pubkey k mint) (\<lambda>m.
       Inr \<lparr>delta_owner = addr, delta_asset = token_asset ce m,
         before = new_amount (agg_before g) (agg_decimals g),
         after = new_amount (agg_after g) (agg_decimals g),
         withheld_fee = (if agg_withheld g = 0 then None
                         else Some (new_amount (agg_withheld g) (agg_decimals g)))\<rparr>)))"

definition lamports_of :: "json \<Rightarrow> string \<Rightarrow> u64 list" where
  "lamports_of meta f = map (\<lambda>v. unwrap_or 0 (as_u64 v)) (elements (jget meta f))"

definition native_delta :: "codec \<Rightarrow> chain_entry \<Rightarrow> string \<times> u64 \<times> u64 \<Rightarrow> domain_error + balance_delta" where
  "native_delta k ce = (\<lambda>(key1, b, a). and_then (owner_address k key1) (\<lambda>addr.
     Inr \<lparr>delta_owner = addr, delta_asset = sol_native_asset ce,
       before = new_amount (ucast b) (nat_decimals (ce_native ce)),
       after = new_amount (ucast a) (nat_decimals (ce_native ce)), withheld_fee = None\<rparr>))"

definition native_changes :: "string list \<Rightarrow> (string \<times> token_acct) list \<Rightarrow> json \<Rightarrow> (string \<times> u64 \<times> u64) list" where
  "native_changes keys accts meta =
     filter (\<lambda>(key1, b, a). \<not> (a = b \<or> has_key accts key1))
       (zip keys (zip (lamports_of meta ''preBalances'') (lamports_of meta ''postBalances'')))"

definition balance_deltas_of :: "codec \<Rightarrow> (string \<Rightarrow> u256 option) \<Rightarrow> chain_entry \<Rightarrow> string list \<Rightarrow> json
    \<Rightarrow> raw_transfer list \<Rightarrow> domain_error + balance_delta list" where
  "balance_deltas_of k fsr ce keys meta raws =
     (let accts = token_accounts fsr keys meta in
      and_then (collect_results (map (token_delta k ce)
          (filter (\<lambda>(_, g). agg_changed g) (by_owner raws accts)))) (\<lambda>ts.
      and_then (collect_results (map (native_delta k ce) (native_changes keys accts meta))) (\<lambda>ns.
        Inr (ts @ ns))))"

section \<open>The transaction\<close>

definition parse_tx_with_finality :: "codec \<Rightarrow> (string \<Rightarrow> u256 option) \<Rightarrow> (int \<Rightarrow> datetime option)
    \<Rightarrow> chain_entry \<Rightarrow> json \<Rightarrow> finality \<Rightarrow> domain_error + json tx" where
  "parse_tx_with_finality k fsr ts ce v fin =
     (let meta = jget v ''meta''; msg = jget (jget v ''transaction'') ''message'' in
      if is_null meta then Inl (invalid ''transaction has no meta'')
      else let keys = account_keys (jget msg ''accountKeys'') in
        and_then (ok_or (invalid ''transaction has no signature'')
            (as_str (jat (jget (jget v ''transaction'') ''signatures'') 0))) (\<lambda>h.
        and_then (ok_or (invalid ''transaction has no slot'') (as_u64 (jget v ''slot''))) (\<lambda>slot.
          let ixs = instructions msg meta;
              raws = List.map_filter (raw_transfer_of fsr) ixs;
              block = \<lparr>number = slot, block_hash = None,
                timestamp = Option.bind (as_i64 (jget v ''blockTime'')) ts\<rparr>
          in and_then (balance_deltas_of k fsr ce keys meta raws) (\<lambda>ds.
             Inr \<lparr>tx_chain = ce_id ce, tx_hash = h,
               status = (if is_null (jget meta ''err'') then TxSuccess else TxFailed),
               tx_finality = (if list_ex (\<lambda>(_, _, ix). is_confidential k ix) ixs
                              then Unverifiable else fin),
               tx_block = Some block,
               tx_from = Option.bind (hd_opt keys) (\<lambda>s. to_option (parse_any_address k s)), tx_to = None,
               fee = map_option (\<lambda>f. new_amount (ucast f) (nat_decimals (ce_native ce)))
                       (as_u64 (jget meta ''fee'')),
               transfers = List.map_filter
                 (to_transfer k ce h block (token_accounts fsr keys meta)) raws,
               balance_deltas = ds, tx_raw = None\<rparr>))))"

text \<open>The node is an oracle: method and parameters to an answer.\<close>

type_synonym node = "string \<Rightarrow> json \<Rightarrow> provider_error + json"

definition get_transaction_config :: "string \<Rightarrow> json" where
  "get_transaction_config commitment = JObj [(''encoding'', JStr ''jsonParsed''),
     (''maxSupportedTransactionVersion'', JInt 0), (''commitment'', JStr commitment)]"

definition sol_get_tx :: "codec \<Rightarrow> (string \<Rightarrow> u256 option) \<Rightarrow> (int \<Rightarrow> datetime option) \<Rightarrow> node
    \<Rightarrow> chain_entry \<Rightarrow> string \<Rightarrow> provider_error + json tx option" where
  "sol_get_tx k fsr ts rpc ce sig =
     (if (case b58_decode k sig of None \<Rightarrow> True | Some b \<Rightarrow> length b \<noteq> 64)
      then Inl (Invalid (quoted sig @ '' is not a Solana transaction signature''))
      else and_then (rpc ''getSignatureStatuses''
          (JArr [JArr [JStr sig], JObj [(''searchTransactionHistory'', JBool True)]])) (\<lambda>st.
        let st = jat (jget st ''value'') 0 in
        if is_null st then Inr None
        else let fin = finality_from_status ce (as_str (jget st ''confirmationStatus''))
                   (as_u64 (jget st ''confirmations''))
          in and_then (rpc ''getTransaction'' (JArr [JStr sig, get_transaction_config ''confirmed''])) (\<lambda>v.
             if is_null v then Inr (Some \<lparr>tx_chain = ce_id ce, tx_hash = sig, status = TxPending,
               tx_finality = Pending,
               tx_block = map_option (\<lambda>n. \<lparr>number = n, block_hash = None, timestamp = None\<rparr>)
                 (as_u64 (jget st ''slot'')),
               tx_from = None, tx_to = None, fee = None, transfers = [], balance_deltas = [],
               tx_raw = None\<rparr>)
             else and_then (map_err (\<lambda>e. Transient (show_error e)) (parse_tx_with_finality k fsr ts ce v fin))
               (\<lambda>t. Inr (Some t)))))"

text \<open>The balance changes a node simulated for a message.\<close>

definition simulated_deltas :: "codec \<Rightarrow> (string \<Rightarrow> u256 option) \<Rightarrow> chain_entry \<Rightarrow> u8 list \<Rightarrow> json
    \<Rightarrow> domain_error + balance_delta list" where
  "simulated_deltas k fsr ce msg v =
     (if is_null (jget v ''preBalances'') then Inr []
      else and_then (map_err invalid (decode_message msg)) (\<lambda>m.
        let keys = map (b58_encode k) (msg_keys m)
              @ concat (map (\<lambda>part. List.map_filter as_str
                  (elements (jget (jget v ''loadedAddresses'') part))) [''writable'', ''readonly''])
        in balance_deltas_of k fsr ce keys v []))"

text \<open>A hash map: of two entries with one signature the later one is found.\<close>

definition status_map :: "json \<Rightarrow> (string \<times> u64 \<times> bool \<times> string option) list" where
  "status_map v = rev (List.map_filter (\<lambda>e.
     Option.bind (as_str (jget e ''signature'')) (\<lambda>s.
     Option.bind (as_u64 (jget e ''slot'')) (\<lambda>n.
       Some (s, n, \<not> is_null (jget e ''err''), as_str (jget e ''confirmationStatus''))))) (elements v))"

section \<open>Finality is what the node reported\<close>

lemma finality_from_Finalized:
  "finality_from_status ce st confs = Finalized \<longleftrightarrow>
     st = Some ''finalized'' \<or> (st = Some ''confirmed'' \<and> fp_default (ce_finality ce) = Some ''confirmed'')"
  by (simp add: finality_from_status_def settled_commitment_def)

lemma parse_tx_finality:
  assumes "parse_tx_with_finality k fsr ts ce v fin = Inr t"
  shows "tx_finality t = (if list_ex (\<lambda>(_, _, ix). is_confidential k ix)
      (instructions (jget (jget v ''transaction'') ''message'') (jget v ''meta'')) then Unverifiable else fin)
    \<and> tx_chain t = ce_id ce
    \<and> status t = (if is_null (jget (jget v ''meta'') ''err'') then TxSuccess else TxFailed)"
  using assms by (auto simp: parse_tx_with_finality_def and_then_Inr Let_def split: if_splits)

text \<open>
  C9: a Solana transaction that hides amounts is never judged paid: if any instruction, outer or
  inner, is a confidential transfer, then whatever finality the node reports and whatever payment
  is expected, the verdict is failed or unverifiable.
\<close>

theorem confidential_never_paid:
  assumes "parse_tx_with_finality k fsr ts ce v fin = Inr t"
    and "(pos, inner, ix) \<in> set (instructions (jget (jget v ''transaction'') ''message'') (jget v ''meta''))"
    and "is_confidential k ix"
  shows "pay_status (check_payment k js e t reg) \<in> {PayFailed, PayUnverifiable}"
proof -
  from assms parse_tx_finality [OF assms(1)] have "tx_finality t = Unverifiable"
    by (auto simp: list_ex_iff split: if_splits)
  then have "fst (status_of e t net mism) \<in> {PayFailed, PayUnverifiable}" for net mism
    by (simp add: status_of_def)
  then show ?thesis
    by (auto simp: check_payment_def Let_def case_prod_unfold)
qed

text \<open>
  A transaction comes back as final only when the node reported it as finalized, or as
  confirmed on a chain whose policy takes that for final; one that no node can show yet is
  pending, and one that hides amounts is never final.
\<close>

theorem sol_final_only_if_reported:
  assumes "sol_get_tx k fsr ts rpc ce sig = Inr (Some t)" and "tx_finality t = Finalized"
  shows "\<exists>st. rpc ''getSignatureStatuses''
        (JArr [JArr [JStr sig], JObj [(''searchTransactionHistory'', JBool True)]]) = Inr st
    \<and> (as_str (jget (jat (jget st ''value'') 0) ''confirmationStatus'') = Some ''finalized''
      \<or> as_str (jget (jat (jget st ''value'') 0) ''confirmationStatus'') = Some ''confirmed''
        \<and> fp_default (ce_finality ce) = Some ''confirmed'')"
proof -
  obtain st where st: "rpc ''getSignatureStatuses''
        (JArr [JArr [JStr sig], JObj [(''searchTransactionHistory'', JBool True)]]) = Inr st"
    using assms(1) by (auto simp: sol_get_tx_def and_then_Inr split: if_splits)
  let ?st = "jat (jget st ''value'') 0"
  let ?fin = "finality_from_status ce (as_str (jget ?st ''confirmationStatus'')) (as_u64 (jget ?st ''confirmations''))"
  obtain v where "parse_tx_with_finality k fsr ts ce v ?fin = Inr t"
    using assms st by (auto simp: sol_get_tx_def and_then_Inr Let_def split: if_splits)
  from parse_tx_finality [OF this] assms(2) have "?fin = Finalized" by (auto split: if_splits)
  with st show ?thesis by (auto simp: finality_from_Finalized)
qed

section \<open>Balance changes are exact\<close>

text \<open>
  The reference: all accounts of one owner and mint together, their balances summed up, with no
  map and no accumulation.
\<close>

definition holdings :: "(string \<times> token_acct) list \<Rightarrow> string \<Rightarrow> string \<Rightarrow> (string \<times> token_acct) list" where
  "holdings accts owner mint = filter (\<lambda>(_, a). ta_owner a = owner \<and> ta_mint a = mint) accts"

definition owner_total :: "raw_transfer list \<Rightarrow> (string \<times> token_acct) list \<Rightarrow> agg option" where
  "owner_total raws h = (if h = [] then None else Some
     \<lparr>agg_decimals = ta_decimals (snd (last h)), agg_before = sum_list (map (\<lambda>(_, a). ta_pre a) h),
      agg_after = sum_list (map (\<lambda>(_, a). ta_post a) h),
      agg_withheld = sum_list (map (\<lambda>(addr, a). withheld_in raws addr a) h)\<rparr>)"

lemma by_owner_sorted [simp]: "key_sorted (by_owner raws accts)"
proof -
  have "key_sorted m \<Longrightarrow> key_sorted (fold (add_acct raws) accts m)" for m
    by (induction accts arbitrary: m) (auto simp: add_acct_def)
  then show ?thesis by (simp add: by_owner_def)
qed

lemma by_owner_total:
  "map_of (by_owner raws accts) (owner, mint) = owner_total raws (holdings accts owner mint)"
proof (induction accts rule: rev_induct)
  case Nil
  then show ?case by (simp add: by_owner_def owner_total_def holdings_def)
next
  case (snoc x accts)
  obtain addr a where x: "x = (addr, a)" by (cases x)
  have "by_owner raws (accts @ [x]) = bt_alter no_agg (ta_owner a, ta_mint a) (\<lambda>g.
     \<lparr>agg_decimals = ta_decimals a, agg_before = agg_before g + ta_pre a,
      agg_after = agg_after g + ta_post a, agg_withheld = agg_withheld g + withheld_in raws addr a\<rparr>)
     (by_owner raws accts)"
    by (simp add: by_owner_def x add_acct_def)
  with snoc show ?case
    by (auto simp: map_of_alter x holdings_def owner_total_def no_agg_def)
qed

lemma collect_results_iff:
  "collect_results rs = Inr xs \<longleftrightarrow> rs = map Inr xs"
  by (induction rs arbitrary: xs) (auto simp: and_then_Inr)

lemma collect_results_set:
  "collect_results (map f ys) = Inr xs \<Longrightarrow> x \<in> set xs \<longleftrightarrow> (\<exists>y \<in> set ys. f y = Inr x)"
  unfolding collect_results_iff
  by (metis (no_types, lifting) image_iff list.set_map sum.inject(2))

text \<open>
  The same without any of the code's maps, straight from the node's answer. An account is described by
  its last balance entry, the ones before the transaction coming first; its balances are the last entries
  before and after, and zero where there is none.
\<close>

definition balance_entries :: "string list \<Rightarrow> json \<Rightarrow> string \<Rightarrow> string \<Rightarrow> json list" where
  "balance_entries keys meta f addr = filter (\<lambda>b. Option.bind (as_u64 (jget b ''accountIndex'')) (\<lambda>i. nth_opt keys (unat i))
     = Some addr) (elements (jget meta f))"

definition entry_amount :: "(string \<Rightarrow> u256 option) \<Rightarrow> json \<Rightarrow> u256" where
  "entry_amount fsr b = unwrap_or 0 (Option.bind (as_str (jget (jget b ''uiTokenAmount'') ''amount'')) fsr)"

definition shown_balance :: "(string \<Rightarrow> u256 option) \<Rightarrow> string list \<Rightarrow> json \<Rightarrow> string \<Rightarrow> string \<Rightarrow> u256" where
  "shown_balance fsr keys meta f addr = (case rev (balance_entries keys meta f addr) of [] \<Rightarrow> 0 | b # _ \<Rightarrow> entry_amount fsr b)"

definition described :: "string list \<Rightarrow> json \<Rightarrow> string \<Rightarrow> json option" where
  "described keys meta addr = (case rev (balance_entries keys meta ''preTokenBalances'' addr
       @ balance_entries keys meta ''postTokenBalances'' addr) of [] \<Rightarrow> None | b # _ \<Rightarrow> Some b)"

definition scale_of_account :: "string list \<Rightarrow> json \<Rightarrow> string \<Rightarrow> u8" where
  "scale_of_account keys meta addr = (case described keys meta addr of None \<Rightarrow> 0
     | Some b \<Rightarrow> ucast (unwrap_or 0 (as_u64 (jget (jget b ''uiTokenAmount'') ''decimals''))))"

definition accounts_of :: "string list \<Rightarrow> json \<Rightarrow> string \<Rightarrow> string \<Rightarrow> string set" where
  "accounts_of keys meta owner mint = {addr. \<exists>b. described keys meta addr = Some b
     \<and> unwrap_or addr (as_str (jget b ''owner'')) = owner \<and> unwrap_or [] (as_str (jget b ''mint'')) = mint}"

text \<open>What was sent to a Token-2022 account that itself sent nothing, and did not arrive there.\<close>

definition fee_kept :: "(string \<Rightarrow> u256 option) \<Rightarrow> string list \<Rightarrow> json \<Rightarrow> raw_transfer list \<Rightarrow> string \<Rightarrow> u256" where
  "fee_kept fsr keys meta raws addr =
     (let pre = shown_balance fsr keys meta ''preTokenBalances'' addr; post = shown_balance fsr keys meta ''postTokenBalances'' addr;
          sent = (\<Sum>r \<leftarrow> raws. if \<not> rt_native r \<and> rt_destination r = addr then rt_amount r else 0);
          gained = (if post < pre then 0 else post - pre)
      in if Option.bind (described keys meta addr) (\<lambda>b. as_str (jget b ''programId'')) = Some token_2022_program
           \<and> (\<forall>r \<in> set raws. rt_native r \<or> rt_source r \<noteq> addr) \<and> gained < sent
         then sent - gained else 0)"

text \<open>The row of an owner and mint, and when there has to be one.\<close>

definition sums_moved :: "(string \<Rightarrow> u256 option) \<Rightarrow> string list \<Rightarrow> json \<Rightarrow> raw_transfer list \<Rightarrow> string \<Rightarrow> string \<Rightarrow> bool" where
  "sums_moved fsr keys meta raws owner mint \<longleftrightarrow> (let S = accounts_of keys meta owner mint in
     (\<Sum>a \<in> S. shown_balance fsr keys meta ''preTokenBalances'' a) \<noteq> (\<Sum>a \<in> S. shown_balance fsr keys meta ''postTokenBalances'' a)
     \<or> (\<Sum>a \<in> S. fee_kept fsr keys meta raws a) \<noteq> 0)"

definition row_of_sums :: "codec \<Rightarrow> (string \<Rightarrow> u256 option) \<Rightarrow> chain_entry \<Rightarrow> string list \<Rightarrow> json \<Rightarrow> raw_transfer list
    \<Rightarrow> string \<Rightarrow> string \<Rightarrow> balance_delta \<Rightarrow> bool" where
  "row_of_sums k fsr ce keys meta raws owner mint d \<longleftrightarrow> (\<exists>p m dec. parse_pubkey k owner = Inr p \<and> parse_pubkey k mint = Inr m
     \<and> dec = scale_of_account keys meta (Max (accounts_of keys meta owner mint))
     \<and> delta_owner d = SolanaAddress p \<and> delta_asset d = token_asset ce m
     \<and> before d = new_amount (\<Sum>a \<in> accounts_of keys meta owner mint. shown_balance fsr keys meta ''preTokenBalances'' a) dec
     \<and> after d = new_amount (\<Sum>a \<in> accounts_of keys meta owner mint. shown_balance fsr keys meta ''postTokenBalances'' a) dec
     \<and> withheld_fee d = (let fee = (\<Sum>a \<in> accounts_of keys meta owner mint. fee_kept fsr keys meta raws a)
         in if fee = 0 then None else Some (new_amount fee dec)))"

lemma noted_one:
  "key_sorted m \<Longrightarrow> map_of (note_balance fsr keys post b m) addr =
     (if Option.bind (as_u64 (jget b ''accountIndex'')) (\<lambda>i. nth_opt keys (unat i)) = Some addr
      then Some \<lparr>ta_owner = unwrap_or addr (as_str (jget b ''owner'')), ta_mint = unwrap_or [] (as_str (jget b ''mint'')),
           ta_program = unwrap_or [] (as_str (jget b ''programId'')),
           ta_decimals = ucast (unwrap_or 0 (as_u64 (jget (jget b ''uiTokenAmount'') ''decimals''))),
           ta_pre = (if post then ta_pre (unwrap_or no_acct (map_of m addr)) else entry_amount fsr b),
           ta_post = (if post then entry_amount fsr b else ta_post (unwrap_or no_acct (map_of m addr)))\<rparr>
      else map_of m addr)"
  by (cases "Option.bind (as_u64 (jget b ''accountIndex'')) (\<lambda>i. nth_opt keys (unat i))")
    (auto simp: note_balance_def Let_def map_of_alter entry_amount_def unwrap_or_def split: option.split)

lemma noted_balances:
  assumes "key_sorted m"
  shows "key_sorted (fold (note_balance fsr keys post) bs m)"
    and "map_of (fold (note_balance fsr keys post) bs m) addr =
      (case rev (filter (\<lambda>b. Option.bind (as_u64 (jget b ''accountIndex'')) (\<lambda>i. nth_opt keys (unat i)) = Some addr) bs) of
         [] \<Rightarrow> map_of m addr
       | b # _ \<Rightarrow> Some \<lparr>ta_owner = unwrap_or addr (as_str (jget b ''owner'')), ta_mint = unwrap_or [] (as_str (jget b ''mint'')),
           ta_program = unwrap_or [] (as_str (jget b ''programId'')),
           ta_decimals = ucast (unwrap_or 0 (as_u64 (jget (jget b ''uiTokenAmount'') ''decimals''))),
           ta_pre = (if post then ta_pre (unwrap_or no_acct (map_of m addr)) else entry_amount fsr b),
           ta_post = (if post then entry_amount fsr b else ta_post (unwrap_or no_acct (map_of m addr)))\<rparr>)"
proof -
  have sorted: "key_sorted (fold (note_balance fsr keys post) bs m)" for bs
    using assms by (induction bs arbitrary: m) (auto simp: note_balance_def Let_def split: option.split)
  then show "key_sorted (fold (note_balance fsr keys post) bs m)" .
  show "map_of (fold (note_balance fsr keys post) bs m) addr =
      (case rev (filter (\<lambda>b. Option.bind (as_u64 (jget b ''accountIndex'')) (\<lambda>i. nth_opt keys (unat i)) = Some addr) bs) of
         [] \<Rightarrow> map_of m addr
       | b # _ \<Rightarrow> Some \<lparr>ta_owner = unwrap_or addr (as_str (jget b ''owner'')), ta_mint = unwrap_or [] (as_str (jget b ''mint'')),
           ta_program = unwrap_or [] (as_str (jget b ''programId'')),
           ta_decimals = ucast (unwrap_or 0 (as_u64 (jget (jget b ''uiTokenAmount'') ''decimals''))),
           ta_pre = (if post then ta_pre (unwrap_or no_acct (map_of m addr)) else entry_amount fsr b),
           ta_post = (if post then entry_amount fsr b else ta_post (unwrap_or no_acct (map_of m addr)))\<rparr>)"
  proof (induction bs rule: rev_induct)
    case (snoc b bs)
    let ?hits = "rev (filter (\<lambda>b. Option.bind (as_u64 (jget b ''accountIndex'')) (\<lambda>i. nth_opt keys (unat i)) = Some addr) bs)"
    show ?case by (cases ?hits) (use snoc in \<open>auto simp: noted_one [OF sorted] unwrap_or_def\<close>)
  qed simp
qed

lemma token_accounts_shown:
  "key_sorted (token_accounts fsr keys meta)"
  "map_of (token_accounts fsr keys meta) addr = map_option (\<lambda>b. \<lparr>ta_owner = unwrap_or addr (as_str (jget b ''owner'')),
      ta_mint = unwrap_or [] (as_str (jget b ''mint'')), ta_program = unwrap_or [] (as_str (jget b ''programId'')),
      ta_decimals = scale_of_account keys meta addr, ta_pre = shown_balance fsr keys meta ''preTokenBalances'' addr,
      ta_post = shown_balance fsr keys meta ''postTokenBalances'' addr\<rparr>) (described keys meta addr)"
proof -
  let ?pre = "fold (note_balance fsr keys False) (elements (jget meta ''preTokenBalances'')) []"
  have pre: "key_sorted ?pre" by (rule noted_balances) simp
  then show "key_sorted (token_accounts fsr keys meta)" unfolding token_accounts_def by (rule noted_balances)
  show "map_of (token_accounts fsr keys meta) addr = map_option (\<lambda>b. \<lparr>ta_owner = unwrap_or addr (as_str (jget b ''owner'')),
      ta_mint = unwrap_or [] (as_str (jget b ''mint'')), ta_program = unwrap_or [] (as_str (jget b ''programId'')),
      ta_decimals = scale_of_account keys meta addr, ta_pre = shown_balance fsr keys meta ''preTokenBalances'' addr,
      ta_post = shown_balance fsr keys meta ''postTokenBalances'' addr\<rparr>) (described keys meta addr)"
    unfolding token_accounts_def noted_balances(2) [OF pre] noted_balances(2) [OF key_sorted_Nil]
      scale_of_account_def described_def shown_balance_def balance_entries_def
    by (auto simp: no_acct_def unwrap_or_def split: list.split)
qed

text \<open>All sums of an owner and mint run over the same accounts, listed in the order of their addresses.\<close>

lemma holdings_listed:
  "\<exists>L. sorted_wrt (<) L \<and> set L = accounts_of keys meta owner mint
    \<and> holdings (token_accounts fsr keys meta) owner mint = map (\<lambda>a. (a, the (map_of (token_accounts fsr keys meta) a))) L"
proof -
  let ?t = "token_accounts fsr keys meta"
  define L where "L = map fst (holdings ?t owner mint)"
  have s: "sorted_wrt (<) (map fst ?t)" using token_accounts_shown(1) [of fsr keys meta] by (simp add: key_sorted_def)
  have d: "distinct (map fst ?t)" using key_sorted_distinct [OF token_accounts_shown(1)] .
  have "sorted_wrt (<) L" using s by (simp add: L_def holdings_def sorted_wrt_map sorted_wrt_filter)
  moreover have "set L = accounts_of keys meta owner mint"
  proof (rule set_eqI)
    fix addr
    have "addr \<in> set L \<longleftrightarrow> (\<exists>a. map_of ?t addr = Some a \<and> ta_owner a = owner \<and> ta_mint a = mint)"
      using d by (force simp: L_def holdings_def map_of_eq_Some_iff)
    then show "addr \<in> set L \<longleftrightarrow> addr \<in> accounts_of keys meta owner mint"
      by (auto simp: accounts_of_def token_accounts_shown(2))
  qed
  moreover have "holdings ?t owner mint = map (\<lambda>a. (a, the (map_of ?t a))) L"
    using d by (auto simp: L_def holdings_def comp_def intro!: map_idI [symmetric])
  ultimately show ?thesis by blast
qed

lemma fee_withheld:
  assumes "described keys meta addr = Some b"
  shows "withheld_in raws addr (the (map_of (token_accounts fsr keys meta) addr)) = fee_kept fsr keys meta raws addr"
proof -
  have "sum_list (map rt_amount (filter (\<lambda>r. \<not> rt_native r \<and> rt_destination r = addr) rs))
      = (\<Sum>r \<leftarrow> rs. if \<not> rt_native r \<and> rt_destination r = addr then rt_amount r else 0)" for rs
    by (induction rs) auto
  moreover have "unwrap_or [] x = token_2022_program \<longleftrightarrow> x = Some token_2022_program" for x
    by (cases x) (simp_all add: token_2022_program_def)
  ultimately show ?thesis
    using assms by (auto simp: withheld_in_def fee_kept_def token_accounts_shown(2) sat_sub_def Let_def list_ex_iff not_less
      dest: order.antisym)
qed

lemma sorted_last_Max: "sorted_wrt (<) L \<Longrightarrow> L \<noteq> [] \<Longrightarrow> last L = Max (set L)" for L :: "'a::linorder list"
  by (cases L rule: rev_cases) (auto simp: sorted_wrt_append Max_insert2 less_imp_le)

lemma owner_total_shown:
  "owner_total raws (holdings (token_accounts fsr keys meta) owner mint) =
     (if accounts_of keys meta owner mint = {} then None else Some
       \<lparr>agg_decimals = scale_of_account keys meta (Max (accounts_of keys meta owner mint)),
        agg_before = (\<Sum>a \<in> accounts_of keys meta owner mint. shown_balance fsr keys meta ''preTokenBalances'' a),
        agg_after = (\<Sum>a \<in> accounts_of keys meta owner mint. shown_balance fsr keys meta ''postTokenBalances'' a),
        agg_withheld = (\<Sum>a \<in> accounts_of keys meta owner mint. fee_kept fsr keys meta raws a)\<rparr>)"
proof -
  let ?t = "token_accounts fsr keys meta"
  from holdings_listed [of keys meta owner mint fsr] obtain L where L: "sorted_wrt (<) L" "set L = accounts_of keys meta owner mint"
    "holdings ?t owner mint = map (\<lambda>a. (a, the (map_of ?t a))) L" by blast
  have d: "distinct L" using L(1) by (simp add: strict_sorted_iff)
  have known: "\<exists>b. described keys meta a = Some b" if "a \<in> set L" for a using that L(2) by (auto simp: accounts_of_def)
  have "sum_list (map (\<lambda>a. ta_pre (the (map_of ?t a))) L) = (\<Sum>a \<in> set L. shown_balance fsr keys meta ''preTokenBalances'' a)"
    "sum_list (map (\<lambda>a. ta_post (the (map_of ?t a))) L) = (\<Sum>a \<in> set L. shown_balance fsr keys meta ''postTokenBalances'' a)"
    "sum_list (map (\<lambda>a. withheld_in raws a (the (map_of ?t a))) L) = (\<Sum>a \<in> set L. fee_kept fsr keys meta raws a)"
    unfolding sum_list_distinct_conv_sum_set [OF d]
    by (rule sum.cong [OF refl], use known fee_withheld in \<open>force simp: token_accounts_shown(2)\<close>)+
  moreover have "ta_decimals (the (map_of ?t (last L))) = scale_of_account keys meta (Max (set L))" if "L \<noteq> []"
    using known [of "last L"] that by (auto simp: token_accounts_shown(2) sorted_last_Max [OF L(1)])
  ultimately show ?thesis
    using L(2) by (auto simp: owner_total_def L(3) last_map comp_def)
qed

text \<open>
  C10: the token balance changes of a parsed transaction are exact. There is a row for an owner and mint
  precisely when the balances of all their accounts, summed up, differ before and after, or a transfer fee
  was withheld from one of them; and the row holds these sums and the fees. Nothing is dropped and no
  account is counted twice, however many accounts and instructions there are.
\<close>

theorem owner_changes_exact:
  assumes "balance_deltas_of k fsr ce keys meta raws = Inr ds"
  shows "(\<forall>owner mint. sums_moved fsr keys meta raws owner mint \<longrightarrow> (\<exists>d \<in> set ds. row_of_sums k fsr ce keys meta raws owner mint d))
    \<and> (\<forall>d \<in> set ds. (\<exists>m. delta_asset d = token_asset ce m) \<longrightarrow>
        (\<exists>owner mint. sums_moved fsr keys meta raws owner mint \<and> row_of_sums k fsr ce keys meta raws owner mint d))"
proof -
  let ?accts = "token_accounts fsr keys meta"
  obtain tk nt where ds: "ds = tk @ nt"
    and tk: "collect_results (map (token_delta k ce) (filter (\<lambda>(_, g). agg_changed g) (by_owner raws ?accts))) = Inr tk"
    and nt: "collect_results (map (native_delta k ce) (native_changes keys ?accts meta)) = Inr nt"
    using assms by (auto simp: balance_deltas_of_def and_then_Inr Let_def)
  have native: "\<not> (\<exists>m. delta_asset d = token_asset ce m)" if "d \<in> set nt" for d
    using that collect_results_set [OF nt, of d]
    by (auto simp: native_delta_def and_then_Inr sol_native_asset_def native_asset_def token_asset_def)
  have entry: "((owner, mint), g) \<in> set (by_owner raws ?accts) \<longleftrightarrow>
      owner_total raws (holdings ?accts owner mint) = Some g" for owner mint g
    using key_sorted_distinct [OF by_owner_sorted, of raws ?accts]
    by (simp add: by_owner_total [symmetric] map_of_eq_Some_iff)
  have moved: "(\<exists>g. ((owner, mint), g) \<in> set (by_owner raws ?accts) \<and> agg_changed g) \<longleftrightarrow> sums_moved fsr keys meta raws owner mint"
    for owner mint
    unfolding entry owner_total_shown by (auto simp: agg_changed_def sums_moved_def Let_def)
  have row: "row_of_sums k fsr ce keys meta raws owner mint d"
    if "((owner, mint), g) \<in> set (by_owner raws ?accts)" "token_delta k ce ((owner, mint), g) = Inr d" for owner mint g d
    using that unfolding entry owner_total_shown
    by (auto simp: token_delta_def row_of_sums_def owner_address_def and_then_Inr Let_def split: if_splits)
  have all: "token_delta k ce x \<in> Inr ` set tk" if "x \<in> set (by_owner raws ?accts)" "agg_changed (snd x)" for x
  proof -
    have "token_delta k ce x \<in> set (map (token_delta k ce) (filter (\<lambda>(_, g). agg_changed g) (by_owner raws ?accts)))"
      using that by (force simp: case_prod_unfold)
    then show ?thesis using tk unfolding collect_results_iff by simp
  qed
  have "\<exists>d \<in> set ds. row_of_sums k fsr ce keys meta raws owner mint d" if "sums_moved fsr keys meta raws owner mint" for owner mint
  proof -
    from that moved [of owner mint] obtain g where g: "((owner, mint), g) \<in> set (by_owner raws ?accts)" "agg_changed g" by blast
    from all [OF g(1)] g(2) obtain d where "d \<in> set tk" "token_delta k ce ((owner, mint), g) = Inr d" by auto
    with row [OF g(1)] ds show ?thesis by auto
  qed
  moreover have "\<exists>owner mint. sums_moved fsr keys meta raws owner mint \<and> row_of_sums k fsr ce keys meta raws owner mint d"
    if "d \<in> set ds" "\<exists>m. delta_asset d = token_asset ce m" for d
  proof -
    from that native ds have "d \<in> set tk" by auto
    with collect_results_set [OF tk, of d] obtain owner mint g where
      "((owner, mint), g) \<in> set (by_owner raws ?accts)" "agg_changed g" "token_delta k ce ((owner, mint), g) = Inr d" by auto
    with moved row show ?thesis by blast
  qed
  ultimately show ?thesis by blast
qed

section \<open>Positions are unique\<close>

text \<open>
  A well-formed answer: one group of inner instructions per outer one, and fewer than the
  65535 inner ones that fit the low bits of a position (a transaction has at most 64).
\<close>

definition groups_ok :: "json \<Rightarrow> json \<Rightarrow> bool" where
  "groups_ok msg meta \<longleftrightarrow> length (elements (jget msg ''instructions'')) < 2 ^ 48
     \<and> distinct (map (\<lambda>grp. as_u64 (jget grp ''index'')) (elements (jget meta ''innerInstructions'')))
     \<and> list_all (\<lambda>grp. length (elements (jget grp ''instructions'')) < 65535)
         (elements (jget meta ''innerInstructions''))"

lemma position_value:
  assumes "i < 2 ^ 48" and "j < 65536"
  shows "unat (push_bit 16 (of_nat i) OR of_nat j :: u64) = i * 65536 + j"
proof -
  have i: "unat (of_nat i :: u64) = i" and j: "unat (of_nat j :: u64) = j"
    using assms by (simp_all add: unat_of_nat)
  have "unat (of_nat (i * 65536) :: u64) = i * 65536" using assms(1) by (simp only: unat_of_nat) simp
  moreover have "push_bit 16 (of_nat i) = (of_nat (i * 65536) :: u64)" by (simp add: push_bit_eq_mult)
  ultimately have "unat (push_bit 16 (of_nat i) :: u64) = push_bit 16 i"
    by (simp only: push_bit_eq_mult) simp
  then have "unat (push_bit 16 (of_nat i) OR of_nat j :: u64) = j OR push_bit 16 i"
    by (simp only: unsigned_or_eq j or.commute)
  also have "\<dots> = j + i * 2 ^ 16" using assms(2) by (intro or_push) simp
  finally show ?thesis by simp
qed

lemma distinct_filter_one:
  "distinct (map f xs) \<Longrightarrow> filter (\<lambda>x. f x = y) xs = [] \<or> (\<exists>x \<in> set xs. filter (\<lambda>x. f x = y) xs = [x])"
proof (induction xs)
  case (Cons x xs)
  show ?case
  proof (cases "f x = y")
    case True
    have "f x \<notin> f ` set xs" using Cons.prems by simp
    with True have "f z \<noteq> y" if "z \<in> set xs" for z using imageI [OF that, of f] by metis
    then have "filter (\<lambda>x. f x = y) xs = []" by (simp add: filter_empty_conv)
    with True show ?thesis by simp
  qed (use Cons in auto)
qed simp

definition positions_of :: "json \<Rightarrow> nat \<Rightarrow> u64 list" where
  "positions_of meta i = push_bit 16 (of_nat i) # map fst (inner_instructions meta i)"

lemma positions_instructions:
  "map fst (instructions msg meta)
     = concat (map (positions_of meta) [0 ..< length (elements (jget msg ''instructions''))])"
proof -
  have "map fst (concat (map (\<lambda>(i, ix). (push_bit 16 (of_nat i), False, ix) # inner_instructions meta i)
      (enumerate n xs))) = concat (map (positions_of meta) [n ..< n + length xs])" for n and xs :: "json list"
    by (induction xs arbitrary: n) (simp_all add: positions_of_def upt_conv_Cons del: upt_Suc)
  from this [of 0] show ?thesis by (simp add: instructions_def)
qed

lemma positions_of_values:
  assumes "groups_ok msg meta" and "i < length (elements (jget msg ''instructions''))"
  shows "\<exists>n < 65536. map unat (positions_of meta i) = map (\<lambda>j. i * 65536 + j) [0 ..< n]"
proof -
  let ?grps = "elements (jget meta ''innerInstructions'')"
  let ?mine = "filter (\<lambda>grp. as_u64 (jget grp ''index'') = Some (of_nat i)) ?grps"
  have i: "i < 2 ^ 48" using assms by (simp add: groups_ok_def)
  have outer: "unat (push_bit 16 (of_nat i) :: u64) = i * 65536"
    using position_value [OF i, of 0] by simp
  have "?mine = [] \<or> (\<exists>grp \<in> set ?grps. ?mine = [grp])"
    using assms(1) by (intro distinct_filter_one) (simp add: groups_ok_def)
  then show ?thesis
  proof
    assume "?mine = []"
    then show ?thesis using outer
      by (intro exI [of _ 1]) (simp add: positions_of_def inner_instructions_def)
  next
    assume "\<exists>grp \<in> set ?grps. ?mine = [grp]"
    then obtain grp where grp: "grp \<in> set ?grps" "?mine = [grp]" by blast
    let ?n = "length (elements (jget grp ''instructions''))"
    have n: "?n < 65535" using assms(1) grp(1) by (simp add: groups_ok_def list_all_iff)
    have "map fst (inner_instructions meta i) = map (\<lambda>j. push_bit 16 (of_nat i) OR (of_nat j + 1)) [0 ..< ?n]"
      by (simp add: inner_instructions_def grp(2) enumerate_eq_zip case_prod_unfold comp_def)
        (rule nth_equalityI, simp_all)
    moreover have "unat (push_bit 16 (of_nat i) OR (of_nat j + 1) :: u64) = i * 65536 + Suc j"
      if "j < ?n" for j
    proof -
      have "(of_nat j + 1 :: u64) = of_nat (Suc j)" by simp
      moreover have "Suc j < 65536" using that n by simp
      ultimately show ?thesis by (simp only: position_value [OF i])
    qed
    ultimately have "map unat (positions_of meta i) = i * 65536 # map (\<lambda>j. i * 65536 + Suc j) [0 ..< ?n]"
      using outer by (simp add: positions_of_def)
    also have "\<dots> = map (\<lambda>j. i * 65536 + j) [0 ..< Suc ?n]"
      by (simp add: upt_rec [of 0] map_Suc_upt [symmetric] comp_def del: upt_Suc)
    finally show ?thesis using n by (intro exI [of _ "Suc ?n"]) simp
  qed
qed

lemma distinct_blocks:
  "(\<forall>i < m. \<exists>n < (w :: nat). f i = map (\<lambda>j. i * w + j) [0 ..< n]) \<Longrightarrow>
    distinct (concat (map f [0 ..< m])) \<and> (\<forall>x \<in> set (concat (map f [0 ..< m])). x < m * w)"
proof (induction m)
  case (Suc m)
  then obtain n where n: "n < w" "f m = map (\<lambda>j. m * w + j) [0 ..< n]" by auto
  from Suc have ih: "distinct (concat (map f [0 ..< m]))" "\<forall>x \<in> set (concat (map f [0 ..< m])). x < m * w"
    by auto
  have "distinct (f m)" using n by (simp add: distinct_map inj_on_def)
  moreover have "\<forall>x \<in> set (f m). m * w \<le> x \<and> x < Suc m * w" using n by auto
  ultimately show ?case using ih by (fastforce simp: less_Suc_eq_le)
qed simp

lemma distinct_positions:
  assumes "groups_ok msg meta"
  shows "distinct (map fst (instructions msg meta))"
proof -
  let ?m = "length (elements (jget msg ''instructions''))"
  have "\<forall>i < ?m. \<exists>n < 65536. map unat (positions_of meta i) = map (\<lambda>j. i * 65536 + j) [0 ..< n]"
    using positions_of_values [OF assms] by blast
  from distinct_blocks [OF this] have "distinct (map unat (map fst (instructions msg meta)))"
    by (simp add: positions_instructions map_concat comp_def)
  then show ?thesis by (metis distinct_map)
qed

lemma distinct_map_filter:
  assumes "distinct (map h xs)" and "\<And>x y. f x = Some y \<Longrightarrow> g y = h x"
  shows "distinct (map g (List.map_filter f xs))"
  using assms(1)
proof (induction xs)
  case (Cons x xs)
  have "g y \<noteq> h x" if "y \<in> set (List.map_filter f xs)" for y
  proof -
    from that obtain z where "z \<in> set xs" "f z = Some y" by (auto simp: set_map_filter_iff)
    with assms(2) have "g y \<in> h ` set xs" by auto
    with Cons.prems show ?thesis by auto
  qed
  then have new: "h x \<notin> g ` set (List.map_filter f xs)" by (metis imageE)
  show ?case
  proof (cases "f x")
    case (Some a)
    with assms(2) have "g a = h x" by simp
    with Some new Cons show ?thesis by (simp add: List.map_filter_simps)
  qed (use Cons in \<open>simp add: List.map_filter_simps\<close>)
qed (simp add: List.map_filter_simps)

lemma raw_transfer_pos: "raw_transfer_of fsr x = Some r \<Longrightarrow> rt_pos r = fst x"
  by (auto simp: raw_transfer_of_def Let_def split: prod.splits Option.bind_splits if_splits)

lemma to_transfer_ids:
  "to_transfer k ce h block accts r = Some t \<Longrightarrow>
     log_index t = Some (rt_pos r) \<and> tr_chain t = ce_id ce \<and> tr_tx_hash t = h"
  by (auto simp: to_transfer_def Let_def split: Option.bind_splits)

text \<open>
  The transfers of a Solana transaction have distinct positions, outer or inner, so as
  deposits they get distinct idempotency keys: no deposit is credited twice or hides another.
\<close>

theorem sol_transfers_distinct:
  assumes "parse_tx_with_finality k fsr ts ce v fin = Inr t"
    and "groups_ok (jget (jget v ''transaction'') ''message'') (jget v ''meta'')"
  shows "distinct (map transfer_id (transfers t))
    \<and> (\<forall>x \<in> set (transfers t). tr_chain x = tx_chain t \<and> tr_tx_hash x = tx_hash t)"
proof -
  let ?ixs = "instructions (jget (jget v ''transaction'') ''message'') (jget v ''meta'')"
  obtain block accts where t: "transfers t = List.map_filter (to_transfer k ce (tx_hash t) block accts)
      (List.map_filter (raw_transfer_of fsr) ?ixs)" "tx_chain t = ce_id ce"
    using assms(1) by (auto simp: parse_tx_with_finality_def and_then_Inr Let_def split: if_splits)
  have "distinct (map rt_pos (List.map_filter (raw_transfer_of fsr) ?ixs))"
    using distinct_positions [OF assms(2)] by (rule distinct_map_filter) (rule raw_transfer_pos)
  then have "distinct (map (\<lambda>r. Some (rt_pos r)) (List.map_filter (raw_transfer_of fsr) ?ixs))"
    by (simp add: distinct_map inj_on_def)
  then have "distinct (map log_index (transfers t))"
    unfolding t(1) by (rule distinct_map_filter) (simp add: to_transfer_ids)
  then have "distinct (map transfer_id (transfers t))"
    by (auto simp: distinct_map inj_on_def transfer_id_def)
  then show ?thesis
    using t to_transfer_ids by (auto simp: set_map_filter_iff)
qed

section \<open>A sample transaction\<close>

text \<open>A codec for short names: three letters name a signature, one letter a key.\<close>

definition name_codec :: codec where
  "name_codec = letter_codec\<lparr>b58_decode := (\<lambda>s. if length s = 3 then Some (replicate 64 7)
     else if length s = 1 then Some (replicate 32 (of_nat (of_char (hd s)))) else None)\<rparr>"

definition sol_chain :: chain_entry where
  "sol_chain = sample_chain\<lparr>ce_id := ChainId ''solana'' ''5eykt4UsFv8P8NJdTREpY1vzqKqZKvdp'',
     ce_family := Solana, ce_native := \<lparr>nat_symbol = ''SOL'', nat_decimals = 9, nat_slip44 = 501\<rparr>\<rparr>"

text \<open>Owner \<open>o\<close> receives 5 units of mint \<open>m\<close> in a new account \<open>a\<close>; the payer \<open>p\<close> pays the fee.\<close>

definition sol_answer :: "string \<Rightarrow> json" where
  "sol_answer kind = JObj [(''slot'', JInt 5),
     (''meta'', JObj [(''err'', JNull), (''fee'', JInt 5000),
        (''preBalances'', JArr [JInt 9000, JInt 0]), (''postBalances'', JArr [JInt 4000, JInt 0]),
        (''postTokenBalances'', JArr [JObj [(''accountIndex'', JInt 1), (''mint'', JStr ''m''),
           (''owner'', JStr ''o''), (''programId'', JStr token_2022_program),
           (''uiTokenAmount'', JObj [(''amount'', JStr ''5''), (''decimals'', JInt 6)])]])]),
     (''transaction'', JObj [(''signatures'', JArr [JStr ''sig'']),
        (''message'', JObj [(''accountKeys'', JArr [JStr ''p'', JStr ''a'']),
           (''instructions'', JArr [JObj [(''programId'', JStr token_2022_program),
              (''parsed'', JObj [(''type'', JStr kind)])]])])])]"

abbreviation sol_parse :: "string \<Rightarrow> finality \<Rightarrow> domain_error + json tx" where
  "sol_parse kind fin \<equiv> parse_tx_with_finality name_codec std_parser (\<lambda>_. None) sol_chain (sol_answer kind) fin"

lemma name_decode: "b58_decode name_codec s = (if length s = 3 then Some (replicate 64 7)
     else if length s = 1 then Some (replicate 32 (of_nat (of_char (hd s)))) else None)"
  by (simp add: name_codec_def)

lemma sol_accounts: "token_accounts std_parser [''p'', ''a''] (jget (sol_answer kind) ''meta'')
    = [(''a'', \<lparr>ta_owner = ''o'', ta_mint = ''m'', ta_program = token_2022_program, ta_decimals = 6,
         ta_pre = 0, ta_post = 5\<rparr>)]"
  by (simp add: token_accounts_def note_balance_def sol_answer_def nth_opt_def std_parser_def no_acct_def
      read_dec_def digit_val_def all_digits_def is_digit_def)

lemma sol_owners: "by_owner [] [(''a'', \<lparr>ta_owner = ''o'', ta_mint = ''m'', ta_program = token_2022_program,
       ta_decimals = 6, ta_pre = 0, ta_post = 5\<rparr>)]
    = [((''o'', ''m''), \<lparr>agg_decimals = 6, agg_before = 0, agg_after = 5, agg_withheld = 0\<rparr>)]"
  by (simp add: by_owner_def add_acct_def withheld_in_def no_agg_def sat_sub_def)

lemma sol_changes: "is_ok (balance_deltas_of name_codec std_parser sol_chain [''p'', ''a''] (jget (sol_answer kind) ''meta'') [])"
  by (simp add: balance_deltas_of_def sol_accounts sol_owners agg_changed_def token_delta_def owner_address_def
      parse_pubkey_def name_decode native_changes_def native_delta_def lamports_of_def Let_def)
    (simp add: sol_answer_def owner_address_def parse_pubkey_def name_decode has_key_def)

lemma sol_raws: "List.map_filter (raw_transfer_of std_parser) (instructions (jget (jget (sol_answer kind) ''transaction'') ''message'')
     (jget (sol_answer kind) ''meta'')) = []" if "kind \<in> {''memo'', ''confidentialTransfer''}"
  using that by (auto simp: instructions_def sol_answer_def inner_instructions_def raw_transfer_of_def
      token_2022_program_def system_program_def List.map_filter_simps)

lemma sol_parses:
  assumes "kind \<in> {''memo'', ''confidentialTransfer''}"
  shows "is_ok (sol_parse kind fin)"
proof -
  have keys: "account_keys (jget (jget (jget (sol_answer kind) ''transaction'') ''message'') ''accountKeys'') = [''p'', ''a'']"
    by (simp add: account_keys_def sol_answer_def List.map_filter_simps)
  have "jget (sol_answer kind) ''meta'' \<noteq> JNull" "as_u64 (jget (sol_answer kind) ''slot'') = Some 5"
    "as_str (jat (jget (jget (sol_answer kind) ''transaction'') ''signatures'') 0) = Some ''sig''"
    by (simp_all add: sol_answer_def jat_def)
  with sol_changes [of kind] show ?thesis
    by (simp add: parse_tx_with_finality_def is_null_def keys sol_raws [OF assms] Let_def)
      (auto simp: is_ok_def split: sum.splits)
qed

lemma is_okD: "is_ok r \<Longrightarrow> \<exists>x. r = Inr x"
  by (cases r) simp_all

theorem confidential_never_paid_witness:
  "\<exists>t. sol_parse ''confidentialTransfer'' Finalized = Inr t
     \<and> pay_status (check_payment name_codec (\<lambda>_. []) sample_expected t []) \<in> {PayFailed, PayUnverifiable}"
proof -
  from sol_parses [of "''confidentialTransfer''"] obtain t where t: "sol_parse ''confidentialTransfer'' Finalized = Inr t"
    by (auto dest: is_okD)
  let ?ix = "JObj [(''programId'', JStr token_2022_program), (''parsed'', JObj [(''type'', JStr ''confidentialTransfer'')])]"
  have "(0, False, ?ix) \<in> set (instructions (jget (jget (sol_answer ''confidentialTransfer'') ''transaction'') ''message'')
      (jget (sol_answer ''confidentialTransfer'') ''meta''))"
    by (simp add: instructions_def sol_answer_def)
  moreover have "is_confidential name_codec ?ix"
    by (simp add: is_confidential_def lower_def to_lower_def is_upper_def starts_with_def)
  ultimately show ?thesis using confidential_never_paid [OF t] t by blast
qed

definition sol_node :: node where
  "sol_node meth ps = Inr (if meth = ''getSignatureStatuses''
     then JObj [(''value'', JArr [JObj [(''confirmationStatus'', JStr ''finalized'')]])]
     else sol_answer ''memo'')"

theorem sol_final_only_if_reported_witness:
  "\<exists>t. sol_get_tx name_codec std_parser (\<lambda>_. None) sol_node sol_chain ''sig'' = Inr (Some t)
     \<and> tx_finality t = Finalized
     \<and> (\<exists>st. as_str (jget (jat (jget st ''value'') 0) ''confirmationStatus'') = Some ''finalized''
          \<or> fp_default (ce_finality sol_chain) = Some ''confirmed'')"
proof -
  from sol_parses [of "''memo''"] obtain t where t: "sol_parse ''memo'' Finalized = Inr t" by (auto dest: is_okD)
  have "b58_decode name_codec ''sig'' = Some (replicate 64 7)" by (simp add: name_decode)
  moreover have "sol_answer ''memo'' \<noteq> JNull" by (simp add: sol_answer_def)
  ultimately have get: "sol_get_tx name_codec std_parser (\<lambda>_. None) sol_node sol_chain ''sig'' = Inr (Some t)"
    using t by (simp add: sol_get_tx_def sol_node_def jat_def is_null_def finality_from_status_def)
  have "\<not> list_ex (\<lambda>(_, _, ix). is_confidential name_codec ix)
      (instructions (jget (jget (sol_answer ''memo'') ''transaction'') ''message'') (jget (sol_answer ''memo'') ''meta''))"
    by (simp add: instructions_def sol_answer_def inner_instructions_def is_confidential_def lower_def
        to_lower_def is_upper_def starts_with_def)
  with parse_tx_finality [OF t] have "tx_finality t = Finalized" by simp
  with get sol_final_only_if_reported [OF get] show ?thesis by blast
qed

abbreviation sol_deltas :: "domain_error + balance_delta list" where
  "sol_deltas \<equiv> balance_deltas_of name_codec std_parser sol_chain [''p'', ''a'']
     (jget (sol_answer ''memo'') ''meta'') []"

theorem owner_changes_exact_witness:
  "\<exists>ds d. sol_deltas = Inr ds \<and> d \<in> set ds \<and> raw (before d) = 0 \<and> raw (after d) = 5"
proof -
  let ?meta = "jget (sol_answer ''memo'') ''meta''" and ?keys = "[''p'', ''a'']"
  from sol_changes [of "''memo''"] obtain ds where ds: "sol_deltas = Inr ds" by (auto dest: is_okD)
  define b where "b = JObj [(''accountIndex'', JInt 1), (''mint'', JStr ''m''), (''owner'', JStr ''o''),
      (''programId'', JStr token_2022_program), (''uiTokenAmount'', JObj [(''amount'', JStr ''5''), (''decimals'', JInt 6)])]"
  have entries: "balance_entries ?keys ?meta ''preTokenBalances'' addr = []"
    "balance_entries ?keys ?meta ''postTokenBalances'' addr = (if addr = ''a'' then [b] else [])" for addr
    by (auto simp: balance_entries_def sol_answer_def nth_opt_def b_def)
  then have described: "described ?keys ?meta addr = (if addr = ''a'' then Some b else None)" for addr
    by (simp add: described_def)
  have accts: "accounts_of ?keys ?meta ''o'' ''m'' = {''a''}"
    by (auto simp: accounts_of_def described b_def split: if_splits)
  have "entry_amount std_parser b = 5"
    by (simp add: entry_amount_def b_def std_parser_def read_dec_def digit_val_def all_digits_def is_digit_def)
  then have bal: "shown_balance std_parser ?keys ?meta ''preTokenBalances'' ''a'' = 0"
    "shown_balance std_parser ?keys ?meta ''postTokenBalances'' ''a'' = 5" by (simp_all add: shown_balance_def entries)
  then have "sums_moved std_parser ?keys ?meta [] ''o'' ''m''" by (simp add: sums_moved_def accts)
  with owner_changes_exact [OF ds] obtain d where "d \<in> set ds" "row_of_sums name_codec std_parser sol_chain ?keys ?meta [] ''o'' ''m'' d"
    by blast
  with ds bal show ?thesis by (auto simp: row_of_sums_def accts new_amount_def)
qed

theorem sol_transfers_distinct_witness:
  "\<exists>t. sol_parse ''memo'' Finalized = Inr t \<and> distinct (map transfer_id (transfers t))"
proof -
  from sol_parses [of "''memo''"] obtain t where t: "sol_parse ''memo'' Finalized = Inr t" by (auto dest: is_okD)
  have "groups_ok (jget (jget (sol_answer ''memo'') ''transaction'') ''message'') (jget (sol_answer ''memo'') ''meta'')"
    by (simp add: groups_ok_def sol_answer_def)
  from sol_transfers_distinct [OF t this] t show ?thesis by blast
qed

end
