(* ===== verification/EvmTx.thy ===== *)
theory EvmTx
  imports SolanaTx
begin

text \<open>
  Reading EVM transactions (\<open>crates/protocols/src/evm\<close>: \<open>mod.rs\<close>, \<open>multicall3.rs\<close>, \<open>tx.rs\<close>, and
  the decoding of decimals in \<open>erc20.rs\<close>): transfer logs, fees, finality from block tags and the
  balance changes derived from the logs.

  Hexadecimal data, 256-bit numbers and ABI encoding come from dependencies: the record
  \<open>evm_lib\<close> is the parameter for them.
\<close>

record evm_lib =
  el_codec :: codec
  el_topic :: "string \<Rightarrow> u256 option"
  el_u256 :: "string \<Rightarrow> u256 option"
  el_hex_decode :: "string \<Rightarrow> u8 list option"
  el_hex_encode :: "u8 list \<Rightarrow> string"
  el_json_address :: "address \<Rightarrow> string"
  el_transfer_topic :: u256
  el_show_word :: "u256 \<Rightarrow> string"
  el_decimals_call :: "u8 list"
  el_aggregate3 :: "(address \<times> bool \<times> u8 list) list \<Rightarrow> u8 list"
  el_results :: "u8 list \<Rightarrow> (bool \<times> u8 list) list option"

section \<open>Hexadecimal answers\<close>

definition hex_digit :: "char \<Rightarrow> nat option" where
  "hex_digit c = (if is_digit c then Some (digit_val c)
     else if CHR ''a'' \<le> c \<and> c \<le> CHR ''f'' then Some (byte c - 87)
     else if CHR ''A'' \<le> c \<and> c \<le> CHR ''F'' then Some (byte c - 55) else None)"

definition read_hex :: "string \<Rightarrow> nat option" where
  "read_hex s = foldl (\<lambda>acc c. Option.bind acc (\<lambda>n. map_option (\<lambda>d. 16 * n + d) (hex_digit c))) (Some 0) s"

text \<open>\<open>u64::from_str_radix(s, 16)\<close>.\<close>

definition parse_hex_u64 :: "string \<Rightarrow> u64 option" where
  "parse_hex_u64 s = (let t = unwrap_or s (strip_prefix ''+'' s) in
     if t = [] then None
     else Option.bind (read_hex t) (\<lambda>n. if n < 2 ^ 64 then Some (of_nat n) else None))"

fun strip_0x :: "string \<Rightarrow> string" where
  "strip_0x (c # d # s) = (if c = CHR ''0'' \<and> d = CHR ''x'' then strip_0x s else c # d # s)"
| "strip_0x s = s"

definition hex_char :: "nat \<Rightarrow> char" where
  "hex_char d = (if d < 10 then digit_char d else char_of (87 + d))"

fun show_hex :: "nat \<Rightarrow> string" where
  "show_hex n = (if n < 16 then [hex_char n] else show_hex (n div 16) @ [hex_char (n mod 16)])"

declare show_hex.simps [simp del]

definition block_tag :: "u64 \<Rightarrow> string" where
  "block_tag n = ''0x'' @ show_hex (unat n)"

definition hex_u64 :: "json \<Rightarrow> provider_error + u64" where
  "hex_u64 v = ok_or (malformed ''expected hex quantity'')
     (Option.bind (as_str v) (\<lambda>s. parse_hex_u64 (strip_0x s)))"

definition hex_u256 :: "evm_lib \<Rightarrow> json \<Rightarrow> provider_error + u256" where
  "hex_u256 x v = ok_or (malformed ''expected hex quantity'')
     (Option.bind (as_str v) (\<lambda>s. el_u256 x (strip_0x s)))"

definition hex_bytes :: "evm_lib \<Rightarrow> json \<Rightarrow> provider_error + u8 list" where
  "hex_bytes x v = ok_or (malformed ''expected hex data'')
     (Option.bind (as_str v) (\<lambda>s. el_hex_decode x (strip_0x s)))"

definition be_nat :: "u8 list \<Rightarrow> nat" where
  "be_nat bs = foldl (\<lambda>acc b. 256 * acc + unat b) 0 bs"

definition be_u256 :: "u8 list \<Rightarrow> u256" where
  "be_u256 bs = of_nat (be_nat bs)"

section \<open>Calls\<close>

definition block_number :: "node \<Rightarrow> provider_error + u64" where
  "block_number rpc = and_then (rpc ''eth_blockNumber'' (JArr [])) hex_u64"

definition eth_call :: "evm_lib \<Rightarrow> node \<Rightarrow> address \<Rightarrow> u8 list \<Rightarrow> string \<Rightarrow> provider_error + u8 list" where
  "eth_call x rpc to data block = and_then
     (rpc ''eth_call'' (JArr [JObj [(''to'', JStr (el_json_address x to)),
        (''data'', JStr (''0x'' @ el_hex_encode x data))], JStr block])) (hex_bytes x)"

definition multicall_address :: address where
  "multicall_address = 0xcA11bde05977b3631167028862bE2a173976CA11"

definition aggregate3 :: "evm_lib \<Rightarrow> node \<Rightarrow> (address \<times> u8 list) list \<Rightarrow> string
    \<Rightarrow> provider_error + u8 list option list" where
  "aggregate3 x rpc calls block =
     (if calls = [] then Inr []
      else and_then (eth_call x rpc multicall_address
          (el_aggregate3 x (map (\<lambda>(target, data). (target, True, data)) calls)) block) (\<lambda>out.
        and_then (ok_or (malformed ''aggregate3 return data'') (el_results x out)) (\<lambda>rs.
        if length rs \<noteq> length calls then Inl (malformed ''aggregate3 result count'')
        else Inr (map (\<lambda>(success, data). if success then Some data else None) rs))))"

definition decode_decimals :: "u8 list \<Rightarrow> u8 option" where
  "decode_decimals out = (if 32 \<le> length out
     then (let n = be_u256 (take 32 out) in if n < 256 then Some (ucast n) else None) else None)"

text \<open>
  The distinct tokens come out of a hash set, in an order nothing depends on; here it is that of
  the list. The result is read by key.
\<close>

definition token_decimals :: "evm_lib \<Rightarrow> node \<Rightarrow> address list \<Rightarrow> string
    \<Rightarrow> provider_error + (address \<times> u8) list" where
  "token_decimals x rpc tokens block =
     (let unique = remdups tokens in
      if unique = [] then Inr []
      else and_then (aggregate3 x rpc (map (\<lambda>t. (t, el_decimals_call x)) unique) block) (\<lambda>rs.
        Inr (List.map_filter (\<lambda>(t, r). map_option (Pair t) (Option.bind r decode_decimals)) (zip unique rs))))"

section \<open>Transfer logs\<close>

record evm_transfer =
  et_token :: address
  et_from :: address
  et_to :: address
  et_value :: u256
  et_tx_hash :: string
  et_log_index :: "u64 option"
  et_block :: "block_ref option"

definition log_topic :: "evm_lib \<Rightarrow> json list \<Rightarrow> nat \<Rightarrow> u256 option" where
  "log_topic x topics i = Option.bind (Option.bind (nth_opt topics i) as_str) (el_topic x)"

definition log_block :: "json \<Rightarrow> block_ref option" where
  "log_block l = Option.bind (as_str (jget l ''blockNumber'')) (\<lambda>_.
     Option.bind (to_option (hex_u64 (jget l ''blockNumber''))) (\<lambda>n.
       Some \<lparr>number = n, block_hash = as_str (jget l ''blockHash''), timestamp = None\<rparr>))"

definition decode_transfer_log :: "evm_lib \<Rightarrow> json \<Rightarrow> evm_transfer option" where
  "decode_transfer_log x l =
     (if as_bool (jget l ''removed'') = Some True then None
      else case jget l ''topics'' of
          JArr topics \<Rightarrow>
            if length topics \<noteq> 3 \<or> log_topic x topics 0 \<noteq> Some (el_transfer_topic x) then None
            else Option.bind (to_option (hex_bytes x (jget l ''data''))) (\<lambda>data.
              if length data \<noteq> 32 then None
              else Option.bind (Option.bind (as_str (jget l ''address'')) (address_from_str (el_codec x))) (\<lambda>token.
                Option.bind (log_topic x topics 1) (\<lambda>sender.
                Option.bind (log_topic x topics 2) (\<lambda>target.
                Option.bind (as_str (jget l ''transactionHash'')) (\<lambda>h.
                  Some \<lparr>et_token = token, et_from = ucast sender, et_to = ucast target,
                    et_value = be_u256 data, et_tx_hash = h,
                    et_log_index = to_option (hex_u64 (jget l ''logIndex'')),
                    et_block = log_block l\<rparr>)))))
        | _ \<Rightarrow> None)"

definition to_transfers :: "chain_id \<Rightarrow> evm_transfer list \<Rightarrow> (address \<times> u8) list \<Rightarrow> transfer list" where
  "to_transfers c raws decs = List.map_filter (\<lambda>r. map_option (\<lambda>d.
     \<lparr>tr_chain = c, tr_tx_hash = et_tx_hash r, log_index = et_log_index r, tr_kind = TokenTransfer,
       tr_asset = AssetId c (Erc20 (et_token r)), tr_from = Some (EvmAddress (et_from r)),
       tr_to = EvmAddress (et_to r), tr_amount = new_amount (et_value r) d, tr_block = et_block r\<rparr>)
     (map_of decs (et_token r))) raws"

section \<open>Transactions\<close>

definition fee_paid :: "evm_lib \<Rightarrow> json \<Rightarrow> json \<Rightarrow> provider_error + u256" where
  "fee_paid x receipt t =
     and_then (if is_null (jget receipt ''effectiveGasPrice'') then hex_u256 x (jget t ''gasPrice'')
               else hex_u256 x (jget receipt ''effectiveGasPrice'')) (\<lambda>price.
     and_then (hex_u256 x (jget receipt ''gasUsed'')) (\<lambda>used.
     if is_null (jget receipt ''l1Fee'') then Inr (sat_mul used price)
     else and_then (hex_u256 x (jget receipt ''l1Fee'')) (\<lambda>l1. Inr (sat_add (sat_mul used price) l1))))"

text \<open>One transfer: added to the row of its recipient and token, or a new row at the end.\<close>

fun add_received :: "transfer \<Rightarrow> balance_delta list \<Rightarrow> provider_error + balance_delta list" where
  "add_received t [] = Inr [\<lparr>delta_owner = tr_to t, delta_asset = tr_asset t,
     before = zero_amount (decimals (tr_amount t)), after = tr_amount t, withheld_fee = None\<rparr>]"
| "add_received t (d # ds) =
     (if delta_owner d = tr_to t \<and> delta_asset d = tr_asset t
      then and_then (map_err (\<lambda>e. Invalid (message e)) (amount_add (after d) (tr_amount t)))
             (\<lambda>a. Inr (d\<lparr>after := a\<rparr> # ds))
      else and_then (add_received t ds) (\<lambda>ds. Inr (d # ds)))"

fun recipient_deltas_from :: "balance_delta list \<Rightarrow> transfer list \<Rightarrow> provider_error + balance_delta list" where
  "recipient_deltas_from ds [] = Inr ds"
| "recipient_deltas_from ds (t # ts) = and_then (add_received t ds) (\<lambda>ds. recipient_deltas_from ds ts)"

definition recipient_deltas :: "transfer list \<Rightarrow> provider_error + balance_delta list" where
  "recipient_deltas ts = recipient_deltas_from [] ts"

definition tagged_block :: "node \<Rightarrow> string \<Rightarrow> provider_error + u64 option" where
  "tagged_block rpc tag = (case rpc ''eth_getBlockByNumber'' (JArr [JStr tag, JBool False]) of
       Inr v \<Rightarrow> if is_null v then Inr None
         else and_then (hex_u64 (jget v ''number'')) (\<lambda>n. Inr (Some n))
     | Inl (Invalid _) \<Rightarrow> Inr None
     | Inl (Unsupported _) \<Rightarrow> Inr None
     | Inl e \<Rightarrow> Inl e)"

fun finality_by_tags :: "node \<Rightarrow> u64 \<Rightarrow> (string \<times> finality) list \<Rightarrow> provider_error + finality option" where
  "finality_by_tags rpc b [] = Inr None"
| "finality_by_tags rpc b ((tag, level) # tags) = and_then (tagged_block rpc tag) (\<lambda>n.
     if (case n of None \<Rightarrow> False | Some n \<Rightarrow> b \<le> n) then Inr (Some level)
     else finality_by_tags rpc b tags)"

definition finality_of :: "node \<Rightarrow> chain_entry \<Rightarrow> u64 \<Rightarrow> provider_error + finality" where
  "finality_of rpc ce b = and_then
     (if fp_policy (ce_finality ce) = ''tags''
      then finality_by_tags rpc b [(''finalized'', Finalized), (''safe'', Safe)] else Inr None) (\<lambda>level.
     case level of
       Some f \<Rightarrow> Inr f
     | None \<Rightarrow> and_then (block_number rpc) (\<lambda>head. Inr (Confirmed (sat_sub head b + 1))))"

definition evm_get_tx :: "evm_lib \<Rightarrow> node \<Rightarrow> chain_entry \<Rightarrow> string \<Rightarrow> provider_error + json tx option" where
  "evm_get_tx x rpc ce h =
     and_then (rpc ''eth_getTransactionByHash'' (JArr [JStr h])) (\<lambda>t.
     if is_null t then Inr None
     else let addr = (\<lambda>v. map_option EvmAddress (Option.bind (as_str v) (address_from_str (el_codec x))));
         pending = \<lparr>tx_chain = ce_id ce, tx_hash = unwrap_or h (as_str (jget t ''hash'')), status = TxPending,
           tx_finality = Pending, tx_block = None, tx_from = addr (jget t ''from''),
           tx_to = addr (jget t ''to''), fee = None, transfers = [], balance_deltas = [], tx_raw = None\<rparr>
       in if is_null (jget t ''blockNumber'') then Inr (Some pending)
       else and_then (rpc ''eth_getTransactionReceipt'' (JArr [JStr h])) (\<lambda>r.
       if is_null r then Inr (Some pending)
       else and_then (hex_u64 (jget r ''blockNumber'')) (\<lambda>n.
       and_then (fee_paid x r t) (\<lambda>paid.
         let raws = List.map_filter (decode_transfer_log x) (elements (jget r ''logs'')) in
       and_then (token_decimals x rpc (map et_token raws) (block_tag n)) (\<lambda>decs.
         let ts = to_transfers (ce_id ce) raws decs in
       and_then (recipient_deltas ts) (\<lambda>ds.
       and_then (finality_of rpc ce n) (\<lambda>f.
         Inr (Some (pending\<lparr>
           status := (if as_str (jget r ''status'') = Some ''0x1'' then TxSuccess else TxFailed),
           tx_block := Some \<lparr>number = n, block_hash = as_str (jget r ''blockHash''), timestamp = None\<rparr>,
           fee := Some (new_amount paid (nat_decimals (ce_native ce))),
           transfers := ts, balance_deltas := ds, tx_finality := f\<rparr>)))))))))"

section \<open>Balance changes\<close>

text \<open>
  The specification: what \<open>w\<close> received in the asset \<open>a\<close>, as a natural number, and when the
  transfers to an owner in an asset have one scale.
\<close>

definition incoming :: "account_address \<Rightarrow> asset_id \<Rightarrow> transfer list \<Rightarrow> transfer list" where
  "incoming w a ts = filter (\<lambda>t. tr_to t = w \<and> tr_asset t = a) ts"

definition total_in :: "account_address \<Rightarrow> asset_id \<Rightarrow> transfer list \<Rightarrow> nat" where
  "total_in w a ts = sum_list (map (\<lambda>t. unat (raw (tr_amount t))) (incoming w a ts))"

definition scaled_in :: "account_address \<Rightarrow> asset_id \<Rightarrow> u8 \<Rightarrow> transfer list \<Rightarrow> bool" where
  "scaled_in w a dec ts \<longleftrightarrow> list_all (\<lambda>t. decimals (tr_amount t) = dec) (incoming w a ts)"

definition row_key :: "balance_delta \<Rightarrow> account_address \<times> asset_id" where
  "row_key d = (delta_owner d, delta_asset d)"

definition recipient_key :: "transfer \<Rightarrow> account_address \<times> asset_id" where
  "recipient_key t = (tr_to t, tr_asset t)"

definition new_row :: "transfer \<Rightarrow> balance_delta" where
  "new_row t = \<lparr>delta_owner = tr_to t, delta_asset = tr_asset t,
     before = zero_amount (decimals (tr_amount t)), after = tr_amount t, withheld_fee = None\<rparr>"

text \<open>The row of an owner and an asset says what the transfers so far say.\<close>

definition row_exact :: "transfer list \<Rightarrow> balance_delta \<Rightarrow> bool" where
  "row_exact ts d \<longleftrightarrow> before d = zero_amount (decimals (after d)) \<and> withheld_fee d = None
     \<and> scaled_in (delta_owner d) (delta_asset d) (decimals (after d)) ts
     \<and> unat (raw (after d)) = total_in (delta_owner d) (delta_asset d) ts"

definition rows_exact :: "transfer list \<Rightarrow> balance_delta list \<Rightarrow> bool" where
  "rows_exact ts ds \<longleftrightarrow> distinct (map row_key ds) \<and> (\<forall>d \<in> set ds. row_exact ts d)
     \<and> row_key ` set ds = recipient_key ` set ts"

lemma incoming_snoc:
  "incoming w a (ts @ [t]) = incoming w a ts @ (if recipient_key t = (w, a) then [t] else [])"
  by (simp add: incoming_def recipient_key_def)

lemma in_snoc [simp]:
  "total_in w a (ts @ [t]) =
     total_in w a ts + (if recipient_key t = (w, a) then unat (raw (tr_amount t)) else 0)"
  "scaled_in w a dec (ts @ [t]) \<longleftrightarrow>
     scaled_in w a dec ts \<and> (recipient_key t = (w, a) \<longrightarrow> decimals (tr_amount t) = dec)"
  by (simp_all add: total_in_def scaled_in_def incoming_snoc)

lemma incoming_none:
  "(w, a) \<notin> recipient_key ` set ts \<Longrightarrow> incoming w a ts = []"
  by (force simp: incoming_def recipient_key_def filter_empty_conv)

lemma add_received_absent:
  "recipient_key t \<notin> row_key ` set ds \<Longrightarrow> add_received t ds = Inr (ds @ [new_row t])"
  by (induction ds) (auto simp: row_key_def recipient_key_def new_row_def)

lemma add_received_present:
  "recipient_key t \<notin> row_key ` set as \<Longrightarrow> row_key d = recipient_key t \<Longrightarrow>
     add_received t (as @ d # ds) = and_then (map_err (\<lambda>e. Invalid (message e))
       (amount_add (after d) (tr_amount t))) (\<lambda>a. Inr (as @ d\<lparr>after := a\<rparr> # ds))"
proof (induction as)
  case Nil
  then show ?case by (simp add: row_key_def recipient_key_def)
next
  case (Cons b as)
  then have "\<not> (delta_owner b = tr_to t \<and> delta_asset b = tr_asset t)"
    by (auto simp: row_key_def recipient_key_def)
  with Cons show ?case
    by (cases "amount_add (after d) (tr_amount t)") auto
qed

lemma row_exact_other:
  "row_key d \<noteq> recipient_key t \<Longrightarrow> row_exact (ts @ [t]) d \<longleftrightarrow> row_exact ts d"
  by (auto simp: row_exact_def row_key_def)

lemma rows_exact_new:
  assumes "rows_exact ts ds" and "recipient_key t \<notin> row_key ` set ds"
  shows "rows_exact (ts @ [t]) (ds @ [new_row t])"
proof -
  have key: "row_key (new_row t) = recipient_key t"
    by (simp add: row_key_def recipient_key_def new_row_def)
  have "(tr_to t, tr_asset t) \<notin> recipient_key ` set ts"
    using assms by (simp add: rows_exact_def recipient_key_def)
  then have "row_exact (ts @ [t]) (new_row t)"
    by (simp add: row_exact_def new_row_def total_in_def scaled_in_def incoming_snoc incoming_none
        recipient_key_def)
  moreover have "row_exact (ts @ [t]) d" if "d \<in> set ds" for d
  proof -
    have "row_key d \<noteq> recipient_key t" using that assms(2) by force
    with that assms(1) show ?thesis by (simp add: row_exact_other rows_exact_def)
  qed
  ultimately show ?thesis
    using assms key by (auto simp: rows_exact_def)
qed

lemma rows_exact_sum:
  assumes rows: "rows_exact ts (as @ d # ds)" and key: "row_key d = recipient_key t"
    and a: "amount_add (after d) (tr_amount t) = Inr a"
  shows "rows_exact (ts @ [t]) (as @ d\<lparr>after := a\<rparr> # ds)"
proof -
  have same: "row_key (d\<lparr>after := a\<rparr>) = row_key d" by (simp add: row_key_def)
  have "row_exact (ts @ [t]) (d\<lparr>after := a\<rparr>)"
    using rows key a by (simp add: rows_exact_def row_exact_def row_key_def amount_add_Inr)
  moreover have "row_exact (ts @ [t]) b" if "b \<in> set as \<union> set ds" for b
  proof -
    have "row_key d \<notin> row_key ` (set as \<union> set ds)" using rows by (auto simp: rows_exact_def)
    with that have "row_key b \<noteq> row_key d" by (metis image_eqI)
    with that rows show ?thesis by (auto simp: key row_exact_other rows_exact_def)
  qed
  moreover have "recipient_key t \<in> recipient_key ` set ts"
    using rows unfolding key [symmetric] by (simp add: rows_exact_def) blast
  ultimately show ?thesis
    using rows by (simp add: rows_exact_def same key insert_absorb)
qed

lemma add_received_exact:
  assumes rows: "rows_exact ts ds" and add: "add_received t ds = Inr es"
  shows "rows_exact (ts @ [t]) es"
proof (cases "recipient_key t \<in> row_key ` set ds")
  case False
  with rows add show ?thesis by (auto simp: add_received_absent rows_exact_new)
next
  case True
  then obtain as d bs where ds: "ds = as @ d # bs" and d: "row_key d = recipient_key t"
    and as: "recipient_key t \<notin> row_key ` set as"
    using split_list_first_prop [of ds "\<lambda>d. row_key d = recipient_key t"] by fastforce
  from add obtain a where "amount_add (after d) (tr_amount t) = Inr a"
    and "es = as @ d\<lparr>after := a\<rparr> # bs"
    by (auto simp: ds add_received_present [OF as d] and_then_Inr)
  with rows_exact_sum [OF rows [unfolded ds] d] show ?thesis by simp
qed

lemma recipient_rows:
  "recipient_deltas_from ds us = Inr es \<Longrightarrow> rows_exact ts ds \<Longrightarrow> rows_exact (ts @ us) es"
proof (induction us arbitrary: ds ts)
  case Nil
  then show ?case by simp
next
  case (Cons u us)
  then obtain bs where "add_received u ds = Inr bs" "recipient_deltas_from bs us = Inr es"
    by (auto simp: and_then_Inr)
  with Cons.IH [of bs "ts @ [u]"] Cons.prems(2) show ?case
    by (simp add: add_received_exact)
qed

lemma recipient_deltas_rows: "recipient_deltas ts = Inr ds \<Longrightarrow> rows_exact ts ds"
  using recipient_rows [of "[]" ts ds "[]"] by (simp add: recipient_deltas_def rows_exact_def)

text \<open>
  The balance changes of an EVM transaction are the exact totals of its transfers: there is one
  row for every recipient and asset that some transfer names, and no other; it starts at zero
  and ends at the sum of the amounts of all transfers to that recipient in that asset, as natural
  numbers: nothing wraps, is dropped or counted twice. All amounts summed have the same decimals.
\<close>

theorem evm_deltas_exact:
  assumes "recipient_deltas ts = Inr ds"
  shows "distinct (map row_key ds)
    \<and> row_key ` set ds = recipient_key ` set ts
    \<and> (\<forall>d \<in> set ds. raw (before d) = 0
        \<and> unat (raw (after d)) = total_in (delta_owner d) (delta_asset d) ts
        \<and> scaled_in (delta_owner d) (delta_asset d) (decimals (after d)) ts)"
  using recipient_deltas_rows [OF assms] by (auto simp: rows_exact_def row_exact_def)


text \<open>A list of transfers can be summed exactly: one scale per owner and asset, no total too large.\<close>

definition summable :: "transfer list \<Rightarrow> bool" where
  "summable ts \<longleftrightarrow> (\<forall>w a. (\<exists>dec. scaled_in w a dec ts) \<and> total_in w a ts < 2 ^ 256)"

lemma summable_snocD: "summable (ts @ [t]) \<Longrightarrow> summable ts"
  unfolding summable_def by (auto split: if_splits) (meson add_lessD1)

lemma recipient_deltas_from_append:
  "recipient_deltas_from ds (ts @ us) =
     and_then (recipient_deltas_from ds ts) (\<lambda>es. recipient_deltas_from es us)"
proof (induction ts arbitrary: ds)
  case (Cons t ts)
  then show ?case by (cases "add_received t ds") simp_all
qed simp

lemma add_received_fits:
  assumes rows: "rows_exact ts ds" and sum: "summable (ts @ [t])"
  shows "is_ok (add_received t ds)"
proof (cases "recipient_key t \<in> row_key ` set ds")
  case False
  then show ?thesis by (simp add: add_received_absent)
next
  case True
  then obtain as d bs where ds: "ds = as @ d # bs" and d: "row_key d = recipient_key t"
    and as: "recipient_key t \<notin> row_key ` set as"
    using split_list_first_prop [of ds "\<lambda>d. row_key d = recipient_key t"] by fastforce
  let ?w = "tr_to t" and ?a = "tr_asset t"
  have row: "scaled_in ?w ?a (decimals (after d)) ts" "unat (raw (after d)) = total_in ?w ?a ts"
    using rows ds d by (auto simp: rows_exact_def row_exact_def row_key_def recipient_key_def)
  have "recipient_key t \<in> recipient_key ` set ts"
    using rows True by (simp add: rows_exact_def)
  then have some: "incoming ?w ?a ts \<noteq> []"
    by (auto simp: incoming_def recipient_key_def filter_empty_conv)
  from sum obtain dec where dec: "scaled_in ?w ?a dec (ts @ [t])"
    and fits: "total_in ?w ?a (ts @ [t]) < 2 ^ 256"
    unfolding summable_def by blast
  have "decimals (after d) = decimals (tr_amount t)"
    using row(1) dec some by (cases "incoming ?w ?a ts") (auto simp: scaled_in_def incoming_snoc recipient_key_def)
  moreover have "unat (raw (after d)) + unat (raw (tr_amount t)) < 2 ^ 256"
    using fits row(2) by (simp add: recipient_key_def)
  ultimately have "is_ok (amount_add (after d) (tr_amount t))"
    by (simp add: amount_add_def same_scale_def checked_add_def)
  then show ?thesis
    by (cases "amount_add (after d) (tr_amount t)") (simp_all add: ds add_received_present [OF as d])
qed

lemma recipient_deltas_ok: "is_ok (recipient_deltas ts) \<longleftrightarrow> summable ts"
proof
  assume "is_ok (recipient_deltas ts)"
  then obtain ds where rows: "rows_exact ts ds"
    by (cases "recipient_deltas ts") (auto dest: recipient_deltas_rows)
  show "summable ts"
    unfolding summable_def
  proof (intro allI)
    fix w a
    show "(\<exists>dec. scaled_in w a dec ts) \<and> total_in w a ts < 2 ^ 256"
    proof (cases "(w, a) \<in> recipient_key ` set ts")
      case False
      then show ?thesis by (simp add: incoming_none scaled_in_def total_in_def)
    next
      case True
      then obtain d where "d \<in> set ds" "row_key d = (w, a)"
        using rows by (metis imageE rows_exact_def)
      with rows have "scaled_in w a (decimals (after d)) ts" "unat (raw (after d)) = total_in w a ts"
        by (auto simp: rows_exact_def row_exact_def row_key_def)
      moreover have "unat (raw (after d)) < 2 ^ 256" using unsigned_less [of "raw (after d)"] by simp
      ultimately show ?thesis by auto
    qed
  qed
next
  assume "summable ts"
  then show "is_ok (recipient_deltas ts)"
  proof (induction ts rule: rev_induct)
    case Nil
    then show ?case by (simp add: recipient_deltas_def)
  next
    case (snoc t ts)
    then obtain ds where ds: "recipient_deltas ts = Inr ds"
      by (cases "recipient_deltas ts") (auto dest: summable_snocD)
    from add_received_fits [OF recipient_deltas_rows [OF ds] snoc.prems]
    show ?case
      using ds by (cases "add_received t ds") (simp_all add: recipient_deltas_def recipient_deltas_from_append)
  qed
qed

lemma to_transfers_scaled: "\<exists>dec. scaled_in w a dec (to_transfers c raws decs)"
proof -
  have "decimals (tr_amount u) = decimals (tr_amount v)"
    if "u \<in> set (to_transfers c raws decs)" "v \<in> set (to_transfers c raws decs)"
      "tr_asset u = a" "tr_asset v = a" for u v
    using that by (auto simp: to_transfers_def set_map_filter_iff)
  then show ?thesis
    by (cases "\<exists>u. u \<in> set (incoming w a (to_transfers c raws decs))")
      (auto simp: scaled_in_def list_all_iff incoming_def)
qed

text \<open>
  The balance changes of decoded logs fail in one case only, when the amounts of one token to
  one recipient do not fit 256 bits. Mixed decimals cannot happen: every transfer of a token gets
  the decimals its contract reported.
\<close>

theorem evm_deltas_fail_only_on_overflow:
  "is_ok (recipient_deltas (to_transfers c raws decs))
     \<longleftrightarrow> (\<forall>w a. total_in w a (to_transfers c raws decs) < 2 ^ 256)"
  by (simp add: recipient_deltas_ok summable_def to_transfers_scaled)

section \<open>What a reported transaction rests on\<close>

text \<open>A mined transaction: its receipt, the decimals read at its block and the verdict on finality.\<close>

definition receipt_logs :: "evm_lib \<Rightarrow> json \<Rightarrow> evm_transfer list" where
  "receipt_logs x r = List.map_filter (decode_transfer_log x) (elements (jget r ''logs''))"

definition mined_as :: "evm_lib \<Rightarrow> node \<Rightarrow> chain_entry \<Rightarrow> string \<Rightarrow> json tx \<Rightarrow> json \<Rightarrow> u64
    \<Rightarrow> (address \<times> u8) list \<Rightarrow> bool" where
  "mined_as x rpc ce h t r n decs \<longleftrightarrow>
     rpc ''eth_getTransactionReceipt'' (JArr [JStr h]) = Inr r \<and> hex_u64 (jget r ''blockNumber'') = Inr n
     \<and> status t = (if as_str (jget r ''status'') = Some ''0x1'' then TxSuccess else TxFailed)
     \<and> tx_block t = Some \<lparr>number = n, block_hash = as_str (jget r ''blockHash''), timestamp = None\<rparr>
     \<and> token_decimals x rpc (map et_token (receipt_logs x r)) (block_tag n) = Inr decs
     \<and> transfers t = to_transfers (ce_id ce) (receipt_logs x r) decs
     \<and> recipient_deltas (transfers t) = Inr (balance_deltas t)
     \<and> finality_of rpc ce n = Inr (tx_finality t)"

lemma evm_get_tx_cases:
  assumes "evm_get_tx x rpc ce h = Inr (Some t)"
  shows "status t = TxPending \<and> tx_finality t = Pending \<and> transfers t = [] \<and> balance_deltas t = []
    \<or> (\<exists>r n decs. mined_as x rpc ce h t r n decs)"
proof -
  obtain j where j: "rpc ''eth_getTransactionByHash'' (JArr [JStr h]) = Inr j" "\<not> is_null j"
    using assms by (auto simp: evm_get_tx_def and_then_Inr split: if_splits)
  show ?thesis
  proof (cases "is_null (jget j ''blockNumber'')")
    case True
    with assms j show ?thesis by (auto simp: evm_get_tx_def Let_def)
  next
    case False
    with assms j obtain r where r: "rpc ''eth_getTransactionReceipt'' (JArr [JStr h]) = Inr r"
      by (auto simp: evm_get_tx_def Let_def and_then_Inr)
    show ?thesis
    proof (cases "is_null r")
      case True
      with assms j r \<open>\<not> is_null (jget j ''blockNumber'')\<close> show ?thesis
        by (auto simp: evm_get_tx_def Let_def)
    next
      case False
      with assms j r \<open>\<not> is_null (jget j ''blockNumber'')\<close> obtain n decs ds f where
        "hex_u64 (jget r ''blockNumber'') = Inr n"
        "token_decimals x rpc (map et_token (receipt_logs x r)) (block_tag n) = Inr decs"
        "recipient_deltas (to_transfers (ce_id ce) (receipt_logs x r) decs) = Inr ds"
        "finality_of rpc ce n = Inr f"
        "transfers t = to_transfers (ce_id ce) (receipt_logs x r) decs"
        "balance_deltas t = ds" "tx_finality t = f"
        "tx_block t = Some \<lparr>number = n, block_hash = as_str (jget r ''blockHash''), timestamp = None\<rparr>"
        "status t = (if as_str (jget r ''status'') = Some ''0x1'' then TxSuccess else TxFailed)"
        by (auto simp: evm_get_tx_def Let_def and_then_Inr receipt_logs_def [symmetric])
      with r have "mined_as x rpc ce h t r n decs" by (simp add: mined_as_def)
      then show ?thesis by blast
    qed
  qed
qed

lemma evm_get_tx_deltas:
  "evm_get_tx x rpc ce h = Inr (Some t) \<Longrightarrow> recipient_deltas (transfers t) = Inr (balance_deltas t)"
  using evm_get_tx_cases [of x rpc ce h t]
  by (auto simp: mined_as_def recipient_deltas_def)

lemma finality_by_tags_Some:
  "finality_by_tags rpc b tags = Inr (Some f) \<Longrightarrow>
     \<exists>tag n. (tag, f) \<in> set tags \<and> tagged_block rpc tag = Inr (Some n) \<and> b \<le> n"
proof (induction tags)
  case (Cons p tags)
  obtain tag level where p: "p = (tag, level)" by fastforce
  with Cons.prems obtain m where m: "tagged_block rpc tag = Inr m" by (auto simp: and_then_Inr)
  show ?case
  proof (cases "\<exists>n. m = Some n \<and> b \<le> n")
    case True
    with Cons.prems p m show ?thesis by auto
  next
    case False
    with Cons.prems p m have "finality_by_tags rpc b tags = Inr (Some f)" by (auto split: option.splits)
    with Cons.IH show ?thesis by auto
  qed
qed simp

lemma finality_of_tag:
  assumes "finality_of rpc ce b = Inr f" and "f \<in> {Finalized, Safe}"
  shows "fp_policy (ce_finality ce) = ''tags'' \<and>
    (\<exists>n. tagged_block rpc (if f = Finalized then ''finalized'' else ''safe'') = Inr (Some n) \<and> b \<le> n)"
  using assms
  by (auto simp: finality_of_def and_then_Inr split: if_splits option.splits
      dest!: finality_by_tags_Some)

lemma finality_of_known: "finality_of rpc ce b = Inr f \<Longrightarrow> f \<noteq> Unverifiable"
  by (auto simp: finality_of_def and_then_Inr split: if_splits option.splits
      dest!: finality_by_tags_Some)

lemma tagged_block_Some:
  "tagged_block rpc tag = Inr (Some n) \<longleftrightarrow>
     (\<exists>v. rpc ''eth_getBlockByNumber'' (JArr [JStr tag, JBool False]) = Inr v
        \<and> \<not> is_null v \<and> hex_u64 (jget v ''number'') = Inr n)"
  by (auto simp: tagged_block_def and_then_Inr split: sum.splits provider_error.splits)

text \<open>
  An EVM transaction is reported finalized or safe only when the chain's policy trusts block
  tags and the node itself reported a block with that tag at or above the transaction's block.
  Depth alone is never finality, on whatever chain.
\<close>

theorem evm_final_only_if_tagged:
  assumes "evm_get_tx x rpc ce h = Inr (Some t)" and "tx_finality t \<in> {Finalized, Safe}"
  shows "fp_policy (ce_finality ce) = ''tags'' \<and>
    (\<exists>b v n. tx_block t = Some b \<and> number b \<le> n \<and> hex_u64 (jget v ''number'') = Inr n
      \<and> rpc ''eth_getBlockByNumber'' (JArr [JStr (if tx_finality t = Finalized then ''finalized''
            else ''safe''), JBool False]) = Inr v)"
proof -
  obtain r n decs where m: "mined_as x rpc ce h t r n decs"
    using evm_get_tx_cases [OF assms(1)] assms(2) by auto
  then have "finality_of rpc ce n = Inr (tx_finality t)"
    and "tx_block t = Some \<lparr>number = n, block_hash = as_str (jget r ''blockHash''), timestamp = None\<rparr>"
    by (simp_all add: mined_as_def)
  with finality_of_tag [OF _ assms(2)] show ?thesis
    unfolding tagged_block_Some by fastforce
qed

section \<open>Transfers come from live logs\<close>

text \<open>
  What a log must say to count as the transfer \<open>y\<close>: it was not reorganised away, it has the three
  topics of an ERC-20 event, and the token is the contract that emitted it.
\<close>

definition logs_transfer :: "evm_lib \<Rightarrow> json \<Rightarrow> evm_transfer \<Rightarrow> bool" where
  "logs_transfer x l y \<longleftrightarrow> as_bool (jget l ''removed'') \<noteq> Some True
     \<and> (\<exists>topics data. jget l ''topics'' = JArr topics \<and> length topics = 3
          \<and> log_topic x topics 0 = Some (el_transfer_topic x)
          \<and> map_option ucast (log_topic x topics 1) = Some (et_from y)
          \<and> map_option ucast (log_topic x topics 2) = Some (et_to y)
          \<and> hex_bytes x (jget l ''data'') = Inr data \<and> length data = 32 \<and> be_u256 data = et_value y)
     \<and> Option.bind (as_str (jget l ''address'')) (address_from_str (el_codec x)) = Some (et_token y)"

lemma decode_transfer_logD: "decode_transfer_log x l = Some y \<Longrightarrow> logs_transfer x l y"
  by (auto simp: decode_transfer_log_def logs_transfer_def bind_eq_Some_conv
      split: if_splits json.splits)

text \<open>
  C6: every transfer of an EVM transaction was emitted as an event of its receipt that is not
  removed and has the shape of an ERC-20 transfer, and its asset is the contract that emitted it
  on this chain: a look-alike contract never produces a transfer of another token. Amounts carry
  the decimals that contract reported.
\<close>

theorem evm_transfers_genuine:
  assumes "evm_get_tx x rpc ce h = Inr (Some t)" and "u \<in> set (transfers t)"
  shows "\<exists>r l y. rpc ''eth_getTransactionReceipt'' (JArr [JStr h]) = Inr r
    \<and> l \<in> set (elements (jget r ''logs'')) \<and> logs_transfer x l y
    \<and> tr_asset u = AssetId (ce_id ce) (Erc20 (et_token y))
    \<and> tr_from u = Some (EvmAddress (et_from y)) \<and> tr_to u = EvmAddress (et_to y)
    \<and> raw (tr_amount u) = et_value y"
proof -
  obtain r n decs where m: "mined_as x rpc ce h t r n decs"
    using evm_get_tx_cases [OF assms(1)] assms(2) by auto
  then have "u \<in> set (to_transfers (ce_id ce) (receipt_logs x r) decs)"
    using assms(2) by (simp add: mined_as_def)
  then obtain l y where "l \<in> set (elements (jget r ''logs''))" "decode_transfer_log x l = Some y"
    and "tr_asset u = AssetId (ce_id ce) (Erc20 (et_token y))"
      "tr_from u = Some (EvmAddress (et_from y))" "tr_to u = EvmAddress (et_to y)"
      "raw (tr_amount u) = et_value y"
    by (auto simp: to_transfers_def receipt_logs_def set_map_filter_iff)
  with m show ?thesis unfolding mined_as_def by (blast dest: decode_transfer_logD)
qed

section \<open>Paid, from the chain's point of view\<close>

lemma filter_key_unique:
  assumes "distinct (map f xs)"
  shows "filter (\<lambda>x. f x = y) xs = [] \<and> y \<notin> f ` set xs
    \<or> (\<exists>x \<in> set xs. f x = y \<and> filter (\<lambda>x. f x = y) xs = [x])"
  using assms
proof (induction xs)
  case (Cons x xs)
  show ?case
  proof (cases "f x = y")
    case True
    with Cons.prems have "filter (\<lambda>x. f x = y) xs = []"
      by (auto simp: filter_empty_conv) (metis image_eqI)
    with True show ?thesis by simp
  next
    case False
    with Cons show ?thesis by auto
  qed
qed simp

lemma own_deltas_key:
  "own_deltas e t = filter (\<lambda>d. row_key d = (exp_recipient e, exp_asset e)) (balance_deltas t)"
  by (simp add: own_deltas_def row_key_def)

lemma rows_gain:
  assumes "rows_exact ts (balance_deltas t)"
  shows "well_scaled e t \<longleftrightarrow> scaled_in (exp_recipient e) (exp_asset e) (pay_decimals e) ts"
    and "well_scaled e t \<Longrightarrow>
      gained (pay_decimals e) (own_deltas e t) = total_in (exp_recipient e) (exp_asset e) ts"
    and "gain_fits e t"
proof -
  let ?w = "exp_recipient e" and ?a = "exp_asset e"
  consider (none) "own_deltas e t = []" "incoming ?w ?a ts = []"
    | (row) d where "own_deltas e t = [d]" "row_key d = (?w, ?a)" "row_exact ts d"
        "incoming ?w ?a ts \<noteq> []"
  proof -
    have d: "distinct (map row_key (balance_deltas t))"
      and k: "row_key ` set (balance_deltas t) = recipient_key ` set ts"
      and ex: "\<forall>d \<in> set (balance_deltas t). row_exact ts d"
      using assms by (simp_all add: rows_exact_def)
    from filter_key_unique [OF d, of "(?w, ?a)"] show thesis
    proof (elim disjE conjE bexE)
      assume "filter (\<lambda>d. row_key d = (?w, ?a)) (balance_deltas t) = []"
        "(?w, ?a) \<notin> row_key ` set (balance_deltas t)"
      then show thesis using none incoming_none [of ?w ?a ts] k by (simp add: own_deltas_key)
    next
      fix d
      assume d: "d \<in> set (balance_deltas t)" "row_key d = (?w, ?a)"
        "filter (\<lambda>d. row_key d = (?w, ?a)) (balance_deltas t) = [d]"
      then obtain u where "u \<in> set ts" "recipient_key u = (?w, ?a)"
        using k by (metis (no_types, lifting) imageE imageI)
      then have "incoming ?w ?a ts \<noteq> []"
        by (auto simp: incoming_def recipient_key_def filter_empty_conv)
      with row [of d] d ex show thesis by (simp add: own_deltas_key)
    qed
  qed
  then have "(well_scaled e t \<longleftrightarrow> scaled_in ?w ?a (pay_decimals e) ts)
    \<and> (well_scaled e t \<longrightarrow> gained (pay_decimals e) (own_deltas e t) = total_in ?w ?a ts)
    \<and> gain_fits e t"
  proof cases
    case none
    then show ?thesis
      by (simp add: well_scaled_def scaled_in_def gained_def total_in_def gain_fits_def)
  next
    case row
    have "unat (raw (after d)) < 2 ^ 256" using unsigned_less [of "raw (after d)"] by simp
    with row have dec: "scaled_in ?w ?a (decimals (after d)) ts" "increase d = total_in ?w ?a ts"
      and "total_in ?w ?a ts < 2 ^ 256"
      by (auto simp: row_exact_def row_key_def increase_def)
    moreover have "scaled_in ?w ?a (pay_decimals e) ts \<longleftrightarrow> decimals (after d) = pay_decimals e"
      using dec(1) row(4) by (cases "incoming ?w ?a ts") (auto simp: scaled_in_def)
    ultimately show ?thesis
      using row(1) by (simp add: well_scaled_def gained_def gain_fits_def)
  qed
  then show "well_scaled e t \<longleftrightarrow> scaled_in ?w ?a (pay_decimals e) ts"
    and "well_scaled e t \<Longrightarrow> gained (pay_decimals e) (own_deltas e t) = total_in ?w ?a ts"
    and "gain_fits e t" by auto
qed

lemma evm_payment_exact:
  assumes "evm_get_tx x rpc ce h = Inr (Some t)" and "raw (exp_amount e) \<noteq> 0"
  shows "pay_status (check_payment k js e t reg) \<in> {PayConfirmed, PayFinalized} \<longleftrightarrow>
    status t = TxSuccess \<and> exp_finality e \<le> tx_finality t
    \<and> scaled_in (exp_recipient e) (exp_asset e) (pay_decimals e) (transfers t)
    \<and> total_in (exp_recipient e) (exp_asset e) (transfers t) = unat (raw (exp_amount e))"
proof -
  note rows = recipient_deltas_rows [OF evm_get_tx_deltas [OF assms(1)]]
  have "tx_finality t \<noteq> Unverifiable"
    using evm_get_tx_cases [OF assms(1)] finality_of_known by (auto simp: mined_as_def)
  with paid_status_iff [OF rows_gain(3) [OF rows] assms(2), of k js reg] rows_gain(1,2) [OF rows, of e]
  show ?thesis by auto
qed

text \<open>
  C5: from a node's answers to the verdict: a payment on an EVM chain counts as paid exactly when
  the transaction succeeded, reached the finality asked for, and the amounts of its transfers of
  the expected token to the recipient add up to the expected amount, with the expected decimals.
  No bound on the sum is assumed: a total above 256 bits is an error before any verdict.
\<close>

theorem evm_paid_exactly:
  assumes "evm_get_tx x rpc ce h = Inr (Some t)" and "raw (exp_amount e) \<noteq> 0"
  shows "pay_status (check_payment k js e t reg) \<in> {PayConfirmed, PayFinalized} \<longleftrightarrow>
    status t = TxSuccess \<and> exp_finality e \<le> tx_finality t
    \<and> scaled_in (exp_recipient e) (exp_asset e) (pay_decimals e) (transfers t)
    \<and> total_in (exp_recipient e) (exp_asset e) (transfers t) = unat (raw (exp_amount e))"
  by (rule evm_payment_exact [OF assms])

section \<open>Sample\<close>

text \<open>A node that knows one transaction, in which account 2 receives 5 units of token 3.\<close>

definition ev_codec :: codec where
  "ev_codec = \<lparr>address_from_str = (\<lambda>s. if s = ''c'' then Some 3 else if length s = 42 then Some 2 else None), to_checksum = (\<lambda>_. []),
     b58_encode = (\<lambda>_. []), b58_decode = (\<lambda>_. None)\<rparr>"

definition ev_lib :: evm_lib where
  "ev_lib = \<lparr>el_codec = ev_codec, el_topic = (\<lambda>s. Some (of_nat (length s))),
     el_u256 = (\<lambda>s. map_option of_nat (read_hex s)),
     el_hex_decode = (\<lambda>s. Some (replicate 31 0 @ [if s = ''d'' then 6 else 5])),
     el_hex_encode = (\<lambda>_. []), el_json_address = (\<lambda>_. []), el_transfer_topic = 0, el_show_word = (\<lambda>_. []),
     el_decimals_call = [], el_aggregate3 = (\<lambda>_. []), el_results = (\<lambda>out. Some [(True, out)])\<rparr>"

definition ev_log :: json where
  "ev_log = JObj [(''topics'', JArr [JStr [], JStr ''x'', JStr ''xx'']), (''data'', JStr ''v''),
     (''address'', JStr ''c''), (''transactionHash'', JStr ''h''), (''logIndex'', JStr ''0x0'')]"

definition ev_receipt :: json where
  "ev_receipt = JObj [(''blockNumber'', JStr ''0x7''), (''status'', JStr ''0x1''),
     (''effectiveGasPrice'', JStr ''0x2''), (''gasUsed'', JStr ''0x3''), (''logs'', JArr [ev_log])]"

definition ev_node :: node where
  "ev_node meth ps = Inr
     (if meth = ''eth_getTransactionByHash'' then JObj [(''blockNumber'', JStr ''0x7'')]
      else if meth = ''eth_getTransactionReceipt'' then ev_receipt
      else if meth = ''eth_getBlockByNumber'' then JObj [(''number'', JStr ''0x9'')]
      else JStr ''d'')"

definition ev_transfer :: transfer where
  "ev_transfer = \<lparr>tr_chain = ce_id sample_chain, tr_tx_hash = ''h'', log_index = Some 0,
     tr_kind = TokenTransfer, tr_asset = AssetId (ce_id sample_chain) (Erc20 3),
     tr_from = Some (EvmAddress 1), tr_to = EvmAddress 2, tr_amount = new_amount 5 6, tr_block = None\<rparr>"

lemma ev_numbers:
  "hex_u64 (JStr ''0x7'') = Inr 7" "hex_u64 (JStr ''0x9'') = Inr 9" "hex_u64 (JStr ''0x0'') = Inr 0"
  "read_hex ''2'' = Some 2" "read_hex ''3'' = Some 3"
  by (simp_all add: hex_u64_def parse_hex_u64_def read_hex_def hex_digit_def is_digit_def digit_val_def
      strip_prefix_def starts_with_def)

lemma ev_word: "be_u256 (replicate 31 0 @ [b]) = of_nat (unat b)"
  by (simp add: be_u256_def be_nat_def numeral_eq_Suc)

lemma ev_data: "hex_bytes ev_lib (JStr s) = Inr (replicate 31 0 @ [if strip_0x s = ''d'' then 6 else 5])"
  by (simp add: hex_bytes_def ev_lib_def)

lemma ev_logs: "receipt_logs ev_lib ev_receipt = [\<lparr>et_token = 3, et_from = 1, et_to = 2, et_value = 5,
    et_tx_hash = ''h'', et_log_index = Some 0, et_block = None\<rparr>]"
  by (simp add: receipt_logs_def ev_receipt_def ev_log_def decode_transfer_log_def List.map_filter_simps
      log_topic_def nth_opt_def ev_data ev_word ev_numbers log_block_def)
    (simp add: ev_lib_def ev_codec_def)

lemma ev_decimals: "token_decimals ev_lib ev_node [3] b = Inr [(3, 6)]"
  by (simp add: token_decimals_def aggregate3_def eth_call_def ev_node_def ev_data)
    (simp add: ev_lib_def decode_decimals_def ev_word List.map_filter_simps)

lemma ev_fee: "fee_paid ev_lib ev_receipt j = Inr 6"
  by (simp add: fee_paid_def ev_receipt_def is_null_def hex_u256_def ev_lib_def ev_numbers sat_mul_def)

lemma ev_final: "finality_of ev_node sample_chain 7 = Inr Finalized"
  by (simp add: finality_of_def tagged_block_def ev_node_def is_null_def ev_numbers sample_chain_def)

lemma ev_get:
  "\<exists>t. evm_get_tx ev_lib ev_node sample_chain h = Inr (Some t) \<and> status t = TxSuccess
     \<and> tx_finality t = Finalized \<and> transfers t = [ev_transfer]"
proof -
  have node: "ev_node ''eth_getTransactionByHash'' ps = Inr (JObj [(''blockNumber'', JStr ''0x7'')])"
    "ev_node ''eth_getTransactionReceipt'' ps = Inr ev_receipt" for ps
    by (simp_all add: ev_node_def)
  have fields: "jget ev_receipt ''blockNumber'' = JStr ''0x7''" "jget ev_receipt ''status'' = JStr ''0x1''"
    "\<not> is_null ev_receipt"
    by (simp_all add: ev_receipt_def is_null_def)
  have null: "\<not> is_null (JStr s)" "\<not> is_null (JObj m)" for s m by (simp_all add: is_null_def)
  have ts: "to_transfers (ce_id sample_chain) (receipt_logs ev_lib ev_receipt) [(3, 6)] = [ev_transfer]"
    by (simp add: ev_logs to_transfers_def List.map_filter_simps ev_transfer_def)
  have ds: "\<exists>ds. recipient_deltas [ev_transfer] = Inr ds"
    by (simp add: recipient_deltas_def)
  have logs: "map et_token (receipt_logs ev_lib ev_receipt) = [3]" by (simp add: ev_logs)
  show ?thesis
    using ds
    by (auto simp: evm_get_tx_def Let_def node fields null ev_numbers ev_fee receipt_logs_def [symmetric]
        logs ev_decimals ts ev_final)
qed

definition ev_expected :: expected_payment where
  "ev_expected = \<lparr>exp_asset = AssetId (ce_id sample_chain) (Erc20 3), exp_recipient = EvmAddress 2,
     exp_amount = new_amount 5 6, exp_finality = Finalized, exp_reference = None\<rparr>"

theorem evm_paid_exactly_witness:
  "\<exists>t. evm_get_tx ev_lib ev_node sample_chain ''h'' = Inr (Some t)
     \<and> pay_status (check_payment ev_codec (\<lambda>_. []) ev_expected t []) \<in> {PayConfirmed, PayFinalized}"
proof -
  obtain t where t: "evm_get_tx ev_lib ev_node sample_chain ''h'' = Inr (Some t)" "status t = TxSuccess"
    "tx_finality t = Finalized" "transfers t = [ev_transfer]"
    using ev_get by blast
  have "raw (exp_amount ev_expected) \<noteq> 0" by (simp add: ev_expected_def)
  from evm_paid_exactly [OF t(1) this, of ev_codec "\<lambda>_. []" "[]"] t show ?thesis
    by (auto simp: ev_expected_def ev_transfer_def scaled_in_def total_in_def incoming_def pay_decimals_def)
qed

theorem evm_final_only_if_tagged_witness:
  "\<exists>t b. evm_get_tx ev_lib ev_node sample_chain ''h'' = Inr (Some t) \<and> tx_finality t = Finalized
     \<and> tx_block t = Some b"
proof -
  obtain t where t: "evm_get_tx ev_lib ev_node sample_chain ''h'' = Inr (Some t)" "tx_finality t = Finalized"
    using ev_get by blast
  from evm_final_only_if_tagged [OF t(1)] t show ?thesis by auto
qed

theorem evm_transfers_genuine_witness:
  "\<exists>r l y. ev_node ''eth_getTransactionReceipt'' (JArr [JStr ''h'']) = Inr r
     \<and> l \<in> set (elements (jget r ''logs'')) \<and> logs_transfer ev_lib l y"
proof -
  obtain t where t: "evm_get_tx ev_lib ev_node sample_chain ''h'' = Inr (Some t)" "transfers t = [ev_transfer]"
    using ev_get by blast
  from evm_transfers_genuine [OF t(1), of ev_transfer] t(2) show ?thesis by auto
qed

theorem evm_deltas_exact_witness:
  "\<exists>ds. recipient_deltas [ev_transfer, ev_transfer] = Inr ds \<and> distinct (map row_key ds)
     \<and> row_key ` set ds = {(EvmAddress 2, AssetId (ce_id sample_chain) (Erc20 3))}"
proof -
  obtain ds where ds: "recipient_deltas [ev_transfer, ev_transfer] = Inr ds"
    by (simp add: recipient_deltas_def ev_transfer_def amount_add_def same_scale_def checked_add_def)
  from evm_deltas_exact [OF ds] ds show ?thesis
    by (auto simp: recipient_key_def ev_transfer_def)
qed

end
