(* ===== verification/EvmLogs.thy ===== *)
theory EvmLogs
  imports EvmTx "HOL-Library.Option_ord"
begin

text \<open>
  Scanning the ERC-20 transfers of an account with \<open>eth_getLogs\<close>
  (\<open>crates/protocols/src/evm/logs.rs\<close>): backwards in chunks of blocks, each chunk halved when the
  node refuses its size, at most twenty calls a page, with a cursor to the next unscanned block.
\<close>

section \<open>Queries and pages\<close>

datatype direction = DirIn | DirOut | DirBoth

record transfer_query =
  tq_owner :: account_address
  tq_direction :: direction
  tq_assets :: "asset_id list option"
  tq_from_block :: "u64 option"
  tq_to_block :: "u64 option"
  tq_cursor :: "string option"
  tq_limit :: u32

record page =
  items :: "transfer list"
  next_cursor :: "string option"

definition default_chunk :: u64 where "default_chunk = 2000"

definition max_calls :: nat where "max_calls = 20"

definition cursor_prefix :: string where "cursor_prefix = ''evm-logs:''"

text \<open>\<open>str::parse::<u64>\<close>: digits with an optional plus sign.\<close>

definition parse_u64 :: "string \<Rightarrow> u64 option" where
  "parse_u64 s = (let t = unwrap_or s (strip_prefix ''+'' s) in
     if t \<noteq> [] \<and> all_digits t \<and> read_dec t < 2 ^ 64 then Some (of_nat (read_dec t)) else None)"

definition parse_cursor :: "string \<Rightarrow> provider_error + u64" where
  "parse_cursor c = ok_or (Invalid (''cursor '' @ quoted c @ '' is not from this source''))
     (Option.bind (strip_prefix cursor_prefix c) parse_u64)"

definition show_cursor :: "u64 \<Rightarrow> string" where
  "show_cursor n = cursor_prefix @ show_nat (unat n)"

definition topic_sets :: "evm_lib \<Rightarrow> address \<Rightarrow> direction \<Rightarrow> json list" where
  "topic_sets x owner dir =
     (let sig = JStr (el_show_word x (el_transfer_topic x));
          who = JStr (el_show_word x (ucast owner));
          incoming = JArr [sig, JNull, who]; outgoing = JArr [sig, who]
      in case dir of DirIn \<Rightarrow> [incoming] | DirOut \<Rightarrow> [outgoing] | DirBoth \<Rightarrow> [incoming, outgoing])"

section \<open>The scan\<close>

definition log_filter :: "evm_lib \<Rightarrow> u64 \<Rightarrow> u64 \<Rightarrow> address list \<Rightarrow> json \<Rightarrow> json" where
  "log_filter x lo hi tokens topics = JArr [JObj ([(''fromBlock'', JStr (block_tag lo)),
     (''toBlock'', JStr (block_tag hi)), (''topics'', topics)]
     @ (if tokens = [] then [] else [(''address'', JArr (map (\<lambda>a. JStr (el_json_address x a)) tokens))]))]"

text \<open>The result and the number of calls made so far, the failing one included.\<close>

fun get_logs :: "evm_lib \<Rightarrow> node \<Rightarrow> u64 \<Rightarrow> u64 \<Rightarrow> address list \<Rightarrow> json list \<Rightarrow> nat
    \<Rightarrow> (provider_error + json list) \<times> nat" where
  "get_logs x rpc lo hi tokens [] calls = (Inr [], calls)"
| "get_logs x rpc lo hi tokens (topics # ts) calls =
     (case rpc ''eth_getLogs'' (log_filter x lo hi tokens topics) of
        Inl e \<Rightarrow> (Inl e, calls + 1)
      | Inr v \<Rightarrow> (let (r, c) = get_logs x rpc lo hi tokens ts (calls + 1)
          in (and_then r (\<lambda>out. Inr (elements v @ out)), c)))"

fun is_invalid :: "provider_error \<Rightarrow> bool" where
  "is_invalid (Invalid _) = True"
| "is_invalid _ = False"

definition div_ceil2 :: "u64 \<Rightarrow> u64" where
  "div_ceil2 n = n div 2 + n mod 2"

definition chunk_low :: "u64 \<Rightarrow> u64 \<Rightarrow> u64 \<Rightarrow> u64" where
  "chunk_low hi chunk first = max (sat_sub hi (chunk - 1)) first"

lemma get_logs_calls:
  "get_logs x rpc lo hi tokens ts calls = (r, c) \<Longrightarrow>
     calls \<le> c \<and> c \<le> calls + length ts \<and> (ts \<noteq> [] \<or> \<not> is_ok r \<longrightarrow> calls < c)"
  by (induction ts arbitrary: calls r c) (fastforce split: sum.splits prod.splits)+

lemma get_logs_error:
  "get_logs x rpc lo hi tokens ts calls = (Inl e, c) \<Longrightarrow> calls < c"
  using get_logs_calls [of x rpc lo hi tokens ts calls "Inl e" c] by simp

definition blocks_left :: "u64 option \<Rightarrow> nat" where
  "blocks_left pos = (case pos of None \<Rightarrow> 0 | Some n \<Rightarrow> Suc (unat n))"

lemma pred_of_less: "a < b \<Longrightarrow> Suc (unat (b - 1)) = unat b" for a b :: "'a::len word"
proof -
  assume "a < b"
  then have "b \<noteq> 0" by auto
  then have "0 < unat b" by (simp add: unat_gt_0)
  with unat_minus_one [OF \<open>b \<noteq> 0\<close>] show ?thesis by simp
qed

lemma chunk_low_le: "chunk_low hi chunk first \<le> hi \<or> chunk_low hi chunk first = first"
  using sat_sub_le [of hi "chunk - 1"] by (auto simp: chunk_low_def max_def)

lemma blocks_left_decreases:
  "blocks_left (if first < chunk_low hi chunk first then Some (chunk_low hi chunk first - 1) else None)
     < blocks_left (Some hi)"
proof (cases "first < chunk_low hi chunk first")
  case True
  then have "chunk_low hi chunk first \<le> hi" using chunk_low_le [of hi chunk first] by auto
  with pred_of_less [OF True] True show ?thesis
    by (simp add: blocks_left_def word_le_nat_alt)
qed (simp add: blocks_left_def)

text \<open>
  The loop from \<open>pos\<close> down to \<open>first\<close>, with the transfers found so far. Each round makes a call
  or leaves a chunk behind.
\<close>

function scan_loop :: "evm_lib \<Rightarrow> node \<Rightarrow> address list \<Rightarrow> json list \<Rightarrow> u64 \<Rightarrow> nat
    \<Rightarrow> u64 option \<Rightarrow> u64 \<Rightarrow> nat \<Rightarrow> evm_transfer list
    \<Rightarrow> provider_error + evm_transfer list \<times> u64 option" where
  "scan_loop x rpc tokens ts first limit None chunk calls raws = Inr (raws, None)"
| "scan_loop x rpc tokens ts first limit (Some hi) chunk calls raws =
     (if max_calls < calls + length ts \<or> limit \<le> length raws then Inr (raws, Some hi)
      else let lo = chunk_low hi chunk first in
        case get_logs x rpc lo hi tokens ts calls of
          (Inr logs, c) \<Rightarrow> scan_loop x rpc tokens ts first limit
              (if first < lo then Some (lo - 1) else None) chunk c
              (raws @ List.map_filter (decode_transfer_log x) logs)
        | (Inl e, c) \<Rightarrow>
            if is_invalid e \<and> lo < hi
            then scan_loop x rpc tokens ts first limit (Some hi) (max (div_ceil2 (hi - lo)) 1) c raws
            else Inl e)"
  by pat_completeness auto

termination
proof (relation "measures [\<lambda>(x, rpc, tokens, ts, first, limit, pos, chunk, calls, raws). max_calls + 1 - calls,
    \<lambda>(x, rpc, tokens, ts, first, limit, pos, chunk, calls, raws). blocks_left pos]", goal_cases)
  case 1
  then show ?case by simp
next
  case (2 x rpc tokens ts first limit hi chunk calls raws lo r c e)
  with get_logs_error [of x rpc lo hi tokens ts calls e c] show ?case by auto
next
  case (3 x rpc tokens ts first limit hi chunk calls raws lo r c logs)
  then have "calls \<le> c" "calls \<le> max_calls"
    using get_logs_calls [of x rpc lo hi tokens ts calls "Inr logs" c] by simp_all
  with 3 blocks_left_decreases [of first hi chunk] show ?case by auto
qed

declare scan_loop.simps [simp del]

lemma scan_round:
  assumes "\<not> (max_calls < calls + length ts \<or> limit \<le> length raws)"
    and "get_logs x rpc (chunk_low hi chunk first) hi tokens ts calls = (r, c)"
  shows "scan_loop x rpc tokens ts first limit (Some hi) chunk calls raws = (let lo = chunk_low hi chunk first in
    case r of
      Inr ls \<Rightarrow> scan_loop x rpc tokens ts first limit (if first < lo then Some (lo - 1) else None) chunk c
        (raws @ List.map_filter (decode_transfer_log x) ls)
    | Inl e \<Rightarrow> if is_invalid e \<and> lo < hi
        then scan_loop x rpc tokens ts first limit (Some hi) (max (div_ceil2 (hi - lo)) 1) c raws
        else Inl e)"
  using assms by (subst scan_loop.simps(2)) (simp add: Let_def split: sum.splits)

lemma scan_stops:
  "max_calls < calls + length ts \<or> limit \<le> length raws \<Longrightarrow>
     scan_loop x rpc tokens ts first limit (Some hi) chunk calls raws = Inr (raws, Some hi)"
  by (subst scan_loop.simps(2)) simp

definition query_tokens :: "transfer_query \<Rightarrow> address list" where
  "query_tokens q = List.map_filter (\<lambda>a. case a of AssetId _ (Erc20 t) \<Rightarrow> Some t | _ \<Rightarrow> None)
     (unwrap_or [] (tq_assets q))"

text \<open>A stable sort, newest first, and \<open>Vec::dedup_by\<close>.\<close>

definition log_position :: "evm_transfer \<Rightarrow> u64 option \<times> u64 option" where
  "log_position y = (map_option number (et_block y), et_log_index y)"

definition newest_first :: "evm_transfer list \<Rightarrow> evm_transfer list" where
  "newest_first ys = rev (sort_key log_position (rev ys))"

fun dedup_by :: "('a \<Rightarrow> 'a \<Rightarrow> bool) \<Rightarrow> 'a list \<Rightarrow> 'a list" where
  "dedup_by same (y # z # ys) =
     (if same z y then dedup_by same (y # ys) else y # dedup_by same (z # ys))"
| "dedup_by same ys = ys"

definition same_log :: "evm_transfer \<Rightarrow> evm_transfer \<Rightarrow> bool" where
  "same_log a b \<longleftrightarrow> et_tx_hash a = et_tx_hash b \<and> et_log_index a = et_log_index b"

definition scan_top :: "transfer_query \<Rightarrow> u64 \<Rightarrow> provider_error + u64" where
  "scan_top q head = (let hi = min (unwrap_or head (tq_to_block q)) head in
     case tq_cursor q of None \<Rightarrow> Inr hi | Some c \<Rightarrow> and_then (parse_cursor c) (\<lambda>n. Inr (min hi n)))"

definition scan_first :: "transfer_query \<Rightarrow> u64" where
  "scan_first q = unwrap_or 0 (tq_from_block q)"

definition scan_transfers :: "evm_lib \<Rightarrow> node \<Rightarrow> chain_entry \<Rightarrow> transfer_query \<Rightarrow> u64 option
    \<Rightarrow> provider_error + page" where
  "scan_transfers x rpc ce q max_range = (case tq_owner q of
       SolanaAddress _ \<Rightarrow> Inl (Invalid ''owner is not an EVM address'')
     | EvmAddress w \<Rightarrow>
         let tokens = query_tokens q in
         if tq_assets q \<noteq> None \<and> tokens = [] then Inr \<lparr>items = [], next_cursor = None\<rparr>
         else and_then (block_number rpc) (\<lambda>head.
           and_then (scan_top q head) (\<lambda>hi.
           and_then (scan_loop x rpc tokens (topic_sets x w (tq_direction q)) (scan_first q)
               (unat (max (tq_limit q) 1)) (if scan_first q \<le> hi then Some hi else None)
               (max (unwrap_or default_chunk max_range) 1) 0 []) (\<lambda>(raws, pos).
           let raws = dedup_by same_log (newest_first raws) in
           and_then (token_decimals x rpc (map et_token raws) ''latest'') (\<lambda>decs.
           Inr \<lparr>items = to_transfers (ce_id ce) raws decs,
             next_cursor = map_option show_cursor pos\<rparr>)))))"

section \<open>What a page covers\<close>

text \<open>
  \<open>L t b\<close> are the logs of block \<open>b\<close> that match the topics \<open>t\<close> (and the tokens asked for).
  A node that answers a filter at all answers with exactly the logs of its blocks.
\<close>

definition answers_logs :: "evm_lib \<Rightarrow> node \<Rightarrow> address list \<Rightarrow> (json \<Rightarrow> u64 \<Rightarrow> json set) \<Rightarrow> bool" where
  "answers_logs x rpc tokens L \<longleftrightarrow> (\<forall>t lo hi v. lo \<le> hi \<longrightarrow>
     rpc ''eth_getLogs'' (log_filter x lo hi tokens t) = Inr v \<longrightarrow> set (elements v) = (\<Union>b \<in> {lo..hi}. L t b))"

definition logged :: "evm_lib \<Rightarrow> (json \<Rightarrow> u64 \<Rightarrow> json set) \<Rightarrow> json list \<Rightarrow> u64 set \<Rightarrow> evm_transfer set" where
  "logged x L ts B = {y. \<exists>t \<in> set ts. \<exists>b \<in> B. \<exists>l \<in> L t b. decode_transfer_log x l = Some y}"

text \<open>The blocks of a page: from \<open>first\<close> to \<open>pos\<close>, less those below the new position.\<close>

definition blocks_upto :: "u64 \<Rightarrow> u64 option \<Rightarrow> u64 set" where
  "blocks_upto first pos = (case pos of None \<Rightarrow> {} | Some n \<Rightarrow> {first..n})"

lemma logged_Un: "logged x L ts (A \<union> B) = logged x L ts A \<union> logged x L ts B"
  by (auto simp: logged_def)

lemma set_map_filter: "set (List.map_filter f xs) = {y. \<exists>l \<in> set xs. f l = Some y}"
  by (auto simp: set_map_filter_iff)

lemma get_logs_answer:
  assumes "answers_logs x rpc tokens L" and "lo \<le> hi"
  shows "get_logs x rpc lo hi tokens ts calls = (Inr ls, c) \<Longrightarrow>
    set (List.map_filter (decode_transfer_log x) ls) = logged x L ts {lo..hi}"
proof (induction ts arbitrary: calls ls c)
  case Nil
  then show ?case by (simp add: logged_def List.map_filter_simps)
next
  case (Cons t ts)
  then obtain v out where v: "rpc ''eth_getLogs'' (log_filter x lo hi tokens t) = Inr v"
    and out: "get_logs x rpc lo hi tokens ts (calls + 1) = (Inr out, c)" and ls: "ls = elements v @ out"
    by (auto simp: and_then_Inr split: sum.splits prod.splits)
  from assms v have "set (elements v) = (\<Union>b \<in> {lo..hi}. L t b)"
    unfolding answers_logs_def by blast
  then have "set (List.map_filter (decode_transfer_log x) ls)
      = logged x L [t] {lo..hi} \<union> set (List.map_filter (decode_transfer_log x) out)"
    unfolding ls set_map_filter set_append logged_def by auto
  with Cons.IH [OF out] show ?case by (auto simp: logged_def)
qed

lemma le_pred_iff: "a < b \<Longrightarrow> x \<le> b - 1 \<longleftrightarrow> x < b" for a b x :: "'a::len word"
  using pred_of_less [of a b] by (auto simp: word_le_nat_alt word_less_nat_alt)

lemma chunk_low_range:
  "first \<le> hi \<Longrightarrow> first \<le> chunk_low hi chunk first \<and> chunk_low hi chunk first \<le> hi"
  using sat_sub_le [of hi "chunk - 1"] by (simp add: chunk_low_def)

lemma blocks_below:
  "blocks_upto first (if first < lo then Some (lo - 1) else None) = {b. first \<le> b \<and> b < lo}"
  by (auto simp: blocks_upto_def le_pred_iff)

lemma scan_loop_exact:
  shows "answers_logs x rpc tokens L \<Longrightarrow> scan_loop x rpc tokens ts first limit pos chunk calls raws = Inr (out, rest) \<Longrightarrow>
    (\<forall>n. pos = Some n \<longrightarrow> first \<le> n) \<Longrightarrow>
    blocks_upto first rest \<subseteq> blocks_upto first pos
    \<and> set out = set raws \<union> logged x L ts (blocks_upto first pos - blocks_upto first rest)
    \<and> (\<forall>n. rest = Some n \<longrightarrow> first \<le> n)"
proof (induction x rpc tokens ts first limit pos chunk calls raws
    arbitrary: out rest rule: scan_loop.induct)
  case (1 x rpc tokens ts first limit chunk calls raws)
  then show ?case by (simp add: blocks_upto_def logged_def scan_loop.simps)
next
  case (2 x rpc tokens ts first limit hi chunk calls raws)
  show ?case
  proof (cases "max_calls < calls + length ts \<or> limit \<le> length raws")
    case True
    from 2(4,5) scan_stops [OF this] show ?thesis by (auto simp: logged_def)
  next
    case False
    define lo where "lo = chunk_low hi chunk first"
    obtain r c where r: "get_logs x rpc lo hi tokens ts calls = (r, c)" by fastforce
    note round = 2(4) [unfolded scan_round [OF False r [unfolded lo_def]] Let_def, folded lo_def]
    have range: "first \<le> lo" "lo \<le> hi" using 2(5) chunk_low_range by (simp_all add: lo_def)
    show ?thesis
    proof (cases r)
      case (Inl e)
      with round have ok: "is_invalid e \<and> lo < hi" by (auto split: if_splits)
      with round Inl 2(1) [OF False lo_def r [symmetric] Inl ok 2(3)] 2(5) show ?thesis by simp
    next
      case (Inr ls)
      let ?pos = "if first < lo then Some (lo - 1) else None"
      have new: "set (List.map_filter (decode_transfer_log x) ls) = logged x L ts {lo..hi}"
        using get_logs_answer [OF 2(3) range(2) r [unfolded Inr]] .
      have "\<forall>n. ?pos = Some n \<longrightarrow> first \<le> n" by (auto simp: le_pred_iff)
      with round Inr 2(2) [OF False lo_def r [symmetric] Inr 2(3)]
      have IH: "blocks_upto first rest \<subseteq> {b. first \<le> b \<and> b < lo}"
        "set out = set raws \<union> logged x L ts {lo..hi}
          \<union> logged x L ts ({b. first \<le> b \<and> b < lo} - blocks_upto first rest)"
        "\<forall>n. rest = Some n \<longrightarrow> first \<le> n"
        by (simp_all add: new blocks_below Un_assoc)
      have "blocks_upto first (Some hi) - blocks_upto first rest
          = {lo..hi} \<union> ({b. first \<le> b \<and> b < lo} - blocks_upto first rest)"
        using subsetD [OF IH(1)] range by (fastforce simp: blocks_upto_def [of first "Some hi"])
      moreover have "blocks_upto first rest \<subseteq> blocks_upto first (Some hi)"
        using IH(1) range(2) by (auto simp: blocks_upto_def [of first "Some hi"])
      ultimately show ?thesis using IH(2,3) by (simp add: logged_Un Un_assoc)
    qed
  qed
qed

text \<open>
  A node reports consistent positions: the transaction and log index, and the block and log index,
  each say which log it is.
\<close>

definition unique_logs :: "evm_transfer set \<Rightarrow> bool" where
  "unique_logs Y \<longleftrightarrow> (\<forall>a \<in> Y. \<forall>b \<in> Y. same_log a b \<or> log_position a = log_position b \<longrightarrow> a = b)"

lemma set_dedup_by:
  "(\<forall>a \<in> set ys. \<forall>b \<in> set ys. same a b \<longrightarrow> a = b) \<Longrightarrow> set (dedup_by same ys) = set ys"
proof (induction same ys rule: dedup_by.induct)
  case (1 same y z ys)
  show ?case
  proof (cases "same z y")
    case True
    then have "z = y" using 1(3) by simp
    have "set (dedup_by same (y # ys)) = set (y # ys)"
      by (rule 1(1) [OF True]) (metis 1(3) \<open>z = y\<close> list.set_intros(2))
    with True \<open>z = y\<close> show ?thesis by simp
  next
    case False
    have "set (dedup_by same (z # ys)) = set (z # ys)"
      by (rule 1(2) [OF False]) (meson 1(3) list.set_intros(2))
    with False show ?thesis by simp
  qed
qed simp_all

lemma dedup_by_distinct:
  "(\<forall>a \<in> set ys. \<forall>b \<in> set ys. same a b \<longleftrightarrow> a = b) \<Longrightarrow> inj_on f (set ys) \<Longrightarrow>
     sorted_wrt (\<lambda>a b. (f b :: 'k::linorder) \<le> f a) ys \<Longrightarrow> distinct (dedup_by same ys)"
proof (induction same ys rule: dedup_by.induct)
  case (1 same y z ys)
  show ?case
  proof (cases "same z y")
    case True
    with 1 show ?thesis by auto
  next
    case False
    then have "f z \<noteq> f y" using 1(3,4) by (auto simp: inj_on_def)
    with 1(5) have "f z < f y" by (simp add: less_le)
    then have "\<forall>b \<in> set (z # ys). f b < f y" using 1(5) by auto
    then have "y \<notin> set (z # ys)" by blast
    moreover have "set (dedup_by same (z # ys)) = set (z # ys)"
      by (rule set_dedup_by) (use 1(3) in auto)
    ultimately show ?thesis using False 1 by simp
  qed
qed simp_all

lemma newest_first_facts:
  "set (newest_first ys) = set ys"
  "sorted_wrt (\<lambda>a b. log_position b \<le> log_position a) (newest_first ys)"
proof -
  have "sorted_wrt (\<lambda>a b. log_position a \<le> log_position b) (sort_key log_position (rev ys))"
    using sorted_sort_key [of log_position "rev ys"] by (simp only: sorted_map)
  then show "sorted_wrt (\<lambda>a b. log_position b \<le> log_position a) (newest_first ys)"
    by (simp add: newest_first_def sorted_wrt_rev)
qed (simp add: newest_first_def)

lemma dedup_newest:
  assumes "unique_logs (set ys)"
  shows "set (dedup_by same_log (newest_first ys)) = set ys"
    and "distinct (dedup_by same_log (newest_first ys))"
proof -
  have same: "\<forall>a \<in> set (newest_first ys). \<forall>b \<in> set (newest_first ys). same_log a b \<longleftrightarrow> a = b"
    using assms by (auto simp: unique_logs_def newest_first_facts same_log_def)
  then show "set (dedup_by same_log (newest_first ys)) = set ys"
    using set_dedup_by [of "newest_first ys" same_log] by (simp add: newest_first_facts)
  have "inj_on log_position (set (newest_first ys))"
    using assms by (auto simp: unique_logs_def newest_first_facts inj_on_def)
  from dedup_by_distinct [OF same this newest_first_facts(2)]
  show "distinct (dedup_by same_log (newest_first ys))" .
qed

lemma parse_show_cursor: "parse_cursor (show_cursor n) = Inr n"
proof -
  have "strip_prefix ''+'' (show_nat (unat n)) = None"
    using all_digits_in [OF digits_show_nat [of "unat n"], of "CHR ''+''"]
    by (cases "show_nat (unat n)") (auto simp: strip_prefix_def starts_with_def is_digit_def)
  then show ?thesis
    using unsigned_less [of n]
    by (simp add: parse_cursor_def show_cursor_def parse_u64_def)
qed

text \<open>
  C7: a page of the scan is exact. On a node that answers with the logs of the blocks asked for,
  the page lists each transfer of the account in the blocks from its end position up to where it
  started once, even one the account sent to itself, and no others; tokens without decimals are
  left out. Without a cursor it has reached the first block; with one, the scan of the next page
  starts at the highest block this page left out, so pages neither skip nor repeat a block.
\<close>

theorem scan_page_exact:
  assumes "scan_transfers x rpc ce q max_range = Inr p" and "tq_owner q = EvmAddress w"
    and "tq_assets q = None \<or> query_tokens q \<noteq> []"
    and "block_number rpc = Inr head" and "scan_top q head = Inr hi"
    and "answers_logs x rpc (query_tokens q) L"
    and "unique_logs (logged x L (topic_sets x w (tq_direction q)) {scan_first q..hi})"
  shows "\<exists>ys decs rest. items p = to_transfers (ce_id ce) ys decs \<and> distinct ys
    \<and> token_decimals x rpc (map et_token ys) ''latest'' = Inr decs
    \<and> set ys = logged x L (topic_sets x w (tq_direction q))
        ({scan_first q..hi} - blocks_upto (scan_first q) rest)
    \<and> (case next_cursor p of None \<Rightarrow> rest = None
       | Some c \<Rightarrow> \<exists>n. rest = Some n \<and> n \<le> hi
           \<and> scan_top (q\<lparr>tq_cursor := Some c\<rparr>) head = Inr n)"
proof -
  let ?ts = "topic_sets x w (tq_direction q)" and ?first = "scan_first q"
  let ?pos = "if ?first \<le> hi then Some hi else None"
  obtain raws rest decs where
    scan: "scan_loop x rpc (query_tokens q) ?ts ?first (unat (max (tq_limit q) 1)) ?pos
      (max (unwrap_or default_chunk max_range) 1) 0 [] = Inr (raws, rest)"
    and decs: "token_decimals x rpc (map et_token (dedup_by same_log (newest_first raws))) ''latest''
      = Inr decs"
    and p: "p = \<lparr>items = to_transfers (ce_id ce) (dedup_by same_log (newest_first raws)) decs,
      next_cursor = map_option show_cursor rest\<rparr>"
    using assms(1-5) by (auto simp: scan_transfers_def Let_def and_then_Inr)
  have pos: "blocks_upto ?first ?pos = {?first..hi}" by (auto simp: blocks_upto_def)
  have ge: "\<forall>n. ?pos = Some n \<longrightarrow> ?first \<le> n" by simp
  have sub: "blocks_upto ?first rest \<subseteq> {?first..hi}"
    and found: "set raws = logged x L ?ts ({?first..hi} - blocks_upto ?first rest)"
    and first: "\<forall>n. rest = Some n \<longrightarrow> ?first \<le> n"
    using scan_loop_exact [OF assms(6) scan ge, unfolded pos] by simp_all
  have "unique_logs (set raws)"
    using assms(7) unfolding found unique_logs_def logged_def by blast
  note ys = dedup_newest [OF this]
  have "n \<le> hi" if "rest = Some n" for n
    using sub first that by (auto simp: blocks_upto_def)
  moreover have "scan_top (q\<lparr>tq_cursor := Some (show_cursor n)\<rparr>) head = Inr n" if "n \<le> hi" for n
  proof -
    have "hi \<le> min (unwrap_or head (tq_to_block q)) head"
      using assms(5)
      by (auto simp: scan_top_def Let_def and_then_Inr min_le_iff_disj split: option.splits)
    then have "min (min (unwrap_or head (tq_to_block q)) head) n = n"
      by (rule min.absorb2 [OF order_trans [OF that]])
    then show ?thesis by (simp add: scan_top_def parse_show_cursor)
  qed
  ultimately have next_page: "case next_cursor p of None \<Rightarrow> rest = None
    | Some c \<Rightarrow> \<exists>n. rest = Some n \<and> n \<le> hi \<and> scan_top (q\<lparr>tq_cursor := Some c\<rparr>) head = Inr n"
    by (auto simp: p split: option.splits)
  have "items p = to_transfers (ce_id ce) (dedup_by same_log (newest_first raws)) decs"
    by (simp add: p)
  with decs ys next_page show ?thesis
    unfolding found by blast
qed

section \<open>Pages make progress\<close>

lemma scan_loop_range:
  "scan_loop x rpc tokens ts first limit pos chunk calls raws = Inr (out, Some n) \<Longrightarrow>
    \<exists>m. pos = Some m \<and> (first \<le> m \<longrightarrow> n \<le> m)"
proof (induction x rpc tokens ts first limit pos chunk calls raws
    arbitrary: out n rule: scan_loop.induct)
  case (1 x rpc tokens ts first limit chunk calls raws)
  then show ?case by (simp add: scan_loop.simps)
next
  case (2 x rpc tokens ts first limit hi chunk calls raws)
  show ?case
  proof (cases "max_calls < calls + length ts \<or> limit \<le> length raws")
    case True
    with 2(3) scan_stops [OF this] show ?thesis by simp
  next
    case False
    define lo where "lo = chunk_low hi chunk first"
    obtain r c where r: "get_logs x rpc lo hi tokens ts calls = (r, c)" by fastforce
    note round = 2(3) [unfolded scan_round [OF False r [unfolded lo_def]] Let_def, folded lo_def]
    show ?thesis
    proof (cases r)
      case (Inl e)
      with round have ok: "is_invalid e \<and> lo < hi" by (auto split: if_splits)
      with round Inl 2(1) [OF False lo_def r [symmetric] Inl ok] show ?thesis by simp
    next
      case (Inr ls)
      with round 2(2) [OF False lo_def r [symmetric] Inr]
      have "first < lo \<and> (first \<le> lo - 1 \<longrightarrow> n \<le> lo - 1)" by (auto split: if_splits)
      moreover have "first \<le> hi \<Longrightarrow> lo \<le> hi" using chunk_low_range by (simp add: lo_def)
      ultimately show ?thesis by (auto simp: le_pred_iff)
    qed
  qed
qed

lemma div_ceil2_bound: "unat n < 2 ^ Suc k \<Longrightarrow> unat (div_ceil2 n) \<le> 2 ^ k"
proof -
  have nat: "unat (n div 2) = unat n div 2" "unat (n mod 2) = unat n mod 2"
    by (simp_all add: unat_div unat_mod)
  moreover have "unat n < 2 ^ 64" using unsigned_less [of n] by simp
  ultimately have "unat (div_ceil2 n) = unat n div 2 + unat n mod 2"
    unfolding div_ceil2_def by (subst unat_add_lem [THEN iffD1]) auto
  then show "unat n < 2 ^ Suc k \<Longrightarrow> unat (div_ceil2 n) \<le> 2 ^ k"
    by simp
qed

lemma chunk_span: "unat (hi - chunk_low hi chunk first) \<le> unat (chunk - 1)"
  if "first \<le> hi"
proof -
  have "sat_sub hi (chunk - 1) \<le> chunk_low hi chunk first" by (simp add: chunk_low_def)
  moreover have "chunk_low hi chunk first \<le> hi" using chunk_low_range [OF that] by blast
  ultimately show ?thesis
    using unat_sat_sub [of hi "chunk - 1"]
    by (simp add: unat_sub word_le_nat_alt)
qed

lemma scan_round_moves:
  assumes "first \<le> hi" and "\<not> (max_calls < calls + length ts \<or> limit \<le> length raws)"
    and "scan_loop x rpc tokens ts first limit (Some hi) chunk calls raws = Inr (out, Some n)"
  shows "n < hi \<or> (\<exists>c. c \<le> calls + length ts \<and> chunk_low hi chunk first < hi
    \<and> scan_loop x rpc tokens ts first limit (Some hi)
        (max (div_ceil2 (hi - chunk_low hi chunk first)) 1) c raws = Inr (out, Some n))"
proof -
  define lo where "lo = chunk_low hi chunk first"
  obtain r c where r: "get_logs x rpc lo hi tokens ts calls = (r, c)" by fastforce
  note round = assms(3) [unfolded scan_round [OF assms(2) r [unfolded lo_def]] Let_def, folded lo_def]
  show ?thesis
  proof (cases r)
    case (Inl e)
    with round get_logs_calls [OF r] show ?thesis by (auto simp: lo_def split: if_splits)
  next
    case (Inr ls)
    with round have "scan_loop x rpc tokens ts first limit (if first < lo then Some (lo - 1) else None)
        chunk c (raws @ List.map_filter (decode_transfer_log x) ls) = Inr (out, Some n)" by simp
    from scan_loop_range [OF this] have "first < lo \<and> (first \<le> lo - 1 \<longrightarrow> n \<le> lo - 1)"
      by (auto split: if_splits)
    moreover have "lo \<le> hi" using chunk_low_range [OF assms(1)] by (simp add: lo_def)
    ultimately show ?thesis by (auto simp: le_pred_iff)
  qed
qed

lemma scan_moves:
  assumes "first \<le> hi" and "length raws < limit"
  shows "scan_loop x rpc tokens ts first limit (Some hi) chunk calls raws = Inr (out, Some n) \<Longrightarrow>
    1 \<le> chunk \<Longrightarrow> unat chunk \<le> 2 ^ k \<Longrightarrow> calls + (k + 1) * length ts \<le> max_calls \<Longrightarrow> n < hi"
proof (induction k arbitrary: chunk calls)
  case 0
  then have "unat chunk = 1" by (simp add: word_le_nat_alt)
  then have "chunk_low hi chunk first = hi"
    using chunk_span [OF assms(1), of chunk] chunk_low_range [OF assms(1), of chunk]
    by (simp add: unat_sub word_le_nat_alt unat_inject)
  with scan_round_moves [OF assms(1) _ 0(1)] 0(4) assms(2) show ?case by auto
next
  case (Suc k)
  define lo where "lo = chunk_low hi chunk first"
  let ?chunk = "max (div_ceil2 (hi - lo)) 1"
  have "unat (chunk - 1) + 1 = unat chunk"
    using Suc.prems(2) by (simp add: unat_sub word_le_nat_alt)
  then have "unat (hi - lo) < 2 ^ Suc k"
    using chunk_span [OF assms(1), of chunk] Suc.prems(3) by (simp add: lo_def)
  then have "unat ?chunk \<le> 2 ^ k"
    using div_ceil2_bound by (simp add: max_def)
  moreover have "1 \<le> ?chunk" by simp
  moreover have "\<not> (max_calls < calls + length ts \<or> limit \<le> length raws)"
    using Suc.prems(4) assms(2) by simp
  from scan_round_moves [OF assms(1) this Suc.prems(1), folded lo_def]
  have "n < hi \<or> (\<exists>c \<le> calls + length ts.
      scan_loop x rpc tokens ts first limit (Some hi) ?chunk c raws = Inr (out, Some n))" by auto
  ultimately show ?case
    using Suc.IH [of ?chunk] Suc.prems(4) by fastforce
qed

text \<open>
  C8: following the cursors of a scan ends. With chunks of at most \<open>2 ^ k\<close> blocks, where halving
  down to one block fits the calls of a page, a page either fails, reaches the first block, or
  its cursor is strictly below where it started: no page is returned forever.
\<close>

theorem scan_page_progress:
  assumes "scan_transfers x rpc ce q max_range = Inr p" and "tq_owner q = EvmAddress w"
    and "block_number rpc = Inr head" and "scan_top q head = Inr hi"
    and "unat (max (unwrap_or default_chunk max_range) 1) \<le> 2 ^ k"
    and "(k + 1) * length (topic_sets x w (tq_direction q)) \<le> max_calls"
    and "next_cursor p = Some c"
  shows "\<exists>n < hi. c = show_cursor n \<and> scan_first q \<le> hi"
proof -
  let ?ts = "topic_sets x w (tq_direction q)" and ?first = "scan_first q"
  obtain raws rest where
    scan: "scan_loop x rpc (query_tokens q) ?ts ?first (unat (max (tq_limit q) 1))
      (if ?first \<le> hi then Some hi else None) (max (unwrap_or default_chunk max_range) 1) 0 []
      = Inr (raws, rest)"
    and "next_cursor p = map_option show_cursor rest"
    using assms(1-4,7) by (auto simp: scan_transfers_def Let_def and_then_Inr split: if_splits)
  with assms(7) obtain n where n: "rest = Some n" "c = show_cursor n" by auto
  from scan_loop_range [OF scan [unfolded n]] have hi: "?first \<le> hi" by (auto split: if_splits)
  have "1 \<le> max (tq_limit q) 1" by simp
  then have "length ([] :: evm_transfer list) < unat (max (tq_limit q) 1)"
    by (simp add: word_le_nat_alt)
  then have "n < hi"
    by (rule scan_moves [OF hi, of _ _ x rpc "query_tokens q" ?ts "max (unwrap_or default_chunk max_range) 1" 0])
      (use scan n hi assms(5,6) in simp_all)
  with n hi show ?thesis by blast
qed

text \<open>
  The bound matters. When a node answers for incoming transfers but refuses every range of more
  than one block for outgoing ones, each halving costs two calls, the calls run out before the
  default chunk is down to one block, and the page ends where it began: its cursor asks for the
  same page again.
\<close>

lemma stuck_round:
  assumes "\<And>lo hi. rpc ''eth_getLogs'' (log_filter x lo hi [] a) = Inr (JArr [])"
    and "\<And>lo hi. lo < hi \<Longrightarrow> rpc ''eth_getLogs'' (log_filter x lo hi [] b) = Inl (Invalid m)"
    and "calls + 2 \<le> max_calls" and "1 < chunk" and "chunk \<le> hi"
  shows "scan_loop x rpc [] [a, b] 0 (Suc limit) (Some hi) chunk calls [] =
    scan_loop x rpc [] [a, b] 0 (Suc limit) (Some hi) (max (div_ceil2 (chunk - 1)) 1) (calls + 2) []"
proof -
  have pred: "Suc (unat (chunk - 1)) = unat chunk" "1 < unat chunk" "unat chunk \<le> unat hi"
    using pred_of_less [OF assms(4)] assms(4,5) by (simp_all add: word_less_nat_alt word_le_nat_alt)
  then have le: "chunk - 1 \<le> hi" by (simp add: word_le_nat_alt)
  then have lo: "chunk_low hi chunk 0 = hi - (chunk - 1)"
    by (simp add: chunk_low_def sat_sub_def)
  have less: "hi - (chunk - 1) < hi"
    using pred by (simp add: word_less_nat_alt unat_sub [OF le])
  have "get_logs x rpc (hi - (chunk - 1)) hi [] [a, b] calls = (Inl (Invalid m), calls + 2)"
    using assms(1,2) less by simp
  then show ?thesis
    using scan_round [of calls "[a, b]" "Suc limit" "[]" x rpc hi chunk 0 "[]"] assms(3) less
    by (simp add: lo)
qed


lemma scan_stuck:
  assumes refuses: "\<And>lo hi. rpc ''eth_getLogs'' (log_filter x lo hi [] a) = Inr (JArr [])"
    "\<And>lo hi. lo < hi \<Longrightarrow> rpc ''eth_getLogs'' (log_filter x lo hi [] b) = Inl (Invalid m)"
    and hi: "default_chunk \<le> hi"
  shows "scan_loop x rpc [] [a, b] 0 (Suc limit) (Some hi) default_chunk 0 [] = Inr ([], Some hi)"
proof -
  note round = stuck_round [of rpc x a b m, OF refuses]
  have le: "chunk \<le> hi" if "chunk \<le> 2000" for chunk
    using hi that by (simp add: default_chunk_def)
  show ?thesis
    by (simp add: default_chunk_def round le div_ceil2_def max_calls_def scan_stops)
qed

section \<open>Sample\<close>

text \<open>A node whose every block holds the one sample log.\<close>

definition scan_node :: node where
  "scan_node meth ps = (if meth = ''eth_blockNumber'' then Inr (JStr ''0x7'')
     else if meth = ''eth_getLogs'' then Inr (JArr [ev_log]) else Inr (JStr ''d''))"

definition scan_query :: transfer_query where
  "scan_query = \<lparr>tq_owner = EvmAddress 2, tq_direction = DirIn, tq_assets = None, tq_from_block = None,
     tq_to_block = None, tq_cursor = None, tq_limit = 10\<rparr>"

abbreviation ev_raw :: evm_transfer where
  "ev_raw \<equiv> \<lparr>et_token = 3, et_from = 1, et_to = 2, et_value = 5, et_tx_hash = ''h'',
     et_log_index = Some 0, et_block = None\<rparr>"

lemma ev_log_decodes: "decode_transfer_log ev_lib ev_log = Some ev_raw"
  using ev_logs by (auto simp: receipt_logs_def ev_receipt_def List.map_filter_simps split: option.splits)

lemma scan_decimals: "token_decimals ev_lib scan_node [3] b = Inr [(3, 6)]"
  by (simp add: token_decimals_def aggregate3_def eth_call_def scan_node_def ev_data)
    (simp add: ev_lib_def decode_decimals_def ev_word List.map_filter_simps)

lemma scan_sample:
  "\<exists>p. scan_transfers ev_lib scan_node sample_chain scan_query None = Inr p \<and> next_cursor p = None
     \<and> length (items p) = 1"
proof -
  have head: "block_number scan_node = Inr 7" by (simp add: block_number_def scan_node_def ev_numbers)
  have "scan_loop ev_lib scan_node [] [t] 0 10 (Some 7) 2000 0 [] = Inr ([ev_raw], None)" for t
    by (subst scan_round [where c = 1 and r = "Inr [ev_log]"])
      (simp_all add: max_calls_def chunk_low_def sat_sub_def scan_node_def scan_loop.simps(1)
        List.map_filter_simps ev_log_decodes)
  then show ?thesis
    by (simp add: scan_transfers_def scan_query_def head query_tokens_def scan_top_def scan_first_def
        default_chunk_def topic_sets_def newest_first_def scan_decimals List.map_filter_simps Let_def
        to_transfers_def)
qed

theorem scan_page_exact_witness:
  "\<exists>p. scan_transfers ev_lib scan_node sample_chain scan_query None = Inr p
     \<and> (\<exists>ys. distinct ys \<and> set ys = {ev_raw} \<and> length (items p) = 1)"
proof -
  obtain p where p: "scan_transfers ev_lib scan_node sample_chain scan_query None = Inr p"
    "next_cursor p = None" "length (items p) = 1"
    using scan_sample by blast
  have L: "answers_logs ev_lib scan_node (query_tokens scan_query) (\<lambda>_ _. {ev_log})"
    by (simp add: answers_logs_def scan_node_def)
  have ys: "logged ev_lib (\<lambda>_ _. {ev_log}) (topic_sets ev_lib 2 DirIn) {0..7} = {ev_raw}"
    by (auto simp: logged_def ev_log_decodes topic_sets_def intro: exI [of _ "0::u64"])
  then have "unique_logs (logged ev_lib (\<lambda>_ _. {ev_log}) (topic_sets ev_lib 2 (tq_direction scan_query))
      {scan_first scan_query..7})"
    by (simp add: unique_logs_def scan_query_def scan_first_def)
  note exact = scan_page_exact [OF p(1) _ _ _ _ L this]
  have "block_number scan_node = Inr 7" by (simp add: block_number_def scan_node_def ev_numbers)
  from exact [OF _ _ this] obtain zs where "distinct zs" "set zs = {ev_raw}"
    using ys p(2) by (auto simp: scan_query_def scan_top_def scan_first_def blocks_upto_def)
  with p show ?thesis by blast
qed

theorem scan_page_progress_witness:
  "\<exists>p n. scan_transfers ev_lib scan_node sample_chain (scan_query\<lparr>tq_limit := 1\<rparr>) (Some 2) = Inr p
     \<and> next_cursor p = Some (show_cursor n) \<and> n < 7"
proof -
  let ?q = "scan_query\<lparr>tq_limit := 1\<rparr>"
  have head: "block_number scan_node = Inr 7" by (simp add: block_number_def scan_node_def ev_numbers)
  have "scan_loop ev_lib scan_node [] [t] 0 1 (Some 7) 2 0 [] = Inr ([ev_raw], Some 5)" for t
    by (subst scan_round [where c = 1 and r = "Inr [ev_log]"])
      (simp_all add: max_calls_def chunk_low_def sat_sub_def scan_node_def scan_stops
        List.map_filter_simps ev_log_decodes)
  then obtain p where p: "scan_transfers ev_lib scan_node sample_chain ?q (Some 2) = Inr p"
    "next_cursor p = Some (show_cursor 5)"
    by (simp add: scan_transfers_def scan_query_def head query_tokens_def scan_top_def scan_first_def
        topic_sets_def newest_first_def scan_decimals List.map_filter_simps Let_def)
  from scan_page_progress [OF p(1) _ head _ _ _ p(2), of 2 7 1]
  have "\<exists>n < 7. show_cursor 5 = show_cursor n"
    by (auto simp: scan_query_def scan_top_def topic_sets_def max_calls_def)
  with p show ?thesis by metis
qed

end
