(* ===== verification/PaymentOps.thy ===== *)
theory PaymentOps
  imports Routing EvmLogs
begin

text \<open>
  The operations on payments (\<open>execute\<close> in \<open>crates/app/src/ops/payments.rs\<close>) over the router and
  the chain readers, and the request context they get (\<open>crates/app/src/ctx.rs\<close>,
  \<open>crates/app/src/op.rs\<close>).

  A vendor's port is an oracle (\<open>vendor_world\<close>): what its node answers and which pages it returns,
  by the position of the candidate and the number of the try, with the time each takes.
\<close>

section \<open>Context\<close>

record ('s, 'p, 'q) op_ctx =
  cx_router :: "('s, 'p, 'q) router_env"
  cx_table :: loaded
  cx_op :: string

definition ctx_new :: "('s, 'p, 'q) router_env \<Rightarrow> string \<Rightarrow> ('s, 'p, 'q) op_ctx" where
  "ctx_new rx op = \<lparr>cx_router = rx, cx_table = r_config rx, cx_op = op\<rparr>"

definition ctx_chain :: "('s, 'p, 'q) op_ctx \<Rightarrow> string \<Rightarrow> domain_error + chain_entry" where
  "ctx_chain cx s = resolve_chain (reg_chains (registry (cx_table cx))) s"

definition ctx_route :: "('s, 'p, 'q) op_ctx \<Rightarrow> capability \<Rightarrow> route_req" where
  "ctx_route cx cap = (new_req cap)\<lparr>rq_op := Some (cx_op cx)\<rparr>"

record 'a op_output =
  op_data :: 'a
  op_meta :: provenance

definition local_output :: "datetime \<Rightarrow> 'a \<Rightarrow> 'a op_output" where
  "local_output now a = \<lparr>op_data = a,
     op_meta = (new_provenance Primary now)\<lparr>pv_provider := Some ''local''\<rparr>\<rparr>"

text \<open>What the operations use from outside the repository, and the registry of coins.\<close>

record op_lib =
  ol_evm :: evm_lib
  ol_fsr :: "string \<Rightarrow> u256 option"
  ol_time :: "int \<Rightarrow> datetime option"
  ol_json :: "json \<Rightarrow> string"
  ol_registry :: "string + stablecoin_entry list"

definition ol_codec :: "op_lib \<Rightarrow> codec" where
  "ol_codec b = el_codec (ol_evm b)"

record ('s, 'p) vendor_world =
  w_node :: "'p \<Rightarrow> nat \<Rightarrow> nat \<Rightarrow> node"
  w_pages :: "'p \<Rightarrow> nat \<Rightarrow> nat \<Rightarrow> transfer_query \<Rightarrow> provider_error + page"
  w_took :: "'p \<Rightarrow> nat \<Rightarrow> nat \<Rightarrow> duration"
  w_during :: "'p \<Rightarrow> nat \<Rightarrow> nat \<Rightarrow> 's runtime \<Rightarrow> 's runtime"
  w_jitter :: "'p \<Rightarrow> nat \<Rightarrow> nat \<Rightarrow> nat"

definition asks :: "('s, 'p) vendor_world \<Rightarrow> ('p \<Rightarrow> nat \<Rightarrow> nat \<Rightarrow> provider_error + 't)
    \<Rightarrow> 'p \<Rightarrow> nat \<Rightarrow> nat \<Rightarrow> ('s, 't) call" where
  "asks w f p i n = \<lparr>reply = f p i n, took = w_took w p i n, during = w_during w p i n,
     jitter_ms = w_jitter w p i n\<rparr>"

section \<open>Looking a transaction up\<close>

definition not_found_hint :: "domain_error \<Rightarrow> domain_error" where
  "not_found_hint e = (if err_code e = ENotFound
     then with_hint ''not found by two providers: it may not be broadcast yet, or is on another chain'' e
     else e)"

definition tx_block_hash :: "json tx \<Rightarrow> string" where
  "tx_block_hash t = unwrap_or [] (Option.bind (tx_block t) block_hash)"

definition fetch_tx :: "('s, 'p, 'q) op_ctx \<Rightarrow> capability \<Rightarrow> chain_id \<Rightarrow> nat option
    \<Rightarrow> ('p \<Rightarrow> nat \<Rightarrow> nat \<Rightarrow> ('s, json tx) call) \<Rightarrow> 's runtime \<Rightarrow> clock
    \<Rightarrow> (domain_error + json tx \<times> provenance \<times> quorum_info option) \<times> 's runtime \<times> clock" where
  "fetch_tx cx cap chain quorum_n calls rt c =
     (let req = (ctx_route cx cap)\<lparr>rq_chain := Some chain, rq_confirm_not_found := True\<rparr>
      in case quorum_n of
           Some n \<Rightarrow> (let (r, rt1, c1) = quorum (cx_router cx) (trait_of cap) req n tx_block_hash calls rt c
             in (case r of Inl e \<Rightarrow> Inl (not_found_hint (re_error e))
                 | Inr y \<Rightarrow> Inr (qo_value (rd_value y), rd_provenance y,
                     Some \<lparr>agreeing = qo_agreeing (rd_value y), required = qo_required (rd_value y)\<rparr>),
                 rt1, c1))
         | None \<Rightarrow> (let (r, rt1, c1) = failover (cx_router cx) (trait_of cap) req calls rt c
             in (case r of Inl e \<Rightarrow> Inl (not_found_hint (re_error e))
                 | Inr y \<Rightarrow> Inr (rd_value y, rd_provenance y, None), rt1, c1)))"

text \<open>One vendor's reader: a transaction the node does not know is not found.\<close>

definition read_tx :: "op_lib \<Rightarrow> chain_entry \<Rightarrow> string \<Rightarrow> node \<Rightarrow> provider_error + json tx" where
  "read_tx b ce h rpc = and_then
     (case ce_family ce of
        Evm \<Rightarrow> evm_get_tx (ol_evm b) rpc ce h
      | Solana \<Rightarrow> sol_get_tx (ol_codec b) (ol_fsr b) (ol_time b) rpc ce h)
     (\<lambda>t. ok_or NotFound t)"

definition rpc_capability :: "chain_family \<Rightarrow> capability" where
  "rpc_capability f = (case f of Evm \<Rightarrow> CapEvmRpc | Solana \<Rightarrow> CapSolanaRpc)"

definition lookup_tx :: "op_lib \<Rightarrow> ('s, 'p) vendor_world \<Rightarrow> ('s, 'p, 'q) op_ctx \<Rightarrow> chain_entry \<Rightarrow> string
    \<Rightarrow> nat option \<Rightarrow> 's runtime \<Rightarrow> clock
    \<Rightarrow> (domain_error + json tx \<times> provenance \<times> quorum_info option) \<times> 's runtime \<times> clock" where
  "lookup_tx b w cx ce h quorum_n =
     fetch_tx cx (rpc_capability (ce_family ce)) (ce_id ce) quorum_n
       (asks w (\<lambda>p i n. read_tx b ce (trim h) (w_node w p i n)))"

section \<open>Verifying a transfer\<close>

record verify_input =
  vi_chain :: string
  vi_tx :: string
  vi_token :: string
  vi_recipient :: string
  vi_amount :: "string option"
  vi_amount_raw :: "string option"
  vi_reference :: "string option"
  vi_min_finality :: min_finality
  vi_quorum :: "bool option"

text \<open>How many vendors have to agree, from the input and the settings of the operation.\<close>

definition quorum_size :: "operation_settings \<Rightarrow> bool option \<Rightarrow> nat option" where
  "quorum_size cfg q = (if unwrap_or (os_strategy cfg = Some StratQuorum) q
     then Some (unat (max (unwrap_or 2 (os_quorum cfg)) 2)) else None)"

definition note_quorum :: "quorum_info option \<Rightarrow> payment_check \<Rightarrow> payment_check" where
  "note_quorum q check = (let check = check\<lparr>pay_quorum := q\<rparr> in
     case q of
       Some i \<Rightarrow> if agreeing i < required i
         then check\<lparr>pay_notes := pay_notes check @ [''quorum not met: '' @ show_nat (agreeing i) @ ''/''
                @ show_nat (required i) @ '' providers answered'']\<rparr>
         else check
     | None \<Rightarrow> check)"

text \<open>What the input asks for: chain, token, recipient and amount. No vendor is involved.\<close>

definition payment_terms :: "op_lib \<Rightarrow> ('s, 'p, 'q) op_ctx \<Rightarrow> string \<Rightarrow> string \<Rightarrow> string
    \<Rightarrow> string option \<Rightarrow> string option
    \<Rightarrow> domain_error + chain_entry \<times> stablecoin_entry \<times> account_address \<times> amount" where
  "payment_terms b cx chain token recipient amt amt_raw =
     and_then (ctx_chain cx chain) (\<lambda>ce.
     and_then (resolve_canonical (ol_codec b) (ol_registry b) (ce_id ce) (ce_name ce) token) (\<lambda>e.
     and_then (parse_address (ol_codec b) (ce_family ce) recipient) (\<lambda>to.
     and_then (parse_amount (ol_fsr b) amt amt_raw (entry_decimals e)) (\<lambda>a.
       Inr (ce, e, to, a)))))"

definition verify_transfer :: "op_lib \<Rightarrow> ('s, 'p) vendor_world \<Rightarrow> ('s, 'p, 'q) op_ctx \<Rightarrow> verify_input
    \<Rightarrow> 's runtime \<Rightarrow> clock \<Rightarrow> (domain_error + payment_check op_output) \<times> 's runtime \<times> clock" where
  "verify_transfer b w cx vi rt c =
     (case payment_terms b cx (vi_chain vi) (vi_token vi) (vi_recipient vi) (vi_amount vi) (vi_amount_raw vi) of
        Inl e \<Rightarrow> (Inl e, rt, c)
      | Inr (ce, e, to, a) \<Rightarrow>
          (let (r, rt1, c1) = lookup_tx b w cx ce (vi_tx vi)
                 (quorum_size (operation (cx_table cx) ''payments_verify_transfer'') (vi_quorum vi)) rt c
           in (and_then r (\<lambda>(t, meta, q).
                let expected = \<lparr>exp_asset = entry_asset e, exp_recipient = to, exp_amount = a,
                      exp_finality = finality_floor (vi_min_finality vi), exp_reference = vi_reference vi\<rparr>
                in and_then (map_err (\<lambda>e. internal (''stablecoin registry invalid: '' @ e)) (ol_registry b)) (\<lambda>reg.
                  Inr \<lparr>op_data = note_quorum q (check_payment (ol_codec b) (ol_json b) expected t reg),
                    op_meta = meta\<lparr>pv_chain := Some (ce_id ce), pv_block := tx_block t,
                      pv_finality := Some (tx_finality t)\<rparr>\<rparr>)),
               rt1, c1)))"

section \<open>Listing deposits\<close>

record deposits_input =
  di_chain :: string
  di_addresses :: "string list"
  di_tokens :: "string list option"
  di_cursors :: "(string \<times> string) list"
  di_from_block :: "u64 option"
  di_limit :: "u32 option"

record address_page =
  ap_address :: string
  ap_deposits :: "deposit list"
  ap_next_cursor :: "string option"

definition page_limit :: "u32 option \<Rightarrow> u32" where
  "page_limit l = min (max (unwrap_or 50 l) 1) 200"

definition deposit_tokens :: "op_lib \<Rightarrow> chain_entry \<Rightarrow> string list option
    \<Rightarrow> domain_error + stablecoin_entry list" where
  "deposit_tokens b ce coins = (case coins of
       Some ts \<Rightarrow> collect_results (map (resolve_canonical (ol_codec b) (ol_registry b) (ce_id ce) (ce_name ce)) ts)
     | None \<Rightarrow> and_then (map_err (\<lambda>e. internal (''stablecoin registry invalid: '' @ e)) (ol_registry b))
         (\<lambda>reg. Inr (for_chain reg (ce_id ce))))"

definition deposit_query :: "stablecoin_entry list \<Rightarrow> deposits_input \<Rightarrow> string \<Rightarrow> account_address
    \<Rightarrow> transfer_query" where
  "deposit_query coins di text owner = \<lparr>tq_owner = owner, tq_direction = DirIn,
     tq_assets = Some (map entry_asset coins), tq_from_block = di_from_block di, tq_to_block = None,
     tq_cursor = map_of (di_cursors di) text, tq_limit = page_limit (di_limit di)\<rparr>"

text \<open>
  The loop over the addresses. \<open>ws\<close> holds the behaviour of the vendors for each of them, \<open>meta\<close>
  the provenance so far.
\<close>

fun deposit_pages :: "op_lib \<Rightarrow> (nat \<Rightarrow> ('s, 'p) vendor_world) \<Rightarrow> ('s, 'p, 'q) op_ctx \<Rightarrow> chain_entry
    \<Rightarrow> stablecoin_entry list \<Rightarrow> deposits_input \<Rightarrow> nat \<Rightarrow> string list \<Rightarrow> address_page list
    \<Rightarrow> provenance option \<Rightarrow> 's runtime \<Rightarrow> clock
    \<Rightarrow> (domain_error + address_page list \<times> provenance option) \<times> 's runtime \<times> clock" where
  "deposit_pages b ws cx ce coins di j [] pages meta rt c = (Inr (pages, meta), rt, c)"
| "deposit_pages b ws cx ce coins di j (text # texts) pages meta rt c =
     (case parse_address (ol_codec b) (ce_family ce) text of
        Inl e \<Rightarrow> (Inl e, rt, c)
      | Inr owner \<Rightarrow>
          (let q = deposit_query coins di text owner;
               (r, rt1, c1) = failover (cx_router cx) TransferHistoryT
                 ((ctx_route cx CapTransferHistory)\<lparr>rq_chain := Some (ce_id ce)\<rparr>)
                 (asks (ws j) (\<lambda>p i n. w_pages (ws j) p i n q)) rt c
           in case r of
                Inl e \<Rightarrow> (Inl (re_error e), rt1, c1)
              | Inr y \<Rightarrow> deposit_pages b ws cx ce coins di (j + 1) texts
                  (pages @ [\<lparr>ap_address = show_address (ol_codec b) owner,
                     ap_deposits = canonical_deposits (items (rd_value y)) owner coins,
                     ap_next_cursor = next_cursor (rd_value y)\<rparr>])
                  (Some (case meta of
                      None \<Rightarrow> rd_provenance y
                    | Some m \<Rightarrow> m\<lparr>pv_tried := pv_tried m @ pv_tried (rd_provenance y)\<rparr>))
                  rt1 c1))"

definition list_deposits :: "op_lib \<Rightarrow> (nat \<Rightarrow> ('s, 'p) vendor_world) \<Rightarrow> ('s, 'p, 'q) op_ctx
    \<Rightarrow> deposits_input \<Rightarrow> 's runtime \<Rightarrow> clock
    \<Rightarrow> (domain_error + address_page list op_output) \<times> 's runtime \<times> clock" where
  "list_deposits b ws cx di rt c =
     (case and_then (ctx_chain cx (di_chain di)) (\<lambda>ce.
          if di_addresses di = [] \<or> 20 < length (di_addresses di)
          then Inl (invalid ''give 1 to 20 addresses'')
          else and_then (deposit_tokens b ce (di_tokens di)) (\<lambda>coins.
            if coins = []
            then Inl (invalid (''no verified stablecoins are registered for '' @ show_chain (ce_id ce)))
            else Inr (ce, coins))) of
        Inl e \<Rightarrow> (Inl e, rt, c)
      | Inr (ce, coins) \<Rightarrow>
          (let (r, rt1, c1) = deposit_pages b ws cx ce coins di 0 (di_addresses di) [] None rt c
           in (and_then r (\<lambda>(pages, meta).
                and_then (ok_or (invalid ''addresses must not be empty'') meta) (\<lambda>m.
                  Inr \<lparr>op_data = pages, op_meta = m\<lparr>pv_chain := Some (ce_id ce)\<rparr>\<rparr>)),
               rt1, c1)))"

section \<open>Building a request\<close>

datatype request_format = Eip681 | SolanaPay | X402

record build_input =
  bi_chain :: string
  bi_token :: string
  bi_recipient :: string
  bi_amount :: "string option"
  bi_amount_raw :: "string option"
  bi_format :: request_format
  bi_reference :: "string option"
  bi_label :: "string option"
  bi_message :: "string option"
  bi_memo :: "string option"
  bi_resource_url :: "string option"
  bi_description :: "string option"
  bi_max_timeout :: "u64 option"
  bi_eip712_name :: "string option"
  bi_eip712_version :: "string option"

record request_out =
  ro_asset :: asset_id
  ro_symbol :: string
  ro_amount :: amount
  ro_uri :: "string option"
  ro_reference :: "string option"
  ro_x402 :: "json option"
  ro_notes :: "string list"

definition opt_field :: "string \<Rightarrow> json option \<Rightarrow> (string \<times> json) list" where
  "opt_field name v = (case v of None \<Rightarrow> [] | Some v \<Rightarrow> [(name, v)])"

definition x402_payment_required :: "codec \<Rightarrow> stablecoin_entry \<Rightarrow> account_address \<Rightarrow> amount \<Rightarrow> string
    \<Rightarrow> string option \<Rightarrow> u64 \<Rightarrow> json option \<Rightarrow> json" where
  "x402_payment_required k e to a url desc timeout extra = JObj [(''x402Version'', JInt 2),
     (''resource'', JObj ([(''url'', JStr url)] @ opt_field ''description'' (map_option JStr desc))),
     (''accepts'', JArr [JObj ([(''scheme'', JStr ''exact''),
        (''network'', JStr (show_chain (asset_chain (entry_asset e)))),
        (''amount'', JStr (show_nat (unat (raw a)))), (''asset'', JStr (entry_address e)),
        (''payTo'', JStr (show_address k to)), (''maxTimeoutSeconds'', JInt (int (unat timeout)))]
        @ opt_field ''extra'' extra)])]"

fun show_format :: "request_format \<Rightarrow> string" where
  "show_format Eip681 = ''Eip681''"
| "show_format SolanaPay = ''SolanaPay''"
| "show_format X402 = ''X402''"

fun debug_family :: "chain_family \<Rightarrow> string" where
  "debug_family Evm = ''Evm''"
| "debug_family Solana = ''Solana''"

definition x402_extra :: "chain_family \<Rightarrow> build_input \<Rightarrow> json option \<times> string list" where
  "x402_extra f bi = (case (bi_eip712_name bi, bi_eip712_version bi) of
       (Some n, Some v) \<Rightarrow> (Some (JObj [(''name'', JStr n), (''version'', JStr v)]), [])
     | _ \<Rightarrow> (None, [if f = Evm
         then ''no `extra`: pass eip712_name/eip712_version (the token's EIP-712 domain) so EIP-3009 clients can sign''
         else ''Solana exact scheme: the facilitator adds `extra.feePayer`'']))"

text \<open>\<open>fresh\<close> is the random reference key, drawn when none is given.\<close>

definition build_request :: "op_lib \<Rightarrow> ('s, 'p, 'q) op_ctx \<Rightarrow> pubkey \<Rightarrow> datetime \<Rightarrow> build_input
    \<Rightarrow> domain_error + request_out op_output" where
  "build_request b cx fresh now bi = and_then
     (payment_terms b cx (bi_chain bi) (bi_token bi) (bi_recipient bi) (bi_amount bi) (bi_amount_raw bi))
     (\<lambda>(ce, e, to, a).
       let k = ol_codec b;
           out = \<lparr>ro_asset = entry_asset e, ro_symbol = symbol e, ro_amount = a, ro_uri = None,
             ro_reference = None, ro_x402 = None, ro_notes = []\<rparr>
       in and_then
         (case (bi_format bi, ce_family ce) of
            (Eip681, Evm) \<Rightarrow>
              if entry_address e = show_address k to
              then Inl (invalid ''recipient is the token contract itself'')
              else Inr (out\<lparr>ro_uri := Some (eip681_uri k e (unwrap_or 0 (evm_chain_id (ce_id ce))) to a)\<rparr>)
          | (SolanaPay, Solana) \<Rightarrow>
              and_then (case bi_reference bi of Some r \<Rightarrow> parse_pubkey k r | None \<Rightarrow> Inr fresh) (\<lambda>r.
                Inr (out\<lparr>ro_uri := Some (solana_pay_url k e to a r (bi_label bi) (bi_message bi) (bi_memo bi)),
                  ro_reference := Some (show_pubkey k r)\<rparr>))
          | (X402, f) \<Rightarrow>
              and_then (ok_or (invalid ''x402 needs `resource_url` (the protected resource)'') (bi_resource_url bi)) (\<lambda>url.
                let (extra, notes) = x402_extra f bi in
                Inr (out\<lparr>ro_notes := notes, ro_x402 := Some (x402_payment_required k e to a url
                  (bi_description bi) (unwrap_or 60 (bi_max_timeout bi)) extra)\<rparr>))
          | (f, fam) \<Rightarrow> Inl (invalid (''format '' @ show_format f @ '' is not available on ''
                @ debug_family fam @ '' chains'')))
         (\<lambda>out. let o1 = local_output now out in
            Inr (o1\<lparr>op_meta := (op_meta o1)\<lparr>pv_chain := Some (ce_id ce)\<rparr>\<rparr>)))"

section \<open>Verdicts rest on what vendors answered\<close>

abbreviation fetch_req :: "('s, 'p, 'q) op_ctx \<Rightarrow> capability \<Rightarrow> chain_id \<Rightarrow> route_req" where
  "fetch_req cx cap chain \<equiv> (ctx_route cx cap)\<lparr>rq_chain := Some chain, rq_confirm_not_found := True\<rparr>"

text \<open>The usable vendor at position \<open>i\<close> read the transaction \<open>t\<close> off its node on some try.\<close>

definition vendor_read :: "('s, 'p, 'q) op_ctx \<Rightarrow> capability \<Rightarrow> chain_id \<Rightarrow> 's runtime \<Rightarrow> clock
    \<Rightarrow> ('p \<Rightarrow> nat \<Rightarrow> nat \<Rightarrow> provider_error + json tx) \<Rightarrow> nat \<Rightarrow> json tx \<Rightarrow> bool" where
  "vendor_read cx cap chain rt c f i t \<longleftrightarrow> (\<exists>v p k.
     usable (cx_router cx) (trait_of cap) (fetch_req cx cap chain) c rt (v, p) \<and> f p i k = Inr t)"

text \<open>
  The readings behind a result: one, or with a quorum as many as it says agreed, from vendors at
  different positions, all with the same block hash, the first of which is the result.
\<close>

definition backed_by :: "('s, 'p, 'q) op_ctx \<Rightarrow> capability \<Rightarrow> chain_id \<Rightarrow> 's runtime \<Rightarrow> clock
    \<Rightarrow> ('p \<Rightarrow> nat \<Rightarrow> nat \<Rightarrow> provider_error + json tx) \<Rightarrow> quorum_info option \<Rightarrow> json tx \<Rightarrow> bool" where
  "backed_by cx cap chain rt c f q t \<longleftrightarrow> (\<exists>js ts. sorted_wrt (<) js
     \<and> list_all2 (vendor_read cx cap chain rt c f) js ts \<and> ts \<noteq> [] \<and> hd ts = t
     \<and> (\<forall>u \<in> set ts. tx_block_hash u = tx_block_hash t)
     \<and> (case q of None \<Rightarrow> length ts = 1 | Some i \<Rightarrow> length ts = agreeing i))"

lemma asks_reply [simp]: "reply (asks w f p i n) = f p i n"
  by (simp add: asks_def)

lemma fetch_tx_backed:
  assumes "fetch_tx cx cap chain quorum_n (asks w f) rt c = (Inr (t, meta, q), rt', c')"
  shows "backed_by cx cap chain rt c f q t \<and> map_option required q = quorum_n"
proof -
  let ?rx = "cx_router cx" and ?t = "trait_of cap" and ?req = "fetch_req cx cap chain"
  obtain cs skipped rt1 where cands: "consider_all ?rx ?t ?req c (order_of ?rx ?req) rt = (cs, skipped, rt1)"
    by (metis prod_cases3)
  have ok: "usable ?rx ?t ?req c rt (cs ! i)" if "i < length cs" for i
    using consider_all_sound [OF cands] that by (simp add: list_all_length)
  show ?thesis
  proof (cases quorum_n)
    case None
    then obtain y where y: "failover ?rx ?t ?req (asks w f) rt c = (Inr y, rt', c')" "rd_value y = t" "q = None"
      using assms by (auto simp: fetch_tx_def Let_def split: prod.splits sum.splits)
    from failover_answer [OF y(1) cands] obtain i v p k where "i < length cs" "cs ! i = (v, p)" "f p i k = Inr t"
      using y(2) by auto
    with ok [of i] have "vendor_read cx cap chain rt c f i t"
      unfolding vendor_read_def by metis
    with None y(3) show ?thesis
      by (auto simp: backed_by_def intro!: exI [of _ "[i]"] exI [of _ "[t]"])
  next
    case (Some n)
    obtain oks attempts le rt2 c2 where collected: "collect_n ?rx ?t ?req (max n 1) (asks w f) rt c
        = ((oks, attempts, le), rt2, c2)" by (metis prod.exhaust)
    have res: "oks \<noteq> [] \<and> t = snd (hd oks) \<and> q = Some \<lparr>agreeing = length oks, required = n\<rparr>
        \<and> (\<forall>x \<in> set oks. tx_block_hash (snd x) = tx_block_hash t)"
      using assms Some collected
      by (auto simp: fetch_tx_def quorum_def Let_def list_ex_iff split: prod.splits sum.splits list.splits if_splits)
    from collect_n_answered [OF collected cands] obtain js where js: "sorted_wrt (<) js"
      "\<forall>i \<in> set js. i < length cs"
      "list_all2 (\<lambda>i (v, x). \<exists>p k. cs ! i = (v, p) \<and> f p i k = Inr x) js oks"
      by (auto simp: answered_def)
    have "list_all2 (vendor_read cx cap chain rt c f) js (map snd oks)"
      unfolding list_all2_map2
    proof (rule list.rel_mono_strong [OF js(3)])
      fix i x
      assume "i \<in> set js" "x \<in> set oks" "case x of (v, x) \<Rightarrow> \<exists>p k. cs ! i = (v, p) \<and> f p i k = Inr x"
      then obtain v p k where "cs ! i = (v, p)" "f p i k = Inr (snd x)" by (cases x) auto
      with ok [of i] js(2) \<open>i \<in> set js\<close> show "vendor_read cx cap chain rt c f i (snd x)"
        unfolding vendor_read_def by metis
    qed
    moreover have "hd (map snd oks) = t" "map snd oks \<noteq> []" using res by (simp_all add: hd_map)
    moreover have "\<forall>u \<in> set (map snd oks). tx_block_hash u = tx_block_hash t"
      using res by (metis (no_types) imageE list.set_map)
    moreover have q: "q = Some \<lparr>agreeing = length (map snd oks), required = n\<rparr>" using res by simp
    ultimately have "backed_by cx cap chain rt c f q t"
      unfolding backed_by_def q using js(1)
      by (intro exI [of _ js] exI [of _ "map snd oks"] conjI) simp_all
    with q Some show ?thesis by simp
  qed
qed

text \<open>The abstract verification: some vendors' reading of the transaction, and the verdict on it.\<close>

definition verdict_on :: "op_lib \<Rightarrow> verify_input \<Rightarrow> stablecoin_entry \<Rightarrow> account_address \<Rightarrow> amount
    \<Rightarrow> stablecoin_entry list \<Rightarrow> json tx \<Rightarrow> payment_check" where
  "verdict_on b vi e to a reg t = check_payment (ol_codec b) (ol_json b)
     \<lparr>exp_asset = entry_asset e, exp_recipient = to, exp_amount = a,
       exp_finality = finality_floor (vi_min_finality vi), exp_reference = vi_reference vi\<rparr> t reg"

definition tx_reading :: "op_lib \<Rightarrow> ('s, 'p) vendor_world \<Rightarrow> chain_entry \<Rightarrow> string
    \<Rightarrow> 'p \<Rightarrow> nat \<Rightarrow> nat \<Rightarrow> provider_error + json tx" where
  "tx_reading b w ce h p i n = read_tx b ce (trim h) (w_node w p i n)"

definition verify_spec :: "op_lib \<Rightarrow> ('s, 'p) vendor_world \<Rightarrow> ('s, 'p, 'q) op_ctx \<Rightarrow> verify_input
    \<Rightarrow> 's runtime \<Rightarrow> clock \<Rightarrow> payment_check \<Rightarrow> bool" where
  "verify_spec b w cx vi rt c check \<longleftrightarrow> (\<exists>ce e to a reg t q.
     payment_terms b cx (vi_chain vi) (vi_token vi) (vi_recipient vi) (vi_amount vi) (vi_amount_raw vi)
       = Inr (ce, e, to, a)
     \<and> ol_registry b = Inr reg
     \<and> backed_by cx (rpc_capability (ce_family ce)) (ce_id ce) rt c (tx_reading b w ce (vi_tx vi)) q t
     \<and> map_option required q
         = quorum_size (operation (cx_table cx) ''payments_verify_transfer'') (vi_quorum vi)
     \<and> check = note_quorum q (verdict_on b vi e to a reg t))"

lemma verify_transfer_spec:
  assumes "verify_transfer b w cx vi rt c = (Inr out, rt', c')"
  shows "verify_spec b w cx vi rt c (op_data out)"
proof -
  obtain ce e to a where terms: "payment_terms b cx (vi_chain vi) (vi_token vi) (vi_recipient vi)
      (vi_amount vi) (vi_amount_raw vi) = Inr (ce, e, to, a)"
    using assms by (auto simp: verify_transfer_def split: sum.splits)
  let ?n = "quorum_size (operation (cx_table cx) ''payments_verify_transfer'') (vi_quorum vi)"
  obtain r rt1 c1 where found: "lookup_tx b w cx ce (vi_tx vi) ?n rt c = (r, rt1, c1)"
    by (metis prod_cases3)
  with assms terms obtain t meta q reg where r: "r = Inr (t, meta, q)" "ol_registry b = Inr reg"
    "op_data out = note_quorum q (verdict_on b vi e to a reg t)"
    by (auto simp: verify_transfer_def and_then_Inr verdict_on_def Let_def)
  from fetch_tx_backed [OF found [unfolded lookup_tx_def r]]
  show ?thesis
    unfolding verify_spec_def tx_reading_def [abs_def] using terms r(2,3) by blast
qed

text \<open>
  C2: the operation that verifies a payment refines its specification: whatever vendors answer, fail
  or time out, a verdict is the pure check of one transaction that a usable vendor's node reported
  for this hash, against the registry's token and exactly the amount asked for. With a quorum the
  count of agreeing vendors is true: that many vendors at different positions reported the
  transaction with the same block hash.
\<close>

theorem verify_transfer_refines:
  assumes "verify_transfer b w cx vi rt c = (Inr out, rt', c')"
  shows "verify_spec b w cx vi rt c (op_data out)"
  by (rule verify_transfer_spec [OF assms])

lemma note_quorum_status [simp]:
  "pay_status (note_quorum q check) = pay_status check"
  "net_received (note_quorum q check) = net_received check"
  by (auto simp: note_quorum_def Let_def split: option.splits)

text \<open>
  The vendor that a reading names in its provenance is one of the request's order, is usable and has
  answered it, also when several vendors had to agree.
\<close>

lemma provenance_of_named [simp]:
  "pv_provider (provenance_of req attempts v first t c) = v"
  "pv_provider (set_source src pv) = pv_provider pv"
  by (simp_all add: provenance_of_def set_source_def new_provenance_def Let_def)

lemma candidate_usable:
  assumes "consider_all rx t req c (order_of rx req) rt = (cs, skipped, rt1)" and "i < length cs" and "cs ! i = (v, p)"
  shows "v \<in> set (order_of rx req) \<and> usable rx t req c rt (v, p)"
proof -
  have "map fst cs ! i = v" using assms(2,3) by simp
  then have here: "v \<in> set (map fst cs)" using assms(2) by (metis length_map nth_mem)
  have "subseq (map fst cs) (order_of rx req)" using consider_all_sound [OF assms(1)] by blast
  from list_emb_set [OF this here] have "v \<in> set (order_of rx req)" by blast
  moreover have "list_all (usable rx t req c rt) cs" using consider_all_sound [OF assms(1)] by blast
  then have "usable rx t req c rt (cs ! i)" using assms(2) by (simp add: list_all_length)
  ultimately show ?thesis by (simp add: assms(3))
qed

lemma fetch_tx_named:
  assumes "fetch_tx cx cap chain quorum_n (asks w f) rt c = (Inr (t, meta, q), rt', c')"
  shows "\<exists>v p i k. pv_provider meta = Some v \<and> v \<in> set (order_of (cx_router cx) (fetch_req cx cap chain))
    \<and> usable (cx_router cx) (trait_of cap) (fetch_req cx cap chain) c rt (v, p) \<and> f p i k = Inr t"
proof -
  let ?rx = "cx_router cx" and ?t = "trait_of cap" and ?req = "fetch_req cx cap chain"
  obtain cs skipped rt1 where cands: "consider_all ?rx ?t ?req c (order_of ?rx ?req) rt = (cs, skipped, rt1)"
    by (metis prod_cases3)
  have "\<exists>i < length cs. \<exists>v p k. cs ! i = (v, p) \<and> f p i k = Inr t \<and> pv_provider meta = Some v"
  proof (cases quorum_n)
    case None
    then obtain y where y: "failover ?rx ?t ?req (asks w f) rt c = (Inr y, rt', c')" "rd_value y = t" "rd_provenance y = meta"
      using assms by (auto simp: fetch_tx_def Let_def split: prod.splits sum.splits)
    from failover_answer [OF y(1) cands] y(2,3) show ?thesis by auto
  next
    case (Some n)
    obtain oks attempts le rt2 c2 where collected: "collect_n ?rx ?t ?req (max n 1) (asks w f) rt c
        = ((oks, attempts, le), rt2, c2)" by (metis prod.exhaust)
    obtain v rest where res: "oks = (v, t) # rest" "pv_provider meta = Some v"
      using assms Some collected
      by (auto simp: fetch_tx_def quorum_def Let_def split: prod.splits sum.splits list.splits if_splits)
    from collect_n_answered [OF collected cands] obtain js where "\<forall>i \<in> set js. i < length cs"
      "list_all2 (\<lambda>i (v, x). \<exists>p k. cs ! i = (v, p) \<and> f p i k = Inr x) js oks"
      by (auto simp: answered_def)
    then obtain j where "j < length cs" "\<exists>p k. cs ! j = (v, p) \<and> f p j k = Inr t"
      by (cases js) (auto simp: res(1))
    with res(2) show ?thesis by blast
  qed
  then obtain i v p k where "i < length cs" "cs ! i = (v, p)" "f p i k = Inr t" "pv_provider meta = Some v" by blast
  with candidate_usable [OF cands] show ?thesis by blast
qed

lemma verify_transfer_named:
  assumes "verify_transfer b w cx vi rt c = (Inr out, rt', c')"
    and "payment_terms b cx (vi_chain vi) (vi_token vi) (vi_recipient vi) (vi_amount vi) (vi_amount_raw vi) = Inr (ce, e, to, a)"
  shows "\<exists>v p i k t reg q. let req = fetch_req cx (rpc_capability (ce_family ce)) (ce_id ce) in
    pv_provider (op_meta out) = Some v \<and> v \<in> set (order_of (cx_router cx) req)
    \<and> usable (cx_router cx) (trait_of (rpc_capability (ce_family ce))) req c rt (v, p)
    \<and> read_tx b ce (trim (vi_tx vi)) (w_node w p i k) = Inr t
    \<and> op_data out = note_quorum q (verdict_on b vi e to a reg t)"
proof -
  let ?n = "quorum_size (operation (cx_table cx) ''payments_verify_transfer'') (vi_quorum vi)"
  obtain r rt1 c1 where found: "lookup_tx b w cx ce (vi_tx vi) ?n rt c = (r, rt1, c1)"
    by (metis prod_cases3)
  with assms obtain t meta q reg where r: "r = Inr (t, meta, q)" "ol_registry b = Inr reg"
    "op_data out = note_quorum q (verdict_on b vi e to a reg t)" "pv_provider (op_meta out) = pv_provider meta"
    by (auto simp: verify_transfer_def and_then_Inr verdict_on_def Let_def)
  from fetch_tx_named [OF found [unfolded lookup_tx_def r]] r(3,4) show ?thesis
    unfolding Let_def by metis
qed

text \<open>
  C1: from the input to the chain: when the operation reports an EVM payment as paid, the vendor its
  answer names, one of the configured order for this chain's nodes that is active, has a node port
  registered for it and was not out of quota, showed a successful transaction with the finality asked
  for on that node, whose transfers of the registry's token to the recipient, each an event of that
  token's contract, add up to the amount asked for. Neither routing nor retries nor other vendors'
  answers can make up a payment.
\<close>

theorem paid_means_received:
  assumes "verify_transfer b w cx vi rt c = (Inr out, rt', c')"
    and "pay_status (op_data out) \<in> {PayConfirmed, PayFinalized}"
    and "payment_terms b cx (vi_chain vi) (vi_token vi) (vi_recipient vi) (vi_amount vi) (vi_amount_raw vi)
      = Inr (ce, e, to, a)"
    and "ce_family ce = Evm"
  shows "\<exists>v p i k t. pv_provider (op_meta out) = Some v
    \<and> v \<in> set (order_of (cx_router cx) (fetch_req cx CapEvmRpc (ce_id ce)))
    \<and> usable (cx_router cx) EvmRpcT (fetch_req cx CapEvmRpc (ce_id ce)) c rt (v, p)
    \<and> evm_get_tx (ol_evm b) (w_node w p i k) ce (trim (vi_tx vi)) = Inr (Some t)
    \<and> status t = TxSuccess \<and> finality_floor (vi_min_finality vi) \<le> tx_finality t
    \<and> total_in to (entry_asset e) (transfers t) = unat (raw a)"
proof -
  have cap: "rpc_capability (ce_family ce) = CapEvmRpc" "trait_of CapEvmRpc = EvmRpcT"
    using assms(4) by (simp_all add: rpc_capability_def)
  from verify_transfer_named [OF assms(1,3)] obtain v p i k t reg q where
    named: "pv_provider (op_meta out) = Some v" "v \<in> set (order_of (cx_router cx) (fetch_req cx CapEvmRpc (ce_id ce)))"
      "usable (cx_router cx) EvmRpcT (fetch_req cx CapEvmRpc (ce_id ce)) c rt (v, p)"
      "read_tx b ce (trim (vi_tx vi)) (w_node w p i k) = Inr t"
    and out: "op_data out = note_quorum q (verdict_on b vi e to a reg t)"
    unfolding Let_def cap by blast
  from named(4) have get: "evm_get_tx (ol_evm b) (w_node w p i k) ce (trim (vi_tx vi)) = Inr (Some t)"
    using assms(4) by (auto simp: read_tx_def and_then_Inr)
  have "\<not> is_zero a"
    using assms(3) by (auto simp: payment_terms_def parse_amount_def and_then_Inr split: if_splits)
  then have "raw a \<noteq> 0" by (simp add: is_zero_def)
  with evm_payment_exact [OF get, where reg = reg] assms(2) out have
    "status t = TxSuccess \<and> finality_floor (vi_min_finality vi) \<le> tx_finality t
      \<and> total_in to (entry_asset e) (transfers t) = unat (raw a)"
    by (auto simp: verdict_on_def)
  with named(1-3) get show ?thesis by blast
qed


section \<open>Deposits of every address\<close>

text \<open>The page of the address \<open>text\<close> at position \<open>j\<close>: some vendor's answer to its query, filtered.\<close>

definition page_from :: "op_lib \<Rightarrow> (nat \<Rightarrow> ('s, 'p) vendor_world) \<Rightarrow> chain_entry \<Rightarrow> stablecoin_entry list
    \<Rightarrow> deposits_input \<Rightarrow> nat \<Rightarrow> string \<Rightarrow> address_page \<Rightarrow> bool" where
  "page_from b ws ce coins di j text pg \<longleftrightarrow> (\<exists>owner p i k ans.
     parse_address (ol_codec b) (ce_family ce) text = Inr owner
     \<and> w_pages (ws j) p i k (deposit_query coins di text owner) = Inr ans
     \<and> pg = \<lparr>ap_address = show_address (ol_codec b) owner,
         ap_deposits = canonical_deposits (items ans) owner coins, ap_next_cursor = next_cursor ans\<rparr>)"

lemma deposit_pages_from:
  "deposit_pages b ws cx ce coins di j addrs pages meta rt c = (Inr (pages', meta'), rt', c') \<Longrightarrow>
     \<exists>qs. pages' = pages @ qs \<and> length qs = length addrs
       \<and> (\<forall>i < length addrs. page_from b ws ce coins di (j + i) (addrs ! i) (qs ! i))
       \<and> (addrs \<noteq> [] \<longrightarrow> meta' \<noteq> None)"
proof (induction addrs arbitrary: j pages meta rt c)
  case (Cons addr addrs)
  from Cons.prems obtain owner where owner: "parse_address (ol_codec b) (ce_family ce) addr = Inr owner"
    by (auto split: sum.splits)
  let ?req = "(ctx_route cx CapTransferHistory)\<lparr>rq_chain := Some (ce_id ce)\<rparr>"
    and ?calls = "asks (ws j) (\<lambda>p i n. w_pages (ws j) p i n (deposit_query coins di addr owner))"
  obtain r rt1 c1 where asked: "failover (cx_router cx) TransferHistoryT ?req ?calls rt c = (r, rt1, c1)"
    by (metis prod_cases3)
  with Cons.prems owner obtain y where y: "r = Inr y" by (cases r) auto
  obtain cs skipped rt2 where cands: "consider_all (cx_router cx) TransferHistoryT ?req c
      (order_of (cx_router cx) ?req) rt = (cs, skipped, rt2)" by (metis prod_cases3)
  from failover_answer [OF asked [unfolded y] cands] obtain p i k where
    ans: "w_pages (ws j) p i k (deposit_query coins di addr owner) = Inr (rd_value y)" by auto
  let ?pg = "\<lparr>ap_address = show_address (ol_codec b) owner,
      ap_deposits = canonical_deposits (items (rd_value y)) owner coins,
      ap_next_cursor = next_cursor (rd_value y)\<rparr>"
  have first: "page_from b ws ce coins di j addr ?pg"
    unfolding page_from_def using owner ans by blast
  from Cons.prems owner asked y obtain m where
    rest: "deposit_pages b ws cx ce coins di (j + 1) addrs (pages @ [?pg]) (Some m) rt1 c1 = (Inr (pages', meta'), rt', c')"
    by auto
  from Cons.IH [OF rest] obtain qs where qs: "pages' = (pages @ [?pg]) @ qs" "length qs = length addrs"
    "\<forall>i < length addrs. page_from b ws ce coins di (j + 1 + i) (addrs ! i) (qs ! i)"
    "addrs \<noteq> [] \<longrightarrow> meta' \<noteq> None" by blast
  have "meta' \<noteq> None"
    using qs(4) rest by (cases addrs) auto
  with qs first show ?case
    by (intro exI [of _ "?pg # qs"]) (auto simp: nth_Cons less_Suc_eq_0_disj split: nat.splits)
qed simp

text \<open>
  The deposit listing has one page for every address asked for, in order: the incoming transfers
  of one of the requested tokens that a vendor returned for that address, and its cursor. Between
  1 and 20 addresses are served, all or none: one that fails, fails the call.
\<close>

theorem deposits_per_address:
  assumes "list_deposits b ws cx di rt c = (Inr out, rt', c')"
  shows "\<exists>ce coins. ctx_chain cx (di_chain di) = Inr ce \<and> deposit_tokens b ce (di_tokens di) = Inr coins
    \<and> coins \<noteq> [] \<and> length (op_data out) = length (di_addresses di)
    \<and> length (di_addresses di) \<in> {1..20}
    \<and> (\<forall>j < length (di_addresses di). page_from b ws ce coins di j (di_addresses di ! j) (op_data out ! j))"
proof -
  let ?check = "and_then (ctx_chain cx (di_chain di)) (\<lambda>ce.
          if di_addresses di = [] \<or> 20 < length (di_addresses di)
          then Inl (invalid ''give 1 to 20 addresses'')
          else and_then (deposit_tokens b ce (di_tokens di)) (\<lambda>coins.
            if coins = []
            then Inl (invalid (''no verified stablecoins are registered for '' @ show_chain (ce_id ce)))
            else Inr (ce, coins)))"
  obtain ce coins where ok: "?check = Inr (ce, coins)"
    using assms by (auto simp: list_deposits_def split: sum.splits)
  then have input: "ctx_chain cx (di_chain di) = Inr ce" "deposit_tokens b ce (di_tokens di) = Inr coins"
    "coins \<noteq> []" "di_addresses di \<noteq> []" "length (di_addresses di) \<le> 20"
    by (auto simp: and_then_Inr split: if_splits)
  obtain r rt1 c1 where pages: "deposit_pages b ws cx ce coins di 0 (di_addresses di) [] None rt c = (r, rt1, c1)"
    by (metis prod_cases3)
  with assms ok obtain meta where r: "r = Inr (op_data out, meta)"
    by (auto simp: list_deposits_def and_then_Inr)
  from deposit_pages_from [OF pages [unfolded r]] input show ?thesis
    by (auto simp: Suc_le_eq)
qed

section \<open>Requests ask for what is verified\<close>

text \<open>
  A payment request and a later verification with the same chain, token, recipient and amount
  are about the same payment: the asset and the amount of the request are those the verdict is
  judged by. A request is only built in a format of the chain's family.
\<close>

theorem request_matches_verification:
  assumes "build_request b cx fresh now bi = Inr req"
    and "verify_transfer b w cx vi rt c = (Inr out, rt', c')"
    and "vi_chain vi = bi_chain bi" and "vi_token vi = bi_token bi" and "vi_recipient vi = bi_recipient bi"
    and "vi_amount vi = bi_amount bi" and "vi_amount_raw vi = bi_amount_raw bi"
  shows "pay_asset (op_data out) = ro_asset (op_data req)
    \<and> pay_expected (op_data out) = ro_amount (op_data req)
    \<and> (\<exists>ce. ctx_chain cx (bi_chain bi) = Inr ce
        \<and> (bi_format bi = Eip681 \<longrightarrow> ce_family ce = Evm) \<and> (bi_format bi = SolanaPay \<longrightarrow> ce_family ce = Solana))"
proof -
  from verify_transfer_spec [OF assms(2)] obtain ce e to a reg t q where
    terms: "payment_terms b cx (bi_chain bi) (bi_token bi) (bi_recipient bi) (bi_amount bi) (bi_amount_raw bi)
      = Inr (ce, e, to, a)"
    and out: "op_data out = note_quorum q (verdict_on b vi e to a reg t)"
    unfolding verify_spec_def using assms(3-7) by auto
  have "pay_asset (op_data out) = entry_asset e" "pay_expected (op_data out) = a"
    by (auto simp: out note_quorum_def verdict_on_def check_payment_def Let_def
        split: option.splits prod.splits)
  moreover have "ro_asset (op_data req) = entry_asset e \<and> ro_amount (op_data req) = a
      \<and> (bi_format bi = Eip681 \<longrightarrow> ce_family ce = Evm) \<and> (bi_format bi = SolanaPay \<longrightarrow> ce_family ce = Solana)"
    using assms(1) terms
    by (auto simp: build_request_def and_then_Inr Let_def local_output_def case_prod_unfold
        split: request_format.splits chain_family.splits if_splits)
  moreover have "ctx_chain cx (bi_chain bi) = Inr ce"
    using terms by (auto simp: payment_terms_def and_then_Inr)
  ultimately show ?thesis by auto
qed


section \<open>Sample\<close>

text \<open>One vendor, whose node is the sample node, and a registry with the sample token.\<close>

definition pay_settings :: settings where
  "pay_settings = sample_settings\<lparr>
     set_routing := \<lparr>route_defaults = [(CapEvmRpc, [''a'']), (CapTransferHistory, [''a''])], route_chains = []\<rparr>,
     set_custom_rpc := [(''a'', sample_endpoint)]\<rparr>"

definition pay_env :: "(memory_store, nat, unit) router_env" where
  "pay_env = \<lparr>r_config = sample_loaded\<lparr>settings := pay_settings\<rparr>,
     r_registry = registry_of [global_port (PortHandle CapTransferHistory 0)
       (global_port (PortHandle CapEvmRpc 0) (new_registration (sample_meta ''a'')))],
     r_options = default_options, r_calendar = sample_calendar, r_usage = mem_total\<rparr>"

definition pay_ctx :: "(memory_store, nat, unit) op_ctx" where
  "pay_ctx = ctx_new pay_env ''payments_verify_transfer''"

definition pay_entry :: stablecoin_entry where
  "pay_entry = sample_entry\<lparr>entry_asset := AssetId (ce_id sample_chain) (Erc20 3)\<rparr>"

definition pay_lib :: op_lib where
  "pay_lib = \<lparr>ol_evm = ev_lib, ol_fsr = std_parser, ol_time = (\<lambda>_. None), ol_json = (\<lambda>_. []),
     ol_registry = Inr [pay_entry]\<rparr>"

definition pay_page :: page where
  "pay_page = \<lparr>items = [ev_transfer], next_cursor = None\<rparr>"

definition pay_world :: "(memory_store, nat) vendor_world" where
  "pay_world = \<lparr>w_node = (\<lambda>_ _ _. ev_node), w_pages = (\<lambda>_ _ _ _. Inr pay_page),
     w_took = (\<lambda>_ _ _. 0), w_during = (\<lambda>_ _ _ rt. rt), w_jitter = (\<lambda>_ _ _. 0)\<rparr>"

definition pay_to :: string where
  "pay_to = ''0x'' @ replicate 40 (CHR ''0'')"

definition pay_input :: verify_input where
  "pay_input = \<lparr>vi_chain = ''base'', vi_tx = ''h'', vi_token = ''USDC'', vi_recipient = pay_to,
     vi_amount = None, vi_amount_raw = Some ''5'', vi_reference = None,
     vi_min_finality = MinFinalized, vi_quorum = None\<rparr>"

lemma pay_ctx_parts [simp]:
  "cx_router pay_ctx = pay_env" "cx_op pay_ctx = ''payments_verify_transfer''"
  "cx_table pay_ctx = r_config pay_env"
  by (simp_all add: pay_ctx_def ctx_new_def)

lemma pay_order:
  "rq_capability req \<in> {CapEvmRpc, CapTransferHistory} \<Longrightarrow> order_of pay_env req = [''a'']"
  by (auto simp: order_of_def resolve_order_def operation_order_def chain_order_def pay_env_def pay_settings_def
      sample_loaded_def sample_settings_def split: Option.bind_splits option.splits)

lemma pay_vendor:
  "vendor_status (r_config pay_env) ''a'' = Active" "effective_budget_of (r_config pay_env) ''a'' = None"
  by (simp_all add: vendor_status_def pay_env_def pay_settings_def has_key_def effective_budget_of_def
      sample_loaded_def sample_registry_of_def)

lemma pay_considered:
  assumes "rq_capability req = cap" and "cap \<in> {CapEvmRpc, CapTransferHistory}"
  shows "\<exists>rt'. consider_all pay_env (trait_of cap) req sample_clock (order_of pay_env req) sample_state
    = ([(''a'', 0)], [], rt')"
proof -
  have "registry_get (r_registry pay_env) cap chain ''a'' = Some (PortHandle cap 0)" for chain
    using assms(2) by (auto simp: pay_env_def registry_of_def registry_add_def add_port_def registry_get_def
        port_at_def empty_registry_def new_registration_def global_port_def sample_meta_def unwrap_or_def
        Let_def split: Option.bind_splits option.splits)
  then have "\<exists>rt'. consider_vendor pay_env (trait_of cap) req sample_clock ''a'' sample_state = (Inr 0, rt')"
    using assms(1) by (simp add: consider_vendor_def pay_vendor extract_port_def quota_block_def
        sample_state_def new_router_def new_runtime_def default_state_def breaker_allows_def with_vendor_def)
  then show ?thesis using pay_order [of req] assms by (auto simp: consider_all.simps)
qed

lemma pay_failover:
  assumes "rq_capability req = cap" and "cap \<in> {CapEvmRpc, CapTransferHistory}" and "f 0 0 0 = Inr x"
  shows "\<exists>y rt' c'. failover pay_env (trait_of cap) req (asks pay_world f) sample_state sample_clock = (Inr y, rt', c')
    \<and> rd_value y = x"
proof -
  from pay_considered [OF assms(1,2)] obtain rt1 where cands:
    "consider_all pay_env (trait_of cap) req sample_clock (order_of pay_env req) sample_state = ([(''a'', 0)], [], rt1)"
    by blast
  have "\<exists>row rt2 c2. try_vendor pay_env ''a'' (asks pay_world f 0 0) rt1 sample_clock = ((Inr x, row), rt2, c2)"
  proof -
    have "acquire rt1 ''a'' (effective_budget_of (r_config pay_env) ''a'') w c = (True, rt1, c)" for w c
      by (simp add: pay_vendor acquire_def)
    moreover have "\<exists>rt2 c2. tries_from pay_env ''a'' (asks pay_world f 0 0) 0 rt1 sample_clock = (Inr x, rt2, c2)"
      using assms(3) by (subst tries_from.simps)
        (auto simp: asks_def timed_def pay_world_def Let_def)
    ultimately show ?thesis by (auto simp: try_vendor_def Let_def)
  qed
  with cands show ?thesis by (auto simp: failover_def Let_def)
qed

lemma pay_chain: "ctx_chain pay_ctx ''base'' = Inr sample_chain"
proof -
  have "lower ''base'' = ''base''" by (simp add: lower_def to_lower_def is_upper_def)
  moreover have "trim ''base'' = ''base''" by (rule trim_id, simp add: is_space_def)
  ultimately have "find_chain sample_chains ''base'' = Some sample_chain"
    by (simp add: find_chain_def sample_chains_def nth_opt_def)
  then show ?thesis
    by (simp add: ctx_chain_def resolve_chain_def pay_env_def sample_loaded_def sample_registry_of_def)
      (simp add: sample_chain_def)
qed

lemma pay_terms:
  "payment_terms pay_lib pay_ctx ''base'' ''USDC'' pay_to None (Some ''5'')
    = Inr (sample_chain, pay_entry, EvmAddress 2, new_amount 5 6)"
proof -
  have trims: "trim ''USDC'' = ''USDC''" by (rule trim_id, simp add: is_space_def)
  have fam: "ce_family sample_chain = Evm" by (simp add: sample_chain_def)
  have coin: "resolve_canonical (ol_codec pay_lib) (ol_registry pay_lib) (ce_id sample_chain)
      (ce_name sample_chain) ''USDC'' = Inr pay_entry"
  proof -
    have "parse_asset (ol_codec pay_lib) ''USDC'' = Inl (bad_asset ''USDC'')" by (simp add: parse_asset_def)
    moreover have "asset_on (ol_codec pay_lib) (ce_id sample_chain) ''USDC'' = None"
      by (simp add: asset_on_def sample_chain_def family_def trims Let_def)
    moreover have "by_symbol [pay_entry] (ce_id sample_chain) ''USDC'' = Some pay_entry"
      by (simp add: by_symbol_def pay_entry_def)
        (simp add: sample_entry_def matches_symbol_def eq_ignore_ascii_case_def)
    ultimately have "resolve_coin (ol_codec pay_lib) [pay_entry] (ce_id sample_chain) ''USDC'' = Some pay_entry"
      by (simp add: resolve_coin_def trims)
    moreover have "ol_registry pay_lib = Inr [pay_entry]" by (simp add: pay_lib_def)
    ultimately show ?thesis by (simp add: resolve_canonical_def Let_def)
  qed
  have "trim pay_to = pay_to" by (rule trim_id) (simp add: pay_to_def is_space_def)
  then have to: "parse_address (ol_codec pay_lib) Evm pay_to = Inr (EvmAddress 2)"
    by (simp add: pay_to_def starts_with_def ol_codec_def pay_lib_def ev_lib_def ev_codec_def is_lower_def
        is_upper_def list_ex_iff)
  have amt: "parse_amount (ol_fsr pay_lib) None (Some ''5'') 6 = Inr (new_amount 5 6)"
    by (simp add: parse_amount_def pay_lib_def std_parser_def trim_id is_space_def read_dec_def
        digit_val_def all_digits_def is_digit_def is_zero_def)
  have "entry_decimals pay_entry = 6" by (simp add: pay_entry_def sample_entry_def)
  with fam coin to amt show ?thesis by (simp add: payment_terms_def pay_chain)
qed

lemma pay_verified:
  "\<exists>out rt' c'. verify_transfer pay_lib pay_world pay_ctx pay_input sample_state sample_clock = (Inr out, rt', c')
     \<and> pay_status (op_data out) \<in> {PayConfirmed, PayFinalized}"
proof -
  obtain t where t: "evm_get_tx ev_lib ev_node sample_chain ''h'' = Inr (Some t)" "status t = TxSuccess"
    "tx_finality t = Finalized" "transfers t = [ev_transfer]"
    using ev_get by blast
  have "trim ''h'' = ''h''" by (rule trim_id) (simp add: is_space_def)
  then have read: "read_tx pay_lib sample_chain (trim ''h'') ev_node = Inr t"
    using t(1) by (simp add: read_tx_def pay_lib_def) (simp add: sample_chain_def)
  let ?req = "fetch_req pay_ctx CapEvmRpc (ce_id sample_chain)"
  let ?f = "\<lambda>p i n. read_tx pay_lib sample_chain (trim ''h'') (w_node pay_world p i n)"
  have "rq_capability ?req = CapEvmRpc" by (simp add: ctx_route_def new_req_def)
  from pay_failover [OF this, of ?f t] read obtain y rt' c' where
    run: "failover pay_env EvmRpcT ?req (asks pay_world ?f) sample_state sample_clock = (Inr y, rt', c')"
      "rd_value y = t"
    by (auto simp: pay_world_def)
  have quorum: "quorum_size (operation (r_config pay_env) ''payments_verify_transfer'') None = None"
    by (simp add: quorum_size_def operation_def pay_env_def pay_settings_def sample_loaded_def
        sample_settings_def default_operation_def)
  have "ce_family sample_chain = Evm" by (simp add: sample_chain_def)
  then have "lookup_tx pay_lib pay_world pay_ctx sample_chain ''h'' None sample_state sample_clock
      = (Inr (t, rd_provenance y, None), rt', c')"
    using run by (simp add: lookup_tx_def fetch_tx_def rpc_capability_def Let_def)
  moreover let ?e = "\<lparr>exp_asset = entry_asset pay_entry, exp_recipient = EvmAddress 2,
      exp_amount = new_amount 5 6, exp_finality = Finalized, exp_reference = None\<rparr>"
  have "raw (exp_amount ?e) \<noteq> 0" by simp
  from evm_payment_exact [OF t(1) this, of "ol_codec pay_lib" "ol_json pay_lib" "[pay_entry]"] t
  have "pay_status (check_payment (ol_codec pay_lib) (ol_json pay_lib) ?e t [pay_entry])
      \<in> {PayConfirmed, PayFinalized}"
    by (auto simp: pay_entry_def ev_transfer_def scaled_in_def total_in_def incoming_def pay_decimals_def)
  moreover have "ol_registry pay_lib = Inr [pay_entry]" by (simp add: pay_lib_def)
  ultimately show ?thesis
    by (auto simp: verify_transfer_def pay_input_def pay_terms quorum)
qed

theorem verify_transfer_refines_witness:
  "\<exists>check. verify_spec pay_lib pay_world pay_ctx pay_input sample_state sample_clock check
     \<and> pay_status check \<in> {PayConfirmed, PayFinalized}"
  using pay_verified verify_transfer_refines by blast

theorem paid_means_received_witness:
  "\<exists>out rt' c' v p k t. verify_transfer pay_lib pay_world pay_ctx pay_input sample_state sample_clock = (Inr out, rt', c')
     \<and> pv_provider (op_meta out) = Some v \<and> vendor_status (r_config pay_env) v = Active
     \<and> evm_get_tx ev_lib (w_node pay_world p 0 k) sample_chain ''h'' = Inr (Some t)
     \<and> total_in (EvmAddress 2) (entry_asset pay_entry) (transfers t) = 5"
proof -
  obtain out rt' c' where run: "verify_transfer pay_lib pay_world pay_ctx pay_input sample_state sample_clock
      = (Inr out, rt', c')" "pay_status (op_data out) \<in> {PayConfirmed, PayFinalized}"
    using pay_verified by blast
  have terms: "payment_terms pay_lib pay_ctx (vi_chain pay_input) (vi_token pay_input) (vi_recipient pay_input)
      (vi_amount pay_input) (vi_amount_raw pay_input)
    = Inr (sample_chain, pay_entry, EvmAddress 2, new_amount 5 6)"
    by (simp add: pay_input_def pay_terms)
  have "trim ''h'' = ''h''" by (rule trim_id) (simp add: is_space_def)
  with paid_means_received [OF run terms] run(1) show ?thesis
    by (auto simp: pay_lib_def pay_world_def pay_input_def sample_chain_def usable_def)
qed


definition pay_deposits :: deposits_input where
  "pay_deposits = \<lparr>di_chain = ''base'', di_addresses = [pay_to], di_tokens = None, di_cursors = [],
     di_from_block = None, di_limit = None\<rparr>"

lemma pay_input_parts:
  "ctx_chain pay_ctx ''base'' = Inr sample_chain"
  "parse_address (ol_codec pay_lib) (ce_family sample_chain) pay_to = Inr (EvmAddress 2)"
  using pay_terms by (auto simp: payment_terms_def and_then_Inr)

theorem deposits_per_address_witness:
  "\<exists>out rt' c' ds. list_deposits pay_lib (\<lambda>_. pay_world) pay_ctx pay_deposits sample_state sample_clock
      = (Inr out, rt', c')
     \<and> map ap_deposits (op_data out) = [ds] \<and> map dep_transfer ds = [ev_transfer]"
proof -
  let ?q = "deposit_query [pay_entry] pay_deposits pay_to (EvmAddress 2)"
  let ?f = "\<lambda>p i n. w_pages pay_world p i n ?q"
  let ?req = "(ctx_route pay_ctx CapTransferHistory)\<lparr>rq_chain := Some (ce_id sample_chain)\<rparr>"
  have "rq_capability ?req = CapTransferHistory" by (simp add: ctx_route_def new_req_def)
  from pay_failover [OF this, of ?f pay_page] obtain y rt' c' where
    run: "failover pay_env TransferHistoryT ?req (asks pay_world ?f) sample_state sample_clock = (Inr y, rt', c')"
    by (auto simp: pay_world_def)
  have coins: "deposit_tokens pay_lib sample_chain None = Inr [pay_entry]"
    by (simp add: deposit_tokens_def pay_lib_def for_chain_def pay_entry_def)
  obtain out where out: "list_deposits pay_lib (\<lambda>_. pay_world) pay_ctx pay_deposits sample_state sample_clock
      = (Inr out, rt', c')"
    using run coins by (simp add: list_deposits_def pay_deposits_def pay_input_parts Let_def)
  have "map dep_transfer (canonical_deposits [ev_transfer] (EvmAddress 2) [pay_entry]) = [ev_transfer]"
    by (simp add: deposits_transfers is_deposit_def ev_transfer_def pay_entry_def)
  with deposits_per_address [OF out] coins show ?thesis
    using out by (auto simp: pay_deposits_def pay_input_parts page_from_def pay_world_def pay_page_def
        length_Suc_conv)
qed

definition pay_build :: build_input where
  "pay_build = \<lparr>bi_chain = ''base'', bi_token = ''USDC'', bi_recipient = pay_to, bi_amount = None,
     bi_amount_raw = Some ''5'', bi_format = X402, bi_reference = None, bi_label = None, bi_message = None,
     bi_memo = None, bi_resource_url = Some ''https://shop'', bi_description = None, bi_max_timeout = None,
     bi_eip712_name = None, bi_eip712_version = None\<rparr>"

theorem request_matches_verification_witness:
  "\<exists>req out rt' c'. build_request pay_lib pay_ctx sample_key 0 pay_build = Inr req
     \<and> verify_transfer pay_lib pay_world pay_ctx pay_input sample_state sample_clock = (Inr out, rt', c')
     \<and> pay_expected (op_data out) = ro_amount (op_data req)"
proof -
  obtain req where req: "build_request pay_lib pay_ctx sample_key 0 pay_build = Inr req"
    by (simp add: build_request_def pay_build_def pay_terms x402_extra_def Let_def)
  obtain out rt' c' where run: "verify_transfer pay_lib pay_world pay_ctx pay_input sample_state sample_clock
      = (Inr out, rt', c')"
    using pay_verified by blast
  from request_matches_verification [OF req run] req run show ?thesis
    by (auto simp: pay_build_def pay_input_def)
qed

end
