(* ===== verification/ClientStore.thy ===== *)
theory ClientStore
  imports RuntimeState "HOL-Library.AList" "HOL-Library.Product_Lexorder"
begin

text \<open>
  The persistent store (\<open>crates/store/src/db.rs\<close>): tables on a thread of their own, written through
  a queue, and the in-memory mirrors that all hot reads use. A statement of the source's SQL is a
  function on its table, a queued closure is a \<open>job\<close>, and an operation that waits for its
  statement is two steps with the work of the thread between them, as the code's \<open>await\<close> allows.

  Statements succeed unless a uniqueness constraint refuses them: failures of the disk are not
  modelled. Integers of the database are \<open>int\<close>; that a sum stays within their 64 bits is a
  hypothesis of the properties. The hash of a key and the texts of times and limits belong to
  libraries and are the parameter \<open>codec\<close>; random bytes are arguments.
\<close>

section \<open>Data\<close>

text \<open>\<open>parse_time\<close> is the fallible reader; \<open>epoch\<close> is the default that \<open>parse_ts\<close> falls back to.\<close>

record codec =
  hash_text :: "string \<Rightarrow> string"
  time_text :: "datetime \<Rightarrow> string"
  parse_time :: "string \<Rightarrow> datetime option"
  limits_text :: "client_limits \<Rightarrow> string option"
  parse_limits :: "string \<Rightarrow> client_limits option"

record client_record =
  cl_id :: string
  cl_name :: string
  cl_key_hash :: string
  cl_created :: datetime
  cl_revoked :: "datetime option"
  cl_limits :: "client_limits option"

definition active :: "client_record \<Rightarrow> bool" where
  "active r \<longleftrightarrow> cl_revoked r = None"

record client_counters =
  requests :: u64
  credits :: u64
  throttled :: u64

definition no_counters :: client_counters where
  "no_counters = \<lparr>requests = 0, credits = 0, throttled = 0\<rparr>"

datatype exceeded = DailyRequests | MonthlyCredits

record call_record =
  call_ts :: datetime
  call_op :: string
  call_chain :: "string option"
  call_provider :: "string option"
  call_fallback :: bool
  call_cached :: bool
  call_latency_ms :: u64
  call_client :: "string option"
  call_ok :: bool
  call_error :: "string option"

record breakdown_row =
  br_method :: string
  br_tool :: "string option"
  br_chain :: "string option"
  br_client :: "string option"
  br_amount :: u64

fun wkey :: "window_key \<Rightarrow> string" where
  "wkey (Day d) = ''D:'' @ d"
| "wkey (Month m) = ''M:'' @ m"

definition parse_wkey :: "string \<Rightarrow> window_key option" where
  "parse_wkey s = (case split_once (CHR '':'') s of
       None \<Rightarrow> None
     | Some (p, r) \<Rightarrow> if p = ''D'' then Some (Day r) else if p = ''M'' then Some (Month r) else None)"

lemma parse_wkey_wkey [simp]: "parse_wkey (wkey w) = Some w"
  by (cases w) (simp_all add: parse_wkey_def)

lemma parse_wkey_iff: "parse_wkey s = Some w \<longleftrightarrow> s = wkey w"
proof
  show "parse_wkey s = Some w \<Longrightarrow> s = wkey w"
    by (auto simp: parse_wkey_def split_once_Some split: option.splits if_splits)
qed simp

lemma wkey_inj [simp]: "wkey w = wkey w' \<longleftrightarrow> w = w'"
  by (metis parse_wkey_wkey option.inject)

section \<open>Tables\<close>

text \<open>Rows of \<open>usage\<close>: vendor, window, method, tool, chain, client; no tool is the empty text.\<close>

type_synonym usage_key = "string \<times> string \<times> string \<times> string \<times> string \<times> string"

record client_row =
  row_id :: string
  row_name :: string
  row_key_hash :: string
  row_created :: string
  row_revoked :: "string option"
  row_limits :: "string option"

record tables =
  t_usage :: "(usage_key \<times> int) list"
  t_clients :: "client_row list"
  t_client_usage :: "((string \<times> string) \<times> int \<times> int \<times> int) list"
  t_calls :: "(nat \<times> call_record) list"
  t_next_call :: nat

definition empty_tables :: tables where
  "empty_tables = \<lparr>t_usage = [], t_clients = [], t_client_usage = [], t_calls = [], t_next_call = 1\<rparr>"

text \<open>\<open>INSERT \<dots> ON CONFLICT (key) DO UPDATE\<close>: \<open>f old new\<close> is the updated value.\<close>

fun upsert :: "('v \<Rightarrow> 'v \<Rightarrow> 'v) \<Rightarrow> 'k \<Rightarrow> 'v \<Rightarrow> ('k \<times> 'v) list \<Rightarrow> ('k \<times> 'v) list" where
  "upsert f k v [] = [(k, v)]"
| "upsert f k v ((k', u) # xs) = (if k = k' then (k', f u v) # xs else (k', u) # upsert f k v xs)"

text \<open>\<open>SELECT key, SUM(amount) \<dots> GROUP BY key\<close>, the key being a part \<open>g\<close> of the row.\<close>

definition group_sum :: "('a \<Rightarrow> 'k) \<Rightarrow> ('a \<times> int) list \<Rightarrow> ('k \<times> int) list" where
  "group_sum g rs = map (\<lambda>k. (k, sum_list (map snd (filter (\<lambda>(a, _). g a = k) rs))))
     (remdups (map (g \<circ> fst) rs))"

section \<open>Queued writes\<close>

text \<open>\<open>\<dots> as i64\<close>, and back by \<open>n.max(0) as u64\<close>.\<close>

definition as_i64_bits :: "u64 \<Rightarrow> int" where
  "as_i64_bits n = sint n"

definition from_i64 :: "int \<Rightarrow> u64" where
  "from_i64 n = of_int (max 0 n)"

datatype job =
    JobUsage usage_key int
  | JobBump string "string list" int int int
  | JobCall call_record
  | JobInsert client_row
  | JobRevoke string "string option"
  | JobLimits string "string option"

definition ring :: nat where
  "ring = 1000"

definition bump3 :: "int \<times> int \<times> int \<Rightarrow> int \<times> int \<times> int \<Rightarrow> int \<times> int \<times> int" where
  "bump3 = (\<lambda>(r, c, t) (r', c', t'). (r + r', c + c', t + t'))"

text \<open>
  One closure on the store thread; the flag says whether its statement succeeded. The statements
  are those of \<open>add\<close> (usage), \<open>bump_client\<close>, \<open>log_call\<close> (insert, and cut to the ring), \<open>create_client\<close>,
  \<open>revoke_client\<close> and \<open>set_client_limits\<close>.
\<close>

fun run_job :: "job \<Rightarrow> tables \<Rightarrow> tables \<times> bool" where
  "run_job (JobUsage k n) t = (t\<lparr>t_usage := upsert (+) k n (t_usage t)\<rparr>, True)"
| "run_job (JobBump c ws r cr th) t = (t\<lparr>t_client_usage :=
     foldl (\<lambda>m w. upsert bump3 (c, w) (r, cr, th) m) (t_client_usage t) ws\<rparr>, True)"
| "run_job (JobCall rec) t = (let i = t_next_call t; cs = t_calls t @ [(i, rec)] in
     (t\<lparr>t_calls := filter (\<lambda>(j, _). \<not> int j \<le> int i - int ring) cs, t_next_call := i + 1\<rparr>, True))"
| "run_job (JobInsert r) t =
     (if \<exists>r' \<in> set (t_clients t). row_id r' = row_id r \<or> row_key_hash r' = row_key_hash r
      then (t, False) else (t\<lparr>t_clients := t_clients t @ [r]\<rparr>, True))"
| "run_job (JobRevoke i ts) t = (t\<lparr>t_clients :=
     map (\<lambda>r. if row_id r = i then r\<lparr>row_revoked := ts\<rparr> else r) (t_clients t)\<rparr>, True)"
| "run_job (JobLimits i l) t = (t\<lparr>t_clients :=
     map (\<lambda>r. if row_id r = i then r\<lparr>row_limits := l\<rparr> else r) (t_clients t)\<rparr>, True)"


section \<open>The store\<close>

text \<open>
  A queued write of a caller that waits carries the record the caller will put into the mirror;
  \<open>replies\<close> are the callers whose statement has succeeded and who have not resumed yet.
\<close>

record store_state =
  db :: tables
  queue :: "(job \<times> client_record option) list"
  replies :: "client_record list"
  m_totals :: "string \<times> window_key \<Rightarrow> u64 option"
  m_clients :: "(string \<times> client_record) list"
  m_usage :: "string \<times> window_key \<Rightarrow> client_counters option"

definition parse_ts :: "codec \<Rightarrow> string \<Rightarrow> datetime" where
  "parse_ts cd s = unwrap_or 0 (parse_time cd s)"

definition load_totals :: "tables \<Rightarrow> string \<times> window_key \<Rightarrow> u64 option" where
  "load_totals t = map_of (List.map_filter (\<lambda>((v, w), n). map_option (\<lambda>k. ((v, k), from_i64 n)) (parse_wkey w))
     (group_sum (\<lambda>(v, w, _). (v, w)) (t_usage t)))"

definition counters_of :: "int \<times> int \<times> int \<Rightarrow> client_counters" where
  "counters_of = (\<lambda>(r, c, t). \<lparr>requests = from_i64 r, credits = from_i64 c, throttled = from_i64 t\<rparr>)"

definition load_client_usage :: "tables \<Rightarrow> string \<times> window_key \<Rightarrow> client_counters option" where
  "load_client_usage t = map_of (rev (List.map_filter
     (\<lambda>((c, w), x). map_option (\<lambda>k. ((c, k), counters_of x)) (parse_wkey w)) (t_client_usage t)))"

definition record_of_row :: "codec \<Rightarrow> client_row \<Rightarrow> client_record" where
  "record_of_row cd r = \<lparr>cl_id = row_id r, cl_name = row_name r, cl_key_hash = row_key_hash r,
     cl_created = parse_ts cd (row_created r), cl_revoked = map_option (parse_ts cd) (row_revoked r),
     cl_limits = Option.bind (row_limits r) (parse_limits cd)\<rparr>"

definition row_of_record :: "codec \<Rightarrow> client_record \<Rightarrow> client_row" where
  "row_of_record cd r = \<lparr>row_id = cl_id r, row_name = cl_name r, row_key_hash = cl_key_hash r,
     row_created = time_text cd (cl_created r), row_revoked = None,
     row_limits = Option.bind (cl_limits r) (limits_text cd)\<rparr>"

definition load_clients :: "codec \<Rightarrow> tables \<Rightarrow> (string \<times> client_record) list" where
  "load_clients cd t = map (\<lambda>r. (row_id r, record_of_row cd r)) (t_clients t)"

definition start :: "codec \<Rightarrow> tables \<Rightarrow> store_state" where
  "start cd t = \<lparr>db = t, queue = [], replies = [], m_totals = load_totals t,
     m_clients = load_clients cd t, m_usage = load_client_usage t\<rparr>"

definition submit :: "job \<Rightarrow> store_state \<Rightarrow> store_state" where
  "submit j s = s\<lparr>queue := queue s @ [(j, None)]\<rparr>"

definition call_store :: "job \<Rightarrow> client_record \<Rightarrow> store_state \<Rightarrow> store_state" where
  "call_store j rec s = s\<lparr>queue := queue s @ [(j, Some rec)]\<rparr>"

text \<open>The thread runs the next closure and answers the caller that waits for it.\<close>

definition work :: "store_state \<Rightarrow> store_state" where
  "work s = (case queue s of
       [] \<Rightarrow> s
     | (j, r) # q \<Rightarrow> let (t, ok) = run_job j (db s) in
         s\<lparr>db := t, queue := q, replies := replies s @
           (case r of Some rec \<Rightarrow> if ok then [rec] else [] | None \<Rightarrow> [])\<rparr>)"

text \<open>A caller whose statement succeeded puts its record into the mirror.\<close>

definition resume :: "nat \<Rightarrow> store_state \<Rightarrow> store_state" where
  "resume i s = (case nth_opt (replies s) i of
       None \<Rightarrow> s
     | Some rec \<Rightarrow> s\<lparr>replies := take i (replies s) @ drop (Suc i) (replies s),
         m_clients := AList.update (cl_id rec) rec (m_clients s)\<rparr>)"

section \<open>Usage counters\<close>

definition alter :: "'v \<Rightarrow> 'k \<Rightarrow> ('v \<Rightarrow> 'v) \<Rightarrow> ('k \<Rightarrow> 'v option) \<Rightarrow> 'k \<Rightarrow> 'v option" where
  "alter d k f m = m(k \<mapsto> f (unwrap_or d (m k)))"

definition bump_client :: "string \<Rightarrow> window_key list \<Rightarrow> u64 \<Rightarrow> u64 \<Rightarrow> u64 \<Rightarrow> store_state \<Rightarrow> store_state" where
  "bump_client c ws r cr th = submit (JobBump c (map wkey ws) (as_i64_bits r) (as_i64_bits cr) (as_i64_bits th))"

definition usage_key_of :: "string \<Rightarrow> window_key \<Rightarrow> dims \<Rightarrow> usage_key" where
  "usage_key_of v w d = (v, wkey w, dim_method d, unwrap_or [] (dim_tool d),
     unwrap_or [] (dim_chain d), unwrap_or [] (dim_client d))"

definition store_add :: "store_state \<Rightarrow> string \<Rightarrow> window_key \<Rightarrow> u64 \<Rightarrow> dims \<Rightarrow> store_state" where
  "store_add s v w n d =
     (let s1 = s\<lparr>m_totals := alter 0 (v, w) (\<lambda>x. x + n) (m_totals s)\<rparr>;
          s2 = (case dim_client d of None \<Rightarrow> s1
                | Some c \<Rightarrow> bump_client c [w] 0 n 0
                    (s1\<lparr>m_usage := alter no_counters (c, w) (\<lambda>x. x\<lparr>credits := credits x + n\<rparr>) (m_usage s1)\<rparr>))
      in submit (JobUsage (usage_key_of v w d) (as_i64_bits n)) s2)"

definition store_total :: "store_state \<Rightarrow> string \<Rightarrow> window_key \<Rightarrow> u64" where
  "store_total s v w = unwrap_or 0 (m_totals s (v, w))"

definition nonempty :: "string \<Rightarrow> string option" where
  "nonempty s = (if s \<noteq> [] then Some s else None)"

text \<open>\<open>ORDER BY amount DESC\<close>; rows with the same amount come in no order anything depends on.\<close>

definition query_breakdown :: "tables \<Rightarrow> string \<Rightarrow> string \<Rightarrow> breakdown_row list" where
  "query_breakdown t v w = map (\<lambda>((_, _, m, tl, ch, c), n).
       \<lparr>br_method = m, br_tool = nonempty tl, br_chain = nonempty ch, br_client = nonempty c, br_amount = from_i64 n\<rparr>)
     (sort_key (\<lambda>(_, n). - n) (filter (\<lambda>((v', w', _), _). v' = v \<and> w' = w) (t_usage t)))"

section \<open>Clients\<close>

definition client :: "store_state \<Rightarrow> string \<Rightarrow> client_record option" where
  "client s i = map_of (m_clients s) i"

definition client_by_key :: "codec \<Rightarrow> store_state \<Rightarrow> string \<Rightarrow> client_record option" where
  "client_by_key cd s k = find (\<lambda>r. cl_key_hash r = hash_text cd k) (map snd (m_clients s))"

definition active_client_count :: "store_state \<Rightarrow> nat" where
  "active_client_count s = length (filter active (map snd (m_clients s)))"

text \<open>\<open>key_hex\<close> and \<open>id_hex\<close> are the random texts; the result is the record and the key, or the error.\<close>

definition create_client :: "codec \<Rightarrow> string \<Rightarrow> client_limits option \<Rightarrow> string \<Rightarrow> string \<Rightarrow> datetime
    \<Rightarrow> store_state \<Rightarrow> (string + client_record \<times> string) \<times> store_state" where
  "create_client cd name limits key_hex id_hex now s =
     (let name = trim name in
      if name = [] \<or> 100 < length name then (Inl ''client name must be 1..=100 characters'', s)
      else let key = ''odm_'' @ key_hex;
               rec = \<lparr>cl_id = ''c_'' @ id_hex, cl_name = name, cl_key_hash = hash_text cd key,
                      cl_created = now, cl_revoked = None, cl_limits = limits\<rparr>
           in (Inr (rec, key), call_store (JobInsert (row_of_record cd rec)) rec s))"

definition revoke_client :: "codec \<Rightarrow> string \<Rightarrow> datetime \<Rightarrow> store_state \<Rightarrow> bool \<times> store_state" where
  "revoke_client cd i now s = (case client s i of
       None \<Rightarrow> (False, s)
     | Some r \<Rightarrow> let rec = (if cl_revoked r = None then r\<lparr>cl_revoked := Some now\<rparr> else r)
         in (True, call_store (JobRevoke (cl_id rec) (map_option (time_text cd) (cl_revoked rec))) rec s))"

definition set_client_limits :: "codec \<Rightarrow> string \<Rightarrow> client_limits option \<Rightarrow> store_state \<Rightarrow> bool \<times> store_state" where
  "set_client_limits cd i limits s = (case client s i of
       None \<Rightarrow> (False, s)
     | Some r \<Rightarrow> let rec = r\<lparr>cl_limits := limits\<rparr>
         in (True, call_store (JobLimits (cl_id rec) (Option.bind (cl_limits rec) (limits_text cd))) rec s))"

section \<open>Per-client counters\<close>

definition counters_for :: "store_state \<Rightarrow> string \<Rightarrow> window_key \<Rightarrow> client_counters" where
  "counters_for s c w = unwrap_or no_counters (m_usage s (c, w))"

text \<open>\<open>l <= x\<close> when there is a limit.\<close>

definition reached :: "u64 option \<Rightarrow> u64 \<Rightarrow> bool" where
  "reached l x = (case l of None \<Rightarrow> False | Some n \<Rightarrow> n \<le> x)"

definition admit_client :: "calendar \<Rightarrow> string \<Rightarrow> datetime \<Rightarrow> u64 option \<Rightarrow> u64 option \<Rightarrow> store_state
    \<Rightarrow> (exceeded + unit) \<times> store_state" where
  "admit_client cal c now day_limit month_limit s =
     (let day = window_day cal now; month = window_month cal now in
      if reached day_limit (requests (counters_for s c day)) then (Inl DailyRequests, s)
      else if reached month_limit (credits (counters_for s c month)) then (Inl MonthlyCredits, s)
      else (Inr (), bump_client c [day, month] 1 0 0 (s\<lparr>m_usage := foldl (\<lambda>m w.
             alter no_counters (c, w) (\<lambda>x. x\<lparr>requests := requests x + 1\<rparr>) m) (m_usage s) [day, month]\<rparr>)))"

definition record_throttled :: "calendar \<Rightarrow> string \<Rightarrow> datetime \<Rightarrow> store_state \<Rightarrow> store_state" where
  "record_throttled cal c now s =
     (let ws = [window_day cal now, window_month cal now] in
      bump_client c ws 0 0 1 (s\<lparr>m_usage := foldl (\<lambda>m w.
        alter no_counters (c, w) (\<lambda>x. x\<lparr>throttled := throttled x + 1\<rparr>) m) (m_usage s) ws\<rparr>))"

definition log_call :: "call_record \<Rightarrow> store_state \<Rightarrow> store_state" where
  "log_call rec = submit (JobCall rec)"

text \<open>\<open>ORDER BY id DESC LIMIT\<close>; rows are kept in the order of their ids.\<close>

definition recent_calls :: "tables \<Rightarrow> nat \<Rightarrow> call_record list" where
  "recent_calls t limit = map snd (take (min limit ring) (rev (t_calls t)))"

text \<open>
  The row of a finished call. The provenance is read from the result's \<open>meta\<close>: a refused call, or the
  bare data of a legacy tool, has none.
\<close>

definition call_record_of :: "datetime \<Rightarrow> string option \<Rightarrow> string \<Rightarrow> domain_error + json \<Rightarrow> duration \<Rightarrow> call_record" where
  "call_record_of now c op r latency =
     (let meta = (case r of Inr v \<Rightarrow> jget v ''meta'' | Inl _ \<Rightarrow> JNull); s = (\<lambda>k. as_str (jget meta k)) in
      \<lparr>call_ts = now, call_op = op, call_chain = s ''chain'', call_provider = s ''provider'',
       call_fallback = (s ''source'' = Some ''fallback''),
       call_cached = unwrap_or False (as_bool (jget meta ''cached'')),
       call_latency_ms = as_millis latency, call_client = c, call_ok = is_ok r,
       call_error = (case r of Inl e \<Rightarrow> Some (code_as_str (err_code e)) | Inr _ \<Rightarrow> None)\<rparr>)"

definition on_call :: "datetime \<Rightarrow> string option \<Rightarrow> string \<Rightarrow> domain_error + json \<Rightarrow> duration \<Rightarrow> store_state \<Rightarrow> store_state" where
  "on_call now c op r latency = log_call (call_record_of now c op r latency)"

section \<open>Views for the dashboard\<close>

text \<open>\<open>trim_start_matches\<close> drops the prefix as often as it is there.\<close>

fun trim_day :: "string \<Rightarrow> string" where
  "trim_day (a # b # r) = (if a = CHR ''D'' \<and> b = CHR '':'' then trim_day r else a # b # r)"
| "trim_day s = s"

definition daily_series :: "calendar \<Rightarrow> tables \<Rightarrow> string \<Rightarrow> nat \<Rightarrow> datetime \<Rightarrow> (string \<times> u64) list" where
  "daily_series cal t v days now =
     (let dates = map (\<lambda>i. day_text cal (now - int i * 86400000000000)) (rev [0..<days]);
          from_day = ''D:'' @ (case dates of [] \<Rightarrow> [] | d # _ \<Rightarrow> d);
          day_row = (\<lambda>w. from_day \<le> w \<and> map to_lower (take 2 w) = ''d:'');
          found = group_sum (\<lambda>(_, w, _). w) (filter (\<lambda>((v', w, _), _). v' = v \<and> day_row w) (t_usage t));
          m = map_of (rev (map (\<lambda>(w, n). (trim_day w, from_i64 n)) found))
      in map (\<lambda>d. (d, unwrap_or 0 (m d))) dates)"

definition client_top_tools :: "tables \<Rightarrow> string \<Rightarrow> window_key \<Rightarrow> (string \<times> u64) list" where
  "client_top_tools t c w = map (\<lambda>(tl, n). (tl, from_i64 n)) (take 5 (sort_key (\<lambda>(_, n). - n)
     (group_sum (\<lambda>(_, _, _, tl, _). tl) (filter (\<lambda>((_, w', _, _, _, c'), _). c' = c \<and> w' = wkey w) (t_usage t)))))"

text \<open>Every client, oldest first, ties by id.\<close>

definition list_clients :: "store_state \<Rightarrow> client_record list" where
  "list_clients s = sort_key (\<lambda>r. (cl_created r, cl_id r)) (map snd (m_clients s))"


section \<open>A sequence of accesses\<close>

text \<open>
  Every access to the store and every step of its thread. \<open>OpRestart\<close> is an orderly one: the store is
  dropped, which drains the queue, and the file is opened again.
\<close>

datatype store_op =
    OpAdd string window_key u64 dims
  | OpAdmit string datetime "u64 option" "u64 option"
  | OpThrottle string datetime
  | OpLog call_record
  | OpCreate string "client_limits option" string string datetime
  | OpRevoke string datetime
  | OpLimits string "client_limits option"
  | OpWork
  | OpResume nat
  | OpRestart

definition drained :: "store_state \<Rightarrow> tables" where
  "drained s = foldl (\<lambda>t (j, _). fst (run_job j t)) (db s) (queue s)"

text \<open>The breakdown waits for its turn in the queue, so it sees every write before it.\<close>

definition store_breakdown :: "store_state \<Rightarrow> string \<Rightarrow> window_key \<Rightarrow> (dims \<times> u64) list" where
  "store_breakdown s v w = map (\<lambda>r. (\<lparr>dim_method = br_method r, dim_tool = br_tool r, dim_chain = br_chain r,
     dim_client = br_client r\<rparr>, br_amount r)) (query_breakdown (drained s) v (wkey w))"

fun store_step :: "codec \<Rightarrow> calendar \<Rightarrow> store_op \<Rightarrow> store_state \<Rightarrow> store_state" where
  "store_step cd cal (OpAdd v w n d) s = store_add s v w n d"
| "store_step cd cal (OpAdmit c now dl ml) s = snd (admit_client cal c now dl ml s)"
| "store_step cd cal (OpThrottle c now) s = record_throttled cal c now s"
| "store_step cd cal (OpLog r) s = log_call r s"
| "store_step cd cal (OpCreate name l kh ih now) s = snd (create_client cd name l kh ih now s)"
| "store_step cd cal (OpRevoke i now) s = snd (revoke_client cd i now s)"
| "store_step cd cal (OpLimits i l) s = snd (set_client_limits cd i l s)"
| "store_step cd cal OpWork s = work s"
| "store_step cd cal (OpResume i) s = resume i s"
| "store_step cd cal OpRestart s = start cd (drained s)"

definition store_run :: "codec \<Rightarrow> calendar \<Rightarrow> store_op list \<Rightarrow> store_state \<Rightarrow> store_state" where
  "store_run cd cal xs s = foldl (\<lambda>s x. store_step cd cal x s) s xs"

lemma store_run_simps [simp]:
  "store_run cd cal [] s = s"
  "store_run cd cal (x # xs) s = store_run cd cal xs (store_step cd cal x s)"
  "store_run cd cal (xs @ ys) s = store_run cd cal ys (store_run cd cal xs s)"
  by (simp_all add: store_run_def)

text \<open>
  The life of the file across processes. The server installs no handler that would drop the store at a
  termination signal, so a process that serves ends by being killed: what is in the tables stays, what is
  still queued and the callers that wait are gone, and the next process opens the file. A kill falls
  between two closures of the thread.
\<close>

datatype process_event = Did store_op | Killed

fun life_step :: "codec \<Rightarrow> calendar \<Rightarrow> process_event \<Rightarrow> store_state \<Rightarrow> store_state" where
  "life_step cd cal (Did x) s = store_step cd cal x s"
| "life_step cd cal Killed s = start cd (db s)"

definition life_run :: "codec \<Rightarrow> calendar \<Rightarrow> process_event list \<Rightarrow> store_state \<Rightarrow> store_state" where
  "life_run cd cal es s = foldl (\<lambda>s e. life_step cd cal e s) s es"

lemma life_run_simps [simp]:
  "life_run cd cal [] s = s"
  "life_run cd cal (e # es) s = life_run cd cal es (life_step cd cal e s)"
  "life_run cd cal (es @ fs) s = life_run cd cal fs (life_run cd cal es s)"
  by (simp_all add: life_run_def)

section \<open>The mirrors follow the tables\<close>

named_theorems store_defs "operations of the store"

lemmas [store_defs] = store_add_def admit_client_def record_throttled_def log_call_def
  create_client_def revoke_client_def set_client_limits_def bump_client_def submit_def call_store_def
  work_def resume_def

lemma drained_submit [simp]:
  "drained (submit j s) = fst (run_job j (drained s))"
  "drained (call_store j r s) = fst (run_job j (drained s))"
  by (simp_all add: drained_def submit_def call_store_def)

lemma drained_cong [simp]:
  "drained (s\<lparr>m_totals := a\<rparr>) = drained s" "drained (s\<lparr>m_usage := b\<rparr>) = drained s"
  "drained (s\<lparr>m_clients := c\<rparr>) = drained s" "drained (s\<lparr>replies := r\<rparr>) = drained s"
  by (simp_all add: drained_def)

lemma drained_work [simp]: "drained (work s) = drained s"
  by (auto simp: drained_def work_def split: list.split prod.split)

lemma drained_resume [simp]: "drained (resume i s) = drained s"
  by (auto simp: drained_def resume_def split: option.split)

lemma drained_start [simp]: "drained (start cd t) = t"
  by (simp add: drained_def start_def)

text \<open>Upserts and grouped sums.\<close>

lemma keys_upsert [simp]: "fst ` set (upsert f k v xs) = insert k (fst ` set xs)"
  by (induction f k v xs rule: upsert.induct) (simp_all add: insert_commute)

lemma distinct_upsert [simp]: "distinct (map fst xs) \<Longrightarrow> distinct (map fst (upsert f k v xs))"
proof (induction xs)
  case (Cons x xs)
  then have "fst x \<notin> fst ` set (upsert f k v xs)" if "k \<noteq> fst x" using that by auto
  with Cons show ?case by (cases x) auto
qed simp

lemma map_of_upsert:
  "map_of (upsert f k v xs) x = (if x = k then Some (case map_of xs k of None \<Rightarrow> v | Some u \<Rightarrow> f u v) else map_of xs x)"
  by (induction xs) auto

definition sum_for :: "('a \<Rightarrow> 'k) \<Rightarrow> 'k \<Rightarrow> ('a \<times> int) list \<Rightarrow> int" where
  "sum_for g k rs = sum_list (map snd (filter (\<lambda>(a, _). g a = k) rs))"

lemma sum_for_upsert: "sum_for g k (upsert (+) a n rs) = sum_for g k rs + (if g a = k then n else 0)"
  unfolding sum_for_def by (induction rs) auto

lemma sum_for_absent: "k \<notin> (g \<circ> fst) ` set rs \<Longrightarrow> sum_for g k rs = 0"
proof -
  assume "k \<notin> (g \<circ> fst) ` set rs"
  then have "filter (\<lambda>(a, _). g a = k) rs = []" by (force simp: filter_empty_conv)
  then show ?thesis by (simp add: sum_for_def)
qed

lemma sum_for_nonneg: "\<forall>(a, n) \<in> set rs. 0 \<le> n \<Longrightarrow> 0 \<le> sum_for g k rs"
  unfolding sum_for_def by (rule sum_list_nonneg) auto

lemma map_of_group_sum:
  "map_of (group_sum g rs) k = (if k \<in> (g \<circ> fst) ` set rs then Some (sum_for g k rs) else None)"
proof -
  have "map_of (map (\<lambda>k. (k, f k)) ks) k = (if k \<in> set ks then Some (f k) else None)" for f :: "_ \<Rightarrow> int" and ks
    by (induction ks) auto
  then show ?thesis by (simp add: group_sum_def sum_for_def)
qed

text \<open>Reading the window of a row back and looking a window up is looking its text up.\<close>

lemma map_of_windows:
  "map_of (List.map_filter (\<lambda>((v, w), n). map_option (\<lambda>k. ((v, k), h n)) (parse_wkey w)) rs) (v, k)
    = map_option h (map_of rs (v, wkey k))"
proof (induction rs)
  case (Cons r rs)
  obtain v' w' n where r: "r = ((v', w'), n)" by (cases r) auto
  show ?case using Cons r parse_wkey_iff [of w' k]
    by (cases "parse_wkey w'") (auto simp: map_filter_simps parse_wkey_iff)
qed (simp add: map_filter_simps)

lemma load_totals_lookup:
  "load_totals t (v, k) = (if (v, wkey k) \<in> ((\<lambda>(v, w, _). (v, w)) \<circ> fst) ` set (t_usage t)
     then Some (from_i64 (sum_for (\<lambda>(v, w, _). (v, w)) (v, wkey k) (t_usage t))) else None)"
  unfolding load_totals_def map_of_windows map_of_group_sum by simp

lemma distinct_windows:
  assumes "distinct (map fst rs)"
  shows "distinct (map fst (List.map_filter (\<lambda>((v, w), n). map_option (\<lambda>k. ((v, k), h n)) (parse_wkey w)) rs))"
  using assms
proof (induction rs)
  case (Cons r rs)
  obtain v w n where r: "r = ((v, w), n)" by (cases r) auto
  let ?f = "\<lambda>((v, w), n). map_option (\<lambda>k. ((v, k), h n)) (parse_wkey w)"
  have "(v, k) \<notin> fst ` set (List.map_filter ?f rs)" if "parse_wkey w = Some k" for k
  proof
    assume "(v, k) \<in> fst ` set (List.map_filter ?f rs)"
    then obtain x where "((v, k), x) \<in> set (List.map_filter ?f rs)" by auto
    then obtain y where "y \<in> set rs" and "?f y = Some ((v, k), x)"
      unfolding set_map_filter_iff by blast
    then have "fst y = (v, wkey k)" by (cases y) (auto simp: parse_wkey_iff split: prod.splits)
    with \<open>y \<in> set rs\<close> have "(v, wkey k) \<in> fst ` set rs" by force
    with Cons.prems r that show False by (auto simp: parse_wkey_iff)
  qed
  with Cons r show ?case by (cases "parse_wkey w") (auto simp: map_filter_simps)
qed (simp add: map_filter_simps)

lemma map_of_rev_distinct: "distinct (map fst xs) \<Longrightarrow> map_of (rev xs) = map_of xs"
proof (induction xs)
  case (Cons x xs)
  then have "map_of xs (fst x) = None" by (auto simp: map_of_eq_None_iff)
  with Cons show ?case by (cases x) (auto simp: map_add_def split: option.split)
qed simp

lemma load_usage_lookup:
  "distinct (map fst (t_client_usage t)) \<Longrightarrow>
    load_client_usage t (c, k) = map_option counters_of (map_of (t_client_usage t) (c, wkey k))"
  unfolding load_client_usage_def
  by (subst map_of_rev_distinct [OF distinct_windows]) (simp_all add: map_of_windows)


lemma as_i64_bits_of: "n < 2 ^ 63 \<Longrightarrow> as_i64_bits n = uint n"
  using signed_take_bit_int_eq_self [of 63 "uint n"] uint_ge_0 [of n]
  by (simp add: as_i64_bits_def sint_uint word_less_def)

lemma from_i64_add: "0 \<le> a \<Longrightarrow> n < 2 ^ 63 \<Longrightarrow> from_i64 (a + as_i64_bits n) = from_i64 a + n"
  by (simp add: from_i64_def as_i64_bits_of)

lemma from_i64_as [simp]: "n < 2 ^ 63 \<Longrightarrow> from_i64 (as_i64_bits n) = n"
  using from_i64_add [of 0 n] by (simp add: from_i64_def)

definition rows_ok :: "tables \<Rightarrow> bool" where
  "rows_ok t \<longleftrightarrow> (\<forall>(k, n) \<in> set (t_usage t). 0 \<le> n) \<and> distinct (map fst (t_client_usage t))
     \<and> (\<forall>(k, r, c, th) \<in> set (t_client_usage t). 0 \<le> r \<and> 0 \<le> c \<and> 0 \<le> th)"

lemma load_totals_add:
  assumes "rows_ok t" and "n < 2 ^ 63"
  shows "load_totals (t\<lparr>t_usage := upsert (+) (usage_key_of v w d) (as_i64_bits n) (t_usage t)\<rparr>)
    = alter 0 (v, w) (\<lambda>x. x + n) (load_totals t)" (is "load_totals ?t = _")
proof
  fix vk :: "string \<times> window_key"
  obtain v' k where vk: "vk = (v', k)" by fastforce
  let ?g = "\<lambda>(v, w, _). (v, w)"
  let ?rs = "t_usage t"
  have keys: "(?g \<circ> fst) ` set (t_usage ?t) = insert (v, wkey w) ((?g \<circ> fst) ` set ?rs)"
    by (simp only: image_comp [symmetric] tables.simps keys_upsert) (simp add: usage_key_of_def)
  have nonneg: "0 \<le> sum_for ?g (v', wkey k) ?rs"
    by (rule sum_for_nonneg) (use assms in \<open>simp add: rows_ok_def\<close>)
  have zero: "sum_for ?g (v, wkey w) ?rs = 0" if "(v, wkey w) \<notin> (?g \<circ> fst) ` set ?rs"
    by (rule sum_for_absent [OF that])
  define present where "present x \<longleftrightarrow> x \<in> (?g \<circ> fst) ` set ?rs" for x
  have lhs: "load_totals ?t (v', k) = (if (v', wkey k) = (v, wkey w) \<or> present (v', wkey k)
      then Some (from_i64 (sum_for ?g (v', wkey k) ?rs + (if (v', k) = (v, w) then as_i64_bits n else 0))) else None)"
    unfolding load_totals_lookup keys present_def
    by (simp add: sum_for_upsert usage_key_of_def conj_commute eq_commute [of v] eq_commute [of w])
  have rhs: "load_totals t x = (if present (fst x, wkey (snd x))
      then Some (from_i64 (sum_for ?g (fst x, wkey (snd x)) ?rs)) else None)" for x
    by (cases x) (simp only: fst_conv snd_conv load_totals_lookup present_def)
  have "from_i64 0 = 0" by (simp add: from_i64_def)
  with nonneg zero [folded present_def] assms(2) show "load_totals ?t vk = alter 0 (v, w) (\<lambda>x. x + n) (load_totals t) vk"
    unfolding vk lhs alter_def rhs by (auto simp: from_i64_add)
qed


definition bump_counters :: "u64 \<Rightarrow> u64 \<Rightarrow> u64 \<Rightarrow> client_counters \<Rightarrow> client_counters" where
  "bump_counters r c th x = \<lparr>requests = requests x + r, credits = credits x + c, throttled = throttled x + th\<rparr>"

lemma bump_counters_simps:
  "bump_counters 1 0 0 = (\<lambda>x. x\<lparr>requests := requests x + 1\<rparr>)"
  "bump_counters 0 n 0 = (\<lambda>x. x\<lparr>credits := credits x + n\<rparr>)"
  "bump_counters 0 0 1 = (\<lambda>x. x\<lparr>throttled := throttled x + 1\<rparr>)"
  by (simp_all add: bump_counters_def fun_eq_iff)

lemma counters_of_bump:
  assumes "0 \<le> a" "0 \<le> b" "0 \<le> e" and "r < 2 ^ 63" "c < 2 ^ 63" "th < 2 ^ 63"
  shows "counters_of (bump3 (a, b, e) (as_i64_bits r, as_i64_bits c, as_i64_bits th))
    = bump_counters r c th (counters_of (a, b, e))"
  using assms by (simp add: counters_of_def bump3_def bump_counters_def from_i64_add)

lemma load_usage_bump:
  assumes ok: "rows_ok t" and small: "r < 2 ^ 63" "c < 2 ^ 63" "th < 2 ^ 63"
  shows "load_client_usage (t\<lparr>t_client_usage :=
      upsert bump3 (cl, wkey w) (as_i64_bits r, as_i64_bits c, as_i64_bits th) (t_client_usage t)\<rparr>)
    = alter no_counters (cl, w) (bump_counters r c th) (load_client_usage t)" (is "load_client_usage ?t = _")
proof
  fix ck :: "string \<times> window_key"
  obtain cl' k where ck: "ck = (cl', k)" by fastforce
  have d: "distinct (map fst (t_client_usage t))" "distinct (map fst (t_client_usage ?t))"
    using ok by (simp_all add: rows_ok_def)
  have new: "counters_of (as_i64_bits r, as_i64_bits c, as_i64_bits th) = bump_counters r c th no_counters"
    using small by (simp add: counters_of_def bump_counters_def no_counters_def)
  have old: "counters_of (bump3 x (as_i64_bits r, as_i64_bits c, as_i64_bits th)) = bump_counters r c th (counters_of x)"
    if "map_of (t_client_usage t) (cl, wkey w) = Some x" for x
  proof -
    from ok map_of_SomeD [OF that] have "0 \<le> fst x" "0 \<le> fst (snd x)" "0 \<le> snd (snd x)"
      by (auto simp: rows_ok_def)
    then show ?thesis using counters_of_bump [OF _ _ _ small, of "fst x" "fst (snd x)" "snd (snd x)"] by simp
  qed
  show "load_client_usage ?t ck = alter no_counters (cl, w) (bump_counters r c th) (load_client_usage t) ck"
    unfolding ck alter_def
    using new old load_usage_lookup [OF d(1)] load_usage_lookup [OF d(2)]
    by (auto simp: map_of_upsert split: option.split)
qed

lemma upsert_all:
  "\<forall>x \<in> set xs. P (snd x) \<Longrightarrow> P v \<Longrightarrow> (\<And>u. P u \<Longrightarrow> P (f u v)) \<Longrightarrow> \<forall>x \<in> set (upsert f k v xs). P (snd x)"
  by (induction f k v xs rule: upsert.induct) auto

lemma rows_ok_usage:
  "rows_ok t \<Longrightarrow> 0 \<le> n \<Longrightarrow> rows_ok (t\<lparr>t_usage := upsert (+) k n (t_usage t)\<rparr>)"
  using upsert_all [of "t_usage t" "\<lambda>n. 0 \<le> n" n "(+)" k] by (simp add: rows_ok_def case_prod_unfold)

lemma rows_ok_bump:
  assumes "rows_ok t" and "0 \<le> r" and "0 \<le> c" and "0 \<le> th"
  shows "rows_ok (t\<lparr>t_client_usage := upsert bump3 k (r, c, th) (t_client_usage t)\<rparr>)"
proof -
  have "\<forall>x \<in> set (upsert bump3 k (r, c, th) (t_client_usage t)).
      (\<lambda>(r, c, th). 0 \<le> r \<and> 0 \<le> c \<and> 0 \<le> th) (snd x)"
  proof (rule upsert_all)
    show "\<forall>x \<in> set (t_client_usage t). (\<lambda>(r, c, th). 0 \<le> r \<and> 0 \<le> c \<and> 0 \<le> th) (snd x)"
      using assms(1) by (auto simp: rows_ok_def)
  qed (use assms in \<open>auto simp: bump3_def\<close>)
  then show ?thesis using assms(1) by (auto simp: rows_ok_def)
qed

lemma as_i64_nonneg: "n < 2 ^ 63 \<Longrightarrow> 0 \<le> as_i64_bits n"
  by (simp add: as_i64_bits_of)

lemma load_usage_frame [simp]:
  "load_client_usage (t\<lparr>t_usage := a\<rparr>) = load_client_usage t"
  "load_client_usage (t\<lparr>t_clients := b\<rparr>) = load_client_usage t"
  "load_client_usage (t\<lparr>t_calls := x, t_next_call := y\<rparr>) = load_client_usage t"
  "load_totals (t\<lparr>t_client_usage := c\<rparr>) = load_totals t"
  "load_totals (t\<lparr>t_clients := b\<rparr>) = load_totals t"
  "load_totals (t\<lparr>t_calls := x, t_next_call := y\<rparr>) = load_totals t"
  "rows_ok (t\<lparr>t_clients := b\<rparr>) = rows_ok t"
  "rows_ok (t\<lparr>t_calls := x, t_next_call := y\<rparr>) = rows_ok t"
  by (simp_all add: load_client_usage_def load_totals_def rows_ok_def)

lemma run_bump:
  assumes "rows_ok t" and "r < 2 ^ 63" "c < 2 ^ 63" "th < 2 ^ 63"
  shows "load_client_usage (fst (run_job (JobBump cl (map wkey ws) (as_i64_bits r) (as_i64_bits c) (as_i64_bits th)) t))
      = foldl (\<lambda>m w. alter no_counters (cl, w) (bump_counters r c th) m) (load_client_usage t) ws
    \<and> load_totals (fst (run_job (JobBump cl (map wkey ws) (as_i64_bits r) (as_i64_bits c) (as_i64_bits th)) t)) = load_totals t
    \<and> rows_ok (fst (run_job (JobBump cl (map wkey ws) (as_i64_bits r) (as_i64_bits c) (as_i64_bits th)) t))"
  using assms
proof (induction ws arbitrary: t)
  case (Cons w ws)
  let ?t = "t\<lparr>t_client_usage := upsert bump3 (cl, wkey w) (as_i64_bits r, as_i64_bits c, as_i64_bits th) (t_client_usage t)\<rparr>"
  have "rows_ok ?t" using Cons.prems by (simp add: rows_ok_bump as_i64_nonneg)
  from Cons.IH [OF this] Cons.prems show ?case
    by (simp add: load_usage_bump)
qed simp

text \<open>
  What the tables will hold once the queue is empty is what the mirrors show now.
\<close>

definition synced :: "store_state \<Rightarrow> bool" where
  "synced s \<longleftrightarrow> rows_ok (drained s) \<and> load_totals (drained s) = m_totals s
     \<and> load_client_usage (drained s) = m_usage s"

fun small_op :: "store_op \<Rightarrow> bool" where
  "small_op (OpAdd v w n d) \<longleftrightarrow> n < 2 ^ 63"
| "small_op _ \<longleftrightarrow> True"

lemma mirrors_frame [simp]:
  "m_totals (submit j s) = m_totals s" "m_usage (submit j s) = m_usage s"
  "m_totals (call_store j r s) = m_totals s" "m_usage (call_store j r s) = m_usage s"
  "m_totals (work s) = m_totals s" "m_usage (work s) = m_usage s"
  "m_totals (resume i s) = m_totals s" "m_usage (resume i s) = m_usage s"
  by (auto simp: submit_def call_store_def work_def resume_def split: list.split prod.split option.split)

lemma synced_bump:
  assumes "synced s" and "r < 2 ^ 63" "c < 2 ^ 63" "th < 2 ^ 63"
  shows "synced (bump_client cl ws r c th (s\<lparr>m_usage :=
    foldl (\<lambda>m w. alter no_counters (cl, w) (bump_counters r c th) m) (m_usage s) ws\<rparr>))"
  using assms run_bump [of "drained s" r c th cl ws] by (simp add: synced_def bump_client_def)

lemma synced_add:
  assumes "synced s" and "n < 2 ^ 63"
  shows "synced (store_add s v w n d)"
proof -
  have usage: "synced (submit (JobUsage (usage_key_of v w d) (as_i64_bits n))
      (s'\<lparr>m_totals := alter 0 (v, w) (\<lambda>x. x + n) (m_totals s')\<rparr>))" if "synced s'" for s'
    using that assms(2) by (simp add: synced_def load_totals_add rows_ok_usage as_i64_nonneg)
  show ?thesis
  proof (cases "dim_client d")
    case None
    with usage [OF assms(1)] show ?thesis by (simp add: store_add_def Let_def)
  next
    case (Some c)
    let ?s = "bump_client c [w] 0 n 0 (s\<lparr>m_usage := foldl (\<lambda>m w. alter no_counters (c, w) (bump_counters 0 n 0) m) (m_usage s) [w]\<rparr>)"
    have "synced ?s" by (rule synced_bump) (use assms in simp_all)
    from usage [OF this] Some show ?thesis
      by (cases s) (simp add: store_add_def Let_def bump_client_def submit_def bump_counters_simps)
  qed
qed

lemma synced_start: "rows_ok t \<Longrightarrow> synced (start cd t)"
  by (simp add: synced_def start_def drained_def)

lemma synced_step: "synced s \<Longrightarrow> small_op x \<Longrightarrow> synced (store_step cd cal x s)"
proof (induction cd cal x s rule: store_step.induct)
  case (2 cd cal c now dl ml s)
  then show ?case
    using synced_bump [of s 1 0 0 c "[window_day cal now, window_month cal now]"]
    by (auto simp: admit_client_def Let_def bump_counters_simps)
next
  case (3 cd cal c now s)
  then show ?case
    using synced_bump [of s 0 0 1 c "[window_day cal now, window_month cal now]"]
    by (auto simp: record_throttled_def Let_def bump_counters_simps)
next
  case (10 cd cal s)
  then show ?case by (simp add: synced_start synced_def [of s])
qed (auto simp: synced_def log_call_def create_client_def revoke_client_def set_client_limits_def Let_def
    synced_add [unfolded synced_def] split: option.split)

lemma synced_run:
  "synced s \<Longrightarrow> list_all small_op xs \<Longrightarrow> synced (store_run cd cal xs s)"
  by (induction xs arbitrary: s) (simp_all add: synced_step)

lemma rows_ok_empty [simp]: "rows_ok empty_tables"
  by (simp add: rows_ok_def empty_tables_def)


section \<open>Usage survives restarts\<close>

interpretation sqlite: metered store_add store_total "\<lambda>_. True"
  by unfold_locales (auto simp: store_total_def store_add_def Let_def alter_def bump_client_def submit_def split: option.split)

fun op_weight :: "store_op \<Rightarrow> nat" where
  "op_weight (OpAdd v w n d) = unat n"
| "op_weight _ = 1"

fun op_added :: "string \<Rightarrow> window_key \<Rightarrow> store_op \<Rightarrow> u64" where
  "op_added v w (OpAdd v' w' n d) = (if v' = v \<and> w' = w then n else 0)"
| "op_added v w _ = 0"

fun op_charged :: "string \<Rightarrow> window_key \<Rightarrow> store_op \<Rightarrow> u64" where
  "op_charged c w (OpAdd v' w' n d) = (if dim_client d = Some c \<and> w' = w then n else 0)"
| "op_charged c w _ = 0"

lemma synced_restart:
  assumes "synced s"
  shows "m_totals (start cd (drained s)) = m_totals s" and "m_usage (start cd (drained s)) = m_usage s"
  using assms by (simp_all add: synced_def start_def)

lemma small_of_weight: "sum_list (map op_weight xs) < 2 ^ 63 \<Longrightarrow> list_all small_op xs"
proof (induction xs)
  case (Cons x xs)
  then show ?case by (cases x) (simp_all add: word_less_nat_alt)
qed simp

text \<open>What a write adds to the usage of a window and to the credits of a client, and what the tables say.\<close>

fun usage_of :: "string \<Rightarrow> window_key \<Rightarrow> job \<Rightarrow> int" where
  "usage_of v w (JobUsage (v', w', _) n) = (if v' = v \<and> w' = wkey w then n else 0)"
| "usage_of v w _ = 0"

fun credits_of :: "string \<Rightarrow> window_key \<Rightarrow> job \<Rightarrow> int" where
  "credits_of c w (JobBump c' ws r cr th) = (if c' = c then int (count_list ws (wkey w)) * cr else 0)"
| "credits_of c w _ = 0"

definition usage_in :: "string \<Rightarrow> window_key \<Rightarrow> tables \<Rightarrow> int" where
  "usage_in v w t = sum_for (\<lambda>(v, w, _). (v, w)) (v, wkey w) (t_usage t)"

definition credits_in :: "string \<Rightarrow> window_key \<Rightarrow> tables \<Rightarrow> int" where
  "credits_in c w t = (case map_of (t_client_usage t) (c, wkey w) of None \<Rightarrow> 0 | Some (r, cr, th) \<Rightarrow> cr)"

definition queued :: "(job \<Rightarrow> int) \<Rightarrow> store_state \<Rightarrow> int" where
  "queued f s = sum_list (map (f \<circ> fst) (queue s))"

lemma credits_bumped:
  "credits_in c w (fst (run_job (JobBump c' ws r cr th) t)) = credits_in c w t + credits_of c w (JobBump c' ws r cr th)"
proof -
  have "(case map_of (foldl (\<lambda>m w. upsert bump3 (c', w) (r, cr, th) m) m ws) (c, wkey w) of None \<Rightarrow> 0 | Some (r, cr, th) \<Rightarrow> cr)
      = (case map_of m (c, wkey w) of None \<Rightarrow> 0 | Some (r, cr, th) \<Rightarrow> cr) + (if c' = c then int (count_list ws (wkey w)) * cr else 0)" for m
    by (induction ws arbitrary: m) (auto simp: map_of_upsert bump3_def algebra_simps split: option.split)
  then show ?thesis by (simp add: credits_in_def)
qed

lemma run_job_adds:
  "usage_in v w (fst (run_job j t)) = usage_in v w t + usage_of v w j"
  "credits_in c w (fst (run_job j t)) = credits_in c w t + credits_of c w j"
proof -
  show "usage_in v w (fst (run_job j t)) = usage_in v w t + usage_of v w j"
    by (cases "(v, w, j)" rule: usage_of.cases) (auto simp: usage_in_def sum_for_upsert Let_def)
  show "credits_in c w (fst (run_job j t)) = credits_in c w t + credits_of c w j"
  proof (cases j)
    case (JobBump c' ws r cr th)
    then show ?thesis by (simp only: credits_bumped)
  qed (auto simp: credits_in_def Let_def)
qed

lemma drained_adds:
  "usage_in v w (drained s) = usage_in v w (db s) + queued (usage_of v w) s"
  "credits_in c w (drained s) = credits_in c w (db s) + queued (credits_of c w) s"
proof -
  have "usage_in v w (foldl (\<lambda>t (j, _). fst (run_job j t)) t q) = usage_in v w t + sum_list (map (usage_of v w \<circ> fst) q)"
    "credits_in c w (foldl (\<lambda>t (j, _). fst (run_job j t)) t q) = credits_in c w t + sum_list (map (credits_of c w \<circ> fst) q)" for t q
    by (induction q arbitrary: t) (simp_all add: run_job_adds case_prod_unfold)
  then show "usage_in v w (drained s) = usage_in v w (db s) + queued (usage_of v w) s"
    "credits_in c w (drained s) = credits_in c w (db s) + queued (credits_of c w) s"
    by (simp_all add: drained_def queued_def)
qed

lemma from_i64_0 [simp]: "from_i64 0 = 0"
  by (simp add: from_i64_def)

lemma synced_shows:
  assumes "synced s"
  shows "store_total s v w = from_i64 (usage_in v w (drained s)) \<and> credits (counters_for s c w) = from_i64 (credits_in c w (drained s))"
proof -
  have rows: "distinct (map fst (t_client_usage (drained s)))" using assms by (simp add: synced_def rows_ok_def)
  have "m_totals s = load_totals (drained s)" "m_usage s = load_client_usage (drained s)" using assms by (simp_all add: synced_def)
  with load_usage_lookup [OF rows, of c w] show ?thesis
    using sum_for_absent [of "(v, wkey w)" "\<lambda>(v, w, _). (v, w)" "t_usage (drained s)"]
    by (auto simp: store_total_def counters_for_def load_totals_lookup usage_in_def credits_in_def counters_of_def no_counters_def
        split: option.split)
qed

lemma rows_nonneg:
  assumes "rows_ok t"
  shows "0 \<le> usage_in v w t" and "0 \<le> credits_in c w t"
proof -
  show "0 \<le> usage_in v w t" unfolding usage_in_def by (rule sum_for_nonneg) (use assms in \<open>simp add: rows_ok_def\<close>)
  show "0 \<le> credits_in c w t"
    using assms map_of_SomeD [of "t_client_usage t" "(c, wkey w)"] by (fastforce simp: rows_ok_def credits_in_def split: option.split)
qed

text \<open>What an access adds to the sum of the tables and the queue.\<close>

lemma usage_step:
  assumes "small_op x"
  shows "usage_in v w (drained (store_step cd cal x s)) = usage_in v w (drained s) + uint (op_added v w x)"
proof (cases x)
  case (OpAdd v' w' n d)
  with assms show ?thesis
    by (auto simp: store_add_def Let_def bump_client_def run_job_adds usage_key_of_def as_i64_bits_of simp del: run_job.simps split: option.split)
qed (auto simp: admit_client_def record_throttled_def log_call_def create_client_def revoke_client_def set_client_limits_def
    bump_client_def run_job_adds Let_def simp del: run_job.simps split: option.split)

lemma credits_step:
  assumes "small_op x"
  shows "credits_in c w (drained (store_step cd cal x s)) = credits_in c w (drained s) + uint (op_charged c w x)"
proof -
  have "as_i64_bits 0 = 0" by (simp add: as_i64_bits_def)
  with assms show ?thesis
    by (cases x) (auto simp: store_add_def admit_client_def record_throttled_def log_call_def create_client_def revoke_client_def
        set_client_limits_def bump_client_def run_job_adds as_i64_bits_of Let_def simp del: run_job.simps split: option.split)
qed

text \<open>Nothing queued is negative, so the tables are sound also when the queue is lost.\<close>

fun job_nonneg :: "job \<Rightarrow> bool" where
  "job_nonneg (JobUsage k n) \<longleftrightarrow> 0 \<le> n"
| "job_nonneg (JobBump c ws r cr th) \<longleftrightarrow> 0 \<le> r \<and> 0 \<le> cr \<and> 0 \<le> th"
| "job_nonneg _ \<longleftrightarrow> True"

definition life_ok :: "store_state \<Rightarrow> bool" where
  "life_ok s \<longleftrightarrow> synced s \<and> rows_ok (db s) \<and> list_all (job_nonneg \<circ> fst) (queue s)"

lemma rows_ok_job: "rows_ok t \<Longrightarrow> job_nonneg j \<Longrightarrow> rows_ok (fst (run_job j t))"
proof (induction j t rule: run_job.induct)
  case (2 c ws r cr th t)
  have "rows_ok (t\<lparr>t_client_usage := foldl (\<lambda>m w. upsert bump3 (c, w) (r, cr, th) m) (t_client_usage t) ws\<rparr>)"
    using 2(1)
  proof (induction ws arbitrary: t)
    case (Cons w ws)
    from Cons.IH [OF rows_ok_bump [OF Cons.prems, of r cr th "(c, w)"]] 2(2) show ?case by simp
  qed simp
  then show ?case by simp
qed (simp_all add: rows_ok_usage Let_def)

lemma nonneg_step: "list_all (job_nonneg \<circ> fst) (queue s) \<Longrightarrow> small_op x \<Longrightarrow> list_all (job_nonneg \<circ> fst) (queue (store_step cd cal x s))"
  by (cases x) (auto simp: store_defs start_def as_i64_nonneg Let_def split: option.split list.split prod.split)

lemma store_step_db: "x \<noteq> OpWork \<Longrightarrow> x \<noteq> OpRestart \<Longrightarrow> db (store_step cd cal x s) = db s"
  by (cases x) (auto simp: store_add_def admit_client_def record_throttled_def log_call_def create_client_def revoke_client_def
      set_client_limits_def bump_client_def submit_def call_store_def resume_def Let_def split: option.split)

lemma life_ok_step:
  assumes "life_ok s" and "\<And>x. e = Did x \<Longrightarrow> small_op x"
  shows "life_ok (life_step cd cal e s)"
proof (cases e)
  case (Did x)
  with assms have "synced (store_step cd cal x s)" "list_all (job_nonneg \<circ> fst) (queue (store_step cd cal x s))"
    by (simp_all add: life_ok_def synced_step nonneg_step)
  moreover have "rows_ok (db (store_step cd cal x s))"
  proof (cases "x = OpWork \<or> x = OpRestart")
    case True
    with assms(1) show ?thesis
      by (auto simp: life_ok_def work_def start_def synced_def rows_ok_job split: list.split prod.split)
        (metis fst_conv rows_ok_job)
  next
    case False
    with assms(1) show ?thesis by (simp add: store_step_db life_ok_def)
  qed
  ultimately show ?thesis using Did by (simp add: life_ok_def)
next
  case Killed
  with assms(1) show ?thesis by (simp add: life_ok_def synced_start) (simp add: start_def)
qed

lemma queued_nonneg:
  assumes "life_ok s"
  shows "0 \<le> queued (usage_of v w) s" and "0 \<le> queued (credits_of c w) s"
proof -
  have "0 \<le> usage_of v w j" "0 \<le> credits_of c w j" if "job_nonneg j" for j
    using that by (cases j; auto)+
  with assms have "\<forall>q \<in> set (queue s). 0 \<le> usage_of v w (fst q) \<and> 0 \<le> credits_of c w (fst q)"
    by (simp add: life_ok_def list_all_iff)
  then show "0 \<le> queued (usage_of v w) s" "0 \<le> queued (credits_of c w) s"
    unfolding queued_def by (auto intro!: sum_list_nonneg)
qed

text \<open>What events record, and what of it is lost: at every kill, what is queued then.\<close>

fun recorded :: "(store_op \<Rightarrow> u64) \<Rightarrow> process_event list \<Rightarrow> nat" where
  "recorded f [] = 0"
| "recorded f (Did x # es) = unat (f x) + recorded f es"
| "recorded f (Killed # es) = recorded f es"

fun event_weights :: "process_event list \<Rightarrow> nat" where
  "event_weights [] = 0"
| "event_weights (Did x # es) = op_weight x + event_weights es"
| "event_weights (Killed # es) = event_weights es"

fun lost :: "codec \<Rightarrow> calendar \<Rightarrow> (job \<Rightarrow> int) \<Rightarrow> process_event list \<Rightarrow> store_state \<Rightarrow> int" where
  "lost cd cal f [] s = 0"
| "lost cd cal f (Did x # es) s = lost cd cal f es (store_step cd cal x s)"
| "lost cd cal f (Killed # es) s = queued f s + lost cd cal f es (start cd (db s))"

lemma life_run_adds:
  "life_ok s \<Longrightarrow> event_weights es < 2 ^ 63 \<Longrightarrow> life_ok (life_run cd cal es s)
    \<and> 0 \<le> lost cd cal (usage_of v w) es s \<and> 0 \<le> lost cd cal (credits_of c w) es s
    \<and> usage_in v w (drained (life_run cd cal es s)) + lost cd cal (usage_of v w) es s
      = usage_in v w (drained s) + int (recorded (op_added v w) es)
    \<and> credits_in c w (drained (life_run cd cal es s)) + lost cd cal (credits_of c w) es s
      = credits_in c w (drained s) + int (recorded (op_charged c w) es)"
proof (induction es arbitrary: s)
  case (Cons e es)
  show ?case
  proof (cases e)
    case (Did x)
    have small: "small_op x" using small_of_weight [of "[x]"] Cons.prems(2) Did by simp
    have "life_ok (life_step cd cal e s)" by (rule life_ok_step [OF Cons.prems(1)]) (use Did small in simp)
    with Cons.IH [of "store_step cd cal x s"] Cons.prems(2) Did show ?thesis
      by (simp add: usage_step [OF small] credits_step [OF small])
  next
    case Killed
    have "life_ok (life_step cd cal e s)" by (rule life_ok_step [OF Cons.prems(1)]) (use Killed in simp)
    with Cons.IH [of "start cd (db s)"] Cons.prems(2) Killed queued_nonneg(1) [OF Cons.prems(1), of v w] queued_nonneg(2) [OF Cons.prems(1), of c w]
      drained_adds(1) [of v w s] drained_adds(2) [of c w s] show ?thesis by simp
  qed
qed simp

lemma recorded_light:
  "recorded (op_added v w) es \<le> event_weights es" "recorded (op_charged c w) es \<le> event_weights es"
proof -
  have "unat (op_added v w x) \<le> op_weight x" "unat (op_charged c w x) \<le> op_weight x" for x
    by (cases x; simp)+
  then show "recorded (op_added v w) es \<le> event_weights es" "recorded (op_charged c w) es \<le> event_weights es"
    by (induction es rule: event_weights.induct) (simp_all add: add_mono)
qed

lemma no_kill_no_loss: "Killed \<notin> set es \<Longrightarrow> lost cd cal f es s = 0"
  by (induction cd cal f es s rule: lost.induct) simp_all

lemma uint_from_i64: "0 \<le> x \<Longrightarrow> x < 2 ^ 63 \<Longrightarrow> uint (from_i64 x) = x"
  by (simp add: from_i64_def uint_word_of_int_eq take_bit_int_eq_self)

text \<open>
  C34: metering survives restarts and any order of accesses. However accesses, writes of the store thread,
  orderly restarts and kills of the process follow each other from an empty file on, what a vendor's window
  shows and what was queued for it at the kills add up to everything metered in it, and so do the credits of
  a client; so nothing is lost without a kill, and a kill loses what was still queued then and no more.
  Closing the store in order and opening the file again shows the same counters. This is for a total weight
  of what is recorded below \<open>2 ^ 63\<close>, the range of a column.
\<close>

theorem usage_survives_restarts:
  assumes "event_weights es < 2 ^ 63" and "s = life_run cd cal es (start cd empty_tables)"
  shows "int (unat (store_total s v w)) + lost cd cal (usage_of v w) es (start cd empty_tables) = int (recorded (op_added v w) es)
    \<and> int (unat (credits (counters_for s c w))) + lost cd cal (credits_of c w) es (start cd empty_tables)
        = int (recorded (op_charged c w) es)
    \<and> (Killed \<notin> set es \<longrightarrow> unat (store_total s v w) = recorded (op_added v w) es
        \<and> unat (credits (counters_for s c w)) = recorded (op_charged c w) es)
    \<and> m_totals (start cd (drained s)) = m_totals s \<and> m_usage (start cd (drained s)) = m_usage s"
proof -
  let ?z = "start cd empty_tables"
  have zero: "usage_in v w (drained ?z) = 0" "credits_in c w (drained ?z) = 0"
    by (simp_all add: usage_in_def credits_in_def sum_for_def empty_tables_def)
  have "life_ok ?z" by (simp add: life_ok_def synced_start) (simp add: start_def)
  note run = life_run_adds [OF this assms(1), of cd cal v w c, folded assms(2), unfolded zero]
  then have ok: "synced s" "rows_ok (drained s)" by (simp_all add: life_ok_def synced_def)
  note pos = rows_nonneg [OF ok(2)]
  have "recorded (op_added v w) es < 2 ^ 63" "recorded (op_charged c w) es < 2 ^ 63"
    using recorded_light(1) [of v w es] recorded_light(2) [of c w es] assms(1) by (auto intro: le_less_trans)
  then have "int (recorded (op_added v w) es) < 2 ^ 63" "int (recorded (op_charged c w) es) < 2 ^ 63" by simp_all
  with run have "usage_in v w (drained s) < 2 ^ 63" "credits_in c w (drained s) < 2 ^ 63" by linarith+
  with pos have shown: "int (unat (store_total s v w)) = usage_in v w (drained s)"
    "int (unat (credits (counters_for s c w))) = credits_in c w (drained s)"
    unfolding synced_shows [OF ok(1), of v w c, THEN conjunct1] synced_shows [OF ok(1), of v w c, THEN conjunct2]
    by (simp_all add: uint_from_i64)
  have "unat (store_total s v w) = recorded (op_added v w) es \<and> unat (credits (counters_for s c w)) = recorded (op_charged c w) es"
    if "Killed \<notin> set es"
    using run shown no_kill_no_loss [OF that, of cd cal "usage_of v w" ?z] no_kill_no_loss [OF that, of cd cal "credits_of c w" ?z] by linarith
  with run shown synced_restart [OF ok(1), of cd] show ?thesis by simp
qed

definition sample_codec :: codec where
  "sample_codec = \<lparr>hash_text = (\<lambda>s. rev s), time_text = (\<lambda>t. show_nat (nat (if 0 \<le> t then 2 * t else - 2 * t - 1))),
     parse_time = (\<lambda>s. let n = int (read_dec s) in Some (if n mod 2 = 0 then n div 2 else - ((n + 1) div 2))),
     limits_text = (\<lambda>l. None), parse_limits = (\<lambda>s. None)\<rparr>"

definition billed :: dims where
  "billed = \<lparr>dim_method = ''eth_call'', dim_tool = None, dim_chain = None, dim_client = Some ''c_1''\<rparr>"

definition sample_life :: "process_event list" where
  "sample_life = [Did (OpAdd ''alchemy'' (Day ''2026-01-01'') 26 billed), Did OpRestart, Did (OpAdd ''alchemy'' (Day ''2026-01-01'') 10 billed),
     Killed, Did (OpAdd ''public'' (Day ''2026-01-01'') 1 billed), Did (OpAdd ''alchemy'' (Day ''2026-01-01'') 5 billed), Did OpWork]"

theorem usage_survives_restarts_witness:
  "unat (store_total (life_run sample_codec sample_calendar sample_life (start sample_codec empty_tables)) ''alchemy'' (Day ''2026-01-01'')) = 31
    \<and> lost sample_codec sample_calendar (usage_of ''alchemy'' (Day ''2026-01-01'')) sample_life (start sample_codec empty_tables) = 10"
proof -
  have loss: "lost sample_codec sample_calendar (usage_of ''alchemy'' (Day ''2026-01-01'')) sample_life (start sample_codec empty_tables) = 10"
    by (simp add: sample_life_def queued_def store_add_def billed_def bump_client_def submit_def start_def usage_key_of_def as_i64_bits_of)
  have "event_weights sample_life < 2 ^ 63" by (simp add: sample_life_def)
  from conjunct1 [OF usage_survives_restarts [OF this refl, of sample_codec sample_calendar "''alchemy''" "Day ''2026-01-01''"]]
  have "int (unat (store_total (life_run sample_codec sample_calendar sample_life (start sample_codec empty_tables)) ''alchemy'' (Day ''2026-01-01'')))
    + 10 = int (recorded (op_added ''alchemy'' (Day ''2026-01-01'')) sample_life)" unfolding loss .
  moreover have "recorded (op_added ''alchemy'' (Day ''2026-01-01'')) sample_life = 41" by (simp add: sample_life_def)
  ultimately show ?thesis using loss by linarith
qed


section \<open>Revocation\<close>

text \<open>
  The client is revoked and no copy of its record that says otherwise is on its way: neither in
  the mirror, nor with a caller that waits, nor in the table.
\<close>

definition keyed :: "store_state \<Rightarrow> bool" where
  "keyed s \<longleftrightarrow> (\<forall>(k, r) \<in> set (m_clients s). cl_id r = k)"

definition row_revoked_in :: "string \<Rightarrow> tables \<Rightarrow> bool" where
  "row_revoked_in i t \<longleftrightarrow> (\<exists>r \<in> set (t_clients t). row_id r = i)
     \<and> (\<forall>r \<in> set (t_clients t). row_id r = i \<longrightarrow> row_revoked r \<noteq> None)"

fun harmless :: "string \<Rightarrow> job \<times> client_record option \<Rightarrow> bool" where
  "harmless i (JobInsert row, Some r) \<longleftrightarrow> cl_id r = row_id row"
| "harmless i (JobRevoke k ts, rec) \<longleftrightarrow> ts \<noteq> None \<and> (\<forall>r. rec = Some r \<longrightarrow> cl_id r = i \<longrightarrow> \<not> active r)"
| "harmless i (j, rec) \<longleftrightarrow> (\<forall>r. rec = Some r \<longrightarrow> cl_id r = i \<longrightarrow> \<not> active r)"

definition revoked_for_good :: "string \<Rightarrow> store_state \<Rightarrow> bool" where
  "revoked_for_good i s \<longleftrightarrow> keyed s \<and> (\<forall>(k, r) \<in> set (m_clients s). k = i \<longrightarrow> \<not> active r)
     \<and> (\<forall>r \<in> set (replies s). cl_id r = i \<longrightarrow> \<not> active r)
     \<and> (\<forall>q \<in> set (queue s). harmless i q) \<and> row_revoked_in i (db s)"

lemma row_revoked_map:
  assumes "row_revoked_in i t" and "\<And>r. row_id (f r) = row_id r"
    and "\<And>r. row_revoked r \<noteq> None \<Longrightarrow> row_revoked (f r) \<noteq> None"
  shows "row_revoked_in i (t\<lparr>t_clients := map f (t_clients t)\<rparr>)"
  using assms unfolding row_revoked_in_def by (fastforce simp del: not_None_eq)

lemma row_revoked_job:
  assumes "row_revoked_in i t" and "harmless i (j, rec)"
  shows "row_revoked_in i (fst (run_job j t))"
proof (cases j)
  case (JobInsert row)
  with assms(1) show ?thesis by (auto simp: row_revoked_in_def)
next
  case (JobRevoke k ts)
  then have "ts \<noteq> None" using assms(2) by simp
  with row_revoked_map [OF assms(1), of "\<lambda>r. if row_id r = k then r\<lparr>row_revoked := ts\<rparr> else r"] JobRevoke
  show ?thesis by simp
next
  case (JobLimits k l)
  with row_revoked_map [OF assms(1), of "\<lambda>r. if row_id r = k then r\<lparr>row_limits := l\<rparr> else r"]
  show ?thesis by simp
qed (use assms(1) in \<open>simp_all add: row_revoked_in_def Let_def\<close>)

lemma row_revoked_drained:
  assumes "row_revoked_in i (db s)" and "\<forall>q \<in> set (queue s). harmless i q"
  shows "row_revoked_in i (drained s)"
proof -
  have "row_revoked_in i (foldl (\<lambda>t (j, _). fst (run_job j t)) t q)"
    if "row_revoked_in i t" "\<forall>x \<in> set q. harmless i x" for t q
    using that by (induction q arbitrary: t) (auto simp: row_revoked_job)
  with assms show ?thesis by (simp add: drained_def)
qed

lemma reply_inactive:
  assumes "row_revoked_in i t" and "harmless i (j, Some r)" and "snd (run_job j t)" and "cl_id r = i"
  shows "\<not> active r"
  using assms by (cases j) (auto simp: row_revoked_in_def split: if_splits)

lemma revoked_work: "revoked_for_good i s \<Longrightarrow> revoked_for_good i (work s)"
proof (cases "queue s")
  case (Cons jr q)
  assume inv: "revoked_for_good i s"
  obtain j rec where jr: "jr = (j, rec)" by fastforce
  obtain t b where run: "run_job j (db s) = (t, b)" by fastforce
  have h: "harmless i (j, rec)" and row: "row_revoked_in i (db s)"
    using inv Cons jr by (simp_all add: revoked_for_good_def)
  have "row_revoked_in i t" using row_revoked_job [OF row h] run by simp
  moreover have "\<not> active r" if "rec = Some r" "b" "cl_id r = i" for r
    using reply_inactive [OF row h [unfolded that(1)]] that run by simp
  ultimately show ?thesis
    using inv Cons jr run
    by (auto simp: revoked_for_good_def keyed_def work_def split: option.splits)
qed (simp add: work_def)

lemma set_update: "set (AList.update k v xs) \<subseteq> insert (k, v) (set xs)"
  by (induction xs) auto

lemma revoked_resume: "revoked_for_good i s \<Longrightarrow> revoked_for_good i (resume n s)"
proof (cases "nth_opt (replies s) n")
  case (Some r)
  assume inv: "revoked_for_good i s"
  have r: "r \<in> set (replies s)" using Some by (auto simp: nth_opt_def split: if_splits)
  have sub: "set (take n (replies s) @ drop (Suc n) (replies s)) \<subseteq> set (replies s)"
    by (auto dest: in_set_takeD in_set_dropD)
  have "keyed (resume n s)" "\<forall>(k, r) \<in> set (m_clients (resume n s)). k = i \<longrightarrow> \<not> active r"
    using set_update [of "cl_id r" r "m_clients s"] Some r inv
    by (auto simp: revoked_for_good_def keyed_def resume_def)
  with inv sub Some show ?thesis
    by (auto simp: revoked_for_good_def resume_def)
qed (simp add: resume_def)

lemma revoked_start:
  assumes "row_revoked_in i t"
  shows "revoked_for_good i (start cd t)"
  using assms by (auto simp: revoked_for_good_def keyed_def start_def load_clients_def record_of_row_def
      row_revoked_in_def active_def)

lemma client_in: "client s i = Some r \<Longrightarrow> (i, r) \<in> set (m_clients s)"
  by (simp add: client_def map_of_SomeD)

lemma revoked_step: "revoked_for_good i s \<Longrightarrow> revoked_for_good i (store_step cd cal x s)"
proof (cases x)
  case (OpCreate name l kh ih now)
  assume "revoked_for_good i s"
  then show ?thesis using OpCreate
    by (auto simp: create_client_def Let_def call_store_def revoked_for_good_def keyed_def row_of_record_def)
next
  case (OpRevoke k now)
  assume "revoked_for_good i s"
  then show ?thesis using OpRevoke
    by (auto simp: revoke_client_def Let_def call_store_def revoked_for_good_def keyed_def active_def
        split: option.split dest!: client_in)
next
  case (OpLimits k l)
  assume inv: "revoked_for_good i s"
  have "\<not> active (r\<lparr>cl_limits := l\<rparr>)" if "client s k = Some r" "cl_id r = i" for r
    using client_in [OF that(1)] that(2) inv by (auto simp: revoked_for_good_def keyed_def active_def)
  with inv OpLimits show ?thesis
    by (auto simp: set_client_limits_def Let_def call_store_def revoked_for_good_def keyed_def split: option.split)
next
  case OpRestart
  assume "revoked_for_good i s"
  then have "row_revoked_in i (drained s)"
    by (intro row_revoked_drained) (simp_all add: revoked_for_good_def)
  then show ?thesis using OpRestart by (simp add: revoked_start)
next
  case OpWork
  assume "revoked_for_good i s"
  then show ?thesis using OpWork by (simp add: revoked_work)
next
  case (OpResume n)
  assume "revoked_for_good i s"
  then show ?thesis using OpResume by (simp add: revoked_resume)
qed (auto simp: revoked_for_good_def keyed_def admit_client_def record_throttled_def
    log_call_def store_add_def bump_client_def submit_def Let_def split: option.split)

lemma revoked_run: "revoked_for_good i s \<Longrightarrow> revoked_for_good i (store_run cd cal xs s)"
  by (induction xs arbitrary: s) (simp_all add: revoked_step)

lemma revoked_inactive:
  assumes "revoked_for_good i s"
  shows "client s i = Some r \<Longrightarrow> \<not> active r"
    and "client_by_key cd s k = Some r \<Longrightarrow> cl_id r = i \<Longrightarrow> \<not> active r"
proof -
  have all: "\<not> active r" if "(k, r) \<in> set (m_clients s)" "cl_id r = i" for k r
    using assms that by (auto simp: revoked_for_good_def keyed_def)
  show "client s i = Some r \<Longrightarrow> \<not> active r"
    using assms client_in [of s i r] by (auto simp: revoked_for_good_def)
  assume "client_by_key cd s k = Some r" "cl_id r = i"
  then obtain k' where "(k', r) \<in> set (m_clients s)"
    by (auto simp: client_by_key_def dest!: find_SomeD)
  with all \<open>cl_id r = i\<close> show "\<not> active r" by blast
qed

text \<open>
  What holds of clients in every history. The records that are about - in the mirror, of callers that
  wait - belong to rows of the table, and a revoked one to a revoked row; and a write that waits is of the
  record that waits with it.
\<close>

definition rooted :: "tables \<Rightarrow> client_record \<Rightarrow> bool" where
  "rooted t r \<longleftrightarrow> cl_id r \<in> row_id ` set (t_clients t) \<and> (\<not> active r \<longrightarrow> row_revoked_in (cl_id r) t)"

fun write_ok :: "tables \<Rightarrow> job \<times> client_record option \<Rightarrow> bool" where
  "write_ok t (JobInsert row, Some r) \<longleftrightarrow> cl_id r = row_id row \<and> active r"
| "write_ok t (JobRevoke k ts, Some r) \<longleftrightarrow> cl_id r = k \<and> ts \<noteq> None \<and> k \<in> row_id ` set (t_clients t)"
| "write_ok t (JobLimits k l, Some r) \<longleftrightarrow> cl_id r = k \<and> rooted t r"
| "write_ok t (j, None) \<longleftrightarrow> (case j of JobRevoke k ts \<Rightarrow> False | _ \<Rightarrow> True)"
| "write_ok t _ \<longleftrightarrow> False"

definition clients_ok :: "store_state \<Rightarrow> bool" where
  "clients_ok s \<longleftrightarrow> keyed s \<and> distinct (map fst (m_clients s)) \<and> distinct (map row_id (t_clients (db s)))
     \<and> (\<forall>x \<in> set (m_clients s). rooted (db s) (snd x)) \<and> (\<forall>r \<in> set (replies s). rooted (db s) r)
     \<and> (\<forall>q \<in> set (queue s). write_ok (db s) q)"

text \<open>Rows stay, and stay revoked.\<close>

definition grows :: "tables \<Rightarrow> tables \<Rightarrow> bool" where
  "grows t t' \<longleftrightarrow> row_id ` set (t_clients t) \<subseteq> row_id ` set (t_clients t') \<and> (\<forall>i. row_revoked_in i t \<longrightarrow> row_revoked_in i t')"

lemma grows_trans: "grows t t' \<Longrightarrow> grows t' t'' \<Longrightarrow> grows t t''"
  unfolding grows_def by (meson order_trans)

lemma rooted_grows: "grows t t' \<Longrightarrow> rooted t r \<Longrightarrow> rooted t' r"
  by (auto simp: grows_def rooted_def)

lemma write_ok_grows: "grows t t' \<Longrightarrow> write_ok t q \<Longrightarrow> write_ok t' q"
  by (cases "(t, q)" rule: write_ok.cases) (auto simp: grows_def rooted_grows)

lemma map_grows:
  assumes "\<And>r. row_id (f r) = row_id r" and "\<And>r. row_revoked r \<noteq> None \<Longrightarrow> row_revoked (f r) \<noteq> None"
  shows "grows t (t\<lparr>t_clients := map f (t_clients t)\<rparr>)"
  using row_revoked_map [OF _ assms] by (auto simp: grows_def image_image assms(1))

lemma job_grows:
  assumes "write_ok t (j, rec)"
  shows "grows t (fst (run_job j t))"
proof (cases j)
  case (JobInsert row)
  then show ?thesis by (auto simp: grows_def row_revoked_in_def)
next
  case (JobRevoke k ts)
  with assms have "ts \<noteq> None" by (cases rec) auto
  with JobRevoke map_grows [of "\<lambda>r. if row_id r = k then r\<lparr>row_revoked := ts\<rparr> else r" t] show ?thesis by simp
next
  case (JobLimits k l)
  with map_grows [of "\<lambda>r. if row_id r = k then r\<lparr>row_limits := l\<rparr> else r" t] show ?thesis by simp
qed (simp_all add: grows_def row_revoked_in_def Let_def)

lemma job_rows_distinct: "distinct (map row_id (t_clients t)) \<Longrightarrow> distinct (map row_id (t_clients (fst (run_job j t))))"
  by (cases j) (auto simp: comp_def if_distrib [of row_id] Let_def cong: if_cong)

lemma revoked_row: "k \<in> row_id ` set (t_clients t) \<Longrightarrow> ts \<noteq> None \<Longrightarrow> row_revoked_in k (fst (run_job (JobRevoke k ts) t))"
proof -
  assume k: "k \<in> row_id ` set (t_clients t)" and ts: "ts \<noteq> None"
  define f where "f r = (if row_id r = k then r\<lparr>row_revoked := ts\<rparr> else r)" for r :: client_row
  have f: "row_id (f r) = row_id r" "row_id r = k \<longrightarrow> row_revoked (f r) \<noteq> None" for r using ts by (simp_all add: f_def)
  have "run_job (JobRevoke k ts) t = (t\<lparr>t_clients := map f (t_clients t)\<rparr>, True)" by (simp add: f_def [abs_def])
  with k f show ?thesis by (auto simp: row_revoked_in_def simp del: not_None_eq)
qed

text \<open>What the caller of a write puts into the mirror is rooted once the write has run.\<close>

lemma reply_rooted:
  assumes "write_ok t (j, Some r)" and "snd (run_job j t)"
  shows "rooted (fst (run_job j t)) r"
proof (cases j)
  case (JobInsert row)
  with assms show ?thesis by (auto simp: rooted_def split: if_splits)
next
  case (JobRevoke k ts)
  with assms(1) have k: "cl_id r = k" "ts \<noteq> None" "k \<in> row_id ` set (t_clients t)" by auto
  from job_grows [OF assms(1)] k(3) have "k \<in> row_id ` set (t_clients (fst (run_job j t)))" unfolding grows_def by blast
  with revoked_row [OF k(3,2)] k(1) JobRevoke show ?thesis by (simp only: rooted_def simp_thms)
next
  case (JobLimits k l)
  with assms(1) have "rooted t r" by simp
  with rooted_grows [OF job_grows [OF assms(1)]] show ?thesis .
qed (use assms(1) in auto)

lemma clients_work:
  assumes "clients_ok s"
  shows "clients_ok (work s)"
proof (cases "queue s")
  case (Cons jr q)
  obtain j rec where jr: "jr = (j, rec)" by fastforce
  obtain t b where run: "run_job j (db s) = (t, b)" by fastforce
  from assms Cons jr have here: "write_ok (db s) (j, rec)" and rest: "\<forall>x \<in> set q. write_ok (db s) x"
    by (simp_all add: clients_ok_def)
  from job_grows [OF here] run have g: "grows (db s) t" by simp
  have "rooted t r" if "rec = Some r" b for r
    using reply_rooted [of "db s" j r] here that run by simp
  moreover have "distinct (map row_id (t_clients t))"
    using job_rows_distinct [of "db s" j] assms run by (simp add: clients_ok_def)
  ultimately show ?thesis
    using assms Cons jr run rest rooted_grows [OF g] write_ok_grows [OF g]
    by (auto simp: clients_ok_def keyed_def work_def split: option.split)
qed (use assms in \<open>simp add: work_def\<close>)

lemma clients_resume:
  assumes "clients_ok s"
  shows "clients_ok (resume n s)"
proof (cases "nth_opt (replies s) n")
  case (Some r)
  have "r \<in> set (replies s)" using Some by (auto simp: nth_opt_def split: if_splits)
  moreover have "set (take n (replies s) @ drop (Suc n) (replies s)) \<subseteq> set (replies s)"
    by (auto dest: in_set_takeD in_set_dropD)
  ultimately show ?thesis
    using assms Some set_update [of "cl_id r" r "m_clients s"]
    by (auto simp: clients_ok_def keyed_def resume_def distinct_update)
qed (use assms in \<open>simp add: resume_def\<close>)

lemma clients_start:
  assumes "distinct (map row_id (t_clients t))"
  shows "clients_ok (start cd t)"
proof -
  have "row_revoked_in (row_id r) t" if "r \<in> set (t_clients t)" "row_revoked r \<noteq> None" for r
    using that assms by (auto simp: row_revoked_in_def dest: inj_onD [OF distinct_map [THEN iffD1, THEN conjunct2]])
  with assms show ?thesis
    by (auto simp: clients_ok_def start_def keyed_def load_clients_def record_of_row_def rooted_def active_def comp_def)
qed

lemma clients_drained:
  assumes "clients_ok s"
  shows "distinct (map row_id (t_clients (drained s)))"
proof -
  have "distinct (map row_id (t_clients (foldl (\<lambda>t (j, _). fst (run_job j t)) t q)))"
    if "distinct (map row_id (t_clients t))" for t and q :: "(job \<times> client_record option) list"
    using that by (induction q arbitrary: t) (auto simp: job_rows_distinct)
  with assms show ?thesis by (simp add: drained_def clients_ok_def)
qed

text \<open>Accesses that queue a write or none at all.\<close>

lemma clients_submit: "clients_ok s \<Longrightarrow> (\<And>k ts. j \<noteq> JobRevoke k ts) \<Longrightarrow> clients_ok (submit j s)"
  by (cases j) (auto simp: clients_ok_def keyed_def submit_def)

lemma clients_call: "clients_ok s \<Longrightarrow> write_ok (db s) (j, Some r) \<Longrightarrow> clients_ok (call_store j r s)"
  by (auto simp: clients_ok_def keyed_def call_store_def)

lemma clients_mirrors [simp]:
  "clients_ok (s\<lparr>m_totals := a\<rparr>) = clients_ok s" "clients_ok (s\<lparr>m_usage := b\<rparr>) = clients_ok s"
  by (simp_all add: clients_ok_def keyed_def)

lemma clients_rooted:
  assumes "clients_ok s" and "client s i = Some r"
  shows "cl_id r = i \<and> rooted (db s) r"
  using assms client_in [OF assms(2)] by (force simp: clients_ok_def keyed_def)

lemma clients_step: "clients_ok s \<Longrightarrow> clients_ok (store_step cd cal x s)"
proof (cases x)
  case (OpCreate name l kh ih now)
  assume "clients_ok s"
  then show ?thesis using OpCreate
    by (auto simp: create_client_def Let_def row_of_record_def active_def intro!: clients_call)
next
  case (OpRevoke k now)
  assume ok: "clients_ok s"
  then show ?thesis using OpRevoke clients_rooted [OF ok, of k]
    by (auto simp: revoke_client_def Let_def rooted_def intro!: clients_call split: option.split)
next
  case (OpLimits k l)
  assume ok: "clients_ok s"
  then show ?thesis using OpLimits clients_rooted [OF ok, of k]
    by (auto simp: set_client_limits_def Let_def rooted_def active_def intro!: clients_call split: option.split)
next
  case OpRestart
  assume "clients_ok s"
  then show ?thesis using OpRestart by (simp add: clients_start clients_drained)
next
  case OpWork
  assume "clients_ok s"
  then show ?thesis using OpWork by (simp add: clients_work)
next
  case (OpResume n)
  assume "clients_ok s"
  then show ?thesis using OpResume by (simp add: clients_resume)
qed (auto simp: admit_client_def record_throttled_def log_call_def store_add_def bump_client_def Let_def
    intro!: clients_submit split: option.split)

lemma clients_life: "clients_ok s \<Longrightarrow> clients_ok (life_run cd cal es s)"
proof (induction es arbitrary: s)
  case (Cons e es)
  then show ?case by (cases e) (simp_all add: clients_step clients_start clients_ok_def [of s])
qed simp

text \<open>
  From a revocation on, as long as no edit of the client's limits was made before it shows: whatever waits
  for the client is inactive, but for insertions, which fail as the row is there.
\<close>

definition being_revoked :: "string \<Rightarrow> store_state \<Rightarrow> bool" where
  "being_revoked i s \<longleftrightarrow> i \<in> row_id ` set (t_clients (db s)) \<and> (\<forall>r \<in> set (replies s). cl_id r = i \<longrightarrow> \<not> active r)
     \<and> (\<forall>q \<in> set (queue s). harmless i q)"

definition idle_client :: "string \<Rightarrow> store_state \<Rightarrow> bool" where
  "idle_client i s \<longleftrightarrow> (\<forall>(j, rec) \<in> set (queue s). \<forall>r. rec = Some r \<longrightarrow> cl_id r \<noteq> i) \<and> (\<forall>r \<in> set (replies s). cl_id r \<noteq> i)"

lemma idle_harmless: "write_ok t (j, rec) \<Longrightarrow> \<forall>r. rec = Some r \<longrightarrow> cl_id r \<noteq> i \<Longrightarrow> harmless i (j, rec)"
  by (cases j; cases rec) auto

lemma revocation_starts:
  assumes "clients_ok s" and "idle_client i s" and "client s i = Some r"
  shows "being_revoked i (store_step cd cal (OpRevoke i now) s)"
proof -
  have "\<forall>q \<in> set (queue s). harmless i q"
    using assms(1,2) idle_harmless [of "db s"] by (fastforce simp: clients_ok_def idle_client_def)
  with assms clients_rooted [OF assms(1,3)] show ?thesis
    by (auto simp: being_revoked_def idle_client_def revoke_client_def Let_def call_store_def rooted_def active_def)
qed

lemma being_revoked_work:
  assumes "clients_ok s" and "being_revoked i s"
  shows "being_revoked i (work s)"
proof (cases "queue s")
  case (Cons jr q)
  obtain j rec where jr: "jr = (j, rec)" by fastforce
  obtain t b where run: "run_job j (db s) = (t, b)" by fastforce
  from assms Cons jr have here: "write_ok (db s) (j, rec)" "harmless i (j, rec)" "i \<in> row_id ` set (t_clients (db s))"
    by (simp_all add: clients_ok_def being_revoked_def)
  from job_grows [OF here(1)] run here(3) have row: "i \<in> row_id ` set (t_clients t)" by (auto simp: grows_def)
  have "\<not> active r" if "rec = Some r" b "cl_id r = i" for r
    using here that run by (cases j) (auto split: if_splits)
  with assms(2) Cons jr run row show ?thesis
    by (auto simp: being_revoked_def work_def split: option.splits)
qed (use assms in \<open>simp add: work_def\<close>)

lemma being_revoked_step:
  assumes "clients_ok s" and "being_revoked i s" and "\<And>l. e \<noteq> Did (OpLimits i l)"
  shows "being_revoked i (life_step cd cal e s)"
proof (cases e)
  case Killed
  with assms(2) show ?thesis by (simp add: being_revoked_def start_def)
next
  case (Did x)
  show ?thesis
  proof (cases x)
    case (OpCreate name l kh ih now)
    with Did assms(2) show ?thesis
      by (auto simp: create_client_def Let_def call_store_def being_revoked_def row_of_record_def)
  next
    case (OpRevoke k now)
    with Did assms(2) show ?thesis
      by (auto simp: revoke_client_def Let_def call_store_def being_revoked_def active_def split: option.split)
  next
    case (OpLimits k l)
    with Did assms(3) have "k \<noteq> i" by blast
    with Did OpLimits assms(2) clients_rooted [OF assms(1), of k] show ?thesis
      by (auto simp: set_client_limits_def Let_def call_store_def being_revoked_def split: option.split)
  next
    case OpRestart
    have "grows t (foldl (\<lambda>t (j, _). fst (run_job j t)) t q)" if "\<forall>x \<in> set q. write_ok t x" for t q
      using that
    proof (induction q arbitrary: t)
      case (Cons x q)
      obtain j rec where x: "x = (j, rec)" by fastforce
      from Cons.prems x have "write_ok t (j, rec)" by simp
      then have g: "grows t (fst (run_job j t))" by (rule job_grows)
      with Cons.prems have "\<forall>x \<in> set q. write_ok (fst (run_job j t)) x" by (auto intro: write_ok_grows [OF g])
      from grows_trans [OF g Cons.IH [OF this]] x show ?case by simp
    qed (simp add: grows_def)
    with assms(1) have "grows (db s) (drained s)" by (simp add: drained_def clients_ok_def)
    with assms(2) Did OpRestart show ?thesis by (auto simp: being_revoked_def start_def grows_def)
  next
    case OpWork
    with Did being_revoked_work [OF assms(1,2)] show ?thesis by simp
  next
    case (OpResume n)
    with Did assms(2) show ?thesis
      by (auto simp: being_revoked_def resume_def split: option.split dest: in_set_takeD in_set_dropD)
  qed (use Did assms(2) in \<open>auto simp: being_revoked_def admit_client_def record_throttled_def log_call_def store_add_def
      bump_client_def submit_def Let_def split: option.split\<close>)
qed

lemma being_revoked_life:
  "clients_ok s \<Longrightarrow> being_revoked i s \<Longrightarrow> \<forall>l. Did (OpLimits i l) \<notin> set es \<Longrightarrow> being_revoked i (life_run cd cal es s)"
proof (induction es arbitrary: s)
  case (Cons e es)
  have "clients_ok (life_step cd cal e s)" using clients_life [OF Cons.prems(1), of cd cal "[e]"] by simp
  moreover have "being_revoked i (life_step cd cal e s)"
    by (rule being_revoked_step [OF Cons.prems(1,2)]) (use Cons.prems(3) in auto)
  ultimately show ?case using Cons by simp
qed simp

text \<open>Once the mirror shows it, the revocation is there for good.\<close>

lemma revocation_shows:
  assumes "clients_ok s" and "being_revoked i s" and "client s i = Some r" and "\<not> active r"
  shows "revoked_for_good i s"
proof -
  have "row_revoked_in i (db s)" using clients_rooted [OF assms(1,3)] assms(4) by (auto simp: rooted_def)
  moreover have "r' = r" if "(i, r') \<in> set (m_clients s)" for r'
    using that assms(1,3) by (simp add: clients_ok_def client_def map_of_eq_Some_iff)
  ultimately show ?thesis using assms by (auto simp: revoked_for_good_def clients_ok_def being_revoked_def)
qed

lemma revoked_life: "revoked_for_good i s \<Longrightarrow> revoked_for_good i (life_run cd cal es s)"
proof (induction es arbitrary: s)
  case (Cons e es)
  then show ?case by (cases e) (simp_all add: revoked_step revoked_start revoked_for_good_def [of i s])
qed simp

text \<open>
  With another edit of the same client on its way a revocation may not hold: the edit read the record
  before the revocation and writes it back afterwards, so the key works again until a restart.
\<close>

lemma revocation_lost:
  assumes "queue s = []" and "replies s = []" and "client s i = Some r" and "active r" and "cl_id r = i"
    and "s' = store_run cd cal [OpRevoke i now, OpLimits i l, OpWork, OpResume 0, OpWork, OpResume 0] s"
  shows "(\<exists>r'. client s' i = Some r' \<and> active r')
    \<and> (\<forall>row \<in> set (t_clients (db s')). row_id row = i \<longrightarrow> row_revoked row \<noteq> None)"
  using assms
  by (auto simp: set_client_limits_def revoke_client_def Let_def call_store_def work_def resume_def nth_opt_def
      client_def update_conv' active_def)

end
