(* ===== verification/Catalog.thy ===== *)
theory Catalog
  imports PaymentOps
begin

text \<open>
  Tools and who sees them (\<open>crates/app/src/op.rs\<close>, \<open>crates/app/src/catalog.rs\<close> and the caller of
  \<open>crates/app/src/ctx.rs\<close>). A tool is what the catalog knows of an operation: JSON in, rendered
  JSON out. \<open>'w\<close> is everything a tool reads and changes: routing state, vendors, clock.
\<close>

section \<open>Tools\<close>

datatype tool_domain = DomChain | DomWallet | DomTx | DomPayments | DomStablecoin | DomCompliance
  | DomNeobank | DomMarket | DomTrade | DomRwa | DomLegacy

fun domain_as_str :: "tool_domain \<Rightarrow> string" where
  "domain_as_str DomChain = ''chain''"
| "domain_as_str DomWallet = ''wallet''"
| "domain_as_str DomTx = ''tx''"
| "domain_as_str DomPayments = ''payments''"
| "domain_as_str DomStablecoin = ''stablecoin''"
| "domain_as_str DomCompliance = ''compliance''"
| "domain_as_str DomNeobank = ''neobank''"
| "domain_as_str DomMarket = ''market''"
| "domain_as_str DomTrade = ''trade''"
| "domain_as_str DomRwa = ''rwa''"
| "domain_as_str DomLegacy = ''legacy''"

datatype profile = Payments | Trading | Neobank | Defi

definition all_profiles :: "profile list" where
  "all_profiles = [Payments, Trading, Neobank, Defi]"

definition parse_profile :: "string \<Rightarrow> profile option" where
  "parse_profile s = (if s = ''payments'' then Some Payments else if s = ''trading'' then Some Trading
     else if s = ''neobank'' then Some Neobank else if s = ''defi'' then Some Defi else None)"

text \<open>A call ends in a result or panics with a message.\<close>

datatype 'a outcome = Done "domain_error + 'a" | Panicked string

record 'w tool =
  tool_name :: string
  tool_domain :: tool_domain
  tool_profiles :: "profile list"
  tool_read_only :: bool
  tool_legacy :: bool
  tool_cache_ttl :: "duration option"
  tool_call :: "json \<Rightarrow> 'w \<Rightarrow> json outcome \<times> 'w"

text \<open>
  \<open>OpBox::call\<close>: decoding the input and rendering the output are the derived serializers of the
  operation's types, and \<open>execute\<close> is the operation.
\<close>

definition op_box_call :: "string \<Rightarrow> (json \<Rightarrow> string + 'i) \<Rightarrow> ('i \<Rightarrow> 'w \<Rightarrow> 'o op_output outcome \<times> 'w)
    \<Rightarrow> ('o \<Rightarrow> string + json) \<Rightarrow> (provenance \<Rightarrow> string + json) \<Rightarrow> json \<Rightarrow> 'w \<Rightarrow> json outcome \<times> 'w" where
  "op_box_call name from_value execute to_value meta_value input w =
     (case from_value input of
        Inl e \<Rightarrow> (Done (Inl (invalid (''invalid input for '' @ name @ '': '' @ e))), w)
      | Inr i \<Rightarrow> (case execute i w of
          (Panicked m, w) \<Rightarrow> (Panicked m, w)
        | (Done (Inl e), w) \<Rightarrow> (Done (Inl e), w)
        | (Done (Inr out), w) \<Rightarrow> (case to_value (op_data out) of
            Inl e \<Rightarrow> (Done (Inl (internal e)), w)
          | Inr d \<Rightarrow> (case meta_value (op_meta out) of
              Inl e \<Rightarrow> (Done (Inl (internal e)), w)
            | Inr m \<Rightarrow> (Done (Inr (JObj [(''data'', d), (''meta'', m)])), w)))))"

section \<open>The catalog\<close>

type_synonym 'w catalog = "(string \<times> 'w tool) list"

text \<open>Registering a name twice panics.\<close>

definition register :: "'w tool \<Rightarrow> 'w catalog \<Rightarrow> 'w catalog option" where
  "register t c = (if map_of c (tool_name t) = None then Some (bt_alter t (tool_name t) (\<lambda>_. t) c) else None)"

fun register_all :: "'w tool list \<Rightarrow> 'w catalog \<Rightarrow> 'w catalog option" where
  "register_all [] c = Some c"
| "register_all (t # ts) c = Option.bind (register t c) (register_all ts)"

datatype selection = SelAll | SelProfile profile | SelCustom "string list"

definition parse_selection :: "string \<Rightarrow> string list \<Rightarrow> selection" where
  "parse_selection name custom =
     (if name = ''all'' then SelAll
      else if name = ''custom'' then SelCustom custom
      else case parse_profile name of Some p \<Rightarrow> SelProfile p | None \<Rightarrow> SelAll)"

definition selection_of_config :: "loaded \<Rightarrow> selection" where
  "selection_of_config l = parse_selection (tool_profile (set_server (settings l))) (enabled_tools (set_server (settings l)))"

definition included :: "selection \<Rightarrow> 'w tool \<Rightarrow> loaded \<Rightarrow> bool" where
  "included sel t l =
     ((case sel of
         SelAll \<Rightarrow> True
       | SelProfile p \<Rightarrow> p \<in> set (tool_profiles t)
       | SelCustom ns \<Rightarrow> tool_name t \<in> set ns)
      \<and> tool_name t \<notin> set (disabled_tools (set_server (settings l)))
      \<and> os_enabled (operation l (tool_name t)) \<noteq> Some False)"

text \<open>\<open>caller_client\<close> is the client key's id in hosted mode.\<close>

record caller =
  caller_client :: "string option"
  caller_profile :: "selection option"

definition local_caller :: caller where
  "local_caller = \<lparr>caller_client = None, caller_profile = None\<rparr>"

definition visible :: "'w catalog \<Rightarrow> loaded \<Rightarrow> caller \<Rightarrow> 'w tool list" where
  "visible c l who = (let sel = unwrap_or (selection_of_config l) (caller_profile who)
     in filter (\<lambda>t. included sel t l) (map snd c))"

definition find_visible :: "'w catalog \<Rightarrow> loaded \<Rightarrow> caller \<Rightarrow> string \<Rightarrow> 'w tool option" where
  "find_visible c l who name = find (\<lambda>t. tool_name t = name) (visible c l who)"

section \<open>A registered catalog\<close>

definition catalog_ok :: "'w catalog \<Rightarrow> bool" where
  "catalog_ok c \<longleftrightarrow> key_sorted c \<and> (\<forall>(k, t) \<in> set c. tool_name t = k)"

lemma register_ok: "catalog_ok c \<Longrightarrow> register t c = Some c' \<Longrightarrow> catalog_ok c'"
proof -
  have "\<forall>(k, t) \<in> set (bt_alter t (tool_name t) (\<lambda>_. t) c). tool_name t = k" if "\<forall>(k, t) \<in> set c. tool_name t = k" for c
    using that by (induction c) (auto split: if_splits)
  then show "catalog_ok c \<Longrightarrow> register t c = Some c' \<Longrightarrow> ?thesis"
    by (auto simp: catalog_ok_def register_def split: if_splits)
qed

lemma register_all_ok: "catalog_ok c \<Longrightarrow> register_all ts c = Some c' \<Longrightarrow> catalog_ok c'"
  by (induction ts arbitrary: c) (auto simp: bind_eq_Some_conv dest: register_ok)

lemma catalog_lookup: "catalog_ok c \<Longrightarrow> map_of c name = Some t \<longleftrightarrow> (name, t) \<in> set c"
  by (simp add: catalog_ok_def key_sorted_distinct)

lemma catalog_name: "catalog_ok c \<Longrightarrow> (k, t) \<in> set c \<Longrightarrow> tool_name t = k"
  by (auto simp: catalog_ok_def)

text \<open>Calling by name reaches the one tool of that name when the caller's selection included it.\<close>

lemma find_visible_iff:
  assumes "catalog_ok c"
  shows "find_visible c l who name = Some t \<longleftrightarrow>
    map_of c name = Some t \<and> included (unwrap_or (selection_of_config l) (caller_profile who)) t l"
proof
  assume "find_visible c l who name = Some t"
  then obtain k where "(k, t) \<in> set c" "tool_name t = name"
      "included (unwrap_or (selection_of_config l) (caller_profile who)) t l"
    by (auto simp: find_visible_def visible_def Let_def dest!: find_SomeD)
  with catalog_name [OF assms] catalog_lookup [OF assms]
  show "map_of c name = Some t \<and> included (unwrap_or (selection_of_config l) (caller_profile who)) t l"
    by metis
next
  assume r: "map_of c name = Some t \<and> included (unwrap_or (selection_of_config l) (caller_profile who)) t l"
  have one: "t' = t" if v: "t' \<in> set (visible c l who)" and n: "tool_name t' = name" for t'
  proof -
    obtain k where "(k, t') \<in> set c" using v by (auto simp: visible_def Let_def)
    with n catalog_name [OF assms] catalog_lookup [OF assms] have "map_of c name = Some t'" by metis
    with r show ?thesis by simp
  qed
  have "t \<in> set (visible c l who)" "tool_name t = name"
    using r catalog_name [OF assms, of name t] catalog_lookup [OF assms, of name t]
    by (force simp: visible_def Let_def)+
  then have "find (\<lambda>t. tool_name t = name) (visible c l who) \<noteq> None" by (auto simp: find_None_iff)
  then obtain t' where t': "find (\<lambda>t. tool_name t = name) (visible c l who) = Some t'" by auto
  with one find_SomeD [OF this] show "find_visible c l who name = Some t" by (simp add: find_visible_def)
qed

end
