(* ===== verification/ResponseCache.thy ===== *)
theory ResponseCache
  imports Json "HOL-Library.AList"
begin

text \<open>
  The response cache (\<open>TtlCache\<close> in \<open>crates/app/src/app.rs\<close>): every method holds the lock, so each
  is one step on the table. The \<open>HashMap\<close> is an association list, whose order stands for the
  map's; instants are nanoseconds and \<open>clock_max\<close> is the last one the clock can represent.

  What the pipeline relies on is the locale \<open>response_cache\<close>; the abstract cache has no bound and
  forgets nothing but what has expired.
\<close>

section \<open>The cache\<close>

type_synonym cache = "(string \<times> json \<times> nat) list"

definition cache_get :: "string \<Rightarrow> nat \<Rightarrow> cache \<Rightarrow> json option \<times> cache" where
  "cache_get k now c = (case map_of c k of
       Some (v, expires) \<Rightarrow> if now < expires then (Some v, c) else (None, AList.delete k c)
     | None \<Rightarrow> (None, c))"

text \<open>\<open>min_by_key\<close>: the first of the entries that expire soonest.\<close>

fun soonest :: "cache \<Rightarrow> (string \<times> nat) option" where
  "soonest [] = None"
| "soonest ((k, v, e) # c) = (case soonest c of
     None \<Rightarrow> Some (k, e) | Some (k', e') \<Rightarrow> if e \<le> e' then Some (k, e) else Some (k', e'))"

definition make_room :: "nat \<Rightarrow> string \<Rightarrow> nat \<Rightarrow> cache \<Rightarrow> cache" where
  "make_room cap k now c =
     (if cap \<le> length c \<and> map_of c k = None
      then let c1 = filter (\<lambda>(_, _, e). now < e) c in
        if cap \<le> length c1
        then (case soonest c1 of Some (k', _) \<Rightarrow> AList.delete k' c1 | None \<Rightarrow> c1)
        else c1
      else c)"

definition cache_insert :: "nat \<Rightarrow> nat \<Rightarrow> string \<Rightarrow> json \<Rightarrow> nat \<Rightarrow> nat \<Rightarrow> cache \<Rightarrow> cache" where
  "cache_insert cap clock_max k v ttl now c =
     (if clock_max < now + ttl then c
      else if cap = 0 then c
      else AList.update k (v, now + ttl) (make_room cap k now c))"

section \<open>The interface\<close>

text \<open>Lookups and insertions in the order in which they took the lock, with their times.\<close>

datatype cache_event = Get string nat | Put string json nat nat

locale response_cache =
  fixes get :: "string \<Rightarrow> nat \<Rightarrow> 'c \<Rightarrow> json option \<times> 'c"
    and put :: "string \<Rightarrow> json \<Rightarrow> nat \<Rightarrow> nat \<Rightarrow> 'c \<Rightarrow> 'c"
    and entries :: "'c \<Rightarrow> (string \<times> json \<times> nat) set"
    and empty :: 'c
  assumes entries_empty: "entries empty = {}"
    and get_answer: "get k now c = (Some v, c') \<Longrightarrow> \<exists>e. (k, v, e) \<in> entries c \<and> now < e"
    and get_entries: "entries (snd (get k now c)) \<subseteq> entries c"
    and put_entries: "entries (put k v ttl now c) \<subseteq> insert (k, v, now + ttl) (entries c)"
begin

fun after :: "cache_event list \<Rightarrow> 'c" where
  "after [] = empty"
| "after (Get k now # xs) = snd (get k now (after xs))"
| "after (Put k v ttl now # xs) = put k v ttl now (after xs)"

text \<open>Latest event first: every entry was put, and an answer had not expired.\<close>

lemma entries_were_put:
  "(k, v, e) \<in> entries (after xs) \<Longrightarrow> \<exists>ttl now. Put k v ttl now \<in> set xs \<and> e = now + ttl"
proof (induction xs rule: after.induct)
  case (2 k' now xs)
  then show ?case using get_entries [of k' now "after xs"] by auto
next
  case (3 k' v' ttl now xs)
  then show ?case using put_entries [of k' v' ttl now "after xs"] by auto
qed (simp add: entries_empty)

lemma answers_were_put:
  assumes "fst (get k now (after xs)) = Some v"
  shows "\<exists>ttl t. Put k v ttl t \<in> set xs \<and> now < t + ttl"
proof -
  obtain c' where "get k now (after xs) = (Some v, c')" using assms by (cases "get k now (after xs)") auto
  from get_answer [OF this] entries_were_put show ?thesis by blast
qed

end

section \<open>The cache keeps its bound\<close>

definition distinct_keys :: "cache \<Rightarrow> bool" where
  "distinct_keys c \<longleftrightarrow> distinct (map fst c)"

lemma distinct_keys_Nil [simp]: "distinct_keys []"
  by (simp add: distinct_keys_def)

lemma get_keys: "distinct_keys c \<Longrightarrow> distinct_keys (snd (cache_get k now c))"
  by (auto simp: distinct_keys_def cache_get_def distinct_delete split: option.split)

lemma length_delete: "length (AList.delete k c) \<le> length c"
  by (simp add: AList.delete_eq)

lemma get_length: "length (snd (cache_get k now c)) \<le> length c"
  by (auto simp: cache_get_def length_delete split: option.split)

lemma soonest_None [simp]: "soonest c = None \<longleftrightarrow> c = []"
  by (cases c rule: soonest.cases) (auto split: option.split)

lemma soonest_least: "soonest c = Some (k, e) \<Longrightarrow> (\<exists>v. (k, v, e) \<in> set c) \<and> (\<forall>(k', v', e') \<in> set c. e \<le> e')"
proof (induction c arbitrary: k e rule: soonest.induct)
  case (2 k' v' e' c)
  then show ?case by (cases "soonest c") (force split: if_splits)+
qed simp

lemma distinct_filter_keys: "distinct_keys c \<Longrightarrow> distinct_keys (filter P c)"
  by (auto simp: distinct_keys_def distinct_map_filter)

lemma delete_shorter: "distinct_keys c \<Longrightarrow> k \<in> fst ` set c \<Longrightarrow> length (AList.delete k c) < length c"
proof -
  assume "k \<in> fst ` set c"
  then obtain x where "x \<in> set c" "fst x = k" by auto
  then have "length (filter (\<lambda>x. k \<noteq> fst x) c) < length c" by (auto intro!: length_filter_less)
  then show ?thesis by (simp add: AList.delete_eq case_prod_unfold)
qed

lemma make_room_keys: "distinct_keys c \<Longrightarrow> distinct_keys (make_room cap k now c)"
  unfolding make_room_def Let_def AList.delete_eq
  by (simp add: distinct_filter_keys split: option.split)

lemma make_room_room:
  assumes "distinct_keys c" and "0 < cap" and "length c \<le> cap" and "map_of c k = None"
  shows "length (make_room cap k now c) < cap"
proof (cases "cap \<le> length c")
  case True
  let ?c = "filter (\<lambda>(_, _, e). now < e) c"
  have le: "length ?c \<le> length c" by simp
  show ?thesis
  proof (cases "cap \<le> length ?c")
    case True
    then have "?c \<noteq> []" using assms(2) by auto
    then obtain k' e where so: "soonest ?c = Some (k', e)" by (cases "soonest ?c") auto
    then have "k' \<in> fst ` set ?c" using soonest_least [OF so] by force
    from delete_shorter [OF distinct_filter_keys [OF assms(1)] this]
    have "length (AList.delete k' ?c) < length ?c" .
    then have "length (AList.delete k' ?c) < cap" using le assms(3) by linarith
    with so True \<open>cap \<le> length c\<close> assms(4) show ?thesis by (simp add: make_room_def)
  qed (use True assms(4) in \<open>simp add: make_room_def\<close>)
qed (simp add: make_room_def)

lemma make_room_same: "map_of c k \<noteq> None \<Longrightarrow> make_room cap k now c = c"
  by (auto simp: make_room_def)

lemma length_update:
  "length (AList.update k v c) = (if map_of c k = None then length c + 1 else length c)"
  by (induction c) auto

lemma cache_insert_late [simp]: "m < now + ttl \<Longrightarrow> cache_insert cap m k v ttl now c = c"
  by (simp add: cache_insert_def)

lemma cache_insert_fits:
  "\<not> m < now + ttl \<Longrightarrow> 0 < cap \<Longrightarrow>
    cache_insert cap m k v ttl now c = AList.update k (v, now + ttl) (make_room cap k now c)"
  by (simp add: cache_insert_def)

lemma insert_keys: "distinct_keys c \<Longrightarrow> distinct_keys (cache_insert cap m k v ttl now c)"
  using make_room_keys [of c cap k now] by (simp add: cache_insert_def distinct_keys_def distinct_update)

lemma insert_length:
  assumes "distinct_keys c" and "length c \<le> cap"
  shows "length (cache_insert cap m k v ttl now c) \<le> cap"
proof (cases "map_of c k = None")
  case True
  then show ?thesis
    using make_room_room [OF assms(1) _ assms(2) True, of now] assms(2)
    by (auto simp: cache_insert_def length_update)
next
  case False
  then show ?thesis using assms(2) by (auto simp: cache_insert_def length_update make_room_same)
qed

lemma make_room_set: "set (make_room cap k now c) \<subseteq> set c"
  by (auto simp: make_room_def Let_def AList.delete_eq split: option.split)

lemma set_alist_update: "set (AList.update k v c) \<subseteq> insert (k, v) (set c)"
  by (induction c) auto

interpretation bounded: response_cache cache_get "cache_insert cap clock_max" set "[]"
  for cap clock_max
proof
  fix k :: string and now v c c'
  assume "cache_get k now c = (Some v, c')"
  then have "\<exists>e. map_of c k = Some (v, e) \<and> now < e"
    by (auto simp: cache_get_def split: option.splits if_splits)
  then show "\<exists>e. (k, v, e) \<in> set c \<and> now < e" by (auto dest: map_of_SomeD)
next
  fix k :: string and now and c :: cache
  show "set (snd (cache_get k now c)) \<subseteq> set c"
    by (auto simp: cache_get_def AList.delete_eq split: option.split)
next
  fix k v ttl now and c :: cache
  show "set (cache_insert cap clock_max k v ttl now c) \<subseteq> insert (k, v, now + ttl) (set c)"
    using set_alist_update [of k "(v, now + ttl)" "make_room cap k now c"] make_room_set [of cap k now c]
    by (auto simp: cache_insert_def)
qed simp

lemma after_bounded:
  "distinct_keys (bounded.after cap m xs) \<and> length (bounded.after cap m xs) \<le> cap"
proof (induction xs)
  case Nil
  then show ?case by (simp add: distinct_keys_def)
next
  case (Cons x xs)
  then show ?case
  proof (cases x)
    case (Get k now)
    then show ?thesis using Cons get_length [of k now "bounded.after cap m xs"] by (auto simp: get_keys)
  next
    case (Put k v ttl now)
    then show ?thesis using Cons by (simp add: insert_keys insert_length)
  qed
qed

text \<open>
  In every state the cache can reach it holds at most its bound of entries, one per key, and
  every answer it gives was put under that key earlier and has not outlived its time to live.
\<close>

theorem cache_bounded_and_fresh:
  "length (bounded.after cap m xs) \<le> cap \<and> distinct (map fst (bounded.after cap m xs))
    \<and> (\<forall>k now v. fst (cache_get k now (bounded.after cap m xs)) = Some v \<longrightarrow>
        (\<exists>lifetime t. Put k v lifetime t \<in> set xs \<and> now < t + lifetime))"
  using after_bounded [of cap m xs] bounded.answers_were_put by (auto simp: distinct_keys_def)


section \<open>The abstract cache\<close>

text \<open>What a cache without bound holds: the last entry put under each key.\<close>

fun ideal_after :: "nat \<Rightarrow> cache_event list \<Rightarrow> string \<Rightarrow> (json \<times> nat) option" where
  "ideal_after m [] = Map.empty"
| "ideal_after m (Get k now # xs) = ideal_after m xs"
| "ideal_after m (Put k v ttl now # xs) =
     (if m < now + ttl then ideal_after m xs else (ideal_after m xs)(k \<mapsto> (v, now + ttl)))"

definition ideal_get :: "nat \<Rightarrow> cache_event list \<Rightarrow> string \<Rightarrow> nat \<Rightarrow> json option" where
  "ideal_get m xs k now = Option.bind (ideal_after m xs k) (\<lambda>(v, e). if now < e then Some v else None)"

fun event_time :: "cache_event \<Rightarrow> nat" where
  "event_time (Get k now) = now"
| "event_time (Put k v ttl now) = now"

fun put_keys :: "cache_event list \<Rightarrow> string set" where
  "put_keys [] = {}"
| "put_keys (Get k now # xs) = put_keys xs"
| "put_keys (Put k v ttl now # xs) = insert k (put_keys xs)"

definition in_time :: "cache_event list \<Rightarrow> bool" where
  "in_time xs \<longleftrightarrow> sorted_wrt (\<lambda>a b. event_time b \<le> event_time a) xs"

lemma finite_put_keys [simp]: "finite (put_keys xs)"
  by (induction xs rule: put_keys.induct) simp_all

text \<open>At time \<open>now\<close> the table agrees with the abstract cache but for expired entries it dropped.\<close>

definition agrees :: "nat \<Rightarrow> cache \<Rightarrow> (string \<Rightarrow> (json \<times> nat) option) \<Rightarrow> bool" where
  "agrees now c I \<longleftrightarrow> (\<forall>k. map_of c k = I k \<or> (map_of c k = None \<and> (\<exists>v e. I k = Some (v, e) \<and> e \<le> now)))"

lemma agrees_later: "agrees t c I \<Longrightarrow> t \<le> now \<Longrightarrow> agrees now c I"
  unfolding agrees_def by (meson order_trans)

lemma agrees_entry: "agrees now c I \<Longrightarrow> map_of c k = Some x \<Longrightarrow> I k = Some x"
  unfolding agrees_def by (metis option.distinct(1))

lemma agrees_none: "agrees now c I \<Longrightarrow> map_of c k = None \<Longrightarrow> I k = None \<or> (\<exists>v e. I k = Some (v, e) \<and> e \<le> now)"
  unfolding agrees_def by metis

lemma agrees_get: "agrees now c I \<Longrightarrow> agrees now (snd (cache_get k now c)) I"
proof -
  assume a: "agrees now c I"
  have "agrees now (AList.delete k c) I" if "map_of c k = Some (v, e)" "e \<le> now" for v e
    using a agrees_entry [OF a that(1)] that(2) by (auto simp: agrees_def AList.delete_conv')
  with a show ?thesis by (auto simp: cache_get_def not_less split: option.split)
qed

lemma agrees_answer:
  assumes "agrees now c I"
  shows "fst (cache_get k now c) = Option.bind (I k) (\<lambda>(v, e). if now < e then Some v else None)"
proof (cases "map_of c k")
  case None
  then show ?thesis using agrees_none [OF assms None] by (auto simp: cache_get_def)
next
  case (Some x)
  then show ?thesis using agrees_entry [OF assms Some] by (cases x) (simp add: cache_get_def)
qed

lemma cache_agrees:
  assumes "card (put_keys xs) \<le> cap" and "in_time xs" and "\<forall>x \<in> set xs. event_time x \<le> now"
  shows "agrees now (bounded.after cap m xs) (ideal_after m xs) \<and> fst ` set (bounded.after cap m xs) \<subseteq> put_keys xs"
  using assms
proof (induction xs arbitrary: now)
  case Nil
  then show ?case by (simp add: agrees_def)
next
  case (Cons x xs)
  have prems: "in_time xs" "\<forall>y \<in> set xs. event_time y \<le> event_time x" "event_time x \<le> now"
    using Cons.prems by (auto simp: in_time_def)
  show ?case
  proof (cases x)
    case (Get k t)
    with Cons.IH [of t] Cons.prems prems
    have ih: "agrees t (bounded.after cap m xs) (ideal_after m xs)" "fst ` set (bounded.after cap m xs) \<subseteq> put_keys xs"
      by simp_all
    have "set (snd (cache_get k t (bounded.after cap m xs))) \<subseteq> set (bounded.after cap m xs)"
      by (rule bounded.get_entries)
    with ih(2) have "fst ` set (snd (cache_get k t (bounded.after cap m xs))) \<subseteq> put_keys xs" by blast
    with agrees_later [OF agrees_get [OF ih(1)]] Get prems show ?thesis by simp
  next
    case (Put k v lifetime t)
    let ?c = "bounded.after cap m xs"
    have "card (put_keys xs) \<le> card (put_keys (x # xs))" using Put by (intro card_mono) auto
    with Cons.IH [of t] Cons.prems prems Put
    have ih: "agrees t ?c (ideal_after m xs)" "fst ` set ?c \<subseteq> put_keys xs" by simp_all
    have pos: "0 < cap" using Cons.prems(1) Put by (simp add: card_gt_0_iff Suc_le_eq card_insert_if split: if_splits)
        (metis card_gt_0_iff finite_put_keys empty_iff order_less_le_trans)
    have room: "length ?c < cap" if "map_of ?c k = None"
    proof -
      have "length ?c = card (fst ` set ?c)"
        using after_bounded [of cap m xs] distinct_card [of "map fst ?c"] by (simp add: distinct_keys_def)
      moreover have "fst ` set ?c \<subset> put_keys (x # xs)"
        using ih(2) that Put by (auto simp: map_of_eq_None_iff)
      ultimately have "length ?c < card (put_keys (x # xs))" by (simp add: psubset_card_mono)
      with Cons.prems(1) show ?thesis by linarith
    qed
    then have same: "make_room cap k t ?c = ?c" by (auto simp: make_room_def)
    have later: "agrees now ?c (ideal_after m xs)" by (rule agrees_later [OF ih(1)]) (use prems Put in simp)
    show ?thesis
    proof (cases "m < t + lifetime")
      case True
      with later ih(2) Put show ?thesis by auto
    next
      case False
      have "agrees now (AList.update k (v, t + lifetime) ?c) ((ideal_after m xs)(k \<mapsto> (v, t + lifetime)))"
        using later by (auto simp: agrees_def update_conv')
      moreover have "fst ` set (AList.update k (v, t + lifetime) ?c) \<subseteq> put_keys (x # xs)"
        using ih(2) Put by (auto simp: dom_update)
      ultimately show ?thesis using False Put pos same by (simp add: cache_insert_fits fun_upd_def)
    qed
  qed
qed

text \<open>With no assumption at all the table holds nothing that the abstract cache does not.\<close>

lemma map_of_filter_keys: "distinct_keys c \<Longrightarrow> map_of (filter P c) k = Some x \<Longrightarrow> map_of c k = Some x"
  by (auto simp: distinct_keys_def map_of_eq_Some_iff distinct_map_filter)

lemma make_room_sub: "distinct_keys c \<Longrightarrow> map_of (make_room cap k now c) k' = Some x \<Longrightarrow> map_of c k' = Some x"
  by (auto simp: make_room_def Let_def AList.delete_conv' intro: map_of_filter_keys split: if_splits option.splits)

lemma get_sub: "map_of (snd (cache_get k' now c)) k = Some x \<Longrightarrow> map_of c k = Some x"
  by (cases "k = k'") (auto simp: cache_get_def AList.delete_conv' split: option.splits if_splits)

lemma insert_sub:
  "distinct_keys c \<Longrightarrow> map_of (cache_insert cap m k v ttl now c) k' = Some x \<Longrightarrow>
     map_of c k' = Some x \<or> (k' = k \<and> x = (v, now + ttl) \<and> \<not> m < now + ttl)"
  using make_room_sub [of c cap k now k' x] by (auto simp: cache_insert_def update_conv' split: if_splits)

lemma insert_sets:
  "map_of (cache_insert cap m k v ttl now c) k = Some x \<Longrightarrow> \<not> m < now + ttl \<Longrightarrow> 0 < cap \<Longrightarrow> x = (v, now + ttl)"
  by (simp add: cache_insert_def update_conv')

lemma never_ahead: "map_of (bounded.after cap m xs) k = Some x \<Longrightarrow> ideal_after m xs k = Some x"
proof (induction xs arbitrary: k x)
  case (Cons e xs)
  have keys: "distinct_keys (bounded.after cap m xs)" using after_bounded by blast
  show ?case
  proof (cases e)
    case (Get k' now)
    from Cons.prems have "map_of (bounded.after cap m xs) k = Some x" unfolding Get bounded.after.simps by (rule get_sub)
    with Cons.IH Get show ?thesis by simp
  next
    case (Put k' v ttl now)
    let ?c = "bounded.after cap m xs"
    from Cons.prems have at: "map_of (cache_insert cap m k' v ttl now ?c) k = Some x" unfolding Put bounded.after.simps .
    show ?thesis
    proof (cases "k = k' \<and> \<not> m < now + ttl")
      case True
      have "?c = []" if "cap = 0" using that after_bounded [of cap m xs] by simp
      with True at have "0 < cap" by (cases cap) (auto simp: cache_insert_def)
      with insert_sets [of cap m k v ttl now ?c x] True at Put show ?thesis by simp
    next
      case False
      with insert_sub [OF keys at] have "map_of ?c k = Some x" by blast
      then have "ideal_after m xs k = Some x" by (rule Cons.IH)
      with False Put show ?thesis by simp
    qed
  qed
qed simp

text \<open>What an insertion drops besides: only the live entry that expires soonest, and only from a full table.\<close>

lemma map_filter_delete: "distinct_keys c \<Longrightarrow> (k, x) \<in> set c \<Longrightarrow> (k, x) \<notin> set (AList.delete k' c) \<Longrightarrow> k = k'"
  by (auto simp: AList.delete_eq)

lemma make_room_drops:
  assumes "distinct_keys c" and "(k', v', e') \<in> set c" and "(k', v', e') \<notin> set (make_room cap k t c)" and "t < e'"
  shows "cap \<le> length (filter (\<lambda>(_, _, e). t < e) c) \<and> (\<forall>(_, _, e) \<in> set c. t < e \<longrightarrow> e' \<le> e)"
proof -
  let ?live = "filter (\<lambda>(_, _, e). t < e) c"
  have live: "(k', v', e') \<in> set ?live" using assms(2,4) by simp
  then have "?live \<noteq> []" by (cases ?live) (simp, simp)
  with live assms(2,3) have full: "cap \<le> length ?live" "\<exists>k2 e2. soonest ?live = Some (k2, e2) \<and> (k', v', e') \<notin> set (AList.delete k2 ?live)"
    unfolding make_room_def Let_def by (auto simp del: filter_set set_filter split: if_splits option.splits)
  then obtain k2 e2 where so: "soonest ?live = Some (k2, e2)" "(k', v', e') \<notin> set (AList.delete k2 ?live)" by blast
  have keys: "distinct_keys ?live" by (rule distinct_filter_keys [OF assms(1)])
  from map_filter_delete [OF keys live so(2)] have "k' = k2" .
  with soonest_least [OF so(1)] live keys have "e' = e2"
    by (auto simp: distinct_keys_def dest: eq_key_imp_eq_value)
  with soonest_least [OF so(1)] full(1) show ?thesis by fastforce
qed

lemma update_keeps: "distinct_keys c \<Longrightarrow> x \<in> set c \<Longrightarrow> fst x \<noteq> k \<Longrightarrow> x \<in> set (AList.update k v c)"
  by (induction c) (auto simp: distinct_keys_def)

text \<open>
  C38: the cache never answers what one without a bound, which forgets only what has expired, would not
  answer. As long as no more keys are used than there is room for, and the clock does not run backwards, it
  answers whenever that one does. It never holds more entries than its bound; an insertion into a full
  table drops, besides expired entries and the one it replaces, at most one that expires soonest.
\<close>

theorem cache_refines_ideal:
  shows "(\<forall>k now v. fst (cache_get k now (bounded.after cap m xs)) = Some v \<longrightarrow> ideal_get m xs k now = Some v)
    \<and> (\<forall>k now. card (put_keys xs) \<le> cap \<and> in_time (Get k now # xs)
        \<longrightarrow> fst (cache_get k now (bounded.after cap m xs)) = ideal_get m xs k now)
    \<and> length (bounded.after cap m xs) \<le> cap
    \<and> (\<forall>k v ttl t k' v' e'. (k', v', e') \<in> set (bounded.after cap m xs) \<and> k' \<noteq> k \<and> t < e'
          \<and> (k', v', e') \<notin> set (bounded.after cap m (Put k v ttl t # xs)) \<longrightarrow>
        cap \<le> length (filter (\<lambda>(_, _, e). t < e) (bounded.after cap m xs))
        \<and> (\<forall>(_, _, e) \<in> set (bounded.after cap m xs). t < e \<longrightarrow> e' \<le> e))"
proof (intro conjI allI impI)
  fix k now v
  assume "fst (cache_get k now (bounded.after cap m xs)) = Some v"
  then obtain e where "map_of (bounded.after cap m xs) k = Some (v, e)" "now < e"
    by (auto simp: cache_get_def split: option.splits if_splits)
  with never_ahead show "ideal_get m xs k now = Some v" by (force simp: ideal_get_def)
next
  fix k now
  assume room: "card (put_keys xs) \<le> cap \<and> in_time (Get k now # xs)"
  then have "in_time xs" "\<forall>x \<in> set xs. event_time x \<le> now" by (simp_all add: in_time_def)
  from cache_agrees [OF conjunct1 [OF room] this] show "fst (cache_get k now (bounded.after cap m xs)) = ideal_get m xs k now"
    by (simp add: agrees_answer ideal_get_def)
next
  show "length (bounded.after cap m xs) \<le> cap" using after_bounded by blast
next
  fix k v ttl t k' v' e'
  let ?c = "bounded.after cap m xs"
  assume gone: "(k', v', e') \<in> set ?c \<and> k' \<noteq> k \<and> t < e' \<and> (k', v', e') \<notin> set (bounded.after cap m (Put k v ttl t # xs))"
  have keys: "distinct_keys ?c" using after_bounded by blast
  have "(k', v', e') \<notin> set (make_room cap k t ?c)"
    using gone update_keeps [OF make_room_keys [OF keys], of "(k', v', e')" cap k t k]
    by (auto simp: cache_insert_def split: if_splits)
  then have "cap \<le> length (filter (\<lambda>(_, _, e). t < e) ?c) \<and> (\<forall>(_, _, e) \<in> set ?c. t < e \<longrightarrow> e' \<le> e)"
    by (rule make_room_drops [OF keys conjunct1 [OF gone]]) (use gone in simp)
  then show "cap \<le> length (filter (\<lambda>(_, _, e). t < e) ?c)"
    and "\<forall>(_, _, e) \<in> set ?c. t < e \<longrightarrow> e' \<le> e" by (rule conjunct1, rule conjunct2)
qed

definition sample_events :: "cache_event list" where
  "sample_events = [Get ''tx:1'' 7, Put ''tx:1'' (JInt 2) 10 6, Get ''tx:1'' 5, Put ''rates:1'' (JInt 9) 50 2, Put ''tx:1'' (JInt 1) 3 1]"

theorem cache_refines_ideal_witness:
  "fst (cache_get ''tx:1'' 12 (bounded.after 2 1000 sample_events)) = Some (JInt 2)
    \<and> fst (cache_get ''tx:1'' 16 (bounded.after 2 1000 sample_events)) = None"
proof -
  have "fst (cache_get ''tx:1'' now (bounded.after 2 1000 sample_events)) = ideal_get 1000 sample_events ''tx:1'' now" if "7 \<le> now" for now
  proof -
    have "card (put_keys sample_events) \<le> 2 \<and> in_time (Get ''tx:1'' now # sample_events)"
      using that by (simp add: sample_events_def in_time_def card_insert_if)
    then show ?thesis by (rule mp [OF spec [OF spec [OF conjunct1 [OF conjunct2 [OF cache_refines_ideal]]]]])
  qed
  from this [of 12] this [of 16] show ?thesis by (simp add: sample_events_def ideal_get_def del: bounded.after.simps)
qed

text \<open>The property has an implication inside, so it is applied once.\<close>

theorem cache_bounded_and_fresh_witness:
  "length (bounded.after 1 1000 [Put ''rates:1'' (JInt 9) 50 2, Put ''tx:1'' (JInt 1) 3 1]) \<le> 1
    \<and> fst (cache_get ''rates:1'' 4 (bounded.after 1 1000 [Put ''rates:1'' (JInt 9) 50 2, Put ''tx:1'' (JInt 1) 3 1])) = Some (JInt 9)"
  using cache_bounded_and_fresh [of 1 1000 "[Put ''rates:1'' (JInt 9) 50 2, Put ''tx:1'' (JInt 1) 3 1]"]
  by (simp add: cache_insert_def make_room_def cache_get_def)

end
