(* ===== verification/Pipeline.thy ===== *)
theory Pipeline
  imports Catalog ResponseCache "HOL-Library.Countable"
begin

text \<open>
  The decorator chain around every tool (\<open>App\<close> in \<open>crates/app/src/app.rs\<close>, \<open>OpMetrics\<close> in
  \<open>crates/app/src/metrics.rs\<close>): visibility, admission, response cache, the tool, scrubbing, metrics,
  the observer, and the bare output of legacy tools.

  The guard is a parameter (the hosted guard is modelled in \<open>Hosted\<close>), and so is the text of a
  JSON value. A call reads the clock when it starts, when it looks the cache up and when it ends.
\<close>

section \<open>State\<close>

record op_stats =
  os_calls :: u64
  os_errors :: u64
  os_cache_hits :: u64
  os_latency_ms :: u64

definition no_stats :: op_stats where
  "no_stats = \<lparr>os_calls = 0, os_errors = 0, os_cache_hits = 0, os_latency_ms = 0\<rparr>"

definition record_op :: "string \<Rightarrow> bool \<Rightarrow> bool \<Rightarrow> duration \<Rightarrow> (string \<times> op_stats) list \<Rightarrow> (string \<times> op_stats) list" where
  "record_op name succeeded cached latency m = bt_alter no_stats name (\<lambda>s.
     s\<lparr>os_calls := os_calls s + 1,
       os_errors := os_errors s + (if succeeded then 0 else 1),
       os_cache_hits := os_cache_hits s + (if cached then 1 else 0),
       os_latency_ms := os_latency_ms s + as_millis latency\<rparr>) m"

type_synonym 'g call_guard = "caller \<Rightarrow> string \<Rightarrow> clock \<Rightarrow> 'g \<Rightarrow> (domain_error + unit) \<times> 'g"

record ('w, 'g) app =
  app_catalog :: "'w catalog"
  app_config :: loaded
  app_guard :: "'g call_guard option"
  app_cap :: nat
  app_json_text :: "json \<Rightarrow> string"
  app_clock_max :: nat

text \<open>What the observer is told of a call.\<close>

record observed =
  ob_caller :: caller
  ob_name :: string
  ob_result :: "domain_error + json"
  ob_latency :: duration

record ('w, 'g) app_state =
  ap_cache :: cache
  ap_metrics :: "(string \<times> op_stats) list"
  ap_guard :: 'g
  ap_world :: 'w
  ap_observed :: "observed list"

record request =
  ask_name :: string
  ask_input :: json
  ask_caller :: caller
  ask_start :: clock
  ask_lookup :: clock
  ask_done :: clock

definition latency_at :: "request \<Rightarrow> clock \<Rightarrow> duration" where
  "latency_at r c = inst c - inst (ask_start r)"

section \<open>The steps of a call\<close>

definition find_tool :: "('w, 'g) app \<Rightarrow> request \<Rightarrow> domain_error + 'w tool" where
  "find_tool a r = ok_or (new_error InvalidInput (''unknown tool '' @ quoted (ask_name r)))
     (find_visible (app_catalog a) (app_config a) (ask_caller r) (ask_name r))"

definition admit_call :: "('w, 'g) app \<Rightarrow> request \<Rightarrow> ('w, 'g) app_state \<Rightarrow> (domain_error + unit) \<times> ('w, 'g) app_state" where
  "admit_call a r st = (case app_guard a of
       None \<Rightarrow> (Inr (), st)
     | Some g \<Rightarrow> let (v, s) = g (ask_caller r) (ask_name r) (ask_start r) (ap_guard st)
         in (v, st\<lparr>ap_guard := s\<rparr>))"

definition ttl_of :: "loaded \<Rightarrow> 'w tool \<Rightarrow> string \<Rightarrow> duration option" where
  "ttl_of l t name = (case or_opt (map_option (from_secs \<circ> unat) (os_cache_ttl_secs (operation l name))) (tool_cache_ttl t) of
       Some d \<Rightarrow> if d = 0 then None else Some d
     | None \<Rightarrow> None)"

definition cache_key :: "('w, 'g) app \<Rightarrow> request \<Rightarrow> string" where
  "cache_key a r = ask_name r @ '':'' @ app_json_text a (ask_input r)"

fun mark_cached :: "json \<Rightarrow> json" where
  "mark_cached (JObj m) = (case map_of m ''meta'' of
       Some (JObj meta) \<Rightarrow> JObj (AList.update ''meta'' (JObj (bt_alter JNull ''source'' (\<lambda>_. JStr ''cache'')
           (bt_alter JNull ''cached'' (\<lambda>_. JBool True) meta))) m)
     | _ \<Rightarrow> JObj m)"
| "mark_cached v = v"

text \<open>The tool itself, with its error scrubbed; a success is cached when it has a time to live.\<close>

definition run_tool :: "('w, 'g) app \<Rightarrow> 'w tool \<Rightarrow> request \<Rightarrow> ('w, 'g) app_state \<Rightarrow> json outcome \<times> ('w, 'g) app_state" where
  "run_tool a t r st =
     (case tool_call t (ask_input r) (ap_world st) of
        (Panicked m, w) \<Rightarrow> (Panicked m, st\<lparr>ap_world := w\<rparr>)
      | (Done res, w) \<Rightarrow>
          let res = map_err (\<lambda>e. e\<lparr>message := scrub (app_config a) (message e)\<rparr>) res;
              st = st\<lparr>ap_world := w,
                ap_metrics := record_op (ask_name r) (is_ok res) False (latency_at r (ask_done r)) (ap_metrics st)\<rparr>
          in (Done res, case (res, ttl_of (app_config a) t (ask_name r)) of
                (Inr v, Some ttl) \<Rightarrow> st\<lparr>ap_cache := cache_insert (app_cap a) (app_clock_max a) (cache_key a r) v ttl
                    (inst (ask_done r)) (ap_cache st)\<rparr>
              | _ \<Rightarrow> st))"

definition lookup :: "('w, 'g) app \<Rightarrow> 'w tool \<Rightarrow> request \<Rightarrow> ('w, 'g) app_state \<Rightarrow> json option \<times> ('w, 'g) app_state" where
  "lookup a t r st = (case ttl_of (app_config a) t (ask_name r) of
       None \<Rightarrow> (None, st)
     | Some _ \<Rightarrow> let (hit, c) = cache_get (cache_key a r) (inst (ask_lookup r)) (ap_cache st)
         in (hit, st\<lparr>ap_cache := c\<rparr>))"

definition call_inner :: "('w, 'g) app \<Rightarrow> request \<Rightarrow> ('w, 'g) app_state \<Rightarrow> json outcome \<times> ('w, 'g) app_state" where
  "call_inner a r st = (case find_tool a r of
       Inl e \<Rightarrow> (Done (Inl e), st)
     | Inr t \<Rightarrow> (case admit_call a r st of
         (Inl e, st) \<Rightarrow> (Done (Inl e), st)
       | (Inr _, st) \<Rightarrow> (case lookup a t r st of
           (Some hit, st) \<Rightarrow> (Done (Inr (mark_cached hit)), st\<lparr>ap_metrics :=
               record_op (ask_name r) True True (latency_at r (ask_lookup r)) (ap_metrics st)\<rparr>)
         | (None, st) \<Rightarrow> run_tool a t r st)))"

definition strip_envelope :: "json \<Rightarrow> json" where
  "strip_envelope v = (case v of JObj m \<Rightarrow> (case map_of m ''data'' of Some d \<Rightarrow> d | None \<Rightarrow> v) | _ \<Rightarrow> v)"

definition call_tool :: "('w, 'g) app \<Rightarrow> request \<Rightarrow> ('w, 'g) app_state \<Rightarrow> (domain_error + json) \<times> ('w, 'g) app_state" where
  "call_tool a r st =
     (let (out, st) = call_inner a r st;
          (res, st) = (case out of
              Done res \<Rightarrow> (res, st)
            | Panicked _ \<Rightarrow> (Inl (internal ''internal error; see server log''),
                st\<lparr>ap_metrics := record_op (ask_name r) False False (latency_at r (ask_done r)) (ap_metrics st)\<rparr>));
          st = st\<lparr>ap_observed := ap_observed st @ [\<lparr>ob_caller = ask_caller r, ob_name = ask_name r, ob_result = res,
                 ob_latency = latency_at r (ask_done r)\<rparr>]\<rparr>
      in (if (case map_of (app_catalog a) (ask_name r) of Some t \<Rightarrow> tool_legacy t | None \<Rightarrow> False)
          then map_sum id strip_envelope res else res, st))"

definition app_run :: "('w, 'g) app \<Rightarrow> request list \<Rightarrow> ('w, 'g) app_state \<Rightarrow> ('w, 'g) app_state" where
  "app_run a rs st = foldl (\<lambda>st r. snd (call_tool a r st)) st rs"


section \<open>Nothing runs unadmitted\<close>

definition admitted :: "('w, 'g) app \<Rightarrow> request \<Rightarrow> 'g \<Rightarrow> bool" where
  "admitted a r g \<longleftrightarrow> is_ok (find_tool a r)
     \<and> (case app_guard a of None \<Rightarrow> True | Some f \<Rightarrow> is_ok (fst (f (ask_caller r) (ask_name r) (ask_start r) g)))"

lemma refused_inner:
  assumes "\<not> admitted a r (ap_guard st)"
  shows "\<exists>e g. call_inner a r st = (Done (Inl e), st\<lparr>ap_guard := g\<rparr>)"
proof (cases "find_tool a r")
  case (Inl e)
  then show ?thesis by (auto simp: call_inner_def intro!: exI [of _ "ap_guard st"])
next
  case (Inr t)
  with assms obtain f where f: "app_guard a = Some f" by (auto simp: admitted_def split: option.splits)
  obtain v s where v: "f (ask_caller r) (ask_name r) (ask_start r) (ap_guard st) = (v, s)" by fastforce
  with assms Inr f obtain e where "v = Inl e" by (cases v) (auto simp: admitted_def)
  with Inr f v show ?thesis by (auto simp: call_inner_def admit_call_def)
qed

text \<open>
  C35: A call that is not admitted - its tool is not among those the caller may see, or the guard
  refuses it - fails, runs no tool, reads and writes no cached answer and counts in no metric.
\<close>

theorem refused_calls_do_nothing:
  assumes "\<not> admitted a r (ap_guard st)"
  shows "\<not> is_ok (fst (call_tool a r st)) \<and> ap_world (snd (call_tool a r st)) = ap_world st
    \<and> ap_cache (snd (call_tool a r st)) = ap_cache st \<and> ap_metrics (snd (call_tool a r st)) = ap_metrics st"
  using refused_inner [OF assms] by (auto simp: call_tool_def Let_def split: if_splits)

section \<open>Cached answers are true\<close>

text \<open>The value and expiry of a call that reached its tool and got a result to keep.\<close>

definition fresh :: "('w, 'g) app \<Rightarrow> ('w, 'g) app_state \<Rightarrow> request \<Rightarrow> (json \<times> nat) option" where
  "fresh a st r = (case find_tool a r of
       Inl _ \<Rightarrow> None
     | Inr t \<Rightarrow> (case admit_call a r st of
         (Inl _, _) \<Rightarrow> None
       | (Inr _, st1) \<Rightarrow> (case lookup a t r st1 of
           (Some _, _) \<Rightarrow> None
         | (None, st2) \<Rightarrow> (case fst (run_tool a t r st2) of
             Done (Inr v) \<Rightarrow> map_option (\<lambda>ttl. (v, inst (ask_done r) + ttl)) (ttl_of (app_config a) t (ask_name r))
           | _ \<Rightarrow> None))))"

lemma admit_frame:
  "admit_call a r st = (v, st') \<Longrightarrow> ap_cache st' = ap_cache st"
  by (auto simp: admit_call_def Let_def split: option.splits prod.splits)

lemma lookup_cache: "lookup a t r st = (hit, st') \<Longrightarrow> set (ap_cache st') \<subseteq> set (ap_cache st)"
  using bounded.get_entries [of "cache_key a r" "inst (ask_lookup r)" "ap_cache st"]
  by (auto simp: lookup_def Let_def case_prod_unfold split: option.splits)

lemma run_tool_cache:
  assumes "run_tool a t r st = (out, st')"
  shows "set (ap_cache st') \<subseteq> set (ap_cache st) \<union> {(cache_key a r, v, inst (ask_done r) + ttl) | v ttl.
    out = Done (Inr v) \<and> ttl_of (app_config a) t (ask_name r) = Some ttl}"
proof -
  note put = bounded.put_entries [of "app_cap a" "app_clock_max a" "cache_key a r" _ _ "inst (ask_done r)" "ap_cache st"]
  show ?thesis
  proof (cases "tool_call t (ask_input r) (ap_world st)")
    case (Pair o1 w)
    then show ?thesis
    proof (cases o1)
      case (Done res)
      then show ?thesis
      proof (cases res)
        case (Inr v)
        show ?thesis
        proof (cases "ttl_of (app_config a) t (ask_name r)")
          case (Some d)
          with Inr Done Pair assms have "out = Done (Inr v)"
            "ap_cache st' = cache_insert (app_cap a) (app_clock_max a) (cache_key a r) v d (inst (ask_done r)) (ap_cache st)"
            by (auto simp: run_tool_def Let_def)
          with put [of v d] Some show ?thesis by auto
        qed (use Inr Done Pair assms in \<open>auto simp: run_tool_def Let_def\<close>)
      qed (use Done Pair assms in \<open>auto simp: run_tool_def Let_def\<close>)
    qed (use Pair assms in \<open>auto simp: run_tool_def\<close>)
  qed
qed

lemma call_inner_cache:
  "set (ap_cache (snd (call_inner a r st))) \<subseteq> set (ap_cache st) \<union>
    {(cache_key a r, v, e) | v e. fresh a st r = Some (v, e)}"
proof (cases "find_tool a r")
  case (Inl e)
  then show ?thesis by (simp add: call_inner_def)
next
  case (Inr t)
  obtain v st1 where adm: "admit_call a r st = (v, st1)" by fastforce
  show ?thesis
  proof (cases v)
    case Inl': (Inl e)
    with Inr adm admit_frame [OF adm] show ?thesis by (auto simp: call_inner_def)
  next
    case ok: (Inr u)
    obtain hit st2 where look: "lookup a t r st1 = (hit, st2)" by fastforce
    have sub: "set (ap_cache st2) \<subseteq> set (ap_cache st)" using lookup_cache [OF look] admit_frame [OF adm] by simp
    show ?thesis
    proof (cases hit)
      case None
      obtain out st3 where run: "run_tool a t r st2 = (out, st3)" by fastforce
      have "fresh a st r = (case out of Done (Inr v) \<Rightarrow> map_option (\<lambda>ttl. (v, inst (ask_done r) + ttl))
          (ttl_of (app_config a) t (ask_name r)) | _ \<Rightarrow> None)"
        by (simp add: fresh_def Inr adm ok look None run)
      then show ?thesis using run_tool_cache [OF run] sub
        by (auto simp: call_inner_def Inr adm ok look None run)
    next
      case (Some h)
      with sub Inr adm ok look show ?thesis by (auto simp: call_inner_def)
    qed
  qed
qed

lemma call_tool_cache: "ap_cache (snd (call_tool a r st)) = ap_cache (snd (call_inner a r st))"
  by (auto simp: call_tool_def Let_def split: prod.split outcome.split)

lemma app_run_snoc [simp]: "app_run a (rs @ [r]) st = snd (call_tool a r (app_run a rs st))"
  by (simp add: app_run_def)

lemma cache_justified:
  assumes "ap_cache st0 = []" and "(k, v, e) \<in> set (ap_cache (app_run a rs st0))"
  shows "\<exists>i < length rs. cache_key a (rs ! i) = k \<and> fresh a (app_run a (take i rs) st0) (rs ! i) = Some (v, e)"
  using assms(2)
proof (induction rs rule: rev_induct)
  case Nil
  then show ?case using assms(1) by (simp add: app_run_def)
next
  case (snoc r rs)
  from snoc.prems call_inner_cache [of a r "app_run a rs st0"]
  have "(k, v, e) \<in> set (ap_cache (app_run a rs st0))
      \<or> (k = cache_key a r \<and> fresh a (app_run a rs st0) r = Some (v, e))"
    by (auto simp: call_tool_cache)
  then show ?case
  proof
    assume "(k, v, e) \<in> set (ap_cache (app_run a rs st0))"
    from snoc.IH [OF this] show ?thesis by (auto simp: nth_append less_Suc_eq)
  next
    assume "k = cache_key a r \<and> fresh a (app_run a rs st0) r = Some (v, e)"
    then show ?thesis by (auto intro!: exI [of _ "length rs"])
  qed
qed

lemma find_tool_name:
  assumes "catalog_ok (app_catalog a)" and "find_tool a r = Inr t"
  shows "ask_name r \<in> fst ` set (app_catalog a)"
  using assms find_visible_iff [OF assms(1), of "app_config a" "ask_caller r" "ask_name r" t]
  by (force simp: find_tool_def dest: map_of_SomeD)

lemma cache_key_inject:
  assumes "CHR '':'' \<notin> set (ask_name r)" and "CHR '':'' \<notin> set (ask_name q)" and "inj (app_json_text a)"
    and "cache_key a r = cache_key a q"
  shows "ask_name r = ask_name q \<and> ask_input r = ask_input q"
proof -
  have "split_once (CHR '':'') (cache_key a r) = Some (ask_name r, app_json_text a (ask_input r))"
    "split_once (CHR '':'') (cache_key a q) = Some (ask_name q, app_json_text a (ask_input q))"
    using assms(1,2) by (simp_all add: cache_key_def split_once_append)
  with assms(3,4) show ?thesis by (simp add: inj_eq)
qed

text \<open>
  C36: an answer from the cache is true. Whatever calls came before, a hit is the answer that an
  admitted call of the same tool with the same input got from that tool, and its time to live has
  not passed. Tool names hold no colon and different JSON values have different texts.
\<close>

theorem cached_answers_true:
  assumes "ap_cache st0 = []" and "st = app_run a rs st0"
    and "catalog_ok (app_catalog a)" and "\<forall>(k, t) \<in> set (app_catalog a). CHR '':'' \<notin> set k"
    and "inj (app_json_text a)"
    and "find_tool a r = Inr t" and "admit_call a r st = (Inr u, st1)" and "lookup a t r st1 = (Some v, st2)"
  shows "fst (call_inner a r st) = Done (Inr (mark_cached v))
    \<and> (\<exists>i e. i < length rs \<and> ask_name (rs ! i) = ask_name r \<and> ask_input (rs ! i) = ask_input r
        \<and> fresh a (app_run a (take i rs) st0) (rs ! i) = Some (v, e) \<and> inst (ask_lookup r) < e)"
proof
  show "fst (call_inner a r st) = Done (Inr (mark_cached v))"
    using assms(6-8) by (simp add: call_inner_def)
  have "fst (cache_get (cache_key a r) (inst (ask_lookup r)) (ap_cache st1)) = Some v"
    using assms(8) by (auto simp: lookup_def Let_def case_prod_unfold split: option.splits)
  then obtain c' where "cache_get (cache_key a r) (inst (ask_lookup r)) (ap_cache st) = (Some v, c')"
    using admit_frame [OF assms(7)] by (cases "cache_get (cache_key a r) (inst (ask_lookup r)) (ap_cache st1)") auto
  from bounded.get_answer [OF this] obtain e where
    e: "(cache_key a r, v, e) \<in> set (ap_cache (app_run a rs st0))" "inst (ask_lookup r) < e" using assms(2) by auto
  from cache_justified [OF assms(1) e(1)] obtain i where
    i: "i < length rs" "cache_key a (rs ! i) = cache_key a r" "fresh a (app_run a (take i rs) st0) (rs ! i) = Some (v, e)"
    by blast
  then obtain t' where "find_tool a (rs ! i) = Inr t'" by (auto simp: fresh_def split: sum.splits)
  from find_tool_name [OF assms(3) this] find_tool_name [OF assms(3,6)] assms(4)
  have "CHR '':'' \<notin> set (ask_name (rs ! i))" "CHR '':'' \<notin> set (ask_name r)" by auto
  from cache_key_inject [OF this assms(5) i(2)] i e(2)
  show "\<exists>i e. i < length rs \<and> ask_name (rs ! i) = ask_name r \<and> ask_input (rs ! i) = ask_input r
      \<and> fresh a (app_run a (take i rs) st0) (rs ! i) = Some (v, e) \<and> inst (ask_lookup r) < e" by blast
qed

section \<open>Errors hold no secret\<close>

lemma run_tool_error:
  assumes "fst (run_tool a t r st) = Done (Inl e)"
  shows "\<exists>m. message e = scrub (app_config a) m"
proof -
  obtain o1 w where call: "tool_call t (ask_input r) (ap_world st) = (o1, w)" by fastforce
  show ?thesis
  proof (cases o1)
    case (Done res)
    with assms call have "map_err (\<lambda>e. e\<lparr>message := scrub (app_config a) (message e)\<rparr>) res = Inl e"
      by (simp add: run_tool_def Let_def)
    then obtain e0 where "e = e0\<lparr>message := scrub (app_config a) (message e0)\<rparr>" by (cases res) auto
    then show ?thesis by (intro exI [of _ "message e0"]) simp
  next
    case (Panicked m)
    with assms call show ?thesis by (simp add: run_tool_def)
  qed
qed

lemma admitted_admit:
  assumes "admitted a r (ap_guard st)"
  shows "\<exists>u st1. admit_call a r st = (Inr u, st1)"
proof (cases "app_guard a")
  case None
  then show ?thesis by (simp add: admit_call_def)
next
  case (Some f)
  obtain v s where v: "f (ask_caller r) (ask_name r) (ask_start r) (ap_guard st) = (v, s)" by fastforce
  with assms Some have "is_ok v" by (simp add: admitted_def)
  with Some v show ?thesis by (cases v) (simp_all add: admit_call_def)
qed

text \<open>
  C37: the message of an error that an admitted call returns holds no secret of the configuration of at
  least six characters, whatever the tool reported; and where the tool panicked it is a fixed text, whatever
  the panic said. This is of secrets without asterisks, which mask them; and of the message: a hint is
  passed on as the tool wrote it.
\<close>

theorem errors_hide_secrets:
  assumes "list_all star_free (secret_values (app_config a))" and "s \<in> set (secret_values (app_config a))"
    and "6 \<le> length s" and "admitted a r (ap_guard st)" and "fst (call_tool a r st) = Inl e"
  shows "\<not> contains s (message e) \<or> ((\<exists>m. fst (call_inner a r st) = Panicked m) \<and> e = internal ''internal error; see server log'')"
proof -
  have hidden: "\<not> contains s (scrub (app_config a) m)" for m
    unfolding scrub_def scrub_text_def
    by (rule foldl_replace_absent) (use assms(1-3) in \<open>auto simp: list_all_iff\<close>)
  obtain t where t: "find_tool a r = Inr t" using assms(4) by (cases "find_tool a r") (auto simp: admitted_def)
  obtain u st1 where adm: "admit_call a r st = (Inr u, st1)" using admitted_admit [OF assms(4)] by blast
  obtain hit st2 where look: "lookup a t r st1 = (hit, st2)" by fastforce
  obtain out st3 where inner: "call_inner a r st = (out, st3)" by fastforce
  show ?thesis
  proof (cases out)
    case (Done res)
    with inner assms(5) have res: "res = Inl e"
      by (cases res) (auto simp: call_tool_def Let_def split: if_splits)
    with Done inner t adm look have "hit = None" by (cases hit) (auto simp: call_inner_def)
    with Done res inner t adm look have "fst (run_tool a t r st2) = Done (Inl e)" by (simp add: call_inner_def)
    from run_tool_error [OF this] hidden show ?thesis by auto
  next
    case (Panicked m)
    with inner assms(5) have "e = internal ''internal error; see server log''"
      by (auto simp: call_tool_def Let_def split: if_splits)
    with Panicked inner show ?thesis by simp
  qed
qed


section \<open>A small application\<close>

instance json :: countable
  by countable_datatype

text \<open>Some injective text of JSON values.\<close>

definition json_number :: "json \<Rightarrow> string" where
  "json_number v = show_nat (to_nat v)"

lemma inj_json_number: "inj json_number"
  by (rule injI) (metis json_number_def read_show_nat from_nat_to_nat)

text \<open>A tool that counts its runs, and one that fails with a secret in its message.\<close>

definition counting_tool :: "nat tool" where
  "counting_tool = \<lparr>tool_name = ''chain_list'', tool_domain = DomChain, tool_profiles = all_profiles,
     tool_read_only = True, tool_legacy = False, tool_cache_ttl = Some (from_secs 60),
     tool_call = (\<lambda>_ n. (Done (Inr (JObj [(''data'', JInt (int n)), (''meta'', JObj [])])), n + 1))\<rparr>"

definition failing_tool :: "nat tool" where
  "failing_tool = \<lparr>tool_name = ''tx_get'', tool_domain = DomTx, tool_profiles = [],
     tool_read_only = True, tool_legacy = False, tool_cache_ttl = None,
     tool_call = (\<lambda>_ n. (Done (Inl (internal ''no route to https://node/abcdef123456'')), n))\<rparr>"

definition sample_app :: "(nat, unit) app" where
  "sample_app = \<lparr>app_catalog = [(''chain_list'', counting_tool), (''tx_get'', failing_tool)],
     app_config = sample_loaded, app_guard = None, app_cap = 10, app_json_text = json_number,
     app_clock_max = 2 ^ 63\<rparr>"

definition idle_state :: "(nat, unit) app_state" where
  "idle_state = \<lparr>ap_cache = [], ap_metrics = [], ap_guard = (), ap_world = 7, ap_observed = []\<rparr>"

definition sample_ask :: "string \<Rightarrow> nat \<Rightarrow> request" where
  "sample_ask name t = \<lparr>ask_name = name, ask_input = JNull, ask_caller = local_caller,
     ask_start = \<lparr>inst = t, utc = 0\<rparr>, ask_lookup = \<lparr>inst = t, utc = 0\<rparr>, ask_done = \<lparr>inst = t, utc = 0\<rparr>\<rparr>"

lemma sample_find:
  "find_tool sample_app (sample_ask ''chain_list'' t) = Inr counting_tool"
  "find_tool sample_app (sample_ask ''tx_get'' t) = Inr failing_tool"
  by (simp_all add: find_tool_def find_visible_def visible_def sample_app_def sample_ask_def local_caller_def
      selection_of_config_def sample_loaded_def sample_settings_def parse_selection_def included_def operation_def
      counting_tool_def failing_tool_def default_operation_def default_server_def)


text \<open>A caller whose selection is empty sees no tool.\<close>

definition blind_ask :: request where
  "blind_ask = (sample_ask ''chain_list'' 0)\<lparr>ask_caller := \<lparr>caller_client = Some ''c_1'', caller_profile = Some (SelCustom [])\<rparr>\<rparr>"

theorem refused_calls_do_nothing_witness:
  "\<not> is_ok (fst (call_tool sample_app blind_ask idle_state))
    \<and> ap_world (snd (call_tool sample_app blind_ask idle_state)) = 7"
proof -
  have "\<not> admitted sample_app blind_ask (ap_guard idle_state)"
    by (simp add: admitted_def find_tool_def find_visible_def visible_def sample_app_def blind_ask_def
        sample_ask_def included_def)
  from refused_calls_do_nothing [OF this] show ?thesis by (simp add: idle_state_def)
qed

lemma sample_ttl: "ttl_of sample_loaded counting_tool ''chain_list'' = Some (from_secs 60)"
  by (simp add: ttl_of_def operation_def sample_loaded_def sample_settings_def default_operation_def
      counting_tool_def from_secs_def)

theorem cached_answers_true_witness:
  "fst (call_inner sample_app (sample_ask ''chain_list'' 5)
      (app_run sample_app [sample_ask ''chain_list'' 2] idle_state))
    = Done (Inr (mark_cached (JObj [(''data'', JInt 7), (''meta'', JObj [])])))"
proof -
  let ?r = "sample_ask ''chain_list'' 5" and ?q = "sample_ask ''chain_list'' 2"
  let ?st = "app_run sample_app [?q] idle_state"
  let ?v = "JObj [(''data'', JInt 7), (''meta'', JObj [])]"
  have admit: "admit_call sample_app r st = (Inr (), st)" for r st
    by (simp add: admit_call_def sample_app_def)
  have key: "cache_key sample_app ?r = cache_key sample_app ?q" by (simp add: cache_key_def sample_ask_def)
  have config: "app_config sample_app = sample_loaded" by (simp add: sample_app_def)
  have name: "ask_name (sample_ask n t) = n" for n t by (simp add: sample_ask_def)
  have miss: "lookup sample_app counting_tool ?q idle_state = (None, idle_state)"
    by (simp add: lookup_def config name sample_ttl idle_state_def cache_get_def)
  have run: "call_inner sample_app ?q idle_state
      = run_tool sample_app counting_tool ?q idle_state"
    by (simp add: call_inner_def sample_find admit miss)
  have at: "inst (ask_lookup ?r) < 2 + from_secs 60" by (simp add: sample_ask_def from_secs_def)
  have call: "tool_call counting_tool i w = (Done (Inr (JObj [(''data'', JInt (int w)), (''meta'', JObj [])])), w + 1)" for i w
    by (simp add: counting_tool_def)
  have put: "cache_insert (app_cap sample_app) (app_clock_max sample_app) k v (from_secs 60) (inst (ask_done ?q)) []
      = [(k, v, 2 + from_secs 60)]" for k v
    by (simp add: cache_insert_def make_room_def sample_app_def sample_ask_def from_secs_def)
  have "ap_cache ?st = [(cache_key sample_app ?q, ?v, 2 + from_secs 60)]"
    unfolding app_run_def foldl.simps call_tool_cache run
    by (simp add: run_tool_def config name sample_ttl call idle_state_def Let_def put)
  then have hit: "lookup sample_app counting_tool ?r ?st = (Some ?v, ?st)"
    by (simp add: lookup_def config name sample_ttl cache_get_def key at [simplified])
  have "catalog_ok (app_catalog sample_app)" "\<forall>(k, t) \<in> set (app_catalog sample_app). CHR '':'' \<notin> set k"
    "inj (app_json_text sample_app)"
    by (simp_all add: sample_app_def catalog_ok_def key_sorted_def counting_tool_def failing_tool_def inj_json_number)
  from cached_answers_true [OF _ refl this sample_find(1) admit hit] show ?thesis by (simp add: idle_state_def)
qed

theorem errors_hide_secrets_witness:
  "\<exists>e. fst (call_tool sample_app (sample_ask ''tx_get'' 0) idle_state) = Inl e
    \<and> \<not> contains ''abcdef123456'' (message e)"
proof -
  have keys: "secret_values (app_config sample_app) = [''abcdef123456'']"
    by (simp add: sample_app_def secret_values_def sample_loaded_def sample_settings_def)
  have adm: "admitted sample_app (sample_ask ''tx_get'' 0) (ap_guard idle_state)"
    by (simp add: admitted_def sample_find) (simp add: sample_app_def)
  have admit: "admit_call sample_app r st = (Inr (), st)" for r st
    by (simp add: admit_call_def sample_app_def)
  have config: "app_config sample_app = sample_loaded" by (simp add: sample_app_def)
  have name: "ask_name (sample_ask n t) = n" for n t by (simp add: sample_ask_def)
  have ttl: "ttl_of sample_loaded failing_tool ''tx_get'' = None"
    by (simp add: ttl_of_def operation_def sample_loaded_def sample_settings_def default_operation_def failing_tool_def)
  have call: "tool_call failing_tool i w = (Done (Inl (internal ''no route to https://node/abcdef123456'')), w)" for i w
    by (simp add: failing_tool_def)
  have inner: "\<exists>e. fst (call_inner sample_app (sample_ask ''tx_get'' 0) idle_state) = Done (Inl e)"
    by (simp add: call_inner_def sample_find admit lookup_def config name ttl call run_tool_def Let_def)
  then have "\<exists>e. fst (call_tool sample_app (sample_ask ''tx_get'' 0) idle_state) = Inl e"
    by (auto simp: call_tool_def Let_def split: prod.splits)
  then obtain e where e: "fst (call_tool sample_app (sample_ask ''tx_get'' 0) idle_state) = Inl e" by blast
  from errors_hide_secrets [OF _ _ _ adm e, of "''abcdef123456''"] e inner show ?thesis by (auto simp: keys star_free_def)
qed

end
