(* ===== verification/Hosted.thy ===== *)
theory Hosted
  imports ClientStore Pipeline
begin

text \<open>
  Hosted mode (\<open>crates/store/src/hosted.rs\<close>): client keys, and the guard that enforces each
  client's requests per minute, daily requests and monthly credits. The guard is the call guard
  of the pipeline, over the persistent store and the token bucket of each client.
\<close>

section \<open>Authentication\<close>

definition effective_client_limits :: "loaded \<Rightarrow> client_record \<Rightarrow> client_limits" where
  "effective_client_limits l r = (let base = limits_of_client l (cl_id r) in
     case cl_limits r of None \<Rightarrow> base | Some lm \<Rightarrow> limits_or lm base)"

definition unauthorized :: domain_error where
  "unauthorized = with_hint ''send `Authorization: Bearer <client key>`; keys are issued by the operator''
     (new_error Unauthorized ''missing or invalid client key'')"

definition if_active :: "client_record option \<Rightarrow> client_record option" where
  "if_active r = (case r of Some x \<Rightarrow> if active x then Some x else None | None \<Rightarrow> None)"

definition caller_of :: "loaded \<Rightarrow> client_record \<Rightarrow> caller" where
  "caller_of l r = \<lparr>caller_client = Some (cl_id r),
     caller_profile = map_option (\<lambda>p. parse_selection p (enabled_tools (set_server (settings l))))
       (limits_profile (effective_client_limits l r))\<rparr>"

definition authenticate :: "codec \<Rightarrow> loaded \<Rightarrow> store_state \<Rightarrow> string option \<Rightarrow> domain_error + caller" where
  "authenticate cd l s bearer =
     and_then (ok_or unauthorized (case map_option trim bearer of
         Some k \<Rightarrow> if k = [] then None else Some k | None \<Rightarrow> None)) (\<lambda>k.
     and_then (ok_or unauthorized (if_active (client_by_key cd s k))) (\<lambda>r.
     Inr (caller_of l r)))"

section \<open>Admission\<close>

record hosted =
  h_store :: store_state
  h_buckets :: "string \<Rightarrow> token_bucket option"

text \<open>\<open>wait.as_secs_f64().ceil().max(1.0) as u64\<close>; the cast saturates.\<close>

definition wait_secs :: "duration \<Rightarrow> u64" where
  "wait_secs w = of_nat (min (2 ^ 64 - 1) (max 1 (nat \<lceil>secs w\<rceil>)))"

definition bucket_of :: "hosted \<Rightarrow> string \<Rightarrow> rat \<Rightarrow> nat \<Rightarrow> token_bucket" where
  "bucket_of h c cap now = unwrap_or (full_bucket cap now) (h_buckets h c)"

definition guard_take :: "string \<Rightarrow> u32 \<Rightarrow> nat \<Rightarrow> hosted \<Rightarrow> (u64 + unit) \<times> hosted" where
  "guard_take c rpm now h =
     (if rpm = 0 then (Inl 60, h)
      else let cap = of_nat (unat rpm);
               (r, b) = take_token (bucket_of h c cap now) cap (cap / 60) now
           in (map_err wait_secs r, h\<lparr>h_buckets := (h_buckets h)(c \<mapsto> b)\<rparr>))"

definition exceeded_error :: "string \<Rightarrow> u64 \<Rightarrow> domain_error" where
  "exceeded_error m retry = with_retry_after (max retry 1)
     (with_hint ''limits are per client key; ask the operator to raise them'' (new_error QuotaExceeded m))"

definition num_seconds :: "int \<Rightarrow> int" where
  "num_seconds d = (if 0 \<le> d then d div 1000000000 else - ((- d) div 1000000000))"

definition quota_message :: "client_limits \<Rightarrow> exceeded \<Rightarrow> string" where
  "quota_message lm which = (case which of
       DailyRequests \<Rightarrow> ''client daily request quota reached ('' @ show_nat (unat (unwrap_or 0 (daily_requests lm))) @ '')''
     | MonthlyCredits \<Rightarrow> ''client monthly credit quota reached ('' @ show_nat (unat (unwrap_or 0 (monthly_credits lm))) @ '')'')"

definition quota_window :: "calendar \<Rightarrow> datetime \<Rightarrow> exceeded \<Rightarrow> window_key" where
  "quota_window cal now which = (case which of
     DailyRequests \<Rightarrow> window_day cal now | MonthlyCredits \<Rightarrow> window_month cal now)"

definition quota_error :: "codec \<Rightarrow> calendar \<Rightarrow> client_limits \<Rightarrow> datetime \<Rightarrow> exceeded \<Rightarrow> domain_error" where
  "quota_error cd cal lm now which = (let reset = resets_at cal (quota_window cal now which) now in
     exceeded_error (quota_message lm which @ ''; resets at '' @ time_text cd reset)
       (of_int (max 1 (num_seconds (reset - now)))))"

definition take_if :: "client_limits \<Rightarrow> string \<Rightarrow> nat \<Rightarrow> hosted \<Rightarrow> (u64 + unit) \<times> hosted" where
  "take_if lm c now h = (case requests_per_minute lm of None \<Rightarrow> (Inr (), h) | Some rpm \<Rightarrow> guard_take c rpm now h)"

definition throttle :: "calendar \<Rightarrow> string \<Rightarrow> datetime \<Rightarrow> hosted \<Rightarrow> hosted" where
  "throttle cal c now h = h\<lparr>h_store := record_throttled cal c now (h_store h)\<rparr>"

definition hosted_guard :: "codec \<Rightarrow> calendar \<Rightarrow> loaded \<Rightarrow> hosted call_guard" where
  "hosted_guard cd cal l who op c h = (case caller_client who of
       None \<Rightarrow> (Inr (), h)
     | Some i \<Rightarrow> (case if_active (client (h_store h) i) of
         None \<Rightarrow> (Inl unauthorized, h)
       | Some r \<Rightarrow>
           let lm = effective_client_limits l r in
           (case take_if lm i (inst c) h of
              (Inl wait, h) \<Rightarrow> (Inl (exceeded_error (''client rate limit reached (''
                  @ show_nat (unat (unwrap_or 0 (requests_per_minute lm))) @ '' requests/minute)'') wait),
                throttle cal i (utc c) h)
            | (Inr _, h) \<Rightarrow>
                (case admit_client cal i (utc c) (daily_requests lm) (monthly_credits lm) (h_store h) of
                   (Inr _, s) \<Rightarrow> (Inr (), h\<lparr>h_store := s\<rparr>)
                 | (Inl which, s) \<Rightarrow> (Inl (quota_error cd cal lm (utc c) which),
                     throttle cal i (utc c) (h\<lparr>h_store := s\<rparr>))))))"

section \<open>Only active clients\<close>

lemma if_active_Some [simp]: "if_active x = Some r \<longleftrightarrow> x = Some r \<and> active r"
  by (auto simp: if_active_def split: option.splits if_splits)

lemma if_active_simp [simp]: "active r \<Longrightarrow> if_active (Some r) = Some r"
  by (simp add: if_active_def)

text \<open>
  A key authenticates exactly when, trimmed, it is the key of an active client; the caller is
  that client with the tools of its limits. Everything else is the same error, which does not
  tell why.
\<close>

theorem authenticate_exact:
  "authenticate cd l s bearer =
     (case Option.bind bearer (\<lambda>b. if trim b = [] then None else if_active (client_by_key cd s (trim b))) of
        Some r \<Rightarrow> Inr (caller_of l r)
      | None \<Rightarrow> Inl unauthorized)"
  by (cases bearer) (auto simp: authenticate_def split: option.splits)

lemma authenticated_active:
  assumes "authenticate cd l s bearer = Inr who" and "caller_client who = Some i"
  shows "\<exists>k r. client_by_key cd s k = Some r \<and> active r \<and> cl_id r = i"
proof -
  obtain k r where "client_by_key cd s k = Some r" "active r" "who = caller_of l r"
    using assms(1) by (auto simp: authenticate_def and_then_Inr)
  with assms(2) show ?thesis by (auto simp: caller_of_def)
qed

text \<open>
  C33: revoking a client locks it out for good. In any history from an empty file on - accesses, writes of
  the store thread, callers that resume, restarts and kills, in any order - let a client be revoked while no
  write of that client itself is waiting. If its limits are not edited before the revocation shows, then from
  the moment it shows, whatever happens to the store then - calls, usage, edits of any client, also of this
  one, restarts and kills - its key authenticates no more, and a call in its name fails in the pipeline
  without running a tool or touching the cache. Meanwhile other clients and the meters may do anything.
\<close>

theorem revoked_locked_out:
  assumes "s = life_run cd cal es (start cd empty_tables)" and "client s i = Some r0" and "idle_client i s"
    and "s1 = life_run cd cal (Did (OpRevoke i now) # xs) s" and "\<forall>l. Did (OpLimits i l) \<notin> set xs"
    and "client s1 i = Some r1" and "\<not> active r1"
    and "s' = life_run cd cal ys s1"
    and "app_guard a = Some (hosted_guard cd cal (app_config a))"
    and "h_store (ap_guard st) = s'" and "caller_client (ask_caller r) = Some i"
  shows "(\<forall>bearer who. authenticate cd l s' bearer = Inr who \<longrightarrow> caller_client who \<noteq> Some i)
    \<and> \<not> is_ok (fst (call_tool a r st)) \<and> ap_world (snd (call_tool a r st)) = ap_world st
    \<and> ap_cache (snd (call_tool a r st)) = ap_cache st"
proof -
  have ok: "clients_ok s" unfolding assms(1) by (rule clients_life, rule clients_start) (simp add: empty_tables_def)
  have ok2: "clients_ok (store_step cd cal (OpRevoke i now) s)" by (rule clients_step [OF ok])
  have s1: "s1 = life_run cd cal xs (store_step cd cal (OpRevoke i now) s)" using assms(4) by simp
  have "being_revoked i s1" "clients_ok s1" unfolding s1
    by (rule being_revoked_life [OF ok2 revocation_starts [OF ok assms(3,2)] assms(5)], rule clients_life [OF ok2])
  from revocation_shows [OF this(2,1) assms(6,7)] have good: "revoked_for_good i s'"
    unfolding assms(8) by (rule revoked_life)
  have "caller_client who \<noteq> Some i" if "authenticate cd l s' bearer = Inr who" for bearer who
  proof
    assume "caller_client who = Some i"
    from authenticated_active [OF that this] revoked_inactive(2) [OF good] show False by blast
  qed
  moreover have "if_active (client s' i) = None"
    using revoked_inactive(1) [OF good] by (auto simp: if_active_def split: option.split)
  then have "\<not> admitted a r (ap_guard st)"
    using assms(9-11) by (simp add: admitted_def hosted_guard_def)
  from refused_inner [OF this]
  have "\<not> is_ok (fst (call_tool a r st)) \<and> ap_world (snd (call_tool a r st)) = ap_world st
      \<and> ap_cache (snd (call_tool a r st)) = ap_cache st"
    by (auto simp: call_tool_def Let_def split: if_splits)
  ultimately show ?thesis by blast
qed


section \<open>Quotas hold\<close>

text \<open>Calls and every other access to the store, in the order in which they happen.\<close>

datatype hosted_event = Ask caller string clock | Access store_op

text \<open>An admitted call: its client, its day and month, and the limits that applied.\<close>

record grant =
  gr_client :: string
  gr_day :: window_key
  gr_month :: window_key
  gr_limits :: client_limits
  gr_credits :: u64

definition grant_of :: "calendar \<Rightarrow> loaded \<Rightarrow> caller \<Rightarrow> clock \<Rightarrow> hosted \<Rightarrow> grant list" where
  "grant_of cal l who c h = (case caller_client who of
       None \<Rightarrow> []
     | Some i \<Rightarrow> (case client (h_store h) i of
         None \<Rightarrow> []
       | Some r \<Rightarrow> [\<lparr>gr_client = i, gr_day = window_day cal (utc c), gr_month = window_month cal (utc c),
           gr_limits = effective_client_limits l r,
           gr_credits = credits (counters_for (h_store h) i (window_month cal (utc c)))\<rparr>]))"

fun hosted_run :: "codec \<Rightarrow> calendar \<Rightarrow> loaded \<Rightarrow> hosted_event list \<Rightarrow> hosted \<Rightarrow> grant list \<times> hosted" where
  "hosted_run cd cal l [] h = ([], h)"
| "hosted_run cd cal l (Ask who op c # xs) h =
     (let (v, h1) = hosted_guard cd cal l who op c h;
          (gs, h2) = hosted_run cd cal l xs h1
      in ((if is_ok v then grant_of cal l who c h else []) @ gs, h2))"
| "hosted_run cd cal l (Access x # xs) h =
     hosted_run cd cal l xs (h\<lparr>h_store := store_step cd cal x (h_store h)\<rparr>)"

text \<open>Only the guard admits calls.\<close>

fun outside_access :: "hosted_event \<Rightarrow> bool" where
  "outside_access (Access (OpAdmit c now dl ml)) \<longleftrightarrow> False"
| "outside_access (Access x) \<longleftrightarrow> small_op x"
| "outside_access _ \<longleftrightarrow> True"

definition requests_of :: "hosted \<Rightarrow> string \<Rightarrow> window_key \<Rightarrow> u64" where
  "requests_of h i w = requests (counters_for (h_store h) i w)"

lemma requests_access:
  assumes "synced (h_store h)" and "outside_access (Access x)"
  shows "requests_of (h\<lparr>h_store := store_step cd cal x (h_store h)\<rparr>) i w = requests_of h i w"
proof (cases x)
  case OpRestart
  then show ?thesis using synced_restart [OF assms(1)] by (simp add: requests_of_def counters_for_def)
qed (use assms(2) in \<open>auto simp: requests_of_def counters_for_def store_add_def record_throttled_def log_call_def
    create_client_def revoke_client_def set_client_limits_def bump_client_def Let_def alter_def no_counters_def
    split: option.split\<close>)

lemma requests_throttle [simp]:
  "requests_of (throttle cal c now h) i w = requests_of h i w"
  by (auto simp: throttle_def requests_of_def record_throttled_def counters_for_def bump_client_def alter_def
      no_counters_def)

lemma synced_throttle [simp]: "synced (h_store h) \<Longrightarrow> synced (h_store (throttle cal c now h))"
  using synced_step [of "h_store h" "OpThrottle c now"] by (simp add: throttle_def)

lemma take_store:
  "take_if lm c now h = (v, h') \<Longrightarrow> h_store h' = h_store h"
  by (auto simp: take_if_def guard_take_def Let_def case_prod_unfold split: option.splits if_splits)

lemma take_buckets:
  "take_if lm c now h = (v, h') \<Longrightarrow> c \<noteq> i \<Longrightarrow> h_buckets h' i = h_buckets h i"
  by (auto simp: take_if_def guard_take_def Let_def case_prod_unfold split: option.splits if_splits)

lemma requests_cong: "h_store h = h_store h' \<Longrightarrow> requests_of h = requests_of h'"
  by (simp add: requests_of_def fun_eq_iff)

lemma admit_requests:
  assumes "admit_client cal c now dl ml s = (v, s')"
  shows "requests (counters_for s' i (Day d)) = requests (counters_for s i (Day d))
      + (if is_ok v \<and> c = i \<and> window_day cal now = Day d then 1 else 0)"
    and "is_ok v \<Longrightarrow> \<not> reached dl (requests (counters_for s c (window_day cal now)))
      \<and> \<not> reached ml (credits (counters_for s c (window_month cal now)))"
    and "synced s \<Longrightarrow> synced s'"
proof -
  show "requests (counters_for s' i (Day d)) = requests (counters_for s i (Day d))
      + (if is_ok v \<and> c = i \<and> window_day cal now = Day d then 1 else 0)"
    using assms by (auto simp: admit_client_def Let_def counters_for_def bump_client_def alter_def
        no_counters_def window_day_def window_month_def split: if_splits)
  show "is_ok v \<Longrightarrow> \<not> reached dl (requests (counters_for s c (window_day cal now)))
      \<and> \<not> reached ml (credits (counters_for s c (window_month cal now)))"
    using assms by (auto simp: admit_client_def Let_def split: if_splits)
  assume "synced s"
  then show "synced s'" using synced_step [of s "OpAdmit c now dl ml" cd cal] assms by simp
qed

text \<open>What one decision of the guard does.\<close>

lemma guard_step:
  assumes "hosted_guard cd cal l who op c h = (v, h')" and "synced (h_store h)"
  shows "synced (h_store h')"
    and "requests_of h' i (Day d) = requests_of h i (Day d)
      + (if is_ok v \<and> caller_client who = Some i \<and> window_day cal (utc c) = Day d then 1 else 0)"
    and "is_ok v \<Longrightarrow> caller_client who = Some i \<Longrightarrow> \<exists>r. client (h_store h) i = Some r \<and> active r
      \<and> \<not> reached (daily_requests (effective_client_limits l r)) (requests_of h i (window_day cal (utc c)))
      \<and> \<not> reached (monthly_credits (effective_client_limits l r))
          (credits (counters_for (h_store h) i (window_month cal (utc c))))"
proof -
  have "synced (h_store h') \<and> requests_of h' i (Day d) = requests_of h i (Day d)
      + (if is_ok v \<and> caller_client who = Some i \<and> window_day cal (utc c) = Day d then 1 else 0)
    \<and> (is_ok v \<longrightarrow> caller_client who = Some i \<longrightarrow> (\<exists>r. client (h_store h) i = Some r \<and> active r
      \<and> \<not> reached (daily_requests (effective_client_limits l r)) (requests_of h i (window_day cal (utc c)))
      \<and> \<not> reached (monthly_credits (effective_client_limits l r))
          (credits (counters_for (h_store h) i (window_month cal (utc c))))))"
  proof (cases "caller_client who")
    case None
    then show ?thesis using assms by (simp add: hosted_guard_def)
  next
    case (Some k)
    show ?thesis
    proof (cases "if_active (client (h_store h) k)")
      case None
      then show ?thesis using assms Some by (auto simp: hosted_guard_def)
    next
      case act: (Some r)
      let ?lm = "effective_client_limits l r"
      obtain t h1 where take: "take_if ?lm k (inst c) h = (t, h1)" by fastforce
      note same = take_store [OF take]
      show ?thesis
      proof (cases t)
        case (Inl wait)
        with assms Some act take have "\<not> is_ok v" "h' = throttle cal k (utc c) h1"
          by (auto simp: hosted_guard_def Let_def)
        with assms(2) same show ?thesis by (simp add: requests_cong [OF same])
      next
        case (Inr u)
        obtain e s where adm: "admit_client cal k (utc c) (daily_requests ?lm) (monthly_credits ?lm) (h_store h1) = (e, s)"
          by fastforce
        note facts = admit_requests [OF adm [unfolded same]]
        show ?thesis
        proof (cases e)
          case (Inl which)
          with assms Some act take Inr adm have v: "\<not> is_ok v" "h' = throttle cal k (utc c) (h1\<lparr>h_store := s\<rparr>)"
            by (auto simp: hosted_guard_def Let_def)
          have "requests_of h' i (Day d) = requests (counters_for s i (Day d))"
            unfolding v requests_throttle by (simp add: requests_of_def)
          with v facts(1) [of i d] facts(3) assms(2) Inl show ?thesis by (simp add: requests_of_def)
        next
          case ok: (Inr u')
          with assms Some act take Inr adm have v: "is_ok v" "h' = h1\<lparr>h_store := s\<rparr>"
            by (auto simp: hosted_guard_def Let_def)
          with facts(1) [of i d] facts(2,3) assms(2) ok act Some show ?thesis by (auto simp: requests_of_def)
        qed
      qed
    qed
  qed
  then show "synced (h_store h')"
    and "requests_of h' i (Day d) = requests_of h i (Day d)
      + (if is_ok v \<and> caller_client who = Some i \<and> window_day cal (utc c) = Day d then 1 else 0)"
    and "is_ok v \<Longrightarrow> caller_client who = Some i \<Longrightarrow> \<exists>r. client (h_store h) i = Some r \<and> active r
      \<and> \<not> reached (daily_requests (effective_client_limits l r)) (requests_of h i (window_day cal (utc c)))
      \<and> \<not> reached (monthly_credits (effective_client_limits l r))
          (credits (counters_for (h_store h) i (window_month cal (utc c))))"
    by blast+
qed


definition grants_for :: "string \<Rightarrow> window_key \<Rightarrow> grant list \<Rightarrow> nat" where
  "grants_for i w gs = length (filter (\<lambda>g. gr_client g = i \<and> gr_day g = w) gs)"

lemma grants_for_simps [simp]:
  "grants_for i w [] = 0"
  "grants_for i w (gs @ hs) = grants_for i w gs + grants_for i w hs"
  "grants_for i w (g # gs) = (if gr_client g = i \<and> gr_day g = w then 1 else 0) + grants_for i w gs"
  by (simp_all add: grants_for_def)

lemma grant_of_guard:
  assumes "hosted_guard cd cal l who op c h = (v, h')" and "synced (h_store h)" and "is_ok v"
  shows "grant_of cal l who c h = [] \<and> caller_client who = None \<or>
    (\<exists>g. grant_of cal l who c h = [g] \<and> caller_client who = Some (gr_client g) \<and> gr_day g = window_day cal (utc c)
      \<and> \<not> reached (daily_requests (gr_limits g)) (requests_of h (gr_client g) (gr_day g))
      \<and> \<not> reached (monthly_credits (gr_limits g)) (gr_credits g))"
proof (cases "caller_client who")
  case None
  then show ?thesis by (simp add: grant_of_def)
next
  case (Some i)
  from guard_step(3) [OF assms(1,2,3) Some] Some show ?thesis by (auto simp: grant_of_def)
qed

lemma day_of_window: "\<exists>d. window_day cal t = Day d"
  by (simp add: window_day_def)

lemma reached_below: "\<not> reached l x \<Longrightarrow> l = Some n \<Longrightarrow> unat x < unat n"
  by (simp add: reached_def word_less_nat_alt not_le)

lemma run_within_quota:
  assumes "hosted_run cd cal l xs h = (gs, h')" and "synced (h_store h)" and "list_all outside_access xs"
    and "unat (requests_of h i (Day d)) + length xs < 2 ^ 64"
    and "gs = pre @ g # post" and "gr_client g = i" and "gr_day g = Day d"
  shows "(\<forall>n. daily_requests (gr_limits g) = Some n \<longrightarrow> unat (requests_of h i (Day d)) + grants_for i (Day d) pre < unat n)
    \<and> (\<forall>n. monthly_credits (gr_limits g) = Some n \<longrightarrow> gr_credits g < n)"
  using assms
proof (induction xs arbitrary: h gs pre)
  case Nil
  then show ?case by simp
next
  case (Cons x xs)
  note prems = Cons.prems
  show ?case
  proof (cases x)
    case (Access y)
    let ?h = "h\<lparr>h_store := store_step cd cal y (h_store h)\<rparr>"
    have "outside_access (Access y)" using prems(3) Access by simp
    moreover from this have "small_op y" by (cases y) simp_all
    ultimately have same: "requests_of ?h i (Day d) = requests_of h i (Day d)" "synced (h_store ?h)"
      using requests_access [OF prems(2)] synced_step [OF prems(2)] by simp_all
    from prems Access same Cons.IH [of ?h gs pre] show ?thesis by simp
  next
    case (Ask who op c)
    obtain v h1 where guard: "hosted_guard cd cal l who op c h = (v, h1)" by fastforce
    obtain gs1 h2 where rest: "hosted_run cd cal l xs h1 = (gs1, h2)" by fastforce
    note step = guard_step [OF guard prems(2)]
    define first where "first = (if is_ok v then grant_of cal l who c h else [])"
    have gs: "gs = first @ gs1" "h2 = h'" using prems(1) Ask guard rest by (auto simp: first_def)
    have first: "first = [] \<and> (is_ok v \<longrightarrow> caller_client who = None) \<or>
      (\<exists>g'. first = [g'] \<and> is_ok v \<and> caller_client who = Some (gr_client g') \<and> gr_day g' = window_day cal (utc c)
        \<and> \<not> reached (daily_requests (gr_limits g')) (requests_of h (gr_client g') (gr_day g'))
        \<and> \<not> reached (monthly_credits (gr_limits g')) (gr_credits g'))"
      using grant_of_guard [OF guard prems(2)] by (auto simp: first_def)
    have count: "unat (requests_of h1 i (Day d)) = unat (requests_of h i (Day d)) + grants_for i (Day d) first"
    proof -
      let ?one = "if is_ok v \<and> caller_client who = Some i \<and> window_day cal (utc c) = Day d then 1 else (0 :: u64)"
      have "unat ?one = grants_for i (Day d) first" using first by auto
      moreover have "unat (requests_of h i (Day d) + ?one) = unat (requests_of h i (Day d)) + unat ?one"
        by (rule unat_add_fits) (use prems(4) in auto)
      ultimately show ?thesis using step(2) by simp
    qed
    have "grants_for i (Day d) first \<le> 1" using first by auto
    then have small: "unat (requests_of h1 i (Day d)) + length xs < 2 ^ 64" using count prems(4) by simp
    show ?thesis
    proof (cases "length pre < length first")
      case True
      then obtain g' where f: "first = [g']" using first by auto
      with True prems(5) gs(1) have "pre = []" "g = g'" by auto
      with first f prems(6,7) show ?thesis by (auto simp: reached_def word_less_nat_alt not_le)
    next
      case False
      then obtain pre' where pre: "pre = first @ pre'" "gs1 = pre' @ g # post"
        using prems(5) gs(1) by (metis append_eq_append_conv_if append_take_drop_id not_less)
      have "list_all outside_access xs" using prems(3) by simp
      from Cons.IH [OF rest [unfolded gs(2)] step(1) this small pre(2) prems(6,7)] count pre(1) show ?thesis
        by (simp add: add.assoc)
    qed
  qed
qed

text \<open>
  C32: A client never exceeds its quotas. In any order of calls, usage, edits of clients, orderly restarts
  and work of the store thread, every call that is admitted came after fewer admitted calls of the
  same client on the same day than its daily limit at that time allows, and found fewer credits
  spent in its month than its monthly limit.
\<close>

theorem quotas_hold:
  assumes "hosted_run cd cal l xs h = (gs, h')" and "synced (h_store h)" and "list_all outside_access xs"
    and "requests_of h (gr_client g) (gr_day g) = 0" and "length xs < 2 ^ 64"
    and "gs = pre @ g # post" and "gr_day g = Day d"
  shows "(\<forall>n. daily_requests (gr_limits g) = Some n \<longrightarrow> grants_for (gr_client g) (gr_day g) pre < unat n)
    \<and> (\<forall>n. monthly_credits (gr_limits g) = Some n \<longrightarrow> gr_credits g < n)"
proof -
  have "unat (requests_of h (gr_client g) (Day d)) + length xs < 2 ^ 64" using assms(4,5,7) by simp
  from run_within_quota [OF assms(1-3) this assms(6) refl assms(7)] assms(4,7) show ?thesis by simp
qed

lemma guard_frame:
  assumes "hosted_guard cd cal l who op c h = (v, h')" and "caller_client who \<noteq> Some i"
  shows "m_clients (h_store h') = m_clients (h_store h) \<and> h_buckets h' i = h_buckets h i
    \<and> counters_for (h_store h') i = counters_for (h_store h) i"
proof (cases "caller_client who")
  case None
  then show ?thesis using assms by (simp add: hosted_guard_def)
next
  case (Some k)
  with assms(2) have k: "k \<noteq> i" by simp
  have thr: "m_clients (h_store (throttle cal k t h)) = m_clients (h_store h) \<and> h_buckets (throttle cal k t h) i = h_buckets h i
    \<and> counters_for (h_store (throttle cal k t h)) i = counters_for (h_store h) i" for t h
    using k by (auto simp: throttle_def record_throttled_def counters_for_def bump_client_def submit_def alter_def fun_eq_iff)
  have adm: "m_clients s' = m_clients s \<and> counters_for s' i = counters_for s i"
    if "admit_client cal k t dl ml s = (e, s')" for t dl ml s e s'
    using that k by (auto simp: admit_client_def Let_def counters_for_def bump_client_def submit_def alter_def fun_eq_iff split: if_splits)
  show ?thesis
  proof (cases "if_active (client (h_store h) k)")
    case None
    then show ?thesis using assms Some by (auto simp: hosted_guard_def)
  next
    case act: (Some r)
    let ?lm = "effective_client_limits l r"
    obtain t h1 where take: "take_if ?lm k (inst c) h = (t, h1)" by fastforce
    have same: "h_store h1 = h_store h" "h_buckets h1 i = h_buckets h i"
      using take_store [OF take] take_buckets [OF take] k by simp_all
    obtain e s where ad: "admit_client cal k (utc c) (daily_requests ?lm) (monthly_credits ?lm) (h_store h1) = (e, s)"
      by fastforce
    show ?thesis
    proof (cases t)
      case (Inl w)
      with assms(1) Some act take have "h' = throttle cal k (utc c) h1" by (simp add: hosted_guard_def)
      with thr [of "utc c" h1] same show ?thesis by simp
    next
      case (Inr u)
      with assms(1) Some act take ad have "h' = throttle cal k (utc c) (h1\<lparr>h_store := s\<rparr>) \<or> h' = h1\<lparr>h_store := s\<rparr>"
        by (cases e) (auto simp: hosted_guard_def)
      with thr [of "utc c" "h1\<lparr>h_store := s\<rparr>"] adm [OF ad] same show ?thesis by auto
    qed
  qed
qed


lemma guard_depends:
  assumes "caller_client who = Some i" and "m_clients (h_store h') = m_clients (h_store h)"
    and "h_buckets h' i = h_buckets h i" and "counters_for (h_store h') i = counters_for (h_store h) i"
  shows "fst (hosted_guard cd cal l who op c h') = fst (hosted_guard cd cal l who op c h)"
proof -
  have client: "client (h_store h') i = client (h_store h) i" using assms(2) by (simp add: client_def)
  show ?thesis
  proof (cases "if_active (client (h_store h) i)")
    case None
    then show ?thesis using assms(1) client by (simp add: hosted_guard_def)
  next
    case (Some r)
    let ?lm = "effective_client_limits l r"
    have take: "fst (take_if ?lm i (inst c) h') = fst (take_if ?lm i (inst c) h)"
      using assms(3) by (auto simp: take_if_def guard_take_def bucket_of_def Let_def case_prod_unfold split: option.split)
    have adm: "fst (admit_client cal i (utc c) dl ml s') = fst (admit_client cal i (utc c) dl ml s)"
      if "counters_for s' i = counters_for s i" for dl ml s s'
      using that by (simp add: admit_client_def Let_def)
    obtain t h1 where t1: "take_if ?lm i (inst c) h = (t, h1)" by fastforce
    obtain t' h2 where t2: "take_if ?lm i (inst c) h' = (t', h2)" by fastforce
    have tt: "t' = t" using take t1 t2 by simp
    obtain e s1 where a1: "admit_client cal i (utc c) (daily_requests ?lm) (monthly_credits ?lm) (h_store h1) = (e, s1)"
      by fastforce
    obtain e' s2 where a2: "admit_client cal i (utc c) (daily_requests ?lm) (monthly_credits ?lm) (h_store h2) = (e', s2)"
      by fastforce
    have "counters_for (h_store h2) i = counters_for (h_store h1) i"
      using take_store [OF t1] take_store [OF t2] assms(4) by simp
    from adm [OF this, of "daily_requests ?lm" "monthly_credits ?lm"] a1 a2 have ee: "e' = e" by simp
    show ?thesis
    proof (cases t)
      case (Inl w)
      with assms(1) client Some t1 t2 tt show ?thesis by (simp add: hosted_guard_def)
    next
      case (Inr u)
      with assms(1) client Some t1 t2 tt a1 a2 ee show ?thesis by (cases e) (simp_all add: hosted_guard_def)
    qed
  qed
qed

text \<open>
  Clients do not affect each other's admission: the decision about a client's call, with its
  error, is the same whether or not a call of another client, or a local one, came before it.
\<close>

theorem clients_isolated:
  assumes "caller_client who = Some i" and "caller_client other \<noteq> Some i"
  shows "fst (hosted_guard cd cal l who op c (snd (hosted_guard cd cal l other op' c' h)))
    = fst (hosted_guard cd cal l who op c h)"
proof -
  obtain v h' where before: "hosted_guard cd cal l other op' c' h = (v, h')" by fastforce
  have "fst (hosted_guard cd cal l who op c h') = fst (hosted_guard cd cal l who op c h)"
    by (rule guard_depends [OF assms(1)]) (use guard_frame [OF before assms(2)] in simp_all)
  with before show ?thesis by simp
qed

section \<open>The rate of a client\<close>

text \<open>Events that edit no client; times are not before \<open>t0\<close>.\<close>

fun calm :: "nat \<Rightarrow> nat \<Rightarrow> hosted_event \<Rightarrow> bool" where
  "calm t0 t1 (Ask who op c) \<longleftrightarrow> t0 \<le> inst c \<and> inst c \<le> t1"
| "calm t0 t1 (Access (OpAdd v w n d)) \<longleftrightarrow> True"
| "calm t0 t1 (Access (OpThrottle c now)) \<longleftrightarrow> True"
| "calm t0 t1 (Access (OpLog r)) \<longleftrightarrow> True"
| "calm t0 t1 (Access OpWork) \<longleftrightarrow> True"
| "calm t0 t1 _ \<longleftrightarrow> False"

definition rate_of :: "loaded \<Rightarrow> hosted \<Rightarrow> string \<Rightarrow> u32 option" where
  "rate_of l h i = Option.bind (client (h_store h) i) (\<lambda>r. requests_per_minute (effective_client_limits l r))"

text \<open>\<open>k\<close> tokens taken by the client since \<open>t0\<close>.\<close>

definition within_rate :: "string \<Rightarrow> rat \<Rightarrow> nat \<Rightarrow> nat \<Rightarrow> nat \<Rightarrow> hosted \<Rightarrow> bool" where
  "within_rate i cap t0 t1 k h = (case h_buckets h i of
       None \<Rightarrow> k = 0
     | Some b \<Rightarrow> of_nat k + tokens b \<le> cap + cap / 60 * secs (last_at b - t0) \<and> 0 \<le> tokens b
         \<and> t0 \<le> last_at b \<and> last_at b \<le> t1)"

lemma within_rate_take:
  assumes "within_rate i cap t0 t1 k h" and "t0 \<le> now" and "now \<le> t1" and "0 < rpm" and "cap = of_nat (unat rpm)"
    and "guard_take i rpm now h = (v, h')"
  shows "within_rate i cap t0 t1 (k + (if is_ok v then 1 else 0)) h'"
proof -
  let ?b = "bucket_of h i cap now"
  obtain r b' where take: "take_token ?b cap (cap / 60) now = (r, b')" by fastforce
  have "rpm \<noteq> 0" using assms(4) by auto
  then have h': "h_buckets h' i = Some b'" "is_ok v = is_ok r"
    using assms(5,6) take \<open>rpm \<noteq> 0\<close> by (auto simp: guard_take_def Let_def map_err_def split: sum.splits)
  have cap: "0 \<le> cap" unfolding assms(5) by (rule of_nat_0_le_iff)
  have b: "of_nat k + tokens ?b \<le> cap + cap / 60 * secs (last_at ?b - t0)" "0 \<le> tokens ?b" "t0 \<le> last_at ?b" "last_at ?b \<le> t1"
    using assms(1,2,3) cap by (auto simp: within_rate_def bucket_of_def full_bucket_def secs_def split: option.splits)
  note step = take_token_step [OF take]
  have le: "last_at ?b \<le> last_at b'" "last_at b' \<le> t1" using step(2) b(4) assms(3) by simp_all
  have "cap / 60 * secs (last_at b' - last_at ?b) + cap / 60 * secs (last_at ?b - t0) = cap / 60 * secs (last_at b' - t0)"
    using secs_add [OF b(3) le(1)] by (simp flip: distrib_left)
  with step(1) b(1) have "of_nat (k + (if is_ok r then 1 else 0)) + tokens b' \<le> cap + cap / 60 * secs (last_at b' - t0)"
    by (auto split: if_splits)
  with step(3) b cap le h' show ?thesis by (simp add: within_rate_def)
qed

lemma within_rate_cong: "h_buckets h' i = h_buckets h i \<Longrightarrow> within_rate i cap t0 t1 k h' = within_rate i cap t0 t1 k h"
  by (simp add: within_rate_def)

lemma guard_clients:
  "m_clients (h_store (snd (hosted_guard cd cal l who op c h))) = m_clients (h_store h)"
proof -
  have thr: "m_clients (h_store (throttle cal k t h)) = m_clients (h_store h)" for k t h
    by (simp add: throttle_def record_throttled_def bump_client_def submit_def)
  have adm: "m_clients (snd (admit_client cal k t dl ml s)) = m_clients s" for k t dl ml s
    by (simp add: admit_client_def Let_def bump_client_def submit_def)
  have take: "m_clients (h_store (snd (take_if lm k now h))) = m_clients (h_store h)" for lm k now
    using take_store [of lm k now h] by (cases "take_if lm k now h") simp
  show ?thesis
    by (simp add: hosted_guard_def Let_def case_prod_unfold thr adm take split: option.split sum.split)
qed

lemma guard_within_rate:
  assumes "hosted_guard cd cal l who op c h = (v, h')" and "rate_of l h i = Some rpm" and "0 < rpm"
    and "within_rate i (of_nat (unat rpm)) t0 t1 k h" and "t0 \<le> inst c" and "inst c \<le> t1"
  shows "\<exists>j. within_rate i (of_nat (unat rpm)) t0 t1 (k + j) h'
    \<and> (is_ok v \<longrightarrow> caller_client who = Some i \<longrightarrow> j = 1) \<and> j \<le> 1"
proof (cases "caller_client who = Some i")
  case False
  with guard_frame [OF assms(1) False] assms(4) within_rate_cong [of h' i h] show ?thesis
    by (intro exI [of _ 0]) simp
next
  case True
  obtain r where r: "client (h_store h) i = Some r" "requests_per_minute (effective_client_limits l r) = Some rpm"
    using assms(2) by (auto simp: rate_of_def bind_eq_Some_conv)
  show ?thesis
  proof (cases "active r")
    case False
    then have "h' = h" "\<not> is_ok v" using assms(1) True r by (auto simp: hosted_guard_def if_active_def)
    with assms(4) show ?thesis by (intro exI [of _ 0]) simp
  next
    case act: True
    let ?lm = "effective_client_limits l r"
    obtain t h1 where take: "guard_take i rpm (inst c) h = (t, h1)" by fastforce
    have tk: "take_if ?lm i (inst c) h = (t, h1)" using take r by (simp add: take_if_def)
    have "h_buckets h' = h_buckets h1 \<and> (is_ok v \<longrightarrow> is_ok t)"
      using assms(1) True r act tk
      by (auto simp: hosted_guard_def Let_def throttle_def split: sum.splits prod.splits)
    moreover note within_rate_take [OF assms(4,5,6,3) refl take]
    ultimately show ?thesis
      using within_rate_cong [of h' i h1]
      by (intro exI [of _ "if is_ok t then 1 else 0"]) auto
  qed
qed

definition grants_to :: "string \<Rightarrow> grant list \<Rightarrow> nat" where
  "grants_to i gs = length (filter (\<lambda>g. gr_client g = i) gs)"

lemma run_within_rate:
  assumes "hosted_run cd cal l xs h = (gs, h')" and "list_all (calm t0 t1) xs" and "rate_of l h i = Some rpm"
    and "0 < rpm" and "within_rate i (of_nat (unat rpm)) t0 t1 k h"
  shows "\<exists>j. within_rate i (of_nat (unat rpm)) t0 t1 (k + j) h' \<and> grants_to i gs \<le> j"
  using assms
proof (induction xs arbitrary: h gs k)
  case Nil
  then show ?case by (auto simp: grants_to_def intro!: exI [of _ 0])
next
  case (Cons x xs)
  show ?case
  proof (cases x)
    case (Access y)
    have "m_clients (store_step cd cal y (h_store h)) = m_clients (h_store h)"
      using Cons.prems(2) Access by (cases y) (auto simp: store_add_def record_throttled_def log_call_def
          bump_client_def submit_def work_def Let_def split: option.split list.split prod.split)
    then have "rate_of l (h\<lparr>h_store := store_step cd cal y (h_store h)\<rparr>) i = Some rpm"
      using Cons.prems(3) by (simp add: rate_of_def client_def)
    with Cons.prems Access Cons.IH [of "h\<lparr>h_store := store_step cd cal y (h_store h)\<rparr>" gs k] show ?thesis
      by (simp add: within_rate_def)
  next
    case (Ask who op c)
    obtain v h1 where guard: "hosted_guard cd cal l who op c h = (v, h1)" by fastforce
    obtain gs1 h2 where rest: "hosted_run cd cal l xs h1 = (gs1, h2)" by fastforce
    have gs: "gs = (if is_ok v then grant_of cal l who c h else []) @ gs1" "h2 = h'"
      using Cons.prems(1) Ask guard rest by auto
    have "t0 \<le> inst c" "inst c \<le> t1" using Cons.prems(2) Ask by simp_all
    from guard_within_rate [OF guard Cons.prems(3,4,5) this] obtain j where
      j: "within_rate i (of_nat (unat rpm)) t0 t1 (k + j) h1" "is_ok v \<longrightarrow> caller_client who = Some i \<longrightarrow> j = 1" by blast
    have "rate_of l h1 i = Some rpm"
      using Cons.prems(3) guard_clients [of cd cal l who op c h] guard by (simp add: rate_of_def client_def)
    from Cons.IH [OF rest [unfolded gs(2)] _ this Cons.prems(4) j(1)] Cons.prems(2) obtain j' where
      j': "within_rate i (of_nat (unat rpm)) t0 t1 (k + j + j') h'" "grants_to i gs1 \<le> j'" by auto
    have "grants_to i (if is_ok v then grant_of cal l who c h else []) \<le> j"
      using j(2) by (auto simp: grants_to_def grant_of_def split: option.splits)
    then have "grants_to i gs \<le> j + j'" using gs(1) j'(2) by (simp add: grants_to_def)
    with j'(1) show ?thesis by (intro exI [of _ "j + j'"]) (simp add: add.assoc)
  qed
qed

text \<open>
  A client never exceeds its rate: between \<open>t0\<close> and \<open>t1\<close>, however its calls are timed and mixed
  with those of others, usage and the work of the store, no more of them are admitted than its
  requests per minute, as a burst, plus the same rate for the time that passed.
\<close>

theorem client_rate:
  assumes "hosted_run cd cal l xs h = (gs, h')" and "list_all (calm t0 t1) xs" and "rate_of l h i = Some rpm"
    and "0 < rpm" and "h_buckets h i = None" and "t0 \<le> t1"
  shows "of_nat (grants_to i gs) \<le> (of_nat (unat rpm) :: rat) + of_nat (unat rpm) / 60 * secs (t1 - t0)"
proof -
  have "within_rate i (of_nat (unat rpm)) t0 t1 0 h" using assms(5) by (simp add: within_rate_def)
  from run_within_rate [OF assms(1-4) this] obtain j where
    j: "within_rate i (of_nat (unat rpm)) t0 t1 j h'" "grants_to i gs \<le> j" by auto
  have "of_nat j \<le> (of_nat (unat rpm) :: rat) + of_nat (unat rpm) / 60 * secs (t1 - t0)"
  proof (cases "h_buckets h' i")
    case None
    have "0 \<le> (of_nat (unat rpm) :: rat) + of_nat (unat rpm) / 60 * secs (t1 - t0)"
      unfolding secs_def by (intro add_nonneg_nonneg mult_nonneg_nonneg divide_nonneg_nonneg of_nat_0_le_iff) simp_all
    with None j(1) show ?thesis by (simp add: within_rate_def)
  next
    case (Some b)
    with j(1) have b: "of_nat j + tokens b \<le> of_nat (unat rpm) + of_nat (unat rpm) / 60 * secs (last_at b - t0)"
      "0 \<le> tokens b" "last_at b \<le> t1" by (simp_all add: within_rate_def)
    have "of_nat (unat rpm) / 60 * secs (last_at b - t0) \<le> of_nat (unat rpm) / 60 * secs (t1 - t0)"
      using b(3) by (intro mult_left_mono divide_nonneg_nonneg of_nat_0_le_iff) (simp_all add: secs_def divide_right_mono)
    with b show ?thesis by linarith
  qed
  with j(2) show ?thesis by (meson of_nat_le_iff order_trans)
qed


section \<open>A small instance\<close>

definition sample_client :: client_record where
  "sample_client = \<lparr>cl_id = ''c_1'', cl_name = ''acme'', cl_key_hash = rev ''odm_1'', cl_created = 0, cl_revoked = None,
     cl_limits = Some \<lparr>requests_per_minute = Some 60, daily_requests = Some 2, monthly_credits = None,
       limits_profile = Some ''all''\<rparr>\<rparr>"

definition sample_hosted :: hosted where
  "sample_hosted = \<lparr>h_store = (start sample_codec (empty_tables\<lparr>t_clients := [row_of_record sample_codec sample_client]\<rparr>))
       \<lparr>m_clients := [(''c_1'', sample_client)]\<rparr>, h_buckets = Map.empty\<rparr>"

definition sample_caller :: caller where
  "sample_caller = \<lparr>caller_client = Some ''c_1'', caller_profile = None\<rparr>"

definition sample_grant :: grant where
  "sample_grant = \<lparr>gr_client = ''c_1'', gr_day = Day ''2026-01-01'', gr_month = Month ''2026-01'',
     gr_limits = effective_client_limits sample_loaded sample_client, gr_credits = 0\<rparr>"

abbreviation sample_clock :: clock where
  "sample_clock \<equiv> \<lparr>inst = 5, utc = 0\<rparr>"

lemma sample_limits:
  "requests_per_minute (effective_client_limits sample_loaded sample_client) = Some 60"
  "daily_requests (effective_client_limits sample_loaded sample_client) = Some 2"
  by (simp_all add: effective_client_limits_def sample_client_def limits_or_def)

lemma sample_lookup:
  "client (h_store sample_hosted) ''c_1'' = Some sample_client" "active sample_client"
  "counters_for (h_store sample_hosted) c w = no_counters"
  by (simp_all add: sample_hosted_def client_def sample_client_def active_def counters_for_def start_def
      load_client_usage_def empty_tables_def map_filter_simps)

lemma sample_synced: "synced (h_store sample_hosted)"
  using synced_start [of "empty_tables\<lparr>t_clients := [row_of_record sample_codec sample_client]\<rparr>" sample_codec]
  by (simp add: sample_hosted_def synced_def)

lemma sample_run:
  "\<exists>h'. hosted_run sample_codec sample_calendar sample_loaded [Ask sample_caller ''chain_list'' sample_clock] sample_hosted
    = ([sample_grant], h')"
proof -
  have monthly: "reached (monthly_credits (effective_client_limits sample_loaded sample_client)) 0 = False"
    by (simp add: effective_client_limits_def sample_client_def limits_or_def limits_of_client_def sample_loaded_def
        sample_settings_def default_clients_def reached_def)
  have bucket: "h_buckets sample_hosted = Map.empty" by (simp add: sample_hosted_def)
  have take: "\<exists>h1. take_if (effective_client_limits sample_loaded sample_client) ''c_1'' 5 sample_hosted = (Inr (), h1)
      \<and> h_store h1 = h_store sample_hosted"
    by (simp add: take_if_def sample_limits guard_take_def bucket_of_def bucket full_bucket_def take_token_def secs_def)
  then obtain h1 where h1: "take_if (effective_client_limits sample_loaded sample_client) ''c_1'' 5 sample_hosted = (Inr (), h1)"
    "h_store h1 = h_store sample_hosted" by blast
  have "is_ok (fst (hosted_guard sample_codec sample_calendar sample_loaded sample_caller ''chain_list'' sample_clock sample_hosted))"
    by (simp add: hosted_guard_def sample_caller_def sample_lookup h1 admit_client_def Let_def sample_limits monthly
        no_counters_def reached_def [of "Some _"])
  then show ?thesis
    by (simp add: case_prod_unfold grant_of_def sample_caller_def sample_lookup sample_grant_def window_day_def
        window_month_def sample_calendar_def no_counters_def)
qed

theorem quotas_hold_witness:
  "grants_for ''c_1'' (Day ''2026-01-01'') [] < 2"
proof -
  obtain h' where run: "hosted_run sample_codec sample_calendar sample_loaded
      [Ask sample_caller ''chain_list'' sample_clock] sample_hosted = ([] @ sample_grant # [], h')"
    using sample_run by auto
  have "requests_of sample_hosted (gr_client sample_grant) (gr_day sample_grant) = 0"
    by (simp add: requests_of_def sample_lookup no_counters_def)
  from quotas_hold [OF run sample_synced _ this _ refl] show ?thesis
    by (simp add: sample_grant_def sample_limits)
qed

theorem clients_isolated_witness:
  "fst (hosted_guard sample_codec sample_calendar sample_loaded sample_caller ''chain_list'' sample_clock
     (snd (hosted_guard sample_codec sample_calendar sample_loaded \<lparr>caller_client = Some ''c_2'', caller_profile = None\<rparr>
        ''tx_get'' sample_clock sample_hosted)))
    = fst (hosted_guard sample_codec sample_calendar sample_loaded sample_caller ''chain_list'' sample_clock sample_hosted)"
  by (rule clients_isolated [of _ "''c_1''"]) (simp_all add: sample_caller_def)

theorem client_rate_witness: "(of_nat 1 :: rat) \<le> 60 + 60 / 60 * secs (7 - 5)"
proof -
  obtain h' where run: "hosted_run sample_codec sample_calendar sample_loaded
      [Ask sample_caller ''chain_list'' sample_clock] sample_hosted = ([sample_grant], h')"
    using sample_run by blast
  have "rate_of sample_loaded sample_hosted ''c_1'' = Some 60"
    by (simp add: rate_of_def sample_lookup sample_limits)
  from client_rate [OF run _ this, of 5 7] show ?thesis
    by (simp add: sample_hosted_def grants_to_def sample_grant_def)
qed

definition hosted_app :: "(nat, hosted) app" where
  "hosted_app = \<lparr>app_catalog = [(''chain_list'', counting_tool)], app_config = sample_loaded,
     app_guard = Some (hosted_guard sample_codec sample_calendar sample_loaded), app_cap = 10,
     app_json_text = json_number, app_clock_max = 2 ^ 63\<rparr>"

text \<open>A client that is created and revoked while usage waits to be written; then a limit is set and the process is killed.\<close>

definition revoked_history :: "process_event list" where
  "revoked_history = [Did (OpCreate ''acme'' None ''k'' ''1'' 0), Did OpWork, Did (OpResume 0), Did (OpAdd ''alchemy'' (Day ''2026-01-01'') 26 billed)]"

definition revoked_meanwhile :: "process_event list" where
  "revoked_meanwhile = [Did (OpAdd ''public'' (Day ''2026-01-01'') 1 billed), Did OpWork, Did OpWork, Did OpWork, Did OpWork, Did OpWork, Did OpWork, Did (OpResume 0)]"

theorem revoked_locked_out_witness:
  "\<not> is_ok (fst (call_tool hosted_app (\<lparr>ask_name = ''chain_list'', ask_input = JNull, ask_caller = sample_caller,
      ask_start = sample_clock, ask_lookup = sample_clock, ask_done = sample_clock\<rparr>)
    \<lparr>ap_cache = [], ap_metrics = [], ap_guard = sample_hosted\<lparr>h_store := life_run sample_codec sample_calendar
        [Did (OpLimits ''c_1'' None), Did OpWork, Killed]
        (life_run sample_codec sample_calendar (Did (OpRevoke ''c_1'' 3) # revoked_meanwhile)
          (life_run sample_codec sample_calendar revoked_history (start sample_codec empty_tables)))\<rparr>,
      ap_world = 0, ap_observed = []\<rparr>))"
proof -
  let ?s = "life_run sample_codec sample_calendar revoked_history (start sample_codec empty_tables)"
  let ?s1 = "life_run sample_codec sample_calendar (Did (OpRevoke ''c_1'' 3) # revoked_meanwhile) ?s"
  have "trim ''acme'' = ''acme''" by (rule trim_id) (simp add: is_space_def)
  then have before: "m_clients ?s = [(''c_1'', \<lparr>cl_id = ''c_1'', cl_name = ''acme'', cl_key_hash = hash_text sample_codec ''odm_k'',
      cl_created = 0, cl_revoked = None, cl_limits = None\<rparr>)] \<and> replies ?s = [] \<and> map snd (queue ?s) = [None, None]"
    by (simp add: revoked_history_def store_defs Let_def start_def load_clients_def empty_tables_def row_of_record_def nth_opt_def billed_def)
  then obtain r0 where r0: "client ?s ''c_1'' = Some r0" "cl_revoked r0 = None" "cl_id r0 = ''c_1''" by (simp add: client_def)
  have idle: "idle_client ''c_1'' ?s"
    using before by (auto simp: idle_client_def map_eq_Cons_conv)
  obtain q1 q2 where q: "queue ?s = [(q1, None), (q2, None)]" using before by (auto simp: map_eq_Cons_conv)
  have "\<exists>r1. client ?s1 ''c_1'' = Some r1 \<and> \<not> active r1"
    using before q by (simp add: revoked_meanwhile_def revoke_client_def call_store_def store_add_def bump_client_def submit_def
        work_def resume_def nth_opt_def billed_def client_def active_def case_prod_unfold Let_def)
  then obtain r1 where r1: "client ?s1 ''c_1'' = Some r1" "\<not> active r1" by blast
  have "\<forall>l. Did (OpLimits ''c_1'' l) \<notin> set revoked_meanwhile" by (simp add: revoked_meanwhile_def)
  from revoked_locked_out [OF refl r0(1) idle refl this r1 refl, of hosted_app _ "[Did (OpLimits ''c_1'' None), Did OpWork, Killed]"]
  show ?thesis
    by (simp add: hosted_app_def sample_caller_def del: life_run_simps)
qed

end
