(* ===== verification/Quota.thy ===== *)
theory Quota
  imports ClientStore Router
begin

text \<open>
  The quota engine (\<open>crates/store/src/quota.rs\<close>): usage per vendor and window from every source,
  the state of each budget, burn rate and run-out time, alerts, and the reconciliation that raises
  the local counters to what the vendor reports, so that the guard of the router sees it.

  The calendar library is the parameter \<open>chrono\<close> (beginning of the day and of the month, adding
  seconds, the text of a time) next to \<open>calendar\<close>; the answers of the vendors' usage endpoints are
  arguments of \<open>poll\<close>.
\<close>

section \<open>Data\<close>

record chrono =
  day_start :: "datetime \<Rightarrow> datetime option"
  month_start :: "datetime \<Rightarrow> datetime option"
  add_seconds :: "datetime \<Rightarrow> int \<Rightarrow> datetime option"
  rfc3339 :: "datetime \<Rightarrow> string"

datatype usage_source = Estimated | Headers | VendorApi

datatype quota_state = QuotaOk | QuotaWarning | QuotaReserve | QuotaExhaustedState

text \<open>The derived orders: by the order of the constructors.\<close>

fun source_rank :: "usage_source \<Rightarrow> nat" where
  "source_rank Estimated = 0" | "source_rank Headers = 1" | "source_rank VendorApi = 2"

fun state_rank :: "quota_state \<Rightarrow> nat" where
  "state_rank QuotaOk = 0" | "state_rank QuotaWarning = 1" | "state_rank QuotaReserve = 2" | "state_rank QuotaExhaustedState = 3"

lemma rank_inj: "source_rank a = source_rank b \<Longrightarrow> a = b"
  by (cases a; cases b) simp_all

lemma state_rank_inj: "state_rank a = state_rank b \<Longrightarrow> a = b"
  by (cases a; cases b) simp_all

instantiation usage_source :: linorder
begin

definition less_eq_usage_source :: "usage_source \<Rightarrow> usage_source \<Rightarrow> bool" where
  "less_eq_usage_source a b \<longleftrightarrow> source_rank a \<le> source_rank b"

definition less_usage_source :: "usage_source \<Rightarrow> usage_source \<Rightarrow> bool" where
  "less_usage_source a b \<longleftrightarrow> source_rank a < source_rank b"

instance
  by standard (auto simp: less_eq_usage_source_def less_usage_source_def rank_inj)

end

instantiation quota_state :: linorder
begin

definition less_eq_quota_state :: "quota_state \<Rightarrow> quota_state \<Rightarrow> bool" where
  "less_eq_quota_state a b \<longleftrightarrow> state_rank a \<le> state_rank b"

definition less_quota_state :: "quota_state \<Rightarrow> quota_state \<Rightarrow> bool" where
  "less_quota_state a b \<longleftrightarrow> state_rank a < state_rank b"

instance
  by standard (auto simp: less_eq_quota_state_def less_quota_state_def state_rank_inj)

end

datatype report_unit = ReportRequests | ReportCredits

record usage_window =
  uw_kind :: window_kind
  uw_unit :: report_unit
  uw_used :: u64
  uw_limit :: "u64 option"
  uw_resets_at :: "datetime option"

record vendor_usage =
  vu_plan :: "string option"
  vu_windows :: "usage_window list"
  vu_fetched_at :: datetime

record source_reading =
  rd_source :: usage_source
  rd_used :: u64
  rd_limit :: "u64 option"
  rd_resets_at :: "datetime option"
  rd_comparable :: bool

record window_quota =
  wq_kind :: string
  wq_limit :: "u64 option"
  wq_cap :: "u64 option"
  wq_effective :: "u64 option"
  wq_used :: "u64 option"
  wq_remaining :: "u64 option"
  wq_used_pct :: "u64 option"
  wq_source :: "usage_source option"
  wq_sources :: "source_reading list"
  wq_resets_at :: "datetime option"
  wq_state :: quota_state
  wq_alerts :: "u8 list"
  wq_burn_per_day :: "u64 option"
  wq_runs_out_at :: "datetime option"
  wq_limit_locked_by :: "string option"
  wq_cap_locked_by :: "string option"

record quota_breakdown =
  bd_methods :: "(string \<times> u64) list"
  bd_tools :: "(string \<times> u64) list"
  bd_chains :: "(string \<times> u64) list"
  bd_clients :: "(string \<times> u64) list"

record vendor_quota =
  vq_vendor :: string
  vq_display_name :: string
  vq_status :: vendor_status
  vq_unit :: usage_unit
  vq_reset :: reset_rule
  vq_reserve_pct :: u8
  vq_on_exhausted :: on_exhausted
  vq_alert_pct :: "u8 list"
  vq_estimated_only :: bool
  vq_plan :: "string option"
  vq_reported_at :: "datetime option"
  vq_report_error :: "string option"
  vq_state :: quota_state
  vq_exhausted_until :: "datetime option"
  vq_windows :: "window_quota list"
  vq_breakdown :: "quota_breakdown option"
  vq_series :: "(string \<times> u64) list option"

section \<open>Projection\<close>

record projection =
  pj_burn_per_day :: u64
  pj_runs_out_at :: "datetime option"

definition whole_seconds :: "int \<Rightarrow> int" where
  "whole_seconds d = (if 0 \<le> d then d div 1000000000 else - ((- d) div 1000000000))"

definition elapsed_secs :: "datetime \<Rightarrow> datetime \<Rightarrow> nat" where
  "elapsed_secs from_time now = nat (max (whole_seconds (now - from_time)) 60)"

definition project :: "chrono \<Rightarrow> u64 \<Rightarrow> u64 option \<Rightarrow> datetime \<Rightarrow> datetime \<Rightarrow> datetime \<Rightarrow> projection" where
  "project ch used budget from_time now resets =
     (let elapsed = elapsed_secs from_time now in
      \<lparr>pj_burn_per_day = of_nat (min (unat used * 86400 div elapsed) (2 ^ 64 - 1)),
       pj_runs_out_at = Option.bind budget (\<lambda>b.
         if b \<le> used then Some now
         else if used = 0 then None
         else let s = unat (b - used) * elapsed div unat used in
           if s < 2 ^ 63
           then Option.bind (add_seconds ch now (int s)) (\<lambda>t. if t < resets then Some t else None)
           else None)\<rparr>)"

section \<open>One window\<close>

fun same_unit :: "usage_unit \<Rightarrow> report_unit \<Rightarrow> bool" where
  "same_unit UnitRequests ReportRequests = True"
| "same_unit UnitCredits ReportCredits = True"
| "same_unit _ _ = False"

definition window_start :: "chrono \<Rightarrow> window_kind \<Rightarrow> datetime \<Rightarrow> datetime" where
  "window_start ch k now = unwrap_or now (if k = KindMonth then month_start ch now else day_start ch now)"

definition top_ten :: "(string \<times> u64) list \<Rightarrow> (string \<times> u64) list" where
  "top_ten m = take 10 (sort_key (\<lambda>(_, n). - int (unat n)) (sort_key fst m))"

definition locked_window :: "loaded \<Rightarrow> string \<Rightarrow> string \<Rightarrow> string \<Rightarrow> string option" where
  "locked_window l vendor which window =
     find_map (\<lambda>n. locked_by l [''vendors'', vendor, which, n])
       (if window = ''daily'' then [''daily'', ''daily_credits'', ''daily_requests'']
        else if window = ''monthly'' then [''monthly'', ''monthly_credits'', ''monthly_requests'']
        else [window])"

definition calendar_window :: "calendar \<Rightarrow> window_kind \<Rightarrow> datetime \<Rightarrow> window_key option" where
  "calendar_window cal k now = (case k of
       KindDay \<Rightarrow> Some (window_day cal now) | KindMonth \<Rightarrow> Some (window_month cal now) | _ \<Rightarrow> None)"

definition readings :: "calendar \<Rightarrow> (string \<Rightarrow> window_key \<Rightarrow> u64) \<Rightarrow> string \<Rightarrow> usage_unit \<Rightarrow> vendor_usage option
    \<Rightarrow> window_kind \<Rightarrow> datetime \<Rightarrow> source_reading list" where
  "readings cal tot vendor unit usage k now =
     (case calendar_window cal k now of
        None \<Rightarrow> []
      | Some wk \<Rightarrow> [\<lparr>rd_source = Estimated, rd_used = tot vendor wk, rd_limit = None,
          rd_resets_at = Some (resets_at cal wk now), rd_comparable = True\<rparr>])
     @ map (\<lambda>w. \<lparr>rd_source = VendorApi, rd_used = uw_used w, rd_limit = uw_limit w,
          rd_resets_at = uw_resets_at w, rd_comparable = same_unit unit (uw_unit w)\<rparr>)
        (filter (\<lambda>w. uw_kind w = k) (case usage of None \<Rightarrow> [] | Some u \<Rightarrow> vu_windows u))"

text \<open>\<open>max_by_key\<close> keeps the last of several maxima.\<close>

definition outranks :: "source_reading \<Rightarrow> source_reading \<Rightarrow> bool" where
  "outranks a b \<longleftrightarrow> rd_used b < rd_used a \<or> (rd_used b = rd_used a \<and> rd_source b \<le> rd_source a)"

fun best_of :: "source_reading option \<Rightarrow> source_reading list \<Rightarrow> source_reading option" where
  "best_of acc [] = acc"
| "best_of acc (r # rs) = best_of (case acc of None \<Rightarrow> Some r | Some a \<Rightarrow> if outranks r a then Some r else Some a) rs"

definition used_pct_of :: "u64 option \<Rightarrow> u64 option \<Rightarrow> u64 option" where
  "used_pct_of used eff = (case (used, eff) of
       (Some u, Some e) \<Rightarrow> if 0 < e then Some (sat_mul u 100 div e) else if 0 < u then Some 100 else None
     | _ \<Rightarrow> None)"

definition state_of :: "u64 option \<Rightarrow> u64 option \<Rightarrow> u64 option \<Rightarrow> u64 option \<Rightarrow> u8 list \<Rightarrow> quota_state" where
  "state_of used limit eff pc alert_pct =
     (if used \<noteq> None \<and> reached limit (the used) then QuotaExhaustedState
      else if used \<noteq> None \<and> reached eff (the used) then QuotaReserve
      else if pc \<noteq> None \<and> alert_pct \<noteq> [] \<and> ucast (Min (set alert_pct)) \<le> the pc then QuotaWarning
      else QuotaOk)"

definition alerts_of :: "u64 option \<Rightarrow> u8 list \<Rightarrow> u8 list" where
  "alerts_of pc alert_pct = filter (\<lambda>a. case pc of None \<Rightarrow> False | Some p \<Rightarrow> ucast a \<le> p) alert_pct"

text \<open>A row of the report, unless no budget is set and nothing is used.\<close>

definition window_row :: "calendar \<Rightarrow> chrono \<Rightarrow> loaded \<Rightarrow> (string \<Rightarrow> window_key \<Rightarrow> u64) \<Rightarrow> string \<Rightarrow> effective_budget
    \<Rightarrow> vendor_usage option \<Rightarrow> datetime \<Rightarrow> string \<times> window_kind \<times> u64 option \<times> u64 option \<times> u64 option
    \<Rightarrow> window_quota option" where
  "window_row cal ch l tot vendor b usage now = (\<lambda>(kind, k, limit, cap, eff).
     let sources = readings cal tot vendor (eb_unit b) usage k now in
     if limit = None \<and> cap = None \<and> eff = None \<and> (\<forall>s \<in> set sources. rd_used s = 0) then None
     else
       let best = best_of None (filter rd_comparable sources);
           used = map_option rd_used best;
           wk = calendar_window cal k now;
           resets = or_opt (map_option (\<lambda>w. resets_at cal w now) wk) (Option.bind best rd_resets_at);
           pc = used_pct_of used eff;
           proj = (case (used, wk, resets) of
             (Some u, Some _, Some r) \<Rightarrow> Some (project ch u eff (window_start ch k now) now r) | _ \<Rightarrow> None)
       in Some \<lparr>wq_kind = kind, wq_limit = limit, wq_cap = cap, wq_effective = eff, wq_used = used,
            wq_remaining = (case (used, eff) of (Some u, Some e) \<Rightarrow> Some (sat_sub e u) | _ \<Rightarrow> None),
            wq_used_pct = pc, wq_source = map_option rd_source best, wq_sources = sources,
            wq_resets_at = resets, wq_state = state_of used limit eff pc (eb_alert_pct b),
            wq_alerts = alerts_of pc (eb_alert_pct b),
            wq_burn_per_day = map_option pj_burn_per_day proj,
            wq_runs_out_at = Option.bind proj pj_runs_out_at,
            wq_limit_locked_by = locked_window l vendor ''limit'' kind,
            wq_cap_locked_by = locked_window l vendor ''cap'' kind\<rparr>)"

text \<open>The row of the latest rate-limit headers; \<open>x * 100\<close> is not saturating there.\<close>

definition live_row :: "vendor_health option \<Rightarrow> window_quota option" where
  "live_row h = Option.bind h (\<lambda>h.
     let u = vh_usage h in
     if header_limit u = None \<and> header_remaining u = None then None
     else
       let used = (case (header_limit u, header_remaining u) of (Some l, Some r) \<Rightarrow> Some (sat_sub l r) | _ \<Rightarrow> None)
       in Some \<lparr>wq_kind = ''live'', wq_limit = header_limit u, wq_cap = None, wq_effective = header_limit u,
            wq_used = used, wq_remaining = header_remaining u,
            wq_used_pct = (case (used, header_limit u) of
              (Some x, Some l) \<Rightarrow> if 0 < l then Some (x * 100 div l) else None | _ \<Rightarrow> None),
            wq_source = Some Headers,
            wq_sources = [\<lparr>rd_source = Headers, rd_used = unwrap_or 0 used, rd_limit = header_limit u,
              rd_resets_at = None, rd_comparable = True\<rparr>],
            wq_resets_at = vh_exhausted_until h,
            wq_state = (if header_remaining u = Some 0 then QuotaExhaustedState else QuotaOk),
            wq_alerts = [], wq_burn_per_day = None, wq_runs_out_at = None,
            wq_limit_locked_by = None, wq_cap_locked_by = None\<rparr>)"

definition window_specs :: "effective_budget \<Rightarrow> (string \<times> window_kind \<times> u64 option \<times> u64 option \<times> u64 option) list" where
  "window_specs b =
     [(''rps'', KindSecond, rps (eb_limit b), rps (eb_cap b), rps (effective b)),
      (''per_minute'', KindMinute, per_minute (eb_limit b), per_minute (eb_cap b), per_minute (effective b)),
      (''daily'', KindDay, daily (eb_limit b), daily (eb_cap b), daily (effective b)),
      (''monthly'', KindMonth, monthly (eb_limit b), monthly (eb_cap b), monthly (effective b))]"

definition quota_windows :: "calendar \<Rightarrow> chrono \<Rightarrow> loaded \<Rightarrow> (string \<Rightarrow> window_key \<Rightarrow> u64) \<Rightarrow> string \<Rightarrow> effective_budget
    \<Rightarrow> vendor_health option \<Rightarrow> vendor_usage option \<Rightarrow> datetime \<Rightarrow> window_quota list" where
  "quota_windows cal ch l tot vendor b h usage now =
     List.map_filter (window_row cal ch l tot vendor b usage now) (window_specs b)
     @ (case live_row h of None \<Rightarrow> [] | Some r \<Rightarrow> [r])"


section \<open>Polling and reconciliation\<close>

definition reconcile_dims :: dims where
  "reconcile_dims = \<lparr>dim_method = ''vendor_reconcile'', dim_tool = None, dim_chain = None, dim_client = None\<rparr>"

definition reconcile_window :: "('s \<Rightarrow> string \<Rightarrow> window_key \<Rightarrow> u64 \<Rightarrow> dims \<Rightarrow> 's) \<Rightarrow> ('s \<Rightarrow> string \<Rightarrow> window_key \<Rightarrow> u64)
    \<Rightarrow> calendar \<Rightarrow> string \<Rightarrow> usage_unit \<Rightarrow> datetime \<Rightarrow> 's \<Rightarrow> usage_window \<Rightarrow> 's" where
  "reconcile_window add tot cal vendor unit now s w = (case calendar_window cal (uw_kind w) now of
       None \<Rightarrow> s
     | Some wk \<Rightarrow>
         if \<not> same_unit unit (uw_unit w) then s
         else if tot s vendor wk < uw_used w
         then add s vendor wk (uw_used w - tot s vendor wk) reconcile_dims
         else s)"

definition reconcile :: "('s \<Rightarrow> string \<Rightarrow> window_key \<Rightarrow> u64 \<Rightarrow> dims \<Rightarrow> 's) \<Rightarrow> ('s \<Rightarrow> string \<Rightarrow> window_key \<Rightarrow> u64)
    \<Rightarrow> calendar \<Rightarrow> string \<Rightarrow> vendor_usage \<Rightarrow> usage_unit \<Rightarrow> datetime \<Rightarrow> 's \<Rightarrow> 's" where
  "reconcile add tot cal vendor usage unit now s =
     foldl (reconcile_window add tot cal vendor unit now) s (vu_windows usage)"

record reported =
  rp_usage :: "vendor_usage option"
  rp_error :: "string option"

text \<open>A reporter answers, fails, or does not answer within the timeout.\<close>

datatype report_answer = Reported vendor_usage | ReportFailed provider_error | ReportTimeout

definition poll_one :: "('s \<Rightarrow> string \<Rightarrow> window_key \<Rightarrow> u64 \<Rightarrow> dims \<Rightarrow> 's) \<Rightarrow> ('s \<Rightarrow> string \<Rightarrow> window_key \<Rightarrow> u64)
    \<Rightarrow> calendar \<Rightarrow> loaded \<Rightarrow> datetime \<Rightarrow> 's \<times> (string \<Rightarrow> reported option) \<Rightarrow> string \<times> report_answer
    \<Rightarrow> 's \<times> (string \<Rightarrow> reported option)" where
  "poll_one add tot cal l now = (\<lambda>(s, rep) (vendor, answer). case answer of
       Reported u \<Rightarrow>
         ((case effective_budget_of l vendor of
             Some b \<Rightarrow> reconcile add tot cal vendor u (eb_unit b) now s | None \<Rightarrow> s),
          rep(vendor \<mapsto> \<lparr>rp_usage = Some u, rp_error = None\<rparr>))
     | ReportFailed e \<Rightarrow> (s, rep(vendor \<mapsto> \<lparr>rp_usage = None, rp_error = Some (scrub l (show_provider_error e))\<rparr>))
     | ReportTimeout \<Rightarrow> (s, rep(vendor \<mapsto> \<lparr>rp_usage = None, rp_error = Some ''usage endpoint timed out''\<rparr>)))"

definition poll :: "('s \<Rightarrow> string \<Rightarrow> window_key \<Rightarrow> u64 \<Rightarrow> dims \<Rightarrow> 's) \<Rightarrow> ('s \<Rightarrow> string \<Rightarrow> window_key \<Rightarrow> u64)
    \<Rightarrow> calendar \<Rightarrow> loaded \<Rightarrow> datetime \<Rightarrow> (string \<times> report_answer) list \<Rightarrow> 's \<times> (string \<Rightarrow> reported option)
    \<Rightarrow> 's \<times> (string \<Rightarrow> reported option)" where
  "poll add tot cal l now answers st = foldl (poll_one add tot cal l now) st answers"

section \<open>The report\<close>

definition sum_into :: "(breakdown_row \<Rightarrow> string option) \<Rightarrow> breakdown_row list \<Rightarrow> (string \<times> u64) list" where
  "sum_into f rs = foldl (\<lambda>m r. bump (unwrap_or ''-'' (f r)) (br_amount r) m) [] rs"

definition breakdown_of :: "breakdown_row list \<Rightarrow> quota_breakdown" where
  "breakdown_of rs = \<lparr>bd_methods = top_ten (sum_into (Some \<circ> br_method) rs),
     bd_tools = top_ten (sum_into br_tool rs), bd_chains = top_ten (sum_into br_chain rs),
     bd_clients = top_ten (sum_into br_client rs)\<rparr>"

definition max_state :: "window_quota list \<Rightarrow> quota_state" where
  "max_state ws = foldl max QuotaOk (map wq_state ws)"

text \<open>
  One vendor of the report. \<open>dt\<close> are the tables that details are read from, when they are asked for.
\<close>

definition report_vendor :: "calendar \<Rightarrow> chrono \<Rightarrow> loaded \<Rightarrow> (string \<Rightarrow> window_key \<Rightarrow> u64) \<Rightarrow> vendor_health list
    \<Rightarrow> string list \<Rightarrow> (string \<Rightarrow> reported option) \<Rightarrow> tables option \<Rightarrow> datetime
    \<Rightarrow> string \<times> vendor_entry \<Rightarrow> vendor_quota option" where
  "report_vendor cal ch l tot healths reporters rep dt now = (\<lambda>(vendor, entry).
     if vendor = ''rpc'' then None
     else Option.bind (effective_budget_of l vendor) (\<lambda>b.
       let usage = Option.bind (rep vendor) rp_usage;
           h = find (\<lambda>h. vh_vendor h = vendor) healths;
           ws = quota_windows cal ch l tot vendor b h usage now;
           until_time = Option.bind h vh_exhausted_until
       in Some \<lparr>vq_vendor = vendor, vq_display_name = ve_display_name entry, vq_status = vendor_status l vendor,
            vq_unit = eb_unit b, vq_reset = eb_reset b, vq_reserve_pct = eb_reserve_pct b,
            vq_on_exhausted = eb_on_exhausted b, vq_alert_pct = eb_alert_pct b,
            vq_estimated_only = (vendor \<notin> set reporters),
            vq_plan = Option.bind usage vu_plan, vq_reported_at = map_option vu_fetched_at usage,
            vq_report_error = Option.bind (rep vendor) rp_error,
            vq_state = (if until_time \<noteq> None then QuotaExhaustedState else max_state ws),
            vq_exhausted_until = until_time, vq_windows = ws,
            vq_breakdown = map_option (\<lambda>t. breakdown_of (query_breakdown t vendor (wkey (window_month cal now)))) dt,
            vq_series = map_option (\<lambda>t. daily_series cal t vendor 30 now) dt\<rparr>))"

definition quota_report :: "calendar \<Rightarrow> chrono \<Rightarrow> loaded \<Rightarrow> (string \<Rightarrow> window_key \<Rightarrow> u64) \<Rightarrow> vendor_health list
    \<Rightarrow> string list \<Rightarrow> (string \<Rightarrow> reported option) \<Rightarrow> tables option \<Rightarrow> datetime
    \<Rightarrow> vendor_quota list" where
  "quota_report cal ch l tot healths reporters rep dt now =
     List.map_filter (report_vendor cal ch l tot healths reporters rep dt now) (reg_vendors (registry l))"

section \<open>Alerts\<close>

fun state_debug :: "quota_state \<Rightarrow> string" where
  "state_debug QuotaOk = ''Ok''"
| "state_debug QuotaWarning = ''Warning''"
| "state_debug QuotaReserve = ''Reserve''"
| "state_debug QuotaExhaustedState = ''Exhausted''"

definition alert_id :: "chrono \<Rightarrow> string \<Rightarrow> window_quota \<Rightarrow> string \<Rightarrow> string" where
  "alert_id ch vendor w what = vendor @ '':'' @ wq_kind w @ '':''
     @ (case wq_resets_at w of Some t \<Rightarrow> rfc3339 ch t | None \<Rightarrow> []) @ '':'' @ what"

text \<open>The ids of one window, in the order in which they are tried.\<close>

definition window_alerts :: "chrono \<Rightarrow> string \<Rightarrow> window_quota \<Rightarrow> string list" where
  "window_alerts ch vendor w =
     map (\<lambda>a. alert_id ch vendor w (show_nat (unat a))) (wq_alerts w)
     @ (if QuotaReserve \<le> wq_state w then [alert_id ch vendor w (state_debug (wq_state w))] else [])"

text \<open>\<open>seen.insert\<close> warns once per id: the new set and the warnings.\<close>

fun warn_new :: "string list \<Rightarrow> string list \<Rightarrow> string list \<times> string list" where
  "warn_new seen [] = (seen, [])"
| "warn_new seen (i # ids) = (if i \<in> set seen then warn_new seen ids
     else let (seen', ws) = warn_new (i # seen) ids in (seen', i # ws))"

definition check_alerts :: "chrono \<Rightarrow> vendor_quota list \<Rightarrow> string list \<Rightarrow> string list \<times> string list" where
  "check_alerts ch rep seen =
     warn_new seen (concat (map (\<lambda>v. concat (map (window_alerts ch (vq_vendor v)) (vq_windows v))) rep))"

section \<open>Export\<close>

fun source_snake :: "usage_source \<Rightarrow> string" where
  "source_snake Estimated = ''estimated''"
| "source_snake Headers = ''headers''"
| "source_snake VendorApi = ''vendor_api''"

fun state_snake :: "quota_state \<Rightarrow> string" where
  "state_snake QuotaOk = ''ok''"
| "state_snake QuotaWarning = ''warning''"
| "state_snake QuotaReserve = ''reserve''"
| "state_snake QuotaExhaustedState = ''exhausted''"

definition newline :: char where
  "newline = CHR 0x0A"

definition csv_cell :: "string \<Rightarrow> string" where
  "csv_cell s = (let s = (case s of c # _ \<Rightarrow> if c \<in> {CHR ''='', CHR ''+'', CHR ''-'', CHR ''@''} then CHR 0x27 # s else s
                       | [] \<Rightarrow> s) in
     if CHR '','' \<in> set s \<or> CHR ''\"'' \<in> set s \<or> newline \<in> set s
     then CHR ''\"'' # concat (map (\<lambda>c. if c = CHR ''\"'' then [c, c] else [c]) s) @ [CHR ''\"'']
     else s)"

definition csv_row :: "chrono \<Rightarrow> vendor_quota \<Rightarrow> window_quota \<Rightarrow> string" where
  "csv_row ch v w =
     (let n = (\<lambda>x. case x of None \<Rightarrow> [] | Some (k :: u64) \<Rightarrow> show_nat (unat k));
          t = (\<lambda>x. case x of None \<Rightarrow> [] | Some k \<Rightarrow> rfc3339 ch k)
      in join '','' (map csv_cell
        [vq_vendor v, wq_kind w, (case vq_unit v of UnitRequests \<Rightarrow> ''requests'' | UnitCredits \<Rightarrow> ''credits''),
         n (wq_limit w), n (wq_cap w), n (wq_effective w), n (wq_used w), n (wq_remaining w), n (wq_used_pct w),
         (case wq_source w of None \<Rightarrow> [] | Some s \<Rightarrow> source_snake s), state_snake (wq_state w),
         n (wq_burn_per_day w), t (wq_runs_out_at w), t (wq_resets_at w),
         (if vq_estimated_only v then ''true'' else ''false'')]))"

definition to_csv :: "chrono \<Rightarrow> vendor_quota list \<Rightarrow> string" where
  "to_csv ch rep = ''vendor,window,unit,limit,cap,effective,used,remaining,used_pct,source,state,burn_per_day,runs_out_at,resets_at,estimated_only''
     @ [newline] @ concat (map (\<lambda>v. concat (map (\<lambda>w. csv_row ch v w @ [newline]) (vq_windows v))) rep)"


section \<open>Reconciliation\<close>

text \<open>The report of a window counts for a calendar window of the same kind and unit.\<close>

definition counts_for :: "calendar \<Rightarrow> usage_unit \<Rightarrow> datetime \<Rightarrow> window_key \<Rightarrow> usage_window \<Rightarrow> bool" where
  "counts_for cal unit now k w \<longleftrightarrow> calendar_window cal (uw_kind w) now = Some k \<and> same_unit unit (uw_unit w)"

context metered
begin

lemma reconcile_window_total:
  assumes "valid s"
  shows "valid (reconcile_window add total cal vendor unit now s w)"
    and "total (reconcile_window add total cal vendor unit now s w) v k
      = (if v = vendor \<and> counts_for cal unit now k w then max (total s v k) (uw_used w) else total s v k)"
  using assms by (auto simp: reconcile_window_def counts_for_def valid_add total_add max_def split: option.split)

lemma reconcile_total:
  assumes "valid s"
  shows "valid (reconcile add total cal vendor usage unit now s)
    \<and> total (reconcile add total cal vendor usage unit now s) v k
      = foldl max (total s v k) (if v = vendor
          then map uw_used (filter (counts_for cal unit now k) (vu_windows usage)) else [])"
proof -
  have "valid (foldl (reconcile_window add total cal vendor unit now) s ws)
      \<and> total (foldl (reconcile_window add total cal vendor unit now) s ws) v k
        = foldl max (total s v k) (if v = vendor then map uw_used (filter (counts_for cal unit now k) ws) else [])"
    if "valid s" for s ws
    using that by (induction ws arbitrary: s) (auto simp: reconcile_window_total)
  then show ?thesis using assms by (simp add: reconcile_def)
qed

end

lemma foldl_max_iff:
  fixes a :: "'a::linorder"
  shows "x \<le> foldl max a xs \<longleftrightarrow> x \<le> a \<or> (\<exists>y \<in> set xs. x \<le> y)"
  by (induction xs arbitrary: a) (auto simp: le_max_iff_disj)

lemma foldl_max_in: "foldl max (a :: 'a::linorder) xs \<in> insert a (set xs)"
proof (induction xs arbitrary: a)
  case (Cons x xs)
  from Cons [of "max a x"] show ?case by (auto simp: max_def split: if_splits)
qed simp

lemma db_reconcile:
  "store_total (reconcile store_add store_total cal vendor usage unit now s) v k
      = foldl max (store_total s v k) (if v = vendor
          then map uw_used (filter (counts_for cal unit now k) (vu_windows usage)) else [])"
  using sqlite.reconcile_total by simp

text \<open>
  Reconciling with a vendor's report raises the vendor's counter of each calendar window to the
  largest usage reported for it in the budget's unit, never lowers one, and leaves all other
  vendors and windows alone.
\<close>

theorem reconcile_exact:
  "store_total (reconcile store_add store_total cal vendor usage unit now s) v k
      = foldl max (store_total s v k) (if v = vendor
          then map uw_used (filter (counts_for cal unit now k) (vu_windows usage)) else [])"
  by (rule db_reconcile)

lemma poll_other:
  assumes "vendor \<notin> fst ` set answers"
  shows "store_total (fst (poll store_add store_total cal l now answers st)) vendor k = store_total (fst st) vendor k"
  using assms
proof (induction answers arbitrary: st)
  case (Cons a as)
  obtain v an s rep where a: "a = (v, an)" "st = (s, rep)" by (cases a; cases st) auto
  have "store_total (fst (poll_one store_add store_total cal l now st a)) vendor k = store_total (fst st) vendor k"
    using a Cons.prems
    by (auto simp: poll_one_def db_reconcile split: report_answer.split option.split)
  with Cons show ?case by (simp add: poll_def)
qed (simp add: poll_def)

lemma poll_total_mono:
  "store_total (fst st) vendor k \<le> store_total (fst (poll store_add store_total cal l now answers st)) vendor k"
proof (induction answers arbitrary: st)
  case (Cons a as)
  obtain v an s rep where a: "a = (v, an)" "st = (s, rep)" by (cases a; cases st) auto
  have "store_total s vendor k \<le> store_total (reconcile store_add store_total cal v u unit now s) vendor k" for u unit
    by (simp add: db_reconcile foldl_max_iff)
  then have "store_total (fst st) vendor k \<le> store_total (fst (poll_one store_add store_total cal l now st a)) vendor k"
    using a by (auto simp: poll_one_def split: report_answer.split option.split)
  with Cons [of "poll_one store_add store_total cal l now st a"] show ?case by (simp add: poll_def)
qed (simp add: poll_def)

lemma poll_reported:
  assumes "(vendor, Reported u) \<in> set answers" and "effective_budget_of l vendor = Some b"
    and "w \<in> set (vu_windows u)" and "counts_for cal (eb_unit b) now k w"
  shows "uw_used w \<le> store_total (fst (poll store_add store_total cal l now answers st)) vendor k"
proof -
  obtain as bs where split: "answers = as @ (vendor, Reported u) # bs" using assms(1) by (meson split_list)
  obtain s rep where st1: "poll store_add store_total cal l now as st = (s, rep)" by fastforce
  let ?mid = "poll_one store_add store_total cal l now (s, rep) (vendor, Reported u)"
  have "uw_used w \<le> store_total (fst ?mid) vendor k"
    using assms(2-4) by (auto simp: poll_one_def foldl_max_iff db_reconcile)
  also have "\<dots> \<le> store_total (fst (poll store_add store_total cal l now bs ?mid)) vendor k" by (rule poll_total_mono)
  also have "poll store_add store_total cal l now bs ?mid = poll store_add store_total cal l now answers st"
    using st1 by (simp add: split poll_def)
  finally show ?thesis .
qed

text \<open>
  C39: what a vendor reports reaches the router's guard. After a poll that brings a report of monthly or
  daily usage, in the unit of the budget, at or above the effective budget of that window, and until that
  window ends, whatever else is counted meanwhile, the router skips the vendor as out of quota; but where
  the configuration allows overage, it only does while a refusal of the vendor itself has it marked used up.
\<close>

theorem reported_overuse_blocks:
  assumes "(vendor, Reported u) \<in> set answers" and "effective_budget_of l vendor = Some b"
    and "w \<in> set (vu_windows u)" and "same_unit (eb_unit b) (uw_unit w)"
    and "(uw_kind w = KindMonth \<and> monthly (effective b) = Some n \<and> window_month cal (utc c) = window_month cal now)
      \<or> (uw_kind w = KindDay \<and> daily (effective b) = Some n \<and> window_day cal (utc c) = window_day cal now)"
    and "n \<le> uw_used w"
    and "\<forall>k. store_total (fst (poll store_add store_total cal l now answers st)) vendor k \<le> store_total (store rt) vendor k"
  shows "quota_block cal store_total rt vendor (Some b) c =
    (if \<exists>t. st_exhausted_until (vendors rt vendor) = Some t \<and> utc c < t then Some ''quota_exhausted''
     else if eb_on_exhausted b = AllowOverage then None else Some ''quota_reserve'')"
proof -
  define k where "k = (if uw_kind w = KindMonth then window_month cal now else window_day cal now)"
  have "counts_for cal (eb_unit b) now k w"
    using assms(4,5) by (auto simp: counts_for_def calendar_window_def k_def)
  from poll_reported [OF assms(1-3) this, of st] assms(6) assms(7) [rule_format, of k]
  have "n \<le> store_total (store rt) vendor k" by simp
  with assms(5) show ?thesis by (auto simp: quota_block_def Let_def k_def split: option.split)
qed

section \<open>The most pessimistic source decides\<close>

lemma best_of_spec:
  "best_of acc rs = Some r \<Longrightarrow> (acc = Some r \<or> r \<in> set rs) \<and> (\<forall>a. acc = Some a \<longrightarrow> rd_used a \<le> rd_used r)
    \<and> (\<forall>x \<in> set rs. rd_used x \<le> rd_used r)"
proof (induction acc rs arbitrary: r rule: best_of.induct)
  case (2 acc x rs)
  let ?acc = "case acc of None \<Rightarrow> Some x | Some a \<Rightarrow> if outranks x a then Some x else Some a"
  have ih: "(?acc = Some r \<or> r \<in> set rs) \<and> (\<forall>a. ?acc = Some a \<longrightarrow> rd_used a \<le> rd_used r) \<and> (\<forall>x \<in> set rs. rd_used x \<le> rd_used r)"
    using 2 by simp
  then show ?case by (cases acc) (auto simp: outranks_def split: if_splits)
qed simp

lemma best_of_None: "best_of acc rs = None \<longleftrightarrow> acc = None \<and> rs = []"
  by (induction acc rs rule: best_of.induct) (auto split: option.splits)

lemma reached_mono: "reached l a \<Longrightarrow> a \<le> b \<Longrightarrow> reached l b"
  by (auto simp: reached_def split: option.splits)

text \<open>
  The state of a budget is decided by the most pessimistic source: a window is reported used up
  (reserve or exhausted) exactly when some reading in its unit, metered or reported by the vendor,
  reaches the limit or the effective budget, and exhausted exactly when one reaches the limit.
\<close>

theorem pessimistic_source_decides:
  assumes "window_row cal ch l tot vendor b usage now (kind, k, limit, cap, eff) = Some w"
  shows "(QuotaReserve \<le> wq_state w \<longleftrightarrow>
      (\<exists>r \<in> set (wq_sources w). rd_comparable r \<and> (reached limit (rd_used r) \<or> reached eff (rd_used r))))
    \<and> (wq_state w = QuotaExhaustedState \<longleftrightarrow> (\<exists>r \<in> set (wq_sources w). rd_comparable r \<and> reached limit (rd_used r)))"
proof -
  let ?rs = "readings cal tot vendor (eb_unit b) usage k now"
  let ?best = "best_of None (filter rd_comparable ?rs)"
  obtain pc where w: "wq_sources w = ?rs" "wq_state w = state_of (map_option rd_used ?best) limit eff pc (eb_alert_pct b)"
    using assms by (auto simp: window_row_def Let_def split: if_splits)
  show ?thesis
  proof (cases ?best)
    case None
    then have "filter rd_comparable ?rs = []" by (simp add: best_of_None)
    then have "\<forall>r \<in> set ?rs. \<not> rd_comparable r" by (simp add: filter_empty_conv)
    with None w show ?thesis by (auto simp: state_of_def less_eq_quota_state_def)
  next
    case (Some r)
    from best_of_spec [OF Some] have r: "r \<in> set ?rs" "rd_comparable r"
      "\<forall>x \<in> set ?rs. rd_comparable x \<longrightarrow> rd_used x \<le> rd_used r" by auto
    then have "reached x (rd_used r) \<longleftrightarrow> (\<exists>y \<in> set ?rs. rd_comparable y \<and> reached x (rd_used y))" for x
      using reached_mono by blast
    with Some w show ?thesis by (auto simp: state_of_def less_eq_quota_state_def)
  qed
qed


text \<open>
  The percentage of the rate-limit headers is computed without saturation: a large limit that is
  used up can show as zero percent (and stops a build with overflow checks).
\<close>

lemma live_pct_wraps:
  assumes "header_limit (vh_usage h) = Some (2 ^ 63)" and "header_remaining (vh_usage h) = Some 0"
  shows "\<exists>w. live_row (Some h) = Some w \<and> wq_used w = wq_limit w \<and> wq_state w = QuotaExhaustedState
    \<and> wq_used_pct w = Some 0"
  using assms by (simp add: live_row_def Let_def sat_sub_def)

section \<open>Projection\<close>

text \<open>\<open>checked_add_signed\<close> adds exactly when the result is in the library's range.\<close>

definition adds_exactly :: "chrono \<Rightarrow> bool" where
  "adds_exactly ch \<longleftrightarrow> (\<forall>t n r. add_seconds ch t n = Some r \<longrightarrow> r = t + n * 1000000000)"

lemma div_between: "0 < u \<Longrightarrow> u * (a div u) \<le> a \<and> a < u * (a div u + 1)" for a u :: nat
  using dividend_less_times_div [of u a] by (simp add: algebra_simps)

text \<open>
  A projected run-out time is where the average rate since the window began meets the budget, to
  the second: usage at that rate is within the budget then and past it one second later. It is never
  in the past and always before the window resets, except that it is now once the budget is used up.
\<close>

theorem run_out_exact:
  assumes "adds_exactly ch" and "pj_runs_out_at (project ch used (Some b) from_time now resets) = Some t"
  shows "(b \<le> used \<and> t = now) \<or> (used < b \<and> now \<le> t \<and> t < resets
    \<and> (\<exists>s. t = now + int s * 1000000000
        \<and> unat used * (elapsed_secs from_time now + s) \<le> unat b * elapsed_secs from_time now
        \<and> unat b * elapsed_secs from_time now < unat used * (elapsed_secs from_time now + s + 1)))"
proof (cases "b \<le> used")
  case True
  with assms(2) show ?thesis by (simp add: project_def Let_def)
next
  case False
  define e where "e = elapsed_secs from_time now"
  define s where "s = unat (b - used) * e div unat used"
  have used: "used \<noteq> 0" and add: "add_seconds ch now (int s) = Some t" and before: "t < resets"
    using assms(2) False by (auto simp: project_def Let_def s_def e_def bind_eq_Some_conv split: if_splits)
  have t: "t = now + int s * 1000000000" using assms(1) add by (simp add: adds_exactly_def)
  have less: "unat used < unat b" using False by (simp add: word_le_nat_alt not_le)
  have "unat (b - used) = unat b - unat used" using False by (simp add: unat_sub)
  then have sum: "unat b * e = unat used * e + unat (b - used) * e" using less by (simp add: diff_mult_distrib)
  have pos: "0 < unat used" using used by (simp add: unat_gt_0)
  have "unat used * s \<le> unat (b - used) * e \<and> unat (b - used) * e < unat used * (s + 1)"
    using div_between [OF pos, of "unat (b - used) * e"] by (simp only: s_def)
  with sum have "unat used * (e + s) \<le> unat b * e \<and> unat b * e < unat used * (e + s + 1)"
    by (simp add: distrib_left)
  with False t before show ?thesis by (auto simp: e_def)
qed

section \<open>Alerts\<close>

text \<open>The warnings of a series of reports, in order.\<close>

fun alert_log :: "chrono \<Rightarrow> vendor_quota list list \<Rightarrow> string list \<Rightarrow> string list" where
  "alert_log ch [] seen = []"
| "alert_log ch (r # rs) seen = (let (seen', ws) = check_alerts ch r seen in ws @ alert_log ch rs seen')"

definition report_ids :: "chrono \<Rightarrow> vendor_quota list \<Rightarrow> string list" where
  "report_ids ch rep = concat (map (\<lambda>v. concat (map (window_alerts ch (vq_vendor v)) (vq_windows v))) rep)"

lemma warn_new_spec:
  "warn_new seen ids = (seen', ws) \<Longrightarrow> distinct ws \<and> set ws = set ids - set seen \<and> set seen' = set seen \<union> set ids"
proof (induction ids arbitrary: seen seen' ws)
  case (Cons i ids)
  show ?case
  proof (cases "i \<in> set seen")
    case True
    then have "warn_new seen ids = (seen', ws)" using Cons.prems by simp
    from Cons.IH [OF this] True show ?thesis by auto
  next
    case False
    obtain s w where rest: "warn_new (i # seen) ids = (s, w)" by fastforce
    have "seen' = s" "ws = i # w" using Cons.prems False rest by simp_all
    with Cons.IH [OF rest] False show ?thesis by auto
  qed
qed simp

lemma alert_log_spec:
  "distinct (alert_log ch reps seen) \<and> set (alert_log ch reps seen) = \<Union> (set ` report_ids ch ` set reps) - set seen"
proof (induction reps arbitrary: seen)
  case (Cons r rs)
  obtain seen' ws where c: "check_alerts ch r seen = (seen', ws)" by fastforce
  then have "distinct ws" "set ws = set (report_ids ch r) - set seen" "set seen' = set seen \<union> set (report_ids ch r)"
    using warn_new_spec [of seen "report_ids ch r" seen' ws] by (simp_all add: check_alerts_def report_ids_def)
  with Cons [of seen'] c show ?case by auto
qed simp

text \<open>
  Over any series of reports each alert of a window - a threshold crossed, the budget reached,
  the vendor exhausted - is logged exactly once until the window resets: none is lost, none repeats.
\<close>

theorem alerts_once:
  "distinct (alert_log ch reps []) \<and> set (alert_log ch reps []) = \<Union> (set ` report_ids ch ` set reps)"
  by (simp add: alert_log_spec)

section \<open>A small instance\<close>

definition sample_chrono :: chrono where
  "sample_chrono = \<lparr>day_start = (\<lambda>t. Some (t - t mod 86400000000000)), month_start = (\<lambda>t. None),
     add_seconds = (\<lambda>t n. Some (t + n * 1000000000)), rfc3339 = (\<lambda>t. show_nat (nat t))\<rparr>"

theorem run_out_exact_witness:
  "\<exists>s. unat (1000 :: u64) * (elapsed_secs 0 100000000000 + s) \<le> unat (2500 :: u64) * elapsed_secs 0 100000000000"
proof -
  have law: "adds_exactly sample_chrono" by (simp add: adds_exactly_def sample_chrono_def)
  have at: "pj_runs_out_at (project sample_chrono 1000 (Some 2500) 0 100000000000 500000000000) = Some 250000000000"
    by (simp add: project_def sample_chrono_def elapsed_secs_def whole_seconds_def)
  from run_out_exact [OF law at] show ?thesis
  proof (elim disjE conjE exE)
    assume "(2500 :: u64) \<le> 1000"
    then show ?thesis by simp
  next
    fix s
    assume "unat (1000 :: u64) * (elapsed_secs 0 100000000000 + s) \<le> unat (2500 :: u64) * elapsed_secs 0 100000000000"
    then show ?thesis by blast
  qed
qed

definition sample_usage :: vendor_usage where
  "sample_usage = \<lparr>vu_plan = None, vu_windows = [\<lparr>uw_kind = KindMonth, uw_unit = ReportRequests, uw_used = 9500,
     uw_limit = None, uw_resets_at = None\<rparr>], vu_fetched_at = 0\<rparr>"

theorem reported_overuse_blocks_witness:
  "quota_block sample_calendar store_total ((new_runtime (fst (poll store_add store_total sample_calendar sample_loaded 0
       [(''node'', Reported sample_usage)] (start sample_codec empty_tables, Map.empty))) 5 30))
     ''node'' (effective_budget_of sample_loaded ''node'') \<lparr>inst = 0, utc = 0\<rparr> = Some ''quota_reserve''"
proof -
  obtain b where b: "effective_budget_of sample_loaded ''node'' = Some b" "eb_unit b = UnitRequests"
      "monthly (effective b) = Some 900" "eb_on_exhausted b = Skip"
    by (simp add: effective_budget_of_def sample_loaded_def sample_registry_of_def sample_settings_def
        settings_of_vendor_def default_vendor_settings_def sample_vendor_def overlay_def no_budget_def
        min_opt_def keep_def sat_mul_def Let_def)
  let ?rt = "(new_runtime (fst (poll store_add store_total sample_calendar sample_loaded 0
       [(''node'', Reported sample_usage)] (start sample_codec empty_tables, Map.empty))) 5 30)"
  have "quota_block sample_calendar store_total ?rt ''node'' (Some b) \<lparr>inst = 0, utc = 0\<rparr> =
    (if \<exists>t. st_exhausted_until (vendors ?rt ''node'') = Some t \<and> utc \<lparr>inst = 0, utc = 0\<rparr> < t then Some ''quota_exhausted''
     else if eb_on_exhausted b = AllowOverage then None else Some ''quota_reserve'')"
    by (rule reported_overuse_blocks [where u = sample_usage and l = sample_loaded and n = 900 and now = 0
          and answers = "[(''node'', Reported sample_usage)]" and st = "(start sample_codec empty_tables, Map.empty)"
          and w = "hd (vu_windows sample_usage)", OF _ b(1)])
      (simp_all add: sample_usage_def b new_runtime_def)
  then show ?thesis by (simp add: b new_runtime_def default_state_def)
qed

definition monthly_budget :: effective_budget where
  "monthly_budget = \<lparr>eb_unit = UnitRequests, eb_reset = CalendarMonth, eb_limit = no_budget, eb_cap = no_budget,
     eb_reserve_pct = 0, eb_on_exhausted = Skip, effective = no_budget\<lparr>monthly := Some 9000\<rparr>, eb_alert_pct = [75, 90]\<rparr>"

theorem pessimistic_source_decides_witness:
  "\<exists>w. window_row sample_calendar sample_chrono sample_loaded (\<lambda>_ _. 100) ''coingecko'' monthly_budget (Some sample_usage) 0
      (''monthly'', KindMonth, None, None, Some 9000) = Some w \<and> QuotaReserve \<le> wq_state w"
proof -
  let ?r = "window_row sample_calendar sample_chrono sample_loaded (\<lambda>_ _. 100) ''coingecko'' monthly_budget (Some sample_usage) 0
      (''monthly'', KindMonth, None, None, Some 9000)"
  have "\<exists>w. ?r = Some w" by (simp add: window_row_def Let_def)
  then obtain w where w: "?r = Some w" by blast
  then have "wq_sources w = readings sample_calendar (\<lambda>_ _. 100) ''coingecko'' UnitRequests (Some sample_usage) KindMonth 0"
    by (auto simp: window_row_def Let_def monthly_budget_def)
  with pessimistic_source_decides [OF w] w show ?thesis
    by (auto simp: readings_def calendar_window_def sample_usage_def reached_def)
qed

end
