(* ===== verification/MarketHours.thy ===== *)
theory MarketHours
  imports Errors
begin

text \<open>
  Sessions of the US equity market (\<open>crates/protocols/src/market_hours.rs\<close>): from an instant to the
  session it lies in, the last open moment before it, and whether a price is stale.

  A date is its number of days since 1970-01-01 and a local time is nanoseconds since midnight of
  that day, like an instant. What the code takes from the calendar library - year, month and day of
  a date, its weekday, the date of a year, month and day - is the parameter \<open>civil\<close>, with its
  documented behaviour as \<open>civil_laws\<close>. The library's dates end somewhere; the model's do not.
\<close>

section \<open>Dates\<close>

record civil =
  ymd :: "int \<Rightarrow> int \<times> nat \<times> nat"
  of_ymd :: "int \<Rightarrow> nat \<Rightarrow> nat \<Rightarrow> int option"
  from_sunday :: "int \<Rightarrow> nat"

definition year_of :: "civil \<Rightarrow> int \<Rightarrow> int" where
  "year_of cv d = fst (ymd cv d)"

text \<open>
  Documented: the first of a month exists, the next 27 days follow it in the same month, years
  grow with dates, and 1970-01-01 was a Thursday.
\<close>

definition civil_laws :: "civil \<Rightarrow> bool" where
  "civil_laws cv \<longleftrightarrow>
     (\<forall>y m. 1 \<le> m \<and> m \<le> 12 \<longrightarrow> (\<exists>f. of_ymd cv y m 1 = Some f
        \<and> (\<forall>k :: nat. k < 28 \<longrightarrow> ymd cv (f + int k) = (y, m, 1 + k))))
     \<and> (\<forall>d d'. d \<le> d' \<longrightarrow> year_of cv d \<le> year_of cv d')
     \<and> (\<forall>d. from_sunday cv d = nat ((d + 4) mod 7))"

definition hour :: int where
  "hour = 3600000000000"

definition day :: int where
  "day = 86400000000000"

definition hm :: "nat \<Rightarrow> nat \<Rightarrow> int" where
  "hm h m = int h * hour + int m * 60000000000"

definition date_of :: "int \<Rightarrow> int" where
  "date_of t = t div day"

definition time_of :: "int \<Rightarrow> int" where
  "time_of t = t mod day"

section \<open>Trading days\<close>

datatype session = PreMarket | Regular | PostMarket | Overnight | MarketClosed

definition is_open :: "session \<Rightarrow> bool" where
  "is_open s \<longleftrightarrow> s \<noteq> MarketClosed"

definition holidays :: "(int \<times> nat \<times> nat) list" where
  "holidays = [(2026, 1, 1), (2026, 1, 19), (2026, 2, 16), (2026, 4, 3), (2026, 5, 25), (2026, 6, 19),
     (2026, 7, 3), (2026, 9, 7), (2026, 11, 26), (2026, 12, 25), (2027, 1, 1), (2027, 1, 18), (2027, 2, 15),
     (2027, 3, 26), (2027, 5, 31), (2027, 6, 18), (2027, 7, 5), (2027, 9, 6), (2027, 11, 25), (2027, 12, 24)]"

definition early_closes :: "(int \<times> nat \<times> nat) list" where
  "early_closes = [(2026, 11, 27), (2026, 12, 24), (2027, 11, 26)]"

definition in_table :: "civil \<Rightarrow> (int \<times> nat \<times> nat) list \<Rightarrow> int \<Rightarrow> bool" where
  "in_table cv table d \<longleftrightarrow> ymd cv d \<in> set table"

definition calendar_covers :: "civil \<Rightarrow> int \<Rightarrow> bool" where
  "calendar_covers cv d \<longleftrightarrow> 2026 \<le> year_of cv d \<and> year_of cv d \<le> 2027"

definition is_holiday :: "civil \<Rightarrow> int \<Rightarrow> bool" where
  "is_holiday cv d \<longleftrightarrow> in_table cv holidays d"

definition is_trading_day :: "civil \<Rightarrow> int \<Rightarrow> bool" where
  "is_trading_day cv d \<longleftrightarrow> from_sunday cv d \<noteq> 6 \<and> from_sunday cv d \<noteq> 0 \<and> \<not> is_holiday cv d"

definition closes :: "civil \<Rightarrow> int \<Rightarrow> int \<times> int" where
  "closes cv d = (if in_table cv early_closes d then (hm 13 0, hm 17 0) else (hm 16 0, hm 20 0))"

section \<open>New York time\<close>

text \<open>\<open>unwrap_or_default\<close> is 1970-01-01, day 0.\<close>

definition nth_sunday :: "civil \<Rightarrow> int \<Rightarrow> nat \<Rightarrow> nat \<Rightarrow> int" where
  "nth_sunday cv y m n = (let first = unwrap_or 0 (of_ymd cv y m 1);
       offset = (7 - from_sunday cv first) mod 7
     in first + int (offset + 7 * (n - 1)))"

definition is_dst :: "civil \<Rightarrow> datetime \<Rightarrow> bool" where
  "is_dst cv t = (let y = year_of cv (date_of t) in
     nth_sunday cv y 3 2 * day + hm 7 0 \<le> t \<and> t < nth_sunday cv y 11 1 * day + hm 6 0)"

definition to_eastern :: "civil \<Rightarrow> datetime \<Rightarrow> int" where
  "to_eastern cv t = t - (if is_dst cv t then 4 else 5) * hour"

definition from_eastern :: "civil \<Rightarrow> int \<Rightarrow> datetime" where
  "from_eastern cv local = (if is_dst cv (local + 4 * hour) then local + 4 * hour else local + 5 * hour)"

section \<open>Sessions\<close>

definition session_local :: "civil \<Rightarrow> int \<Rightarrow> session" where
  "session_local cv local = (let d = date_of local; t = time_of local in
     if hm 20 0 \<le> t then (if is_trading_day cv (d + 1) then Overnight else MarketClosed)
     else if \<not> is_trading_day cv d then MarketClosed
     else let (close, post_end) = closes cv d in
       if t < hm 4 0 then Overnight
       else if t < hm 9 30 then PreMarket
       else if t < close then Regular
       else if t < post_end then PostMarket
       else MarketClosed)"

definition session_at :: "civil \<Rightarrow> datetime \<Rightarrow> session" where
  "session_at cv t = session_local cv (to_eastern cv t)"

definition session_end :: "civil \<Rightarrow> int \<Rightarrow> datetime" where
  "session_end cv d = from_eastern cv (d * day + snd (closes cv d))"

definition last_open_at_or_before :: "civil \<Rightarrow> datetime \<Rightarrow> datetime option" where
  "last_open_at_or_before cv t =
     (if is_open (session_at cv t) then Some t
      else let today = date_of (to_eastern cv t) in
        find (\<lambda>e. e \<le> t) (map (session_end cv) (filter (is_trading_day cv) (map (\<lambda>i. today - int i) [0..<14]))))"

definition is_stale :: "civil \<Rightarrow> datetime \<Rightarrow> datetime \<Rightarrow> int \<Rightarrow> bool" where
  "is_stale cv updated now max_open_age = (case last_open_at_or_before cv now of
       Some reference \<Rightarrow> max_open_age < reference - updated
     | None \<Rightarrow> max_open_age < now - updated)"

section \<open>Daylight saving time\<close>

lemma day_hour: "day = 24 * hour"
  by (simp add: day_def hour_def)

lemma hm_0: "hm h 0 = int h * hour"
  by (simp add: hm_def)

lemma date_time: "date_of t * day + time_of t = t" "0 \<le> time_of t" "time_of t < day"
  by (simp_all add: date_of_def time_of_def day_def)

lemma date_le: "d * day \<le> t \<longleftrightarrow> d \<le> date_of t"
proof
  assume "d * day \<le> t"
  then have "d * day div day \<le> t div day" by (intro zdiv_mono1) (simp_all add: day_def)
  then show "d \<le> date_of t" by (simp add: date_of_def day_def)
next
  assume "d \<le> date_of t"
  then have "d * day \<le> date_of t * day" by (intro mult_right_mono) (simp_all add: day_def)
  with date_time [of t] show "d * day \<le> t" by linarith
qed

lemma date_mono: "s \<le> t \<Longrightarrow> date_of s \<le> date_of t"
  unfolding date_of_def by (intro zdiv_mono1) (simp_all add: day_def)

lemma date_unique: "d * day \<le> t \<Longrightarrow> t < (d + 1) * day \<Longrightarrow> date_of t = d"
  using date_le [of d t] date_le [of "d + 1" t] by linarith

text \<open>The switches of the clock: Sundays at 06:00 or 07:00 UTC.\<close>

definition switch :: "civil \<Rightarrow> int \<Rightarrow> bool" where
  "switch cv x \<longleftrightarrow> (\<exists>d. from_sunday cv d = 0 \<and> (x = d * day + 6 * hour \<or> x = d * day + 7 * hour))"

lemma nth_sunday_spec:
  assumes "civil_laws cv" and "1 \<le> m" "m \<le> 12" and "n = 1 \<or> n = 2"
  shows "from_sunday cv (nth_sunday cv y m n) = 0" and "year_of cv (nth_sunday cv y m n) = y"
proof -
  from assms obtain f where f: "of_ymd cv y m 1 = Some f"
    "\<forall>k :: nat. k < 28 \<longrightarrow> ymd cv (f + int k) = (y, m, 1 + k)" unfolding civil_laws_def by metis
  have wd: "from_sunday cv d = nat ((d + 4) mod 7)" for d using assms(1) by (simp add: civil_laws_def)
  define k where "k = (7 - from_sunday cv f) mod 7 + 7 * (n - 1)"
  have sun: "nth_sunday cv y m n = f + int k" by (simp add: nth_sunday_def f(1) [simplified] k_def Let_def)
  have "k < 28" using assms(4) by (auto simp: k_def)
  with f sun show "year_of cv (nth_sunday cv y m n) = y" by (simp add: year_of_def)
  have off: "int ((7 - from_sunday cv f) mod 7) = (7 - (f + 4) mod 7) mod 7"
    by (simp add: wd nat_mod_distrib of_nat_mod of_nat_diff zmod_int)
  have "int k = (7 - (f + 4) mod 7) mod 7 \<or> int k = (7 - (f + 4) mod 7) mod 7 + 7"
    using assms(4) by (elim disjE) (simp_all only: k_def of_nat_add off, simp_all)
  moreover have "(f + (7 - (f + 4) mod 7) mod 7 + 4) mod 7 = 0" by presburger
  moreover have "(f + ((7 - (f + 4) mod 7) mod 7 + 7) + 4) mod 7 = 0" by presburger
  ultimately have "(f + int k + 4) mod 7 = 0" by metis
  then show "from_sunday cv (nth_sunday cv y m n) = 0" by (simp add: sun wd)
qed

lemma switch_between:
  assumes "civil_laws cv" and "s \<le> t" and "is_dst cv s \<noteq> is_dst cv t"
  shows "\<exists>x. s < x \<and> x \<le> t \<and> switch cv x"
proof -
  let ?y = "\<lambda>t. year_of cv (date_of t)"
  let ?b = "\<lambda>y. nth_sunday cv y 3 2 * day + hm 7 0" and ?e = "\<lambda>y. nth_sunday cv y 11 1 * day + hm 6 0"
  have mono: "?y a \<le> ?y b" if "a \<le> b" for a b
    using assms(1) date_mono [OF that] by (simp add: civil_laws_def)
  have year: "?y (?b y) = y" "?y (?e y) = y" for y
  proof -
    have "date_of (?b y) = nth_sunday cv y 3 2" "date_of (?e y) = nth_sunday cv y 11 1"
      by (rule date_unique; simp add: hm_0 hour_def day_def)+
    then show "?y (?b y) = y" "?y (?e y) = y" using nth_sunday_spec(2) [OF assms(1)] by simp_all
  qed
  have sw: "switch cv (?b y)" "switch cv (?e y)" for y
    unfolding switch_def
    by (rule exI [of _ "nth_sunday cv y 3 2"], simp add: hm_0 nth_sunday_spec(1) [OF assms(1)])
      (rule exI [of _ "nth_sunday cv y 11 1"], use nth_sunday_spec(1) [OF assms(1), of 11 1 y] in \<open>simp add: hm_0\<close>)
  show ?thesis
  proof (cases "is_dst cv s")
    case True
    then have s: "?b (?y s) \<le> s" "s < ?e (?y s)" by (simp_all add: is_dst_def Let_def)
    have "?e (?y s) \<le> t"
    proof (rule ccontr)
      assume "\<not> ?e (?y s) \<le> t"
      then have "?y t = ?y s" using mono [OF assms(2)] mono [of t "?e (?y s)"] year by auto
      with s assms(2,3) True \<open>\<not> ?e (?y s) \<le> t\<close> show False by (simp add: is_dst_def Let_def)
    qed
    with s(2) sw show ?thesis by blast
  next
    case False
    then have "is_dst cv t" using assms(3) by simp
    then have t: "?b (?y t) \<le> t" "t < ?e (?y t)" by (simp_all add: is_dst_def Let_def)
    have "s < ?b (?y t)"
    proof (rule ccontr)
      assume a: "\<not> s < ?b (?y t)"
      then have "?y s = ?y t" using mono [OF assms(2)] mono [of "?b (?y t)" s] year by auto
      with t a assms(2) False show False by (simp add: is_dst_def Let_def)
    qed
    with t(1) sw show ?thesis by blast
  qed
qed


lemma switch_date: "switch cv x \<Longrightarrow> from_sunday cv (date_of x) = 0 \<and>
    (x = date_of x * day + 6 * hour \<or> x = date_of x * day + 7 * hour)"
proof -
  assume "switch cv x"
  then obtain d where d: "from_sunday cv d = 0" "x = d * day + 6 * hour \<or> x = d * day + 7 * hour"
    by (auto simp: switch_def)
  then have "date_of x = d" by (intro date_unique) (auto simp: hour_def day_def)
  with d show ?thesis by simp
qed

lemma same_dst:
  assumes "civil_laws cv" and "s \<le> t" and "\<And>c. date_of s \<le> c \<Longrightarrow> c \<le> date_of t \<Longrightarrow> from_sunday cv c \<noteq> 0"
  shows "is_dst cv s = is_dst cv t"
proof (rule ccontr)
  assume "is_dst cv s \<noteq> is_dst cv t"
  from switch_between [OF assms(1,2) this] obtain x where x: "s < x" "x \<le> t" "switch cv x" by blast
  from assms(3) [of "date_of x"] date_mono [of s x] date_mono [of x t] x switch_date [OF x(3)] show False by simp
qed

lemma eastern_bounds: "t - 5 * hour \<le> to_eastern cv t" "to_eastern cv t \<le> t - 4 * hour"
  by (simp_all add: to_eastern_def hour_def)

lemma weekday_law: "civil_laws cv \<Longrightarrow> from_sunday cv d = nat ((d + 4) mod 7)"
  by (simp add: civil_laws_def)

lemma trading_weekday:
  assumes "civil_laws cv" and "is_trading_day cv d"
  shows "from_sunday cv d \<noteq> 0" "from_sunday cv (d + 1) \<noteq> 0"
proof -
  have "(d + 4) mod 7 \<noteq> 6" "(d + 4) mod 7 \<noteq> 0"
    using assms(2) by (auto simp: is_trading_day_def weekday_law [OF assms(1)])
  moreover from this have "(d + 1 + 4) mod 7 \<noteq> 0" by presburger
  moreover have "0 \<le> (d + 4) mod 7" "0 \<le> (d + 1 + 4) mod 7" by simp_all
  ultimately show "from_sunday cv d \<noteq> 0" "from_sunday cv (d + 1) \<noteq> 0"
    by (simp_all add: weekday_law [OF assms(1)] nat_eq_iff)
qed

text \<open>An evening of a trading day is far from any switch: local and UTC times match.\<close>

definition evening :: "civil \<Rightarrow> int \<Rightarrow> int \<Rightarrow> bool" where
  "evening cv d e \<longleftrightarrow> civil_laws cv \<and> is_trading_day cv d \<and> 17 * hour \<le> e \<and> e \<le> 20 * hour"

definition boundary :: "civil \<Rightarrow> int \<Rightarrow> int \<Rightarrow> datetime" where
  "boundary cv d e = from_eastern cv (d * day + e)"

lemma eveningD:
  assumes "evening cv d e"
  shows "civil_laws cv" "is_trading_day cv d" "17 * hour \<le> e" "e \<le> 20 * hour"
  using assms by (simp_all add: evening_def)

lemma near_dates:
  assumes ev: "evening cv d e" and "d * day + e + 3 * hour \<le> x" and "x \<le> d * day + e + 5 * hour"
  shows "date_of x = d \<or> date_of x = d + 1"
proof (cases "x < (d + 1) * day")
  case True
  then have "date_of x = d" using assms(2) eveningD [OF ev] by (intro date_unique) (auto simp: hour_def day_def)
  then show ?thesis by simp
next
  case False
  then have "date_of x = d + 1" using assms(3) eveningD [OF ev] by (intro date_unique) (auto simp: hour_def day_def algebra_simps)
  then show ?thesis by simp
qed

lemma near_same_dst:
  assumes ev: "evening cv d e" and "d * day + e + 3 * hour \<le> x" and "x \<le> y" and "y \<le> d * day + e + 5 * hour"
  shows "is_dst cv x = is_dst cv y"
proof (rule same_dst [OF eveningD(1) [OF ev] assms(3)])
  fix c assume "date_of x \<le> c" "c \<le> date_of y"
  then have "c = d \<or> c = d + 1" using near_dates [OF ev, of x] near_dates [OF ev, of y] assms by fastforce
  then show "from_sunday cv c \<noteq> 0" using trading_weekday [OF eveningD(1,2) [OF ev]] by blast
qed

lemma boundary_range: "d * day + e + 4 * hour \<le> boundary cv d e" "boundary cv d e \<le> d * day + e + 5 * hour"
  by (simp_all add: boundary_def from_eastern_def hour_def)

lemma boundary_local:
  assumes ev: "evening cv d e"
  shows "to_eastern cv (boundary cv d e) = d * day + e"
proof (cases "is_dst cv (d * day + e + 4 * hour)")
  case True
  then show ?thesis by (simp add: boundary_def from_eastern_def to_eastern_def)
next
  case False
  have "is_dst cv (d * day + e + 4 * hour) = is_dst cv (d * day + e + 5 * hour)"
    by (rule near_same_dst [OF ev]) (simp_all add: hour_def)
  with False show ?thesis by (simp add: boundary_def from_eastern_def to_eastern_def)
qed

lemma sunday_cases:
  assumes ev: "evening cv d e" and "from_sunday cv c = 0"
  shows "c < d \<or> d + 2 \<le> c"
proof -
  have "c \<noteq> d" "c \<noteq> d + 1" using assms(2) trading_weekday [OF eveningD(1,2) [OF ev]] by auto
  then show ?thesis by linarith
qed

lemma before_boundary:
  assumes ev: "evening cv d e" and "s < boundary cv d e"
  shows "to_eastern cv s < d * day + e"
proof (cases "is_dst cv s = is_dst cv (boundary cv d e)")
  case True
  then show ?thesis using assms boundary_local [OF ev] by (auto simp: to_eastern_def)
next
  case False
  from switch_between [OF eveningD(1) [OF ev] _ False] assms obtain x where
    x: "s < x" "x \<le> boundary cv d e" "switch cv x" by auto
  from switch_date [OF x(3)] have sun: "from_sunday cv (date_of x) = 0" "x \<le> date_of x * day + 7 * hour"
    by (auto simp: hour_def)
  have "x \<le> d * day + e + 5 * hour" using x(2) boundary_range(2) [of cv d e] by linarith
  then have "date_of x < d + 2" using eveningD [OF ev] date_le [of "d + 2" x] by (auto simp: hour_def day_def)
  with sunday_cases [OF ev sun(1)] have "date_of x + 1 \<le> d" by auto
  then have "(date_of x + 1) * day \<le> d * day" by (intro mult_right_mono) (simp_all add: day_def)
  moreover have "to_eastern cv s < x - 4 * hour" using eastern_bounds(2) [of cv s] x(1) by linarith
  ultimately show ?thesis using sun(2) eveningD [OF ev] by (auto simp: hour_def day_def algebra_simps)
qed

lemma after_boundary:
  assumes ev: "evening cv d e" and "boundary cv d e \<le> s"
  shows "d * day + e \<le> to_eastern cv s"
proof (cases "is_dst cv (boundary cv d e) = is_dst cv s")
  case True
  then show ?thesis using assms boundary_local [OF ev] by (auto simp: to_eastern_def)
next
  case False
  from switch_between [OF eveningD(1) [OF ev] assms(2) False] obtain x where
    x: "boundary cv d e < x" "x \<le> s" "switch cv x" by blast
  from switch_date [OF x(3)] have sun: "from_sunday cv (date_of x) = 0" "date_of x * day + 6 * hour \<le> x"
    by (auto simp: hour_def)
  have "d * day \<le> x" using x(1) boundary_range(1) [of d e cv] eveningD [OF ev] by (auto simp: hour_def)
  then have "d \<le> date_of x" by (simp add: date_le)
  with sunday_cases [OF ev sun(1)] have "d + 2 \<le> date_of x" by auto
  then have "(d + 2) * day \<le> date_of x * day" by (intro mult_right_mono) (simp_all add: day_def)
  moreover have "x - 5 * hour \<le> to_eastern cv s" using eastern_bounds(1) [of s cv] x(2) by linarith
  ultimately show ?thesis using sun(2) eveningD [OF ev] by (auto simp: hour_def day_def algebra_simps)
qed

lemma boundary_iff:
  assumes ev: "evening cv d e"
  shows "boundary cv d e \<le> s \<longleftrightarrow> d * day + e \<le> to_eastern cv s"
  using before_boundary [OF ev, of s] after_boundary [OF ev, of s] by linarith

text \<open>During the hour before, the local time is the boundary less the same amount.\<close>

lemma hour_before:
  assumes ev: "evening cv d e" and "boundary cv d e - hour \<le> s" and "s < boundary cv d e"
  shows "to_eastern cv s = d * day + e - (boundary cv d e - s)"
proof -
  have "d * day + e + 3 * hour \<le> s" using assms(2) boundary_range(1) [of d e cv] by linarith
  from near_same_dst [OF ev this _ boundary_range(2)] assms(3) boundary_local [OF ev] show ?thesis
    by (auto simp: to_eastern_def)
qed


section \<open>The last open moment\<close>

definition post_end :: "civil \<Rightarrow> int \<Rightarrow> int" where
  "post_end cv d = snd (closes cv d)"

lemma post_end_cases: "post_end cv d = 17 * hour \<or> post_end cv d = 20 * hour"
  by (simp add: post_end_def closes_def hm_0)

lemma post_end_evening: "civil_laws cv \<Longrightarrow> is_trading_day cv d \<Longrightarrow> evening cv d (post_end cv d)"
  using post_end_cases [of cv d] by (auto simp: evening_def hour_def)

lemma session_end_boundary: "session_end cv d = boundary cv d (post_end cv d)"
  by (simp add: session_end_def boundary_def post_end_def)

text \<open>A trading day is open from 20:00 of the day before to its own end.\<close>

lemma open_iff:
  "is_open (session_local cv l) \<longleftrightarrow>
     (\<exists>d. is_trading_day cv d \<and> d * day - 4 * hour \<le> l \<and> l < d * day + post_end cv d)"
proof -
  let ?d = "date_of l" and ?t = "time_of l"
  have l: "l = ?d * day + ?t" and t: "0 \<le> ?t" "?t < day" using date_time [of l] by simp_all
  have "closes cv ?d = (fst (closes cv ?d), post_end cv ?d)" by (simp add: post_end_def)
  then have left: "is_open (session_local cv l) \<longleftrightarrow>
      (if 20 * hour \<le> ?t then is_trading_day cv (?d + 1) else is_trading_day cv ?d \<and> ?t < post_end cv ?d)"
    using post_end_cases [of cv ?d]
    by (auto simp: session_local_def is_open_def Let_def hm_def closes_def post_end_def hour_def split: if_splits)
  have "e = ?d \<or> e = ?d + 1" if "e * day - 4 * hour \<le> l" "l < e * day + post_end cv e" for e
  proof -
    have "\<not> e < ?d" proof
      assume "e < ?d" then have "(e + 1) * day \<le> ?d * day" by (intro mult_right_mono) (simp_all add: day_def)
      with that(2) post_end_cases [of cv e] l t show False by (auto simp: hour_def day_def)
    qed
    moreover have "\<not> ?d + 1 < e" proof
      assume "?d + 1 < e" then have "(?d + 2) * day \<le> e * day" by (intro mult_right_mono) (simp_all add: day_def)
      with that(1) l t show False by (auto simp: hour_def day_def)
    qed
    ultimately show ?thesis by linarith
  qed
  then have "(\<exists>d. is_trading_day cv d \<and> d * day - 4 * hour \<le> l \<and> l < d * day + post_end cv d) \<longleftrightarrow>
      (is_trading_day cv ?d \<and> ?t < post_end cv ?d) \<or> (is_trading_day cv (?d + 1) \<and> 20 * hour \<le> ?t)"
  proof -
    have 1: "?d * day - 4 * hour \<le> l \<and> l < ?d * day + post_end cv ?d \<longleftrightarrow> ?t < post_end cv ?d"
      using l t(1) by (auto simp: hour_def)
    have 2: "(?d + 1) * day - 4 * hour \<le> l \<and> l < (?d + 1) * day + post_end cv (?d + 1) \<longleftrightarrow> 20 * hour \<le> ?t"
      using l t(2) post_end_cases [of cv "?d + 1"] by (auto simp: hour_def day_def algebra_simps)
    show ?thesis using 1 2 \<open>\<And>e. e * day - 4 * hour \<le> l \<Longrightarrow> l < e * day + post_end cv e \<Longrightarrow> e = ?d \<or> e = ?d + 1\<close> by metis
  qed
  then show ?thesis using left post_end_cases [of cv ?d] by (auto simp: hour_def)
qed

text \<open>The clock goes back in the small hours of a Sunday; elsewhere local time keeps the order.\<close>

lemma local_order:
  assumes "civil_laws cv" and "s \<le> t" and "d * day - 4 * hour \<le> to_eastern cv s"
  shows "d * day - 4 * hour \<le> to_eastern cv t"
proof (cases "is_dst cv s = is_dst cv t")
  case True
  then show ?thesis using assms(2,3) by (auto simp: to_eastern_def)
next
  case False
  from switch_between [OF assms(1,2) False] obtain x where x: "s < x" "x \<le> t" "switch cv x" by blast
  from switch_date [OF x(3)] have sun: "date_of x * day + 6 * hour \<le> x" "x \<le> date_of x * day + 7 * hour"
    by (auto simp: hour_def)
  have "d \<le> date_of x"
  proof (rule ccontr)
    assume "\<not> d \<le> date_of x"
    then have "(date_of x + 1) * day \<le> d * day" by (intro mult_right_mono) (simp_all add: day_def)
    with assms(3) eastern_bounds(2) [of cv s] sun x(1) show False by (auto simp: hour_def day_def)
  qed
  then have "d * day \<le> date_of x * day" by (intro mult_right_mono) (simp_all add: day_def)
  then show ?thesis using sun(1) x(2) eastern_bounds(1) [of t cv] by (auto simp: hour_def)
qed

lemma open_then_closed:
  assumes "civil_laws cv" and "s \<le> t" and "is_open (session_at cv s)" and "\<not> is_open (session_at cv t)"
  obtains d where "is_trading_day cv d" "session_end cv d \<le> t" "s < session_end cv d"
    "date_of (to_eastern cv s) \<le> d" "d \<le> date_of (to_eastern cv t)"
proof -
  from assms(3) obtain d where d: "is_trading_day cv d" "d * day - 4 * hour \<le> to_eastern cv s"
    "to_eastern cv s < d * day + post_end cv d" by (auto simp: session_at_def open_iff)
  have "d * day - 4 * hour \<le> to_eastern cv t" by (rule local_order [OF assms(1,2) d(2)])
  with assms(4) d(1) have past: "d * day + post_end cv d \<le> to_eastern cv t"
    by (force simp: session_at_def open_iff)
  note iff = boundary_iff [OF post_end_evening [OF assms(1) d(1)], folded session_end_boundary]
  have "to_eastern cv s < (d + 1) * day" using d(3) post_end_cases [of cv d] by (auto simp: hour_def day_def)
  then have "date_of (to_eastern cv s) \<le> d" using date_le [of "d + 1" "to_eastern cv s"] by linarith
  moreover have "d * day \<le> to_eastern cv t" using past post_end_cases [of cv d] by (auto simp: hour_def)
  then have "d \<le> date_of (to_eastern cv t)" by (simp add: date_le)
  ultimately show ?thesis using that [OF d(1)] iff [of s] iff [of t] past d(3) by auto
qed

lemma session_end_mono:
  assumes "civil_laws cv" and "is_trading_day cv d" "is_trading_day cv d'" and "d \<le> d'"
  shows "session_end cv d \<le> session_end cv d'"
proof (cases "d = d'")
  case False
  then have "(d + 1) * day \<le> d' * day" using assms(4) by (intro mult_right_mono) (simp_all add: day_def)
  then have "d * day + post_end cv d \<le> d' * day + post_end cv d'"
    using post_end_cases [of cv d] post_end_cases [of cv d'] by (auto simp: hour_def day_def)
  then show ?thesis
    using boundary_iff [OF post_end_evening [OF assms(1,2)]] boundary_local [OF post_end_evening [OF assms(1,3)]]
    by (simp add: session_end_boundary)
qed simp

lemma open_before_end:
  assumes "civil_laws cv" and "is_trading_day cv d" and "session_end cv d - hour \<le> s" and "s < session_end cv d"
  shows "is_open (session_at cv s)"
proof -
  have "to_eastern cv s = d * day + post_end cv d - (session_end cv d - s)"
    using hour_before [OF post_end_evening [OF assms(1,2)]] assms(3,4) by (simp add: session_end_boundary)
  then show ?thesis using assms post_end_cases [of cv d]
    by (auto simp: session_at_def open_iff hour_def intro!: exI [of _ d])
qed

lemma find_back_Some:
  "find P (map f (filter Q (map (\<lambda>i. T - int i) [0..<n]))) = Some r \<Longrightarrow>
     \<exists>d. Q d \<and> r = f d \<and> P r \<and> (\<forall>e. d < e \<and> e \<le> T \<and> Q e \<longrightarrow> \<not> P (f e))"
proof (induction n)
  case (Suc n)
  have app: "find P (xs @ ys) = (case find P xs of None \<Rightarrow> find P ys | Some x \<Rightarrow> Some x)" for xs ys
    by (induction xs) simp_all
  show ?case
  proof (cases "find P (map f (filter Q (map (\<lambda>i. T - int i) [0..<n])))")
    case None
    then have none: "\<not> P (f (T - int i))" if "i < n" "Q (T - int i)" for i
      using that by (auto simp: find_None_iff)
    have "\<not> P (f e)" if "T - int n < e \<and> e \<le> T \<and> Q e" for e
      using none [of "nat (T - e)"] that by (simp add: nat_less_iff)
    with None Suc.prems show ?thesis by (auto simp: app split: if_splits)
  qed (use Suc in \<open>simp add: app\<close>)
qed simp

lemma find_back_None:
  assumes "find P (map f (filter Q (map (\<lambda>i. T - int i) [0..<n]))) = None"
    and "Q e" "T - int n < e" "e \<le> T"
  shows "\<not> P (f e)"
proof -
  have "e \<in> (\<lambda>i. T - int i) ` {0..<n}" using assms(3,4) by (intro image_eqI [of _ _ "nat (T - e)"]) auto
  with assms(1,2) show ?thesis by (auto simp: find_None_iff)
qed


section \<open>The Gregorian calendar\<close>

text \<open>
  An instance of the parameter: days since 1970-01-01 with years that begin in March, so that the
  leap day comes last.
\<close>

definition march_first :: "int \<Rightarrow> int" where
  "march_first y = 365 * y + y div 4 - y div 100 + y div 400 - 719468"

definition march_year :: "int \<Rightarrow> int" where
  "march_year d = (let y = (400 * (d + 719468)) div 146097 in
     if march_first (y + 1) \<le> d then y + 1 else if d < march_first y then y - 1 else y)"

definition march_month :: "int \<Rightarrow> int" where
  "march_month d = (5 * (d - march_first (march_year d)) + 2) div 153"

definition gregorian :: civil where
  "gregorian = \<lparr>
     ymd = (\<lambda>d. let y = march_year d; m = march_month d in
       (if m < 10 then y else y + 1, nat (if m < 10 then m + 3 else m - 9),
        nat (d - march_first y - (153 * m + 2) div 5 + 1))),
     of_ymd = (\<lambda>y m k. let y' = (if 2 < m then y else y - 1); m' = (int m + 9) mod 12 in
       if 1 \<le> m \<and> m \<le> 12 \<and> 1 \<le> k \<and> int k \<le> 28 then Some (march_first y' + (153 * m' + 2) div 5 + int k - 1) else None),
     from_sunday = (\<lambda>d. nat ((d + 4) mod 7))\<rparr>"

lemma march_first_step: "march_first y + 365 \<le> march_first (y + 1)"
proof -
  have "y div 100 = y div 4 div 25" "(y + 1) div 100 = (y + 1) div 4 div 25"
    by (simp_all add: zdiv_zmult2_eq [symmetric])
  moreover have "(y + 1) div 4 = y div 4 \<or> (y + 1) div 4 = y div 4 + 1" by presburger
  moreover have "(a + 1) div 25 \<le> a div 25 + 1" for a :: int by presburger
  moreover have "y div 400 \<le> (y + 1) div 400" by (intro zdiv_mono1) simp_all
  ultimately show ?thesis unfolding march_first_def by (smt (verit))
qed

lemma march_first_mono: "y \<le> y' \<Longrightarrow> march_first y \<le> march_first y'"
proof (induction rule: int_ge_induct)
  case (step y')
  then show ?case using march_first_step [of y'] by linarith
qed simp

lemma march_year_bounds: "march_first (march_year d) \<le> d" "d < march_first (march_year d + 1)"
proof -
  define y where "y = (400 * (d + 719468)) div 146097"
  have y: "146097 * y \<le> 400 * (d + 719468)" "400 * (d + 719468) < 146097 * y + 146097"
    unfolding y_def by (simp_all add: algebra_simps)
  have near: "146097 * z - 699 \<le> 400 * (march_first z + 719468)" "400 * (march_first z + 719468) \<le> 146097 * z + 396" for z
  proof -
    have 1: "4 * a \<le> z \<Longrightarrow> z \<le> 4 * a + 3 \<Longrightarrow> 100 * b \<le> z \<Longrightarrow> z \<le> 100 * b + 99 \<Longrightarrow> 400 * c \<le> z \<Longrightarrow>
        z \<le> 400 * c + 399 \<Longrightarrow> 146097 * z - 699 \<le> 400 * (365 * z + a - b + c) \<and>
        400 * (365 * z + a - b + c) \<le> 146097 * z + 396" for a b c :: int
      unfolding distrib_left right_diff_distrib by (intro conjI; linarith)
    have "4 * (z div 4) \<le> z" "z \<le> 4 * (z div 4) + 3" "100 * (z div 100) \<le> z" "z \<le> 100 * (z div 100) + 99"
      "400 * (z div 400) \<le> z" "z \<le> 400 * (z div 400) + 399" by presburger+
    from 1 [OF this] show "146097 * z - 699 \<le> 400 * (march_first z + 719468)"
      "400 * (march_first z + 719468) \<le> 146097 * z + 396" by (simp_all add: march_first_def)
  qed
  have lower: "march_first (y - 1) \<le> d" using y(1) near(2) [of "y - 1"]
    unfolding distrib_left right_diff_distrib by linarith
  have upper: "d < march_first (y + 2)" using y(2) near(1) [of "y + 2"]
    unfolding distrib_left right_diff_distrib by linarith
  show "march_first (march_year d) \<le> d" "d < march_first (march_year d + 1)"
    using lower upper unfolding march_year_def y_def [symmetric] Let_def by (auto simp: add.commute)
qed

lemma march_year_unique: "march_first y \<le> d \<Longrightarrow> d < march_first (y + 1) \<Longrightarrow> march_year d = y"
  using march_year_bounds [of d] march_first_mono [of "y + 1" "march_year d"]
    march_first_mono [of "march_year d + 1" y] by linarith


lemma march_month_first:
  assumes "0 \<le> m" "m \<le> 11" "k < 28"
  shows "march_year (march_first y + (153 * m + 2) div 5 + int k) = y"
    and "march_month (march_first y + (153 * m + 2) div 5 + int k) = m"
proof -
  have "0 \<le> (153 * m + 2) div 5 + int k" "(153 * m + 2) div 5 + int k < 365" using assms by auto
  then show year: "march_year (march_first y + (153 * m + 2) div 5 + int k) = y"
    using march_first_step [of y] by (intro march_year_unique) linarith+
  have "m \<in> {0, 1, 2, 3, 4, 5, 6, 7, 8, 9, 10, 11}" using assms(1,2) by simp presburger
  moreover have "0 \<le> int k" "int k < 28" using assms(3) by auto
  ultimately have "(5 * ((153 * m + 2) div 5 + int k) + 2) div 153 = m" by auto
  moreover have "march_first y + (153 * m + 2) div 5 + int k - march_first y = (153 * m + 2) div 5 + int k" by simp
  ultimately show "march_month (march_first y + (153 * m + 2) div 5 + int k) = m"
    unfolding march_month_def year by metis
qed

lemma gregorian_year_mono:
  assumes "d \<le> d'"
  shows "year_of gregorian d \<le> year_of gregorian d'"
proof -
  have "march_year d \<le> march_year d'"
    using march_year_bounds [of d] march_year_bounds [of d'] assms march_first_mono [of "march_year d' + 1" "march_year d"]
    by linarith
  then consider "march_year d + 1 \<le> march_year d'" | "march_year d = march_year d'" by linarith
  then show ?thesis
  proof cases
    case 2
    then have "march_month d \<le> march_month d'" using assms by (auto simp: march_month_def intro!: zdiv_mono1)
    with 2 show ?thesis by (simp add: year_of_def gregorian_def Let_def)
  qed (auto simp: year_of_def gregorian_def Let_def)
qed

lemma gregorian_laws: "civil_laws gregorian"
proof -
  have "\<exists>f. of_ymd gregorian y m 1 = Some f \<and> (\<forall>k :: nat. k < 28 \<longrightarrow> ymd gregorian (f + int k) = (y, m, 1 + k))"
    if m: "1 \<le> m" "m \<le> 12" for y m
  proof -
    let ?y = "if 2 < m then y else y - 1" and ?m = "(int m + 9) mod 12"
    let ?f = "march_first ?y + (153 * ?m + 2) div 5"
    have "ymd gregorian (?f + int k) = (y, m, 1 + k)" if "k < 28" for k
    proof -
      have b: "0 \<le> ?m" "?m \<le> 11" by simp_all
      note mf = march_month_first [OF b that, of ?y]
      have "2 < m \<Longrightarrow> ?m = int m - 3" "\<not> 2 < m \<Longrightarrow> ?m = int m + 9" using m by presburger+
      with m show ?thesis unfolding gregorian_def by (simp only: civil.simps Let_def mf) auto
    qed
    moreover have "of_ymd gregorian y m 1 = Some ?f" using m by (simp add: gregorian_def)
    ultimately show ?thesis by blast
  qed
  moreover have "from_sunday gregorian d = nat ((d + 4) mod 7)" for d by (simp add: gregorian_def)
  ultimately show ?thesis using gregorian_year_mono unfolding civil_laws_def by blast
qed

section \<open>Properties\<close>

text \<open>
  C40: the last open moment is right. When the market is open it is the instant itself. Otherwise it is
  the end of a session: the market is closed from there to the instant asked about - across nights,
  weekends, holidays, early closes and the switches of the clock - and was open throughout the hour
  before. None means that it never was open in the two weeks before.
\<close>
theorem last_open_exact:
  assumes "civil_laws cv"
  shows "case last_open_at_or_before cv t of
      Some r \<Rightarrow> r \<le> t \<and> (if is_open (session_at cv t) then r = t
         else (\<forall>s. r \<le> s \<and> s \<le> t \<longrightarrow> \<not> is_open (session_at cv s))
            \<and> (\<forall>s. r - hour \<le> s \<and> s < r \<longrightarrow> is_open (session_at cv s)))
    | None \<Rightarrow> (\<forall>s \<le> t. date_of (to_eastern cv t) - 14 < date_of (to_eastern cv s)
         \<longrightarrow> \<not> is_open (session_at cv s))"
proof (cases "is_open (session_at cv t)")
  case True
  then show ?thesis by (simp add: last_open_at_or_before_def)
next
  case closed: False
  let ?T = "date_of (to_eastern cv t)"
  let ?l = "find (\<lambda>e. e \<le> t) (map (session_end cv) (filter (is_trading_day cv) (map (\<lambda>i. ?T - int i) [0..<14])))"
  have lo: "last_open_at_or_before cv t = ?l" by (simp only: last_open_at_or_before_def closed if_False Let_def)
  show ?thesis
  proof (cases ?l)
    case None
    have "\<not> is_open (session_at cv s)" if "s \<le> t" "?T - 14 < date_of (to_eastern cv s)" for s
    proof
      assume "is_open (session_at cv s)"
      from open_then_closed [OF assms that(1) this closed] obtain d where "is_trading_day cv d"
        "session_end cv d \<le> t" "date_of (to_eastern cv s) \<le> d" "d \<le> ?T" by metis
      with find_back_None [OF None, of d] that(2) show False by simp
    qed
    with None lo show ?thesis by simp
  next
    case (Some r)
    from find_back_Some [OF this] obtain d where d: "is_trading_day cv d" "r = session_end cv d" "r \<le> t"
      "\<And>e. d < e \<Longrightarrow> e \<le> ?T \<Longrightarrow> is_trading_day cv e \<Longrightarrow> \<not> session_end cv e \<le> t" by blast
    have "\<not> is_open (session_at cv s)" if "r \<le> s" "s \<le> t" for s
    proof
      assume "is_open (session_at cv s)"
      from open_then_closed [OF assms that(2) this closed] obtain e where e: "is_trading_day cv e"
        "session_end cv e \<le> t" "s < session_end cv e" "e \<le> ?T" by metis
      with d(4) [of e] have "e \<le> d" by linarith
      with session_end_mono [OF assms e(1) d(1)] e(3) d(2) that(1) show False by linarith
    qed
    with Some lo closed d open_before_end [OF assms d(1)] show ?thesis by auto
  qed
qed


text \<open>On Saturday 2026-11-28 the last open moment is 17:00 of Friday, an early close: 22:00 UTC.\<close>

definition a_saturday :: datetime where
  "a_saturday = 20785 * day + 16 * hour"

definition black_friday_end :: datetime where
  "black_friday_end = 20784 * day + 22 * hour"

lemma last_open_exact_witness:
  "last_open_at_or_before gregorian a_saturday = Some black_friday_end
     \<and> \<not> is_open (session_at gregorian (black_friday_end + 3 * hour))
     \<and> is_open (session_at gregorian (black_friday_end - 1))"
proof -
  have 2: "\<not> is_open (session_at gregorian a_saturday)" by code_simp
  have "date_of (to_eastern gregorian a_saturday) = 20785" "\<not> is_trading_day gregorian 20785"
    "is_trading_day gregorian 20784" "session_end gregorian 20784 = black_friday_end"
    "black_friday_end \<le> a_saturday" by code_simp+
  moreover have "[0..<14] = 0 # 1 # [2..<14]" by (simp add: upt_rec)
  ultimately have 1: "last_open_at_or_before gregorian a_saturday = Some black_friday_end"
    using 2 by (simp only: last_open_at_or_before_def Let_def if_False) simp
  from last_open_exact [OF gregorian_laws, of a_saturday] 1 2 show ?thesis
    by (simp add: black_friday_end_def a_saturday_def hour_def day_def)
qed

end
