(* ===== verification/Quotes.thy ===== *)
theory Quotes
  imports PaymentOps
begin

text \<open>
  The rest of the vocabulary: fees and unsigned transactions (\<open>crates/domain/src/tx.rs\<close>), prices
  (\<open>crates/domain/src/market.rs\<close>) and what the ports answer (\<open>crates/ports/src/ports.rs\<close>).

  Exact decimals come from a library. A decimal is the rational it denotes; \<open>dec_lib\<close> holds what the
  code calls on them: parsing, and multiplication and division, which may not fit. A step of an
  operation (\<open>act\<close>) reads and changes the runtime state and takes time.
\<close>

section \<open>Decimals\<close>

record dec_lib =
  dl_parse :: "string \<Rightarrow> rat option"
  dl_mul :: "rat \<Rightarrow> rat \<Rightarrow> rat option"
  dl_div :: "rat \<Rightarrow> rat \<Rightarrow> rat option"

definition to_decimal :: "dec_lib \<Rightarrow> amount \<Rightarrow> rat option" where
  "to_decimal d a = dl_parse d (format_units a)"

section \<open>Prices and fees\<close>

record price =
  pr_asset :: asset_id
  pr_currency :: string
  pr_value :: rat
  pr_as_of :: datetime
  pr_source :: string
  pr_liquidity :: "rat option"

record fiat =
  fiat_amount :: rat
  fiat_currency :: string
  fiat_as_of :: datetime
  fiat_source :: string

datatype fee_speed = Slow | Standard | Fast

record fee_tier =
  speed :: fee_speed
  max_fee_per_gas :: "u256 option"
  max_priority_fee_per_gas :: "u256 option"
  compute_unit_price_micro_lamports :: "u64 option"
  estimated_total :: "amount option"
  estimated_total_fiat :: "fiat option"

record fee_estimate =
  fe_chain :: chain_id
  fe_tiers :: "fee_tier list"
  fe_l1_data_fee :: "amount option"
  fe_tip :: "amount option"
  fe_as_of :: datetime

text \<open>\<open>amount \<times> price\<close>, with the time and source of the price; nothing when it does not fit.\<close>

definition fiat_value :: "dec_lib \<Rightarrow> amount \<Rightarrow> price \<Rightarrow> fiat option" where
  "fiat_value d a p = Option.bind (to_decimal d a) (\<lambda>x. Option.bind (dl_mul d x (pr_value p)) (\<lambda>y.
     Some \<lparr>fiat_amount = y, fiat_currency = pr_currency p, fiat_as_of = pr_as_of p, fiat_source = pr_source p\<rparr>))"

section \<open>Transactions to sign\<close>

datatype unsigned_tx =
    UnsignedEvm (ue_chain_id: u64) (ue_to: string) (ue_data: string) (ue_value: string) (ue_gas_limit: "u64 option")
      (ue_max_fee: "string option") (ue_max_priority: "string option") (ue_nonce: "u64 option")
  | UnsignedSolana (us_message: string) (us_blockhash: string) (us_last_valid: u64)

record simulation_result =
  sr_success :: bool
  sr_error :: "string option"
  sr_units :: "u64 option"
  sr_changes :: "balance_delta list"
  sr_logs :: "string list"

record broadcast_receipt =
  br_tx_hash :: string
  br_private :: bool

section \<open>Steps\<close>

type_synonym ('s, 'a) act = "'s runtime \<Rightarrow> clock \<Rightarrow> 'a \<times> 's runtime \<times> clock"

definition done_with :: "'a \<Rightarrow> ('s, 'a) act" where
  "done_with a rt c = (a, rt, c)"

definition then_do :: "('s, 'a) act \<Rightarrow> ('a \<Rightarrow> ('s, 'b) act) \<Rightarrow> ('s, 'b) act" where
  "then_do m f rt c = (let (a, rt1, c1) = m rt c in f a rt1 c1)"

text \<open>The question mark operator: an error ends the operation.\<close>

definition ok_then :: "('s, 'e + 'a) act \<Rightarrow> ('a \<Rightarrow> ('s, 'e + 'b) act) \<Rightarrow> ('s, 'e + 'b) act" where
  "ok_then m f = then_do m (\<lambda>r. case r of Inl e \<Rightarrow> done_with (Inl e) | Inr a \<Rightarrow> f a)"

definition map_act :: "('a \<Rightarrow> 'b) \<Rightarrow> ('s, 'a) act \<Rightarrow> ('s, 'b) act" where
  "map_act f m = then_do m (\<lambda>a. done_with (f a))"

lemma done_with_result [simp]: "done_with a rt c = (a, rt, c)"
  by (simp add: done_with_def)

lemma then_do_result [simp]: "fst (then_do m f rt c) = fst (f (fst (m rt c)) (fst (snd (m rt c))) (snd (snd (m rt c))))"
  by (simp add: then_do_def split_beta)

lemma map_act_result [simp]: "fst (map_act f m rt c) = f (fst (m rt c))"
  by (simp add: map_act_def)

lemma ok_thenD:
  assumes "fst (ok_then m f rt c) = Inr b"
  obtains a rt1 c1 where "m rt c = (Inr a, rt1, c1)" and "fst (f a rt1 c1) = Inr b"
  using assms by (cases "m rt c") (auto simp: ok_then_def split: sum.splits)

lemma ok_then_result:
  "fst (ok_then m f rt c) = (case fst (m rt c) of Inl e \<Rightarrow> Inl e | Inr a \<Rightarrow> fst (f a (fst (snd (m rt c))) (snd (snd (m rt c)))))"
  by (simp add: ok_then_def split: sum.splits)

lemma ok_then_left [simp]: "ok_then (done_with (Inl e)) f = done_with (Inl e)" "ok_then (done_with (Inr a)) f = f a"
  by (auto simp: ok_then_def then_do_def fun_eq_iff)

section \<open>Asking through the router\<close>

text \<open>One failover of an operation: any vendor port, the answer or the error of the route.\<close>

definition routed :: "('s, 'p, 'q) router_env \<Rightarrow> route_req \<Rightarrow> ('s, 'p) vendor_world
    \<Rightarrow> ('p \<Rightarrow> nat \<Rightarrow> nat \<Rightarrow> provider_error + 't) \<Rightarrow> ('s, domain_error + 't routed) act" where
  "routed rx req w f rt c = (let (r, rt1, c1) = failover rx (trait_of (rq_capability req)) req (asks w f) rt c
     in (map_err re_error r, rt1, c1))"

text \<open>
  The routed RPC (\<open>crates/routing/src/rpc.rs\<close>): a request fails over across the nodes of the chain,
  and a failure is a provider error again.
\<close>

definition rpc_request :: "('s, 'p, 'q) router_env \<Rightarrow> capability \<Rightarrow> chain_id \<Rightarrow> ('s, 'p) vendor_world
    \<Rightarrow> string \<Rightarrow> json \<Rightarrow> ('s, provider_error + json) act" where
  "rpc_request rx cap chain w method params rt c =
     (let (r, rt1, c1) = failover rx (trait_of cap) ((new_req cap)\<lparr>rq_chain := Some chain\<rparr>)
            (asks w (\<lambda>p i n. w_node w p i n method params)) rt c
      in (case r of Inl e \<Rightarrow> Inl (route_to_provider (re_error e)) | Inr y \<Rightarrow> Inr (rd_value y), rt1, c1))"

text \<open>The vendors a request can reach: usable ones of its order, with the port they registered.\<close>

definition serves :: "('s, 'p, 'q) router_env \<Rightarrow> route_req \<Rightarrow> string \<Rightarrow> 'p \<Rightarrow> bool" where
  "serves rx req v p \<longleftrightarrow> v \<in> set (order_of rx req) \<and> vendor_status (r_config rx) v = Active
     \<and> Option.bind (registry_get (r_registry rx) (rq_capability req) (rq_chain req) v)
         (extract_port (trait_of (rq_capability req))) = Some p"

lemma candidates_serve:
  assumes "consider_all rx (trait_of (rq_capability req)) req c (order_of rx req) rt = (cs, skipped, rt1)"
    and "(v, p) \<in> set cs"
  shows "serves rx req v p"
proof -
  have sound: "subseq (map fst cs) (order_of rx req)" "list_all (usable rx (trait_of (rq_capability req)) req c rt) cs"
    using consider_all_sound [OF assms(1)] by simp_all
  from assms(2) have "v \<in> set (map fst cs)" by force
  then have "v \<in> set (order_of rx req)" using list_emb_set [OF sound(1)] by blast
  with sound(2) assms(2) show ?thesis by (auto simp: list_all_iff usable_def serves_def)
qed

lemma failover_served:
  assumes "failover rx (trait_of (rq_capability req)) req (asks w f) rt c = (Inr y, rt1, c1)"
    and "consider_all rx (trait_of (rq_capability req)) req c (order_of rx req) rt = (cs, skipped, rt2)"
  shows "\<exists>v p i n. (v, p) \<in> set cs \<and> serves rx req v p \<and> f p i n = Inr (rd_value y)
    \<and> pv_provider (rd_provenance y) = Some v"
proof -
  from failover_answer [OF assms] obtain i v p k
    where "i < length cs" "cs ! i = (v, p)" "reply (asks w f p i k) = Inr (rd_value y)" "pv_provider (rd_provenance y) = Some v"
    by blast
  moreover from this have "(v, p) \<in> set cs" by (metis nth_mem)
  moreover from this have "serves rx req v p" by (rule candidates_serve [OF assms(2)])
  ultimately show ?thesis by (auto simp: asks_def)
qed

lemma routed_served:
  assumes "routed rx req w f rt c = (Inr y, rt1, c1)"
    and "consider_all rx (trait_of (rq_capability req)) req c (order_of rx req) rt = (cs, skipped, rt2)"
  shows "\<exists>v p i n. (v, p) \<in> set cs \<and> serves rx req v p \<and> f p i n = Inr (rd_value y)
    \<and> pv_provider (rd_provenance y) = Some v"
proof -
  obtain r rt2 c2 where f: "failover rx (trait_of (rq_capability req)) req (asks w f) rt c = (r, rt2, c2)"
    by (metis prod_cases3)
  with assms(1) have "r = Inr y" by (cases r) (auto simp: routed_def map_err_def)
  with failover_served [of rx req w f rt c y rt2 c2] f assms(2) show ?thesis by simp
qed

lemma rpc_served:
  assumes "rpc_request rx cap chain w method params rt c = (Inr v, rt1, c1)"
  shows "\<exists>vendor p i n. serves rx ((new_req cap)\<lparr>rq_chain := Some chain\<rparr>) vendor p \<and> w_node w p i n method params = Inr v"
proof -
  define req where "req = (new_req cap)\<lparr>rq_chain := Some chain\<rparr>"
  obtain r rt2 c2 where f: "failover rx (trait_of cap) req (asks w (\<lambda>p i n. w_node w p i n method params)) rt c = (r, rt2, c2)"
    by (metis prod_cases3)
  obtain cs skipped rt3 where cs: "consider_all rx (trait_of cap) req c (order_of rx req) rt = (cs, skipped, rt3)"
    by (metis prod_cases3)
  have cap: "rq_capability req = cap" by (simp add: req_def new_req_def)
  from f assms obtain y where "r = Inr y" "v = rd_value y"
    by (cases r) (auto simp: rpc_request_def req_def)
  with failover_served [of rx req w "\<lambda>p i n. w_node w p i n method params" rt c y rt2 c2 cs] f cs cap show ?thesis
    by (auto simp: req_def)
qed

section \<open>Looking twice\<close>

text \<open>
  Some operations look at the candidates before they route. Looking moves breakers, and never lets in a
  vendor it kept out.
\<close>

definition refused :: "'s runtime \<Rightarrow> clock \<Rightarrow> string \<Rightarrow> bool" where
  "refused rt c v \<longleftrightarrow> \<not> fst (breaker_next (st_breaker (vendors rt v)) (inst c))"

lemma breaker_next_refuses: "\<not> fst (breaker_next b now) \<Longrightarrow> snd (breaker_next b now) = b"
  by (cases "(b, now)" rule: breaker_next.cases) (auto split: if_splits)

lemma allows_breaker:
  "fst (breaker_allows rt w c) \<longleftrightarrow> \<not> refused rt c w"
  "v \<noteq> w \<or> refused rt c v \<Longrightarrow> st_breaker (vendors (snd (breaker_allows rt w c)) v) = st_breaker (vendors rt v)"
  using breaker_next_refuses [of "st_breaker (vendors rt v)" "inst c"]
  by (auto simp: breaker_allows_def refused_def with_vendor_def Let_def split_beta)

lemma consider_breaker:
  assumes "consider_vendor rx t req c w rt = (r, rt1)" and "v \<noteq> w \<or> refused rt c v"
  shows "st_breaker (vendors rt1 v) = st_breaker (vendors rt v)"
  using assms allows_breaker(2) [of v w rt c]
  by (auto simp: consider_vendor_def Let_def split_beta split: vendor_status.splits option.splits)

lemma consider_refused: "consider_vendor rx t req c v rt = (Inr p, rt1) \<Longrightarrow> \<not> refused rt c v"
  using consider_usable [of rx t req c v rt p rt1] by (simp add: allows_breaker)

lemma refused_stays:
  assumes "consider_all rx t req c vs rt = (cs, skipped, rt1)" and "refused rt c v"
  shows "refused rt1 c v \<and> (v, p) \<notin> set cs"
  using assms
proof (induction vs arbitrary: rt rt1 cs skipped)
  case (Cons w vs)
  obtain r rt2 where step: "consider_vendor rx t req c w rt = (r, rt2)" by fastforce
  obtain cs' sk' rt3 where rest: "consider_all rx t req c vs rt2 = (cs', sk', rt3)" by (metis prod_cases3)
  have "refused rt2 c v" using consider_breaker [OF step, of v] Cons.prems(2) unfolding refused_def by metis
  with Cons.IH [OF rest] Cons.prems step rest consider_refused [of rx t req c w rt _ rt2] show ?case
    by (cases r) (auto simp: consider_all.simps)
qed (simp_all add: consider_all.simps)

lemma allowed_candidate:
  assumes "consider_all rx t req c vs rt = (cs, skipped, rt1)" and "\<not> refused rt c v" and "v \<in> set vs"
    and "usable rx t req c rt (v, p)"
  shows "(v, p) \<in> set cs"
  using assms
proof (induction vs arbitrary: rt rt1 cs skipped)
  case (Cons w vs)
  obtain r rt2 where step: "consider_vendor rx t req c w rt = (r, rt2)" by fastforce
  obtain cs' sk' rt3 where rest: "consider_all rx t req c vs rt2 = (cs', sk', rt3)" by (metis prod_cases3)
  show ?case
  proof (cases "w = v")
    case True
    have "fst (consider_vendor rx t req c v rt) = Inr p"
      using Cons.prems(2,4) by (simp add: consider_vendor_def usable_def Let_def split_beta allows_breaker)
    with True step have "r = Inr p" by simp
    with True step rest Cons.prems(1) show ?thesis by (auto simp: consider_all.simps)
  next
    case False
    have "\<not> refused rt2 c v" using consider_breaker [OF step] False Cons.prems(2) by (auto simp: refused_def)
    moreover have "usable rx t req c rt2 (v, p)"
      using Cons.prems(4) by (simp add: usable_def consider_quota [OF step])
    ultimately have "(v, p) \<in> set cs'" using Cons.IH [OF rest] Cons.prems(3) False by simp
    with step rest Cons.prems(1) show ?thesis by (cases r) (auto simp: consider_all.simps)
  qed
qed (simp_all add: consider_all.simps)

lemma consider_all_quota:
  assumes "consider_all rx t req c vs rt = (cs, skipped, rt1)"
  shows "usable rx t req c rt1 = usable rx t req c rt"
  using assms
proof (induction vs arbitrary: rt rt1 cs skipped)
  case (Cons w vs)
  obtain r rt2 where step: "consider_vendor rx t req c w rt = (r, rt2)" by fastforce
  obtain cs' sk' rt3 where rest: "consider_all rx t req c vs rt2 = (cs', sk', rt3)" by (metis prod_cases3)
  have "usable rx t req c rt2 = usable rx t req c rt"
    by (rule ext) (simp add: usable_def consider_quota [OF step] split: prod.splits)
  with Cons.IH [OF rest] Cons.prems step rest show ?case by (cases r) (auto simp: consider_all.simps)
qed (simp_all add: consider_all.simps)

lemma second_look:
  assumes first: "consider_all rx t req c vs rt = (cs, skipped, rt1)"
    and again: "consider_all rx t req c vs rt1 = (cs2, skipped2, rt2)" and "(v, p) \<in> set cs2"
  shows "map_of cs v = Some p"
proof -
  have "(v, p) \<in> set cs"
  proof (rule allowed_candidate [OF first])
    show "\<not> refused rt c v" using refused_stays [OF first] refused_stays [OF again] assms(3) by blast
    have "v \<in> set (map fst cs2)" using assms(3) by force
    then show "v \<in> set vs" using consider_all_sound [OF again] list_emb_set [of "(=)" "map fst cs2" vs v] by blast
    show "usable rx t req c rt (v, p)"
      using consider_all_sound [OF again] assms(3) consider_all_quota [OF first] by (auto simp: list_all_iff)
  qed
  moreover have "q = p" if "(v, q) \<in> set cs" for q
  proof -
    have "list_all (usable rx t req c rt) cs" using consider_all_sound [OF first] by simp
    with that calculation have "usable rx t req c rt (v, q)" "usable rx t req c rt (v, p)" by (auto simp: list_all_iff)
    then show ?thesis by (simp add: usable_def)
  qed
  ultimately show ?thesis by (metis map_of_SomeD weak_map_of_SomeI)
qed

end
