(* ===== verification/ChainTools.thy ===== *)
theory ChainTools
  imports Quotes
begin

text \<open>
  The chain tools and the helpers the other operations share (\<open>crates/app/src/ops/chain.rs\<close>):
  addresses and assets of a chain, where an answer comes from, \<open>chain_list\<close>, \<open>chain_finality\<close> and
  \<open>provider_health\<close>. A joined pair of requests is made in order; what runs between is in \<open>w_during\<close>.
\<close>

section \<open>Shared helpers\<close>

definition stablecoins :: "op_lib \<Rightarrow> stablecoin_entry list" where
  "stablecoins b = (case ol_registry b of Inr r \<Rightarrow> r | Inl _ \<Rightarrow> [])"

definition chain_native :: "chain_entry \<Rightarrow> asset_id" where
  "chain_native ce = native_asset (ce_id ce) (nat_slip44 (ce_native ce))"

definition chain_address :: "op_lib \<Rightarrow> chain_entry \<Rightarrow> string \<Rightarrow> domain_error + account_address" where
  "chain_address b ce s = map_err (\<lambda>e. invalid (message e @ '' (chain '' @ show_chain (ce_id ce) @ '')''))
     (parse_address (ol_codec b) (ce_family ce) s)"

fun asset_of_address :: "account_address \<Rightarrow> asset_ref" where
  "asset_of_address (EvmAddress a) = Erc20 a"
| "asset_of_address (SolanaAddress m) = SplToken m"

definition resolve_asset :: "op_lib \<Rightarrow> chain_entry \<Rightarrow> string option \<Rightarrow> domain_error + asset_id" where
  "resolve_asset b ce s0 =
     (let s = unwrap_or ''native'' (map_option trim s0) in
      if s = [] \<or> lower s = ''native'' \<or> lower s = lower (nat_symbol (ce_native ce)) then Inr (chain_native ce)
      else if CHR ''/'' \<in> set s
      then and_then (parse_asset (ol_codec b) s) (\<lambda>a.
        if asset_chain a \<noteq> ce_id ce
        then Inl (invalid (''asset '' @ show_asset (ol_codec b) a @ '' is on '' @ show_chain (asset_chain a)
               @ '', not '' @ show_chain (ce_id ce)))
        else Inr a)
      else case by_symbol (stablecoins b) (ce_id ce) s of
             Some e \<Rightarrow> Inr (entry_asset e)
           | None \<Rightarrow> and_then (chain_address b ce s) (\<lambda>a. Inr (AssetId (ce_id ce) (asset_of_address a))))"

definition stablecoin :: "op_lib \<Rightarrow> asset_id \<Rightarrow> stablecoin_entry option" where
  "stablecoin b a = by_asset (stablecoins b) a"

definition rpc_meta :: "chain_id \<Rightarrow> datetime \<Rightarrow> provenance" where
  "rpc_meta chain now = (new_provenance Primary now)\<lparr>pv_chain := Some chain, pv_provider := Some ''rpc''\<rparr>"

definition add_meta_of :: "provenance \<Rightarrow> provenance \<Rightarrow> provenance" where
  "add_meta_of p m = p\<lparr>pv_latency_ms := max (pv_latency_ms p) (pv_latency_ms m), pv_tried := pv_tried p @ pv_tried m\<rparr>"

definition merge_meta :: "chain_id option \<Rightarrow> provenance list \<Rightarrow> datetime \<Rightarrow> provenance" where
  "merge_meta chain metas now =
     (case metas of
        [m] \<Rightarrow> m\<lparr>pv_chain := or_opt chain (pv_chain m)\<rparr>
      | _ \<Rightarrow> foldl add_meta_of ((new_provenance Aggregate now)\<lparr>pv_chain := chain, pv_provider := Some ''aggregate''\<rparr>) metas)"

text \<open>\<open>hex_u64\<close> of this file: \<open>None\<close> instead of an error.\<close>

definition hex_quantity :: "json \<Rightarrow> u64 option" where
  "hex_quantity v = Option.bind (as_str v) (\<lambda>s. parse_hex_u64 (strip_0x s))"

definition chains :: "('s, 'p, 'q) op_ctx \<Rightarrow> string option \<Rightarrow> domain_error + chain_entry list" where
  "chains cx flt = (case flt of
       Some s \<Rightarrow> and_then (ctx_chain cx s) (\<lambda>ce. Inr [ce])
     | None \<Rightarrow> Inr (enabled_chains (reg_chains (registry (cx_table cx)))))"

definition caps_for :: "chain_family \<Rightarrow> capability list" where
  "caps_for f = filter (\<lambda>c. case c of CapEvmRpc \<Rightarrow> f = Evm | CapSolanaRpc \<Rightarrow> f = Solana | _ \<Rightarrow> True) all_capabilities"

text \<open>\<open>Ctx::evm_rpc\<close> and \<open>Ctx::solana_rpc\<close>: the routed RPC of a chain, for its family only.\<close>

definition evm_rpc :: "chain_entry \<Rightarrow> domain_error + capability" where
  "evm_rpc ce = (if ce_family ce \<noteq> Evm then Inl (invalid (show_chain (ce_id ce) @ '' is not an EVM chain''))
     else case evm_chain_id (ce_id ce) of
            None \<Rightarrow> Inl (internal (show_chain (ce_id ce) @ '' has no EIP-155 chain id''))
          | Some _ \<Rightarrow> Inr CapEvmRpc)"

definition solana_rpc :: "chain_entry \<Rightarrow> domain_error + capability" where
  "solana_rpc ce = (if ce_family ce \<noteq> Solana then Inl (invalid (show_chain (ce_id ce) @ '' is not a Solana chain''))
     else Inr CapSolanaRpc)"

section \<open>\<open>chain_list\<close>\<close>

fun level_label :: "order_level \<Rightarrow> string" where
  "level_label LevelOperation = ''operation''"
| "level_label LevelChain = ''chain''"
| "level_label LevelDefault = ''default''"
| "level_label LevelBuiltIn = ''built_in''"

record capability_row =
  cp_capability :: capability
  cp_order :: "string list"
  cp_level :: string
  cp_usable :: "string list"

record chain_row =
  cw_id :: chain_id
  cw_name :: string
  cw_aliases :: "string list"
  cw_family :: chain_family
  cw_native :: native_info
  cw_block_time_ms :: u64
  cw_finality :: finality_policy
  cw_explorer :: "string option"
  cw_capabilities :: "capability_row list"

definition capability_row_of :: "('s, 'p, 'q) op_ctx \<Rightarrow> chain_entry \<Rightarrow> capability \<Rightarrow> capability_row option" where
  "capability_row_of cx ce cap =
     (let ord = resolve_order (cx_table cx) cap (Some (ce_id ce)) None in
      if order_vendors ord = [] then None
      else Some \<lparr>cp_capability = cap, cp_order = order_vendors ord, cp_level = level_label (order_level ord),
        cp_usable = filter (\<lambda>v. vendor_status (cx_table cx) v = Active
          \<and> registry_get (r_registry (cx_router cx)) cap (Some (ce_id ce)) v \<noteq> None) (order_vendors ord)\<rparr>)"

definition chain_row_of :: "('s, 'p, 'q) op_ctx \<Rightarrow> chain_entry \<Rightarrow> chain_row" where
  "chain_row_of cx ce = \<lparr>cw_id = ce_id ce, cw_name = ce_name ce, cw_aliases = ce_aliases ce, cw_family = ce_family ce,
     cw_native = ce_native ce, cw_block_time_ms = ce_block_time_ms ce, cw_finality = ce_finality ce,
     cw_explorer = ce_explorer ce,
     cw_capabilities = List.map_filter (capability_row_of cx ce) (caps_for (ce_family ce))\<rparr>"

definition chain_list :: "('s, 'p, 'q) op_ctx \<Rightarrow> string option \<Rightarrow> datetime \<Rightarrow> domain_error + chain_row list op_output" where
  "chain_list cx flt now = and_then (chains cx flt) (\<lambda>ces. Inr (local_output now (map (chain_row_of cx) ces)))"

section \<open>\<open>chain_finality\<close>\<close>

record finality_level =
  fl_level :: string
  fl_block :: "block_ref option"
  fl_behind :: "u64 option"

record provider_head =
  ph_vendor :: string
  ph_head :: "u64 option"
  ph_lag :: "u64 option"
  ph_error :: "string option"

record finality_out =
  fo_chain :: chain_id
  fo_policy :: finality_policy
  fo_levels :: "finality_level list"
  fo_heads :: "provider_head list"

definition evm_block_of :: "op_lib \<Rightarrow> provider_error + json \<Rightarrow> block_ref option" where
  "evm_block_of b r = Option.bind (to_option r) (\<lambda>v. Option.bind (hex_quantity (jget v ''number'')) (\<lambda>n.
     Some \<lparr>number = n, block_hash = as_str (jget v ''hash''),
       timestamp = Option.bind (hex_quantity (jget v ''timestamp'')) (\<lambda>t. ol_time b (sint t))\<rparr>))"

definition evm_block :: "op_lib \<Rightarrow> ('s, 'p, 'q) router_env \<Rightarrow> chain_id \<Rightarrow> ('s, 'p) vendor_world \<Rightarrow> string
    \<Rightarrow> ('s, block_ref option) act" where
  "evm_block b rx chain w tag = map_act (evm_block_of b)
     (rpc_request rx CapEvmRpc chain w ''eth_getBlockByNumber'' (JArr [JStr tag, JBool False]))"

definition sol_slot_of :: "provider_error + json \<Rightarrow> block_ref option" where
  "sol_slot_of r = Option.bind (to_option r) (\<lambda>v. Option.bind (as_u64 v) (\<lambda>n.
     Some \<lparr>number = n, block_hash = None, timestamp = None\<rparr>))"

definition sol_slot :: "('s, 'p, 'q) router_env \<Rightarrow> chain_id \<Rightarrow> ('s, 'p) vendor_world \<Rightarrow> string
    \<Rightarrow> ('s, block_ref option) act" where
  "sol_slot rx chain w commitment = map_act sol_slot_of
     (rpc_request rx CapSolanaRpc chain w ''getSlot'' (JArr [JObj [(''commitment'', JStr commitment)]]))"

definition max_head :: "(string \<times> (string + u64 option)) list \<Rightarrow> u64 option" where
  "max_head results = (let hs = List.map_filter (\<lambda>(_, r). Option.bind (to_option r) (\<lambda>h. h)) results
     in if hs = [] then None else Some (Max (set hs)))"

definition head_row :: "u64 option \<Rightarrow> string \<times> (string + u64 option) \<Rightarrow> provider_head" where
  "head_row mx = (\<lambda>(vendor, r).
     let (head, error) = (case r of Inr h \<Rightarrow> (h, None) | Inl e \<Rightarrow> (None, Some e))
     in \<lparr>ph_vendor = vendor, ph_head = head,
          ph_lag = Option.bind head (\<lambda>h. map_option (\<lambda>m. m - h) mx), ph_error = error\<rparr>)"

definition heads :: "(string \<times> (string + u64 option)) list \<Rightarrow> provider_head list" where
  "heads results = map (head_row (max_head results)) results"

text \<open>One head query per RPC vendor of the order, through the router.\<close>

definition provider_heads :: "('s, 'p, 'q) op_ctx \<Rightarrow> capability \<Rightarrow> chain_id \<Rightarrow> ('s, 'p) vendor_world \<Rightarrow> string
    \<Rightarrow> ('s, provider_head list) act" where
  "provider_heads cx cap chain w method rt c =
     (let (r, rt1, c1) = fan_out (cx_router cx) (trait_of cap) ((ctx_route cx cap)\<lparr>rq_chain := Some chain\<rparr>)
            (asks w (\<lambda>p i n. w_node w p i n method (JArr []))) rt c
      in (case r of
            Inr y \<Rightarrow> heads (map (\<lambda>(v, res). (v, case res of
                Inl e \<Rightarrow> Inl (reason e)
              | Inr val \<Rightarrow> Inr (case as_u64 val of Some n \<Rightarrow> Some n | None \<Rightarrow> hex_quantity val))) (rd_value y))
          | Inl e \<Rightarrow> map (\<lambda>a. \<lparr>ph_vendor = att_vendor a, ph_head = None, ph_lag = None,
              ph_error = Some (unwrap_or ''failed'' (att_reason a))\<rparr>) (re_attempts e),
          rt1, c1))"

definition level_row :: "u64 \<Rightarrow> string \<times> block_ref option \<Rightarrow> finality_level" where
  "level_row head = (\<lambda>(n, block). \<lparr>fl_level = n, fl_block = block,
     fl_behind = map_option (\<lambda>b. sat_sub head (number b)) block\<rparr>)"

definition finality_levels :: "chain_entry \<Rightarrow> string list \<Rightarrow> block_ref option list \<Rightarrow> provider_head list \<Rightarrow> datetime
    \<Rightarrow> domain_error + finality_out op_output" where
  "finality_levels ce names blocks hs now =
     (case blocks of
        Some head # _ \<Rightarrow> Inr \<lparr>op_data = \<lparr>fo_chain = ce_id ce, fo_policy = ce_finality ce,
            fo_levels = map (level_row (number head)) (zip names blocks), fo_heads = hs\<rparr>,
          op_meta = rpc_meta (ce_id ce) now\<rparr>
      | _ \<Rightarrow> Inl (new_error AllProvidersFailed (''could not read the head of '' @ show_chain (ce_id ce))))"

definition level_names :: "chain_family \<Rightarrow> string list" where
  "level_names f = (case f of Evm \<Rightarrow> [''latest'', ''safe'', ''finalized'']
     | Solana \<Rightarrow> [''processed'', ''confirmed'', ''finalized''])"

definition read_level :: "op_lib \<Rightarrow> ('s, 'p, 'q) op_ctx \<Rightarrow> chain_entry \<Rightarrow> ('s, 'p) vendor_world \<Rightarrow> string
    \<Rightarrow> ('s, block_ref option) act" where
  "read_level b cx ce w n = (case ce_family ce of
       Evm \<Rightarrow> evm_block b (cx_router cx) (ce_id ce) w n
     | Solana \<Rightarrow> sol_slot (cx_router cx) (ce_id ce) w n)"

definition family_rpc :: "chain_entry \<Rightarrow> domain_error + capability" where
  "family_rpc ce = (case ce_family ce of Evm \<Rightarrow> evm_rpc ce | Solana \<Rightarrow> solana_rpc ce)"

definition head_method :: "chain_family \<Rightarrow> string" where
  "head_method f = (case f of Evm \<Rightarrow> ''eth_blockNumber'' | Solana \<Rightarrow> ''getSlot'')"

text \<open>\<open>ws\<close> holds the behaviour of the vendors for each request of the operation.\<close>

definition chain_finality :: "op_lib \<Rightarrow> (nat \<Rightarrow> ('s, 'p) vendor_world) \<Rightarrow> ('s, 'p, 'q) op_ctx \<Rightarrow> string \<Rightarrow> bool
    \<Rightarrow> ('s, domain_error + finality_out op_output) act" where
  "chain_finality b ws cx chain per_provider =
     ok_then (done_with (ctx_chain cx chain)) (\<lambda>ce.
     ok_then (done_with (family_rpc ce)) (\<lambda>cap.
     then_do (read_level b cx ce (ws 0) (level_names (ce_family ce) ! 0)) (\<lambda>b0.
     then_do (read_level b cx ce (ws 1) (level_names (ce_family ce) ! 1)) (\<lambda>b1.
     then_do (read_level b cx ce (ws 2) (level_names (ce_family ce) ! 2)) (\<lambda>b2.
     then_do (if per_provider then provider_heads cx cap (ce_id ce) (ws 3) (head_method (ce_family ce)) else done_with []) (\<lambda>hs rt c.
       (finality_levels ce (level_names (ce_family ce)) [b0, b1, b2] hs (utc c), rt, c)))))))"

section \<open>\<open>provider_health\<close>\<close>

record vendor_row =
  vw_vendor :: string
  vw_config :: vendor_status
  vw_runtime :: vendor_health

record health_out =
  ht_vendors :: "vendor_row list"
  ht_orders :: "(string \<times> (string \<times> order_resolution) list) list"

definition chain_orders :: "('s, 'p, 'q) op_ctx \<Rightarrow> chain_entry \<Rightarrow> string \<times> (string \<times> order_resolution) list" where
  "chain_orders cx ce = (show_chain (ce_id ce), map (\<lambda>cap. (cap_as_str cap,
     resolve_order (cx_table cx) cap (Some (ce_id ce)) None)) (caps_for (ce_family ce)))"

definition provider_health :: "('s, 'p, 'q) op_ctx \<Rightarrow> string option \<Rightarrow> 's runtime \<Rightarrow> clock
    \<Rightarrow> domain_error + health_out op_output" where
  "provider_health cx flt rt c = and_then (chains cx flt) (\<lambda>ces. Inr (local_output (utc c)
     \<lparr>ht_vendors = map (\<lambda>h. \<lparr>vw_vendor = vh_vendor h, vw_config = vendor_status (cx_table cx) (vh_vendor h),
        vw_runtime = h\<rparr>) (router_health (cx_router cx) rt c),
      ht_orders = map (chain_orders cx) ces\<rparr>))"

section \<open>Assets are well typed\<close>

lemma row_asset_wf: "row_asset k f x = Inr a \<Longrightarrow> family c = Some f \<Longrightarrow> wf_chain c \<Longrightarrow> wf_asset (AssetId c a)"
  by (auto simp: row_asset_def and_then_def map_err_def parse_pubkey_def ok_or_def
      split: chain_family.splits option.splits if_splits sum.splits)

lemma validate_row_wf: "validate_row k pc r = Inr e \<Longrightarrow> wf_chain (row_chain r) \<Longrightarrow> wf_asset (entry_asset e)"
  by (auto simp: validate_row_def and_then_Inr ok_or_Inr dest!: row_asset_wf split: if_splits)

lemma add_rows_wf:
  "\<lbrakk>\<forall>e \<in> set (fst st). wf_asset (entry_asset e); \<forall>r \<in> set rs. wf_chain (row_chain r)\<rbrakk>
   \<Longrightarrow> \<forall>e \<in> set (fst (add_rows k pc i rs st)). wf_asset (entry_asset e)"
proof (induction rs arbitrary: i st)
  case (Cons r rs)
  have "\<forall>e \<in> set (fst (add_row k pc i r st)). wf_asset (entry_asset e)"
    using Cons.prems by (cases st) (auto simp: add_row_def Let_def dest: validate_row_wf split: sum.splits)
  with Cons show ?case by simp
qed simp

lemma parsed_registry_wf:
  assumes "parse_registry k pc crs = Inr reg" and "\<forall>r \<in> set crs. wf_chain (row_chain r)" and "e \<in> set reg"
  shows "wf_asset (entry_asset e)"
  using assms add_rows_wf [of "([], [])" crs k pc 0]
  by (auto simp: parse_registry_def Let_def split: prod.splits if_splits)

lemma resolve_asset_wf:
  assumes "wf_chain (ce_id ce)" and "family (ce_id ce) = Some (ce_family ce)"
    and "ol_registry b = parse_registry k pc coin_rows" and "\<forall>r \<in> set coin_rows. wf_chain (row_chain r)"
    and "resolve_asset b ce s = Inr a"
  shows "asset_chain a = ce_id ce \<and> wf_asset a
    \<and> (case asset a of Native n \<Rightarrow> True | Erc20 t \<Rightarrow> ce_family ce = Evm | SplToken m \<Rightarrow> ce_family ce = Solana)"
proof -
  have coin: "wf_asset (entry_asset e) \<and> asset_chain (entry_asset e) = ce_id ce"
    if "by_symbol (stablecoins b) (ce_id ce) x = Some e" for x e
    using that assms(3,4) find_SomeD [of _ "stablecoins b" e] parsed_registry_wf [of k pc coin_rows "stablecoins b" e]
    by (auto simp: by_symbol_def stablecoins_def split: sum.splits)
  have address: "wf_asset (AssetId (ce_id ce) (asset_of_address x))" if "chain_address b ce t = Inr x" for t x
    using that assms(1,2) parse_address_wf [of "ol_codec b" "ce_family ce" t x]
    by (cases x) (auto simp: chain_address_def)
  have "asset_chain a = ce_id ce \<and> wf_asset a"
    using assms(1,5) coin address
    by (auto simp: resolve_asset_def Let_def and_then_Inr chain_native_def native_asset_def dest: parse_asset_wf
        split: if_splits option.splits)
  then show ?thesis using assms(2) by (cases a rule: wf_asset.cases) auto
qed

text \<open>
  C19: an asset an operation works on is well typed. Whatever \<open>resolve_asset\<close> returns - for nothing, a
  native symbol, a CAIP-19 id, a stablecoin symbol or an address - is on the chain asked for, and is its
  native coin, an ERC-20 contract on an EVM chain or a 32-byte mint on a Solana chain, never one family's
  token on the other's chain.
\<close>

theorem resolve_asset_typed:
  assumes "wf_chain (ce_id ce)" and "family (ce_id ce) = Some (ce_family ce)"
    and "ol_registry b = parse_registry k pc coin_rows" and "\<forall>r \<in> set coin_rows. wf_chain (row_chain r)"
    and "resolve_asset b ce s = Inr a"
  shows "asset_chain a = ce_id ce \<and> wf_asset a
    \<and> (case asset a of Native n \<Rightarrow> True | Erc20 t \<Rightarrow> ce_family ce = Evm | SplToken m \<Rightarrow> ce_family ce = Solana)"
  by (rule resolve_asset_wf [OF assms])

definition typed_lib :: op_lib where
  "typed_lib = pay_lib\<lparr>ol_registry := Inr [sample_entry]\<rparr>"

theorem resolve_asset_typed_witness:
  "resolve_asset typed_lib sample_chain (Some ''USDC'') = Inr (AssetId (ChainId ''eip155'' ''8453'') (Erc20 7))
   \<and> wf_asset (AssetId (ChainId ''eip155'' ''8453'') (Erc20 7))"
proof -
  have chain: "ce_id sample_chain = ChainId ''eip155'' ''8453''" "ce_family sample_chain = Evm" "nat_symbol (ce_native sample_chain) = ''ETH''"
    by (simp_all add: sample_chain_def)
  have "trim ''USDC'' = ''USDC''" by (rule trim_id, simp add: is_space_def)
  moreover have "by_symbol [sample_entry] (ChainId ''eip155'' ''8453'') ''USDC'' = Some sample_entry"
    by (simp add: by_symbol_def sample_entry_def matches_symbol_def eq_ignore_ascii_case_def)
  ultimately have found: "resolve_asset typed_lib sample_chain (Some ''USDC'') = Inr (entry_asset sample_entry)"
    by (simp add: resolve_asset_def chain stablecoins_def typed_lib_def lower_def to_lower_def is_upper_def)
  have "wf_chain (ChainId ''eip155'' ''8453'')" by code_simp
  moreover have "ol_registry typed_lib = parse_registry letter_codec Map.empty [sample_row]"
    by (simp add: sample_registry typed_lib_def)
  ultimately show ?thesis
    using resolve_asset_typed [OF _ _ _ _ found, of letter_codec Map.empty "[sample_row]"] found
    by (simp add: chain sample_row_def family_def sample_entry_def)
qed

section \<open>What the list of chains says is what routing does\<close>

lemma port_at_capability:
  assumes "port_at (registry_of regs) cap chain v = Some h"
  shows "handle_capability h = cap"
proof -
  have "port_at (fold registry_add rs reg) cap chain v = Some h \<longrightarrow> handle_capability h = cap"
    if "port_at reg cap chain v = Some h \<longrightarrow> handle_capability h = cap" for rs and reg :: "('a, 'b) provider_registry"
    using that
  proof (induction rs arbitrary: reg)
    case (Cons r rs)
    have "port_at (registry_add r reg) cap chain v = Some h \<longrightarrow> handle_capability h = cap"
      using Cons.prems by (auto simp: port_at_add registered_port_def or_opt_def dest!: find_SomeD split: if_splits option.splits)
    from Cons.IH [OF this] show ?case by simp
  qed simp
  from this [of empty_registry regs] assms show ?thesis
    by (simp add: registry_of_def) (simp add: port_at_def empty_registry_def)
qed

lemma registry_get_capability: "registry_get (registry_of regs) cap chain v = Some h \<Longrightarrow> handle_capability h = cap"
  by (auto simp: registry_get_def or_opt_def dest: port_at_capability split: option.splits Option.bind_splits)

text \<open>
  C20: \<open>chain_list\<close> tells the truth about routing: the vendors it lists as usable for a chain and a
  capability are exactly those a request without an order of its own can reach, in the order it asks
  them, and a capability it leaves out has no vendor at all.
\<close>

theorem chain_list_usable:
  assumes "r_registry (cx_router cx) = registry_of regs" and "cx_table cx = r_config (cx_router cx)"
  shows "case capability_row_of cx ce cap of
      None \<Rightarrow> order_of (cx_router cx) ((new_req cap)\<lparr>rq_chain := Some (ce_id ce)\<rparr>) = []
    | Some row \<Rightarrow> cp_usable row = filter (\<lambda>v. \<exists>p. serves (cx_router cx) ((new_req cap)\<lparr>rq_chain := Some (ce_id ce)\<rparr>) v p)
        (order_of (cx_router cx) ((new_req cap)\<lparr>rq_chain := Some (ce_id ce)\<rparr>))"
proof -
  let ?req = "(new_req cap)\<lparr>rq_chain := Some (ce_id ce)\<rparr>"
  have req: "rq_capability ?req = cap" "rq_chain ?req = Some (ce_id ce)" "rq_op ?req = None"
    by (simp_all add: new_req_def)
  have order: "order_of (cx_router cx) ?req = order_vendors (resolve_order (cx_table cx) cap (Some (ce_id ce)) None)"
    by (simp add: order_of_def req assms(2))
  have port: "(\<exists>p. Option.bind (registry_get (registry_of regs) cap chain v) (extract_port (trait_of cap)) = Some p)
      \<longleftrightarrow> registry_get (registry_of regs) cap chain v \<noteq> None" for chain v
    by (cases "registry_get (registry_of regs) cap chain v") (auto simp: extract_port_def dest: registry_get_capability)
  have "(\<exists>p. serves (cx_router cx) ?req v p) \<longleftrightarrow> vendor_status (cx_table cx) v = Active
      \<and> registry_get (r_registry (cx_router cx)) cap (Some (ce_id ce)) v \<noteq> None"
    if "v \<in> set (order_of (cx_router cx) ?req)" for v
    using that port [of "Some (ce_id ce)" v] by (auto simp: serves_def req assms)
  then show ?thesis by (auto simp: capability_row_of_def Let_def order intro!: filter_cong)
qed

theorem chain_list_usable_witness:
  "\<exists>row. capability_row_of pay_ctx sample_chain CapEvmRpc = Some row \<and> cp_usable row = [''a'']"
proof -
  let ?req = "(new_req CapEvmRpc)\<lparr>rq_chain := Some (ce_id sample_chain)\<rparr>"
  have req: "rq_capability ?req = CapEvmRpc" by (simp add: new_req_def)
  then have order: "order_of pay_env ?req = [''a'']" by (simp add: pay_order)
  obtain rt1 where cs: "consider_all pay_env (trait_of (rq_capability ?req)) ?req sample_clock (order_of pay_env ?req) sample_state = ([(''a'', 0)], [], rt1)"
    using pay_considered [OF req] req by auto
  have "serves pay_env ?req ''a'' 0" by (rule candidates_serve [OF cs]) simp
  moreover obtain regs where "r_registry (cx_router pay_ctx) = registry_of regs" by (auto simp: pay_env_def)
  moreover have "cx_table pay_ctx = r_config (cx_router pay_ctx)" by simp
  note chain_list_usable [OF calculation(2) this, of sample_chain CapEvmRpc]
  ultimately show ?thesis
    using order by (cases "capability_row_of pay_ctx sample_chain CapEvmRpc") auto
qed

section \<open>Finality and heads\<close>

definition lags_exact :: "provider_head list \<Rightarrow> bool" where
  "lags_exact hs \<longleftrightarrow> (\<exists>top. (\<forall>h \<in> set hs. case ph_head h of
       None \<Rightarrow> ph_lag h = None
     | Some x \<Rightarrow> (\<exists>l. ph_lag h = Some l \<and> unat x + unat l = top))
     \<and> ((\<exists>h \<in> set hs. ph_head h \<noteq> None) \<longrightarrow> (\<exists>h \<in> set hs. ph_lag h = Some 0)))"

lemma max_head_spec:
  "max_head rs = None \<longleftrightarrow> (\<forall>v h. (v, Inr (Some h)) \<notin> set rs)"
  "max_head rs = Some m \<Longrightarrow> (v, Inr (Some h)) \<in> set rs \<Longrightarrow> h \<le> m"
  "max_head rs = Some m \<Longrightarrow> \<exists>v. (v, Inr (Some m)) \<in> set rs"
proof -
  have mem: "h \<in> set (List.map_filter (\<lambda>(_, r). Option.bind (to_option r) (\<lambda>h. h)) rs) \<longleftrightarrow> (\<exists>v. (v, Inr (Some h)) \<in> set rs)" for h
    by (force simp: set_map_filter_iff bind_eq_Some_conv to_option_Some)
  let ?hs = "List.map_filter (\<lambda>(_, r). Option.bind (to_option r) (\<lambda>h. h)) rs"
  show "max_head rs = None \<longleftrightarrow> (\<forall>v h. (v, Inr (Some h)) \<notin> set rs)"
    using mem by (cases ?hs) (auto simp: max_head_def, metis list.set_intros(1))
  show "max_head rs = Some m \<Longrightarrow> (v, Inr (Some h)) \<in> set rs \<Longrightarrow> h \<le> m"
    using mem [of h] Max_ge [of "set ?hs" h] by (auto simp: max_head_def Let_def split: if_splits)
  show "max_head rs = Some m \<Longrightarrow> \<exists>v. (v, Inr (Some m)) \<in> set rs"
    using mem [of m] Max_in [of "set ?hs"] by (auto simp: max_head_def Let_def split: if_splits)
qed

lemma heads_exact: "lags_exact (heads rs)"
proof (cases "max_head rs")
  case None
  then have "ph_head h = None \<and> ph_lag h = None" if "h \<in> set (heads rs)" for h
    using that max_head_spec(1) [of rs] None
    by (auto simp: heads_def head_row_def split: sum.splits) (metis not_None_eq)
  then show ?thesis by (auto simp: lags_exact_def)
next
  case (Some m)
  then obtain w where "(w, Inr (Some m)) \<in> set rs" using max_head_spec(3) by blast
  then have top: "\<lparr>ph_vendor = w, ph_head = Some m, ph_lag = Some 0, ph_error = None\<rparr> \<in> set (heads rs)"
    by (force simp: heads_def head_row_def Some)
  have "case ph_head h of None \<Rightarrow> ph_lag h = None | Some x \<Rightarrow> \<exists>l. ph_lag h = Some l \<and> unat x + unat l = unat m"
    if "h \<in> set (heads rs)" for h
    using that max_head_spec(2) [OF Some]
    by (auto simp: heads_def head_row_def Some unat_sub word_le_nat_alt split: sum.splits option.splits)
  with top show ?thesis by (force simp: lags_exact_def)
qed

text \<open>Every head list of the operation comes from \<open>heads\<close>, or has no heads when all vendors failed.\<close>

lemma provider_heads_exact: "lags_exact (fst (provider_heads cx cap chain w method rt c))"
proof -
  have "lags_exact (map (\<lambda>a. \<lparr>ph_vendor = att_vendor a, ph_head = None, ph_lag = None, ph_error = f a\<rparr>) as)" for f as
    by (auto simp: lags_exact_def)
  then show ?thesis by (auto simp: provider_heads_def heads_exact split_beta split: sum.splits)
qed

definition shown_block :: "('s, 'p, 'q) op_ctx \<Rightarrow> op_lib \<Rightarrow> (nat \<Rightarrow> ('s, 'p) vendor_world) \<Rightarrow> chain_entry \<Rightarrow> block_ref \<Rightarrow> bool" where
  "shown_block cx b ws ce blk \<longleftrightarrow> (\<exists>j vendor p i n method params v.
     serves (cx_router cx) ((new_req (rpc_capability (ce_family ce)))\<lparr>rq_chain := Some (ce_id ce)\<rparr>) vendor p
     \<and> w_node (ws j) p i n method params = Inr v
     \<and> Some blk = (case ce_family ce of Evm \<Rightarrow> evm_block_of b (Inr v) | Solana \<Rightarrow> sol_slot_of (Inr v)))"

lemma block_of_answer: "evm_block_of b r = Some blk \<Longrightarrow> \<exists>v. r = Inr v" "sol_slot_of r = Some blk \<Longrightarrow> \<exists>v. r = Inr v"
  by (cases r; simp add: evm_block_of_def sol_slot_of_def)+

lemma read_level_shown:
  assumes "fst (read_level b cx ce (ws j) n rt c) = Some blk"
  shows "shown_block cx b ws ce blk"
proof (cases "ce_family ce")
  case Evm
  then obtain r rt1 c1 where r: "rpc_request (cx_router cx) CapEvmRpc (ce_id ce) (ws j) ''eth_getBlockByNumber''
      (JArr [JStr n, JBool False]) rt c = (r, rt1, c1)" by (metis prod_cases3)
  with assms Evm have blk: "evm_block_of b r = Some blk" by (simp add: read_level_def evm_block_def)
  with block_of_answer(1) obtain v where "r = Inr v" by blast
  with rpc_served [OF r [unfolded this]] blk Evm show ?thesis
    unfolding shown_block_def rpc_capability_def by fastforce
next
  case Solana
  then obtain r rt1 c1 where r: "rpc_request (cx_router cx) CapSolanaRpc (ce_id ce) (ws j) ''getSlot''
      (JArr [JObj [(''commitment'', JStr n)]]) rt c = (r, rt1, c1)" by (metis prod_cases3)
  with assms Solana have blk: "sol_slot_of r = Some blk" by (simp add: read_level_def sol_slot_def)
  with block_of_answer(2) obtain v where "r = Inr v" by blast
  with rpc_served [OF r [unfolded this]] blk Solana show ?thesis
    unfolding shown_block_def rpc_capability_def by fastforce
qed

lemma family_rpc_Inr: "family_rpc ce = Inr cap \<Longrightarrow> cap = rpc_capability (ce_family ce)"
  by (auto simp: family_rpc_def evm_rpc_def solana_rpc_def rpc_capability_def
      split: chain_family.splits if_splits option.splits)

text \<open>
  A finality report is what usable vendors' nodes showed: three levels, each with a block some
  usable vendor of the chain reported, the first being the head, none behind it by a negative distance;
  and with per-vendor heads, every head and its lag add up to one and the same number, the highest head,
  which some vendor has.
\<close>

theorem chain_finality_report:
  assumes "chain_finality b ws cx chain per_provider rt c = (Inr out, rt', c')"
  shows "\<exists>ce. ctx_chain cx chain = Inr ce \<and> map fl_level (fo_levels (op_data out)) = level_names (ce_family ce)
    \<and> (\<exists>head rest. fo_levels (op_data out) = \<lparr>fl_level = level_names (ce_family ce) ! 0, fl_block = Some head, fl_behind = Some 0\<rparr> # rest
        \<and> (\<forall>l \<in> set (fo_levels (op_data out)). \<forall>blk. fl_block l = Some blk
             \<longrightarrow> shown_block cx b ws ce blk \<and> fl_behind l = Some (number head - min (number blk) (number head))))
    \<and> lags_exact (fo_heads (op_data out))"
proof -
  have run: "fst (chain_finality b ws cx chain per_provider rt c) = Inr out" using assms by simp
  then obtain ce where ce: "ctx_chain cx chain = Inr ce" by (auto simp: chain_finality_def ok_then_result split: sum.splits)
  with run obtain cap where cap: "family_rpc ce = Inr cap" by (auto simp: chain_finality_def ok_then_result split: sum.splits)
  define act where "act j = read_level b cx ce (ws j) (level_names (ce_family ce) ! j)" for j
  obtain b0 rt0 c0 where b0: "act 0 rt c = (b0, rt0, c0)" by (metis prod_cases3)
  obtain b1 rt1 c1 where b1: "act 1 rt0 c0 = (b1, rt1, c1)" by (metis prod_cases3)
  obtain b2 rt2 c2 where b2: "act 2 rt1 c1 = (b2, rt2, c2)" by (metis prod_cases3)
  define hs where "hs = fst ((if per_provider then provider_heads cx cap (ce_id ce) (ws 3) (head_method (ce_family ce)) else done_with []) rt2 c2)"
  from run obtain now where out: "finality_levels ce (level_names (ce_family ce)) [b0, b1, b2] hs now = Inr out"
    using b0 b1 b2 unfolding act_def
    by (auto simp: chain_finality_def ce cap then_do_def hs_def split_beta)
  then obtain head where head: "b0 = Some head" by (auto simp: finality_levels_def split: option.splits)
  have shown: "shown_block cx b ws ce blk" if "Some blk \<in> {b0, b1, b2}" for blk
    using that b0 b1 b2 read_level_shown unfolding act_def by (metis fst_conv insertE singletonD)
  have lags: "lags_exact hs" by (simp add: hs_def provider_heads_exact) (simp add: lags_exact_def)
  have sub: "sat_sub h x = h - min x h" for h x :: u64 by (auto simp: sat_sub_def min_def)
  have names: "level_names (ce_family ce) = [level_names (ce_family ce) ! 0, level_names (ce_family ce) ! 1, level_names (ce_family ce) ! 2]"
    by (cases "ce_family ce") (simp_all add: level_names_def)
  have levels: "fo_levels (op_data out) = [level_row (number head) (level_names (ce_family ce) ! 0, b0),
      level_row (number head) (level_names (ce_family ce) ! 1, b1), level_row (number head) (level_names (ce_family ce) ! 2, b2)]"
    and heads: "fo_heads (op_data out) = hs"
    using out by (subst (asm) names, auto simp: finality_levels_def head)+
  have "map fl_level (fo_levels (op_data out)) = level_names (ce_family ce)"
    unfolding levels by (subst (4) names) (simp add: level_row_def)
  with ce lags shown show ?thesis by (intro exI [of _ ce]) (auto simp: levels heads level_row_def head sub)
qed

theorem chain_finality_report_witness:
  "\<exists>out rt' c'. chain_finality pay_lib (\<lambda>_. pay_world) pay_ctx ''base'' False sample_state sample_clock = (Inr out, rt', c')
     \<and> map fl_level (fo_levels (op_data out)) = [''latest'', ''safe'', ''finalized''] \<and> fo_heads (op_data out) = []"
proof -
  let ?req = "(new_req CapEvmRpc)\<lparr>rq_chain := Some (ce_id sample_chain)\<rparr>"
  let ?f = "\<lambda>p i n. w_node pay_world p i n ''eth_getBlockByNumber'' (JArr [JStr ''latest'', JBool False])"
  have fam: "ce_family sample_chain = Evm" "\<exists>n. evm_chain_id (ce_id sample_chain) = Some n"
    by (simp_all add: sample_chain_def evm_chain_id_def parse_uint_def strip_prefix_def starts_with_def all_digits_def
        is_digit_def read_dec_def digit_val_def)
  have node: "?f 0 0 0 = Inr (JObj [(''number'', JStr ''0x9'')])" by (simp add: pay_world_def ev_node_def)
  obtain y rt1 c1 where run: "failover pay_env (trait_of CapEvmRpc) ?req (asks pay_world ?f) sample_state sample_clock = (Inr y, rt1, c1)"
    "rd_value y = JObj [(''number'', JStr ''0x9'')]"
    using pay_failover [of ?req CapEvmRpc ?f, OF _ _ node] by (auto simp: new_req_def)
  have "hex_quantity (JStr ''0x9'') = Some 9" using ev_numbers(2) by (simp add: hex_quantity_def hex_u64_def ok_or_def split: option.splits)
  then have first: "read_level pay_lib pay_ctx sample_chain pay_world ''latest'' sample_state sample_clock
      = (Some \<lparr>number = 9, block_hash = None, timestamp = None\<rparr>, rt1, c1)"
    using run by (simp add: read_level_def fam evm_block_def map_act_def then_do_def rpc_request_def evm_block_of_def hex_quantity_def)
  have "family_rpc sample_chain = Inr CapEvmRpc" using fam by (auto simp: family_rpc_def evm_rpc_def)
  then have "\<exists>out rt' c'. chain_finality pay_lib (\<lambda>_. pay_world) pay_ctx ''base'' False sample_state sample_clock = (Inr out, rt', c')
      \<and> fo_heads (op_data out) = []"
    using first by (simp add: chain_finality_def pay_chain fam level_names_def then_do_def finality_levels_def split_beta)
  then obtain out rt' c' where out: "chain_finality pay_lib (\<lambda>_. pay_world) pay_ctx ''base'' False sample_state sample_clock = (Inr out, rt', c')"
    "fo_heads (op_data out) = []" by blast
  from chain_finality_report [OF this(1)] have "map fl_level (fo_levels (op_data out)) = level_names Evm" by (auto simp: pay_chain fam)
  with out show ?thesis by (auto simp: level_names_def)
qed

end
