(* ===== verification/Spl.thy ===== *)
theory Spl
  imports SolanaTx
begin

text \<open>
  Program addresses and token accounts (\<open>crates/protocols/src/solana/spl.rs\<close>). The hash function and
  the test for a curve point are the parameter \<open>hashing\<close>.
\<close>

section \<open>Program-derived addresses\<close>

record hashing =
  sha256 :: "u8 list \<Rightarrow> u8 list"
  on_curve :: "u8 list \<Rightarrow> bool"

definition token_program :: string where
  "token_program = ''TokenkegQfeZyiNwAJbNbGKPFXCWuBvf9Ss623VQ5DA''"

definition associated_token_program :: string where
  "associated_token_program = ''ATokenGPvbdGVxr1b2hvZbsiqW5xWH25efTNsLJA8knL''"

definition pda_marker :: "u8 list" where
  "pda_marker = map (of_nat \<circ> of_char) ''ProgramDerivedAddress''"

definition pda_hash :: "hashing \<Rightarrow> u8 list list \<Rightarrow> pubkey \<Rightarrow> u8 \<Rightarrow> u8 list" where
  "pda_hash hs seeds program bump = sha256 hs (concat seeds @ [bump] @ key_bytes program @ pda_marker)"

text \<open>The bumps are tried from 255 down; \<open>n\<close> of them are left.\<close>

fun find_from :: "hashing \<Rightarrow> u8 list list \<Rightarrow> pubkey \<Rightarrow> nat \<Rightarrow> domain_error + pubkey \<times> u8" where
  "find_from hs seeds program 0 = Inl (internal ''no viable program-derived address'')"
| "find_from hs seeds program (Suc n) =
     (let bytes = pda_hash hs seeds program (of_nat n) in
      if \<not> on_curve hs bytes then Inr (SolanaPubkey bytes, of_nat n) else find_from hs seeds program n)"

definition find_program_address :: "hashing \<Rightarrow> u8 list list \<Rightarrow> pubkey \<Rightarrow> domain_error + pubkey \<times> u8" where
  "find_program_address hs seeds program = find_from hs seeds program 256"

definition associated_token_address :: "Identifiers.codec \<Rightarrow> hashing \<Rightarrow> pubkey \<Rightarrow> pubkey \<Rightarrow> pubkey \<Rightarrow> domain_error + pubkey" where
  "associated_token_address k hs owner mint prog =
     (let program = show_pubkey k prog in
      if program \<notin> set token_programs then Inl (invalid (program @ '' is not a token program''))
      else and_then (parse_pubkey k associated_token_program) (\<lambda>ata.
        map_sum id fst (find_program_address hs [key_bytes owner, key_bytes prog, key_bytes mint] ata)))"

section \<open>Token accounts\<close>

record token_account =
  ac_address :: pubkey
  ac_mint :: pubkey
  ac_owner :: pubkey
  ac_program :: pubkey
  ac_amount :: u64
  ac_decimals :: u8

definition hard_key :: "Identifiers.codec \<Rightarrow> string \<Rightarrow> provider_error + pubkey" where
  "hard_key k s = map_err (\<lambda>e. Fatal (''bad program id '' @ s @ '': '' @ show_error e)) (parse_pubkey k s)"

definition bad_account :: "string \<Rightarrow> provider_error" where
  "bad_account what = Transient (''malformed token account: '' @ what)"

definition json_key :: "Identifiers.codec \<Rightarrow> json \<Rightarrow> string \<Rightarrow> provider_error + pubkey" where
  "json_key k v what = ok_or (bad_account what) (Option.bind (as_str v) (\<lambda>s. to_option (parse_pubkey k s)))"

definition parse_token_account :: "Identifiers.codec \<Rightarrow> json \<Rightarrow> string \<Rightarrow> provider_error + token_account" where
  "parse_token_account k item program =
     (let info = jget (jget (jget (jget item ''account'') ''data'') ''parsed'') ''info'';
          ui = jget info ''tokenAmount''
      in and_then (json_key k (jget item ''pubkey'') ''pubkey'') (\<lambda>addr.
         and_then (json_key k (jget info ''mint'') ''mint'') (\<lambda>mint.
         and_then (json_key k (jget info ''owner'') ''owner'') (\<lambda>owner.
         and_then (hard_key k program) (\<lambda>prog.
         and_then (ok_or (bad_account ''amount'')
           (Option.bind (as_str (jget ui ''amount'')) (\<lambda>s. map_option of_nat (parse_uint 64 s)))) (\<lambda>amount.
         and_then (ok_or (bad_account ''decimals'') (Option.bind (as_u64 (jget ui ''decimals'')) narrow_u8)) (\<lambda>dec.
           Inr \<lparr>ac_address = addr, ac_mint = mint, ac_owner = owner, ac_program = prog, ac_amount = amount,
             ac_decimals = dec\<rparr>)))))))"

definition accounts_of_program :: "Identifiers.codec \<Rightarrow> node \<Rightarrow> pubkey \<Rightarrow> string \<Rightarrow> string \<Rightarrow> provider_error + token_account list" where
  "accounts_of_program k rpc owner commitment program =
     and_then (rpc ''getTokenAccountsByOwner'' (JArr [JStr (show_pubkey k owner), JObj [(''programId'', JStr program)],
         JObj [(''encoding'', JStr ''jsonParsed''), (''commitment'', JStr commitment)]])) (\<lambda>v.
       collect_results (map (\<lambda>item. parse_token_account k item program) (elements (jget v ''value''))))"

definition owner_accounts :: "Identifiers.codec \<Rightarrow> node \<Rightarrow> pubkey \<Rightarrow> string \<Rightarrow> provider_error + token_account list" where
  "owner_accounts k rpc owner commitment =
     map_sum id concat (collect_results (map (accounts_of_program k rpc owner commitment) token_programs))"

section \<open>Mints\<close>

record mint_facts =
  mi_program :: pubkey
  mi_decimals :: u8
  mi_name :: "string option"
  mi_symbol :: "string option"
  mi_uri :: "string option"
  mi_extensions :: "string list"

definition mint_info :: "Identifiers.codec \<Rightarrow> node \<Rightarrow> pubkey \<Rightarrow> provider_error + mint_facts" where
  "mint_info k rpc mint =
     and_then (rpc ''getAccountInfo'' (JArr [JStr (show_pubkey k mint), JObj [(''encoding'', JStr ''jsonParsed'')]])) (\<lambda>v.
       let acct = jget v ''value'' in
       if is_null acct then Inl NotFound
       else
         let program = unwrap_or [] (as_str (jget acct ''owner''));
             parsed = jget (jget acct ''data'') ''parsed''
         in if program \<notin> set token_programs \<or> jget parsed ''type'' \<noteq> JStr ''mint''
            then Inl (Invalid (show_pubkey k mint @ '' is not a token mint''))
            else
              let info = jget parsed ''info'' in
              and_then (ok_or (Transient ''mint without decimals'')
                  (Option.bind (as_u64 (jget info ''decimals'')) narrow_u8)) (\<lambda>dec.
                let exts = elements (jget info ''extensions'');
                    meta = map_option (\<lambda>e. jget e ''state'') (find (\<lambda>e. jget e ''extension'' = JStr ''tokenMetadata'') exts);
                    field = (\<lambda>f. Option.bind meta (\<lambda>m. Option.bind (as_str (jget m f)) (\<lambda>s. if s \<noteq> [] then Some s else None)))
                in and_then (hard_key k program) (\<lambda>p.
                   Inr \<lparr>mi_program = p, mi_decimals = dec, mi_name = field ''name'', mi_symbol = field ''symbol'',
                     mi_uri = field ''uri'', mi_extensions = List.map_filter (\<lambda>e. as_str (jget e ''extension'')) exts\<rparr>)))"

section \<open>The address found\<close>

lemma u8_below: "unat (c :: u8) < 256"
  using unsigned_less [of c, where ?'a = nat] by simp

text \<open>The highest bump whose hash is off the curve.\<close>

lemma find_from_spec:
  assumes "n \<le> 256"
  shows "find_from hs seeds program n = Inr (a, b) \<longleftrightarrow>
    unat b < n \<and> a = SolanaPubkey (pda_hash hs seeds program b) \<and> \<not> on_curve hs (key_bytes a)
      \<and> (\<forall>c. b < c \<and> unat c < n \<longrightarrow> on_curve hs (pda_hash hs seeds program c))"
  using assms
proof (induction n)
  case (Suc n)
  then have n: "unat (of_nat n :: u8) = n" by (simp add: unat_of_nat)
  have cases: "unat c < Suc n \<longleftrightarrow> unat c < n \<or> c = of_nat n" for c :: u8
    using n by (auto simp: less_Suc_eq)
  show ?case
  proof (cases "on_curve hs (pda_hash hs seeds program (of_nat n))")
    case True
    have "b < of_nat n" if "unat b < n" for b :: u8 using that n by (simp add: word_less_nat_alt)
    with True Suc cases show ?thesis by (auto simp: Let_def)
  next
    case False
    have "\<not> (of_nat n < c \<and> unat c < n)" for c :: u8 using n by (simp add: word_less_nat_alt)
    moreover have "unat b < n \<Longrightarrow> b < of_nat n" for b :: u8 using n by (simp add: word_less_nat_alt)
    ultimately show ?thesis using False cases n by (auto simp: Let_def)
  qed
qed simp

text \<open>
  A program-derived address is the hash for the highest bump that is off the curve, so nobody can
  hold its key, and the search fails only when all 256 hashes are points of the curve.
\<close>

theorem program_address_exact:
  "case find_program_address hs seeds program of
     Inr (a, b) \<Rightarrow> a = SolanaPubkey (pda_hash hs seeds program b) \<and> \<not> on_curve hs (key_bytes a)
       \<and> (\<forall>c > b. on_curve hs (pda_hash hs seeds program c))
   | Inl _ \<Rightarrow> (\<forall>c. on_curve hs (pda_hash hs seeds program c))"
proof (cases "find_program_address hs seeds program")
  case (Inl e)
  have "on_curve hs (pda_hash hs seeds program c)" if "find_from hs seeds program n = Inl e" "unat c < n" "n \<le> 256" for c n
    using that
  proof (induction n)
    case (Suc n)
    show ?case
    proof (cases "unat c = n")
      case True
      then have "c = of_nat n" by auto
      with Suc.prems show ?thesis by (auto simp: Let_def split: if_splits)
    qed (use Suc in \<open>auto simp: Let_def split: if_splits\<close>)
  qed simp
  from this [OF Inl [unfolded find_program_address_def]] Inl show ?thesis
    using u8_below by simp
next
  case (Inr p)
  then obtain a b where p: "p = (a, b)" by (cases p)
  from Inr [unfolded find_program_address_def p] find_from_spec [of 256 hs seeds program a b]
  show ?thesis using Inr p u8_below by auto
qed

end
