(* ===== verification/WalletTools.thy ===== *)
theory WalletTools
  imports ChainTools Spl
begin

text \<open>
  The wallet tools (\<open>crates/app/src/ops/wallet.rs\<close>): balances summed per owner, pages of transfers whose
  cursor names the vendor that issued it, and the check of an address before funds are sent to it. A
  vendor's balances are an oracle like its pages, \<open>ws\<close> the behaviour of the vendors for each request.
\<close>

section \<open>Balances\<close>

record stablecoin_info =
  si_symbol :: string
  si_issuer :: string

definition stablecoin_info_of :: "op_lib \<Rightarrow> asset_id \<Rightarrow> stablecoin_info option" where
  "stablecoin_info_of b a = map_option (\<lambda>e. \<lparr>si_symbol = symbol e, si_issuer = issuer_entity e\<rparr>) (stablecoin b a)"

record token_balance =
  tb_asset :: asset_id
  tb_amount :: amount
  tb_symbol :: "string option"
  tb_account :: "account_address option"

record balances_input =
  bl_address :: string
  bl_chains :: "string list option"
  bl_stablecoins_only :: bool
  bl_assets :: "asset_id list option"

record balance_row =
  bw_asset :: asset_id
  bw_amount :: amount
  bw_symbol :: "string option"
  bw_native :: bool
  bw_stablecoin :: "stablecoin_info option"
  bw_accounts :: "account_address list"

record chain_balances =
  cb_chain :: chain_id
  cb_provider :: "string option"
  cb_balances :: "balance_row list"
  cb_error :: "domain_error option"

record balances_out =
  bo_owner :: account_address
  bo_chains :: "chain_balances list"

definition balance_row_of :: "op_lib \<Rightarrow> chain_entry \<Rightarrow> token_balance \<Rightarrow> balance_row" where
  "balance_row_of b ce t =
     (let sc = stablecoin_info_of b (tb_asset t); native = is_native (tb_asset t) in
      \<lparr>bw_asset = tb_asset t, bw_amount = tb_amount t,
       bw_symbol = or_opt (tb_symbol t) (or_opt (map_option si_symbol sc) (if native then Some (nat_symbol (ce_native ce)) else None)),
       bw_native = native, bw_stablecoin = sc, bw_accounts = list_of_opt (tb_account t)\<rparr>)"

fun add_balance :: "op_lib \<Rightarrow> chain_entry \<Rightarrow> token_balance \<Rightarrow> balance_row list \<Rightarrow> domain_error + balance_row list" where
  "add_balance b ce t [] = Inr [balance_row_of b ce t]"
| "add_balance b ce t (r # rs) = (if bw_asset r = tb_asset t
     then and_then (amount_add (bw_amount r) (tb_amount t)) (\<lambda>a.
       Inr (r\<lparr>bw_amount := a, bw_accounts := bw_accounts r @ list_of_opt (tb_account t)\<rparr> # rs))
     else and_then (add_balance b ce t rs) (\<lambda>rs. Inr (r # rs)))"

fun sum_balances :: "op_lib \<Rightarrow> chain_entry \<Rightarrow> token_balance list \<Rightarrow> balance_row list \<Rightarrow> domain_error + balance_row list" where
  "sum_balances b ce [] rs = Inr rs"
| "sum_balances b ce (t # ts) rs = and_then (add_balance b ce t rs) (sum_balances b ce ts)"

definition sum_by_asset :: "op_lib \<Rightarrow> chain_entry \<Rightarrow> token_balance list \<Rightarrow> domain_error + balance_row list" where
  "sum_by_asset b ce ts = and_then (sum_balances b ce ts []) (\<lambda>rs. Inr (sort_key (\<lambda>r. \<not> bw_native r) rs))"

text \<open>A vendor's balances: by port, position of the candidate and try, for an owner and a filter.\<close>

type_synonym 'p balances_port = "'p \<Rightarrow> nat \<Rightarrow> nat \<Rightarrow> account_address \<Rightarrow> asset_id list option \<Rightarrow> provider_error + token_balance list"

definition fetch_balances :: "op_lib \<Rightarrow> ('s, 'p) vendor_world \<Rightarrow> 'p balances_port \<Rightarrow> ('s, 'p, 'q) op_ctx \<Rightarrow> chain_entry
    \<Rightarrow> account_address \<Rightarrow> asset_id list option \<Rightarrow> ('s, domain_error + balance_row list \<times> provenance) act" where
  "fetch_balances b w bal cx ce owner flt =
     ok_then (routed (cx_router cx) ((ctx_route cx CapTokenBalances)\<lparr>rq_chain := Some (ce_id ce)\<rparr>) w
       (\<lambda>p i n. bal p i n owner flt)) (\<lambda>y. done_with
     (and_then (sum_by_asset b ce (rd_value y)) (\<lambda>rs.
        Inr (case flt of None \<Rightarrow> rs | Some f \<Rightarrow> filter (\<lambda>r. bw_asset r \<in> set f) rs, rd_provenance y))))"

definition chain_key :: "chain_id \<Rightarrow> nat list list" where
  "chain_key c = [map of_char (namespace c), map of_char (reference c)]"

definition balance_chains :: "('s, 'p, 'q) op_ctx \<Rightarrow> account_address \<Rightarrow> balances_input \<Rightarrow> domain_error + chain_entry list" where
  "balance_chains cx owner bi = (case (bl_chains bi, bl_assets bi) of
       (Some list, _) \<Rightarrow> collect_results (map (ctx_chain cx) list)
     | (None, Some as) \<Rightarrow> collect_results (map (\<lambda>c. ctx_chain cx (show_chain c))
         (remdups_adj (sort_key chain_key (map asset_chain as))))
     | (None, None) \<Rightarrow> Inr (filter (\<lambda>c. ce_family c = address_family owner)
         (enabled_chains (reg_chains (registry (cx_table cx))))))"

definition balance_filter :: "op_lib \<Rightarrow> chain_entry \<Rightarrow> balances_input \<Rightarrow> asset_id list option" where
  "balance_filter b ce bi = (if bl_stablecoins_only bi
     then Some (chain_native ce # map entry_asset (for_chain (stablecoins b) (ce_id ce)))
     else map_option (\<lambda>as. chain_native ce # filter (\<lambda>a. asset_chain a = ce_id ce) as) (bl_assets bi))"

definition wrong_chain :: "op_lib \<Rightarrow> account_address \<Rightarrow> chain_entry \<Rightarrow> domain_error" where
  "wrong_chain b owner ce = invalid (show_address (ol_codec b) owner @ '' is not a valid address on ''
     @ show_chain (ce_id ce) @ '' ('' @ debug_family (ce_family ce) @ '' chain)'')"

definition error_row :: "chain_entry \<Rightarrow> domain_error \<Rightarrow> chain_balances" where
  "error_row ce e = \<lparr>cb_chain = ce_id ce, cb_provider = None, cb_balances = [], cb_error = Some e\<rparr>"

definition answer_row :: "chain_entry \<times> (domain_error + balance_row list \<times> provenance) \<Rightarrow> chain_balances" where
  "answer_row = (\<lambda>(ce, r). case r of Inl e \<Rightarrow> error_row ce e
     | Inr (rs, m) \<Rightarrow> \<lparr>cb_chain = ce_id ce, cb_provider = pv_provider m, cb_balances = rs, cb_error = None\<rparr>)"

fun each_chain :: "(nat \<Rightarrow> chain_entry \<Rightarrow> ('s, 'a) act) \<Rightarrow> nat \<Rightarrow> chain_entry list \<Rightarrow> ('s, 'a list) act" where
  "each_chain f j [] = done_with []"
| "each_chain f j (ce # ces) = then_do (f j ce) (\<lambda>r. then_do (each_chain f (j + 1) ces) (\<lambda>rs. done_with (r # rs)))"

definition balances_answer :: "op_lib \<Rightarrow> account_address \<Rightarrow> chain_entry list \<Rightarrow> chain_entry list
    \<Rightarrow> (domain_error + balance_row list \<times> provenance) list \<Rightarrow> datetime \<Rightarrow> domain_error + balances_out op_output" where
  "balances_answer b owner mismatched ces rs now =
     (let out = map (\<lambda>c. error_row c (wrong_chain b owner c)) mismatched @ map answer_row (zip ces rs);
          metas = List.map_filter (\<lambda>r. map_option snd (to_option r)) rs
      in case (metas, find_map cb_error out) of
           ([], Some e) \<Rightarrow> Inl e
         | _ \<Rightarrow> Inr \<lparr>op_data = \<lparr>bo_owner = owner, bo_chains = out\<rparr>,
             op_meta = merge_meta (case ces of [c] \<Rightarrow> Some (ce_id c) | _ \<Rightarrow> None) metas now\<rparr>)"

definition get_balances :: "op_lib \<Rightarrow> (nat \<Rightarrow> ('s, 'p) vendor_world) \<Rightarrow> (nat \<Rightarrow> 'p balances_port) \<Rightarrow> ('s, 'p, 'q) op_ctx
    \<Rightarrow> balances_input \<Rightarrow> ('s, domain_error + balances_out op_output) act" where
  "get_balances b ws bal cx bi =
     ok_then (done_with (parse_any_address (ol_codec b) (bl_address bi))) (\<lambda>owner.
     ok_then (done_with (balance_chains cx owner bi)) (\<lambda>all.
       let ces = filter (\<lambda>c. ce_family c = address_family owner) all;
           mismatched = filter (\<lambda>c. ce_family c \<noteq> address_family owner) all
       in if ces = []
          then done_with (Inl (case mismatched of [] \<Rightarrow> invalid ''no chains to query'' | c # _ \<Rightarrow> wrong_chain b owner c))
          else then_do (each_chain (\<lambda>j ce. fetch_balances b (ws j) (bal j) cx ce owner (balance_filter b ce bi)) 0 ces)
            (\<lambda>rs rt c. (balances_answer b owner mismatched ces rs (utc c), rt, c))))"

section \<open>Transfers\<close>

record transfer_filter =
  tf_direction :: direction
  tf_assets :: "string list option"
  tf_stablecoins_only :: bool
  tf_from_block :: "u64 option"
  tf_to_block :: "u64 option"
  tf_cursor :: "string option"
  tf_limit :: "u32 option"

record transfers_page =
  tp_page :: page
  tp_meta :: provenance
  tp_cursor_reset :: bool

definition transfer_query_of :: "op_lib \<Rightarrow> chain_entry \<Rightarrow> account_address \<Rightarrow> transfer_filter \<Rightarrow> domain_error + transfer_query" where
  "transfer_query_of b ce owner f = and_then
     (if tf_stablecoins_only f then Inr (Some (map entry_asset (for_chain (stablecoins b) (ce_id ce))))
      else case tf_assets f of None \<Rightarrow> Inr None
        | Some as \<Rightarrow> and_then (collect_results (map (\<lambda>s. resolve_asset b ce (Some s)) as)) (\<lambda>as. Inr (Some as)))
     (\<lambda>as. Inr \<lparr>tq_owner = owner, tq_direction = tf_direction f, tq_assets = as, tq_from_block = tf_from_block f,
        tq_to_block = tf_to_block f, tq_cursor = tf_cursor f, tq_limit = page_limit (tf_limit f)\<rparr>)"

text \<open>A cursor is the vendor that issued it, a colon, and the vendor's own cursor.\<close>

definition split_cursor :: "string option \<Rightarrow> domain_error + string option \<times> string option" where
  "split_cursor c0 = (case c0 of None \<Rightarrow> Inr (None, None)
     | Some c \<Rightarrow> (case split_once (CHR '':'') c of
           None \<Rightarrow> Inl (invalid ''malformed cursor; pass next_cursor as-is'')
         | Some (v, rest) \<Rightarrow> Inr (Some v, Some rest)))"

definition pinned_query :: "'p option \<Rightarrow> string option \<Rightarrow> transfer_query \<Rightarrow> 'p \<Rightarrow> transfer_query" where
  "pinned_query pinned inner q p = (if pinned = Some p then q\<lparr>tq_cursor := inner\<rparr> else q\<lparr>tq_cursor := None\<rparr>)"

definition transfers_req :: "('s, 'p, 'q) op_ctx \<Rightarrow> chain_entry \<Rightarrow> route_req" where
  "transfers_req cx ce = (ctx_route cx CapTransferHistory)\<lparr>rq_chain := Some (ce_id ce)\<rparr>"

text \<open>The port of the vendor a cursor names, when it is a candidate. Looking changes breakers.\<close>

definition find_pinned :: "('s, 'p, 'q) op_ctx \<Rightarrow> chain_entry \<Rightarrow> string option \<Rightarrow> ('s, 'p option) act" where
  "find_pinned cx ce vendor rt c = (case vendor of None \<Rightarrow> (None, rt, c)
     | Some v \<Rightarrow> (let (cs, _, rt1) = consider_all (cx_router cx) TransferHistoryT (transfers_req cx ce) c
              (order_of (cx_router cx) (transfers_req cx ce)) rt
         in (map_of cs v, rt1, c)))"

definition page_out :: "string option \<Rightarrow> string option \<Rightarrow> page routed \<Rightarrow> transfers_page" where
  "page_out vendor inner y =
     (let winner = unwrap_or [] (pv_provider (rd_provenance y)) in
      \<lparr>tp_page = (rd_value y)\<lparr>next_cursor := map_option (\<lambda>c. winner @ '':'' @ c) (next_cursor (rd_value y))\<rparr>,
       tp_meta = rd_provenance y, tp_cursor_reset = (inner \<noteq> None \<and> vendor \<noteq> Some winner)\<rparr>)"

definition fetch_transfers :: "('s, 'p) vendor_world \<Rightarrow> ('s, 'p, 'q) op_ctx \<Rightarrow> chain_entry \<Rightarrow> transfer_query
    \<Rightarrow> ('s, domain_error + transfers_page) act" where
  "fetch_transfers w cx ce q =
     ok_then (done_with (split_cursor (tq_cursor q))) (\<lambda>(vendor, inner).
     then_do (find_pinned cx ce vendor) (\<lambda>pinned.
     map_act (\<lambda>r. and_then r (\<lambda>y. Inr (page_out vendor inner y)))
       (routed (cx_router cx) (transfers_req cx ce) w (\<lambda>p i n. w_pages w p i n (pinned_query pinned inner q p)))))"

record transfers_input =
  ti_address :: string
  ti_chain :: string
  ti_filter :: transfer_filter

definition get_transfers :: "op_lib \<Rightarrow> ('s, 'p) vendor_world \<Rightarrow> ('s, 'p, 'q) op_ctx \<Rightarrow> transfers_input
    \<Rightarrow> ('s, domain_error + transfers_page) act" where
  "get_transfers b w cx inp =
     ok_then (done_with (and_then (ctx_chain cx (ti_chain inp)) (\<lambda>ce.
       and_then (chain_address b ce (ti_address inp)) (\<lambda>owner.
       and_then (transfer_query_of b ce owner (ti_filter inp)) (\<lambda>q. Inr (ce, q))))))
     (\<lambda>(ce, q). fetch_transfers w cx ce q)"

section \<open>Reading accounts\<close>

text \<open>One request of an operation to the routed RPC of a chain, as a domain error or an answer.\<close>

definition ask_rpc :: "('s, 'p, 'q) op_ctx \<Rightarrow> chain_entry \<Rightarrow> ('s, 'p) vendor_world \<Rightarrow> string \<Rightarrow> json
    \<Rightarrow> ('s, domain_error + json) act" where
  "ask_rpc cx ce w method params = map_act (map_err domain_error_of)
     (rpc_request (cx_router cx) (rpc_capability (ce_family ce)) (ce_id ce) w method params)"

definition sol_account :: "('s, 'p, 'q) op_ctx \<Rightarrow> chain_entry \<Rightarrow> ('s, 'p) vendor_world \<Rightarrow> string
    \<Rightarrow> ('s, domain_error + json) act" where
  "sol_account cx ce w address = map_act (\<lambda>r. and_then r (\<lambda>v. Inr (jget v ''value'')))
     (ask_rpc cx ce w ''getAccountInfo'' (JArr [JStr address,
        JObj [(''encoding'', JStr ''jsonParsed''), (''commitment'', JStr ''confirmed'')]]))"

definition account_owner :: "json \<Rightarrow> string" where
  "account_owner acct = unwrap_or [] (as_str (jget acct ''owner''))"

definition parsed_data :: "json \<Rightarrow> json" where
  "parsed_data acct = jget (jget acct ''data'') ''parsed''"

definition mint_of_account :: "op_lib \<Rightarrow> chain_entry \<Rightarrow> pubkey \<Rightarrow> json \<Rightarrow> domain_error + pubkey \<times> u8" where
  "mint_of_account b ce mint m =
     (if account_owner m \<notin> set token_programs \<or> as_str (jget (parsed_data m) ''type'') \<noteq> Some ''mint''
      then Inl (invalid (show_pubkey (ol_codec b) mint @ '' is not a token mint on '' @ show_chain (ce_id ce)))
      else and_then (ok_or (internal ''mint has no decimals'')
          (Option.bind (as_u64 (jget (jget (parsed_data m) ''info'') ''decimals'')) narrow_u8)) (\<lambda>d.
        and_then (parse_pubkey (ol_codec b) (account_owner m)) (\<lambda>p. Inr (p, d))))"

definition sol_mint :: "op_lib \<Rightarrow> ('s, 'p, 'q) op_ctx \<Rightarrow> chain_entry \<Rightarrow> ('s, 'p) vendor_world \<Rightarrow> pubkey
    \<Rightarrow> ('s, domain_error + pubkey \<times> u8) act" where
  "sol_mint b cx ce w mint = map_act (\<lambda>r. and_then r (mint_of_account b ce mint))
     (sol_account cx ce w (show_pubkey (ol_codec b) mint))"

section \<open>Checking an address\<close>

datatype address_kind = KindInvalid | KindEoa | KindEip7702Delegated | KindSmartAccount | KindTokenContract
  | KindContract | KindWallet | KindUnfundedWallet | KindTokenAccount | KindMint | KindProgram | KindProgramOwned

record token_account_info =
  ta_mint :: string
  ta_owner :: string
  ta_program :: string
  ta_is_ata :: "bool option"
  ta_state :: "string option"

record token_check =
  tc_asset :: "asset_id option"
  tc_exists :: "bool option"
  tc_canonical :: "stablecoin_info option"
  tc_issuance :: string

record address_report =
  ar_valid :: bool
  ar_chain :: chain_id
  ar_family :: chain_family
  ar_normalized :: "string option"
  ar_checksum :: "string option"
  ar_kind :: address_kind
  ar_delegate :: "string option"
  ar_smart_account :: "string option"
  ar_bytecode_size :: "nat option"
  ar_token_account :: "token_account_info option"
  ar_token :: "token_check option"
  ar_code_elsewhere :: "chain_id list"
  ar_errors :: "string list"
  ar_warnings :: "string list"

definition new_report :: "chain_entry \<Rightarrow> address_report" where
  "new_report ce = \<lparr>ar_valid = False, ar_chain = ce_id ce, ar_family = ce_family ce, ar_normalized = None,
     ar_checksum = None, ar_kind = KindInvalid, ar_delegate = None, ar_smart_account = None, ar_bytecode_size = None,
     ar_token_account = None, ar_token = None, ar_code_elsewhere = [], ar_errors = [], ar_warnings = []\<rparr>"

definition warn :: "string \<Rightarrow> address_report \<Rightarrow> address_report" where
  "warn t r = r\<lparr>ar_warnings := ar_warnings r @ [t]\<rparr>"

definition address_of_bytes :: "u8 list \<Rightarrow> address" where
  "address_of_bytes bs = foldl (\<lambda>acc x. 256 * acc + ucast x) 0 bs"

definition classify_code :: "u8 list \<Rightarrow> address_kind \<times> address option" where
  "classify_code bytes =
     (if bytes = [] then (KindEoa, None)
      else if take 3 bytes = [0xef, 0x01, 0x00] \<and> length bytes = 23
      then (KindEip7702Delegated, Some (address_of_bytes (drop 3 bytes)))
      else (KindContract, None))"

record wallet_lib =
  wl_ops :: op_lib
  wl_hash :: hashing
  wl_symbol_call :: "u8 list"
  wl_abi_string :: "u8 list \<Rightarrow> string option"
  wl_utf8 :: "u8 list \<Rightarrow> string option"

definition json_bytes :: "op_lib \<Rightarrow> json \<Rightarrow> u8 list option" where
  "json_bytes b v = Option.bind (as_str v) (el_hex_decode (ol_evm b))"

definition evm_code :: "op_lib \<Rightarrow> ('s, 'p, 'q) op_ctx \<Rightarrow> chain_entry \<Rightarrow> ('s, 'p) vendor_world \<Rightarrow> address
    \<Rightarrow> ('s, u8 list option) act" where
  "evm_code b cx ce w a = map_act (\<lambda>r. Option.bind (to_option r) (json_bytes b))
     (rpc_request (cx_router cx) CapEvmRpc (ce_id ce) w ''eth_getCode'' (JArr [JStr (el_json_address (ol_evm b) a), JStr ''latest'']))"

definition call_word :: "op_lib \<Rightarrow> ('s, 'p, 'q) op_ctx \<Rightarrow> chain_entry \<Rightarrow> ('s, 'p) vendor_world \<Rightarrow> address \<Rightarrow> string
    \<Rightarrow> ('s, u8 list option) act" where
  "call_word b cx ce w a data = map_act (\<lambda>r. Option.bind (Option.bind (to_option r) (json_bytes b))
       (\<lambda>x. if length x = 32 then Some x else None))
     (rpc_request (cx_router cx) CapEvmRpc (ce_id ce) w ''eth_call'' (JArr [JObj [(''to'', JStr (el_json_address (ol_evm b) a)),
        (''data'', JStr data)], JStr ''latest'']))"

text \<open>\<open>entryPoint()\<close> answers a word that holds an address other than zero.\<close>

definition holds_address :: "u8 list option \<Rightarrow> bool" where
  "holds_address w = (case w of None \<Rightarrow> False
     | Some x \<Rightarrow> 12 \<le> length x \<and> list_all (\<lambda>y. y = 0) (take 12 x) \<and> list_ex (\<lambda>y. y \<noteq> 0) (drop 12 x))"

definition contract_kind :: "op_lib \<Rightarrow> (nat \<Rightarrow> ('s, 'p) vendor_world) \<Rightarrow> ('s, 'p, 'q) op_ctx \<Rightarrow> chain_entry \<Rightarrow> address
    \<Rightarrow> address_report \<Rightarrow> ('s, address_report) act" where
  "contract_kind b ws cx ce a r =
     (if stablecoin b (AssetId (ce_id ce) (Erc20 a)) \<noteq> None
      then done_with (warn ''this is a token contract, not a wallet: tokens sent here are usually lost''
        (r\<lparr>ar_kind := KindTokenContract\<rparr>))
      else then_do (call_word b cx ce (ws 1) a ''0xe75235b8'') (\<lambda>threshold.
        if threshold \<noteq> None then done_with (r\<lparr>ar_kind := KindSmartAccount, ar_smart_account := Some ''safe''\<rparr>)
        else then_do (call_word b cx ce (ws 2) a ''0xb0d691fe'') (\<lambda>entry.
          done_with (if holds_address entry then r\<lparr>ar_kind := KindSmartAccount, ar_smart_account := Some ''erc4337''\<rparr>
            else r\<lparr>ar_kind := KindContract\<rparr>))))"

fun other_codes :: "op_lib \<Rightarrow> (chain_id \<Rightarrow> ('s, 'p) vendor_world) \<Rightarrow> ('s, 'p, 'q) op_ctx \<Rightarrow> address \<Rightarrow> chain_entry list
    \<Rightarrow> ('s, chain_id list) act" where
  "other_codes b others cx a [] = done_with []"
| "other_codes b others cx a (ce # ces) =
     then_do (case evm_rpc ce of Inl _ \<Rightarrow> done_with None | Inr _ \<Rightarrow> evm_code b cx ce (others (ce_id ce)) a) (\<lambda>bytes.
     map_act (\<lambda>found. (if (case bytes of Some x \<Rightarrow> fst (classify_code x) = KindContract | None \<Rightarrow> False)
         then ce_id ce # found else found)) (other_codes b others cx a ces))"

text \<open>The token that will be sent: does it exist on the chain, and is it the issuer's own deployment?\<close>

definition looks_like_symbol :: "string \<Rightarrow> bool" where
  "looks_like_symbol t \<longleftrightarrow> CHR ''/'' \<notin> set t \<and> \<not> starts_with ''0x'' t \<and> length t \<le> 12
     \<and> list_all (\<lambda>c. is_alnum c \<or> c = CHR ''.'') t"

fun drop_dot :: "char \<Rightarrow> string \<Rightarrow> string" where
  "drop_dot c (x # y # r) = (if x = c \<and> y = CHR ''.'' then drop_dot c r else x # y # r)"
| "drop_dot c r = r"

definition base_symbol :: "string \<Rightarrow> string" where
  "base_symbol s = rev (drop_dot (CHR ''E'') (drop_dot (CHR ''e'') (rev s)))"

definition decode_str :: "wallet_lib \<Rightarrow> u8 list \<Rightarrow> string option" where
  "decode_str x out = (case wl_abi_string x out of
       Some s \<Rightarrow> if s = [] then None else Some s
     | None \<Rightarrow> if length out = 32
         then Option.bind (wl_utf8 x (takeWhile (\<lambda>c. c \<noteq> 0) out)) (\<lambda>s. if s = [] then None else Some s)
         else None)"

definition symbol_of_answer :: "wallet_lib \<Rightarrow> provider_error + json \<Rightarrow> provider_error + string option" where
  "symbol_of_answer x r = (case and_then r (hex_bytes (ol_evm (wl_ops x))) of
       Inr out \<Rightarrow> Inr (decode_str x out) | Inl (Invalid m) \<Rightarrow> Inr None | Inl e \<Rightarrow> Inl e)"

definition erc20_symbol :: "wallet_lib \<Rightarrow> ('s, 'p, 'q) op_ctx \<Rightarrow> chain_entry \<Rightarrow> ('s, 'p) vendor_world \<Rightarrow> address
    \<Rightarrow> ('s, provider_error + string option) act" where
  "erc20_symbol x cx ce w token = map_act (symbol_of_answer x)
     (rpc_request (cx_router cx) CapEvmRpc (ce_id ce) w ''eth_call'' (JArr [JObj
        [(''to'', JStr (el_json_address (ol_evm (wl_ops x)) token)),
         (''data'', JStr (''0x'' @ el_hex_encode (ol_evm (wl_ops x)) (wl_symbol_call x)))], JStr ''latest'']))"

definition is_mint_account :: "json \<Rightarrow> bool" where
  "is_mint_account a \<longleftrightarrow> account_owner a \<in> set token_programs \<and> as_str (jget (parsed_data a) ''type'') = Some ''mint''"

definition token_exists :: "op_lib \<Rightarrow> ('s, 'p) vendor_world \<Rightarrow> ('s, 'p, 'q) op_ctx \<Rightarrow> chain_entry \<Rightarrow> asset_id
    \<Rightarrow> ('s, domain_error + bool option) act" where
  "token_exists b w cx ce a = (case asset a of
       Native n \<Rightarrow> done_with (Inr (Some True))
     | Erc20 t \<Rightarrow> ok_then (done_with (evm_rpc ce)) (\<lambda>_.
         map_act (\<lambda>bytes. Inr (map_option (\<lambda>x. x \<noteq> []) bytes)) (evm_code b cx ce w t))
     | SplToken m \<Rightarrow> ok_then (done_with (solana_rpc ce)) (\<lambda>_.
         map_act (\<lambda>r. Inr (map_option is_mint_account (to_option r)))
           (sol_account cx ce w (show_pubkey (ol_codec b) m))))"

definition wrong_network :: "op_lib \<Rightarrow> ('s, 'p, 'q) op_ctx \<Rightarrow> chain_entry \<Rightarrow> string \<Rightarrow> string" where
  "wrong_network b cx ce token =
     (let elsewhere = map (\<lambda>c. show_chain (ce_id c)) (filter (\<lambda>c. by_symbol (stablecoins b) (ce_id c) token \<noteq> None)
            (enabled_chains (reg_chains (registry (cx_table cx)))))
      in if elsewhere = [] then token @ '' is not a canonical stablecoin in the registry''
         else token @ '' has no canonical deployment on '' @ show_chain (ce_id ce) @ '' (it does on ''
           @ join '', '' elsewhere @ ''): wrong network?'')"

text \<open>What the symbol a contract reports says about it: the symbol of a listed coin on another contract.\<close>

definition judged_issuance :: "op_lib \<Rightarrow> chain_entry \<Rightarrow> string option \<Rightarrow> address_report \<Rightarrow> string \<times> address_report" where
  "judged_issuance b ce sm r = (case Option.bind sm (\<lambda>s. by_symbol (stablecoins b) (ce_id ce) (base_symbol s)) of
       None \<Rightarrow> (''unknown'', r)
     | Some e \<Rightarrow> (''not_canonical'', warn (''token symbol '' @ unwrap_or [] sm @ '' but the canonical '' @ symbol e
         @ '' on '' @ show_chain (ce_id ce) @ '' is '' @ show_asset (ol_codec b) (entry_asset e)
         @ '': this is a bridged or spoofed token'') r))"

definition check_token :: "wallet_lib \<Rightarrow> (nat \<Rightarrow> ('s, 'p) vendor_world) \<Rightarrow> ('s, 'p, 'q) op_ctx \<Rightarrow> chain_entry \<Rightarrow> string
    \<Rightarrow> address_report \<Rightarrow> ('s, domain_error + token_check \<times> address_report) act" where
  "check_token x ws cx ce token r = (let b = wl_ops x in case resolve_asset b ce (Some token) of
       Inl e \<Rightarrow> done_with (if looks_like_symbol token
         then Inr (\<lparr>tc_asset = None, tc_exists = None, tc_canonical = None, tc_issuance = ''unknown''\<rparr>,
           warn (wrong_network b cx ce token) r)
         else Inl e)
     | Inr a \<Rightarrow>
         ok_then (token_exists b (ws 3) cx ce a) (\<lambda>exists.
           let r1 = (if exists = Some False then warn (''token '' @ show_asset (ol_codec b) a @ '' does not exist on ''
                  @ show_chain (ce_id ce)) r else r);
               canonical = stablecoin_info_of b a;
               answer = (\<lambda>(iss, r2). Inr (\<lparr>tc_asset = Some a, tc_exists = exists, tc_canonical = canonical, tc_issuance = iss\<rparr>, r2))
           in case (canonical, asset a) of
                (None, Erc20 t) \<Rightarrow> ok_then (done_with (evm_rpc ce)) (\<lambda>_.
                  map_act (\<lambda>s. answer (judged_issuance b ce (Option.bind (to_option s) (\<lambda>s. s)) r1))
                    (erc20_symbol x cx ce (ws 4) t))
              | (Some _, _) \<Rightarrow> done_with (answer (''canonical'', r1))
              | (None, Native _) \<Rightarrow> done_with (answer (''canonical'', r1))
              | (None, SplToken _) \<Rightarrow> done_with (answer (''unknown'', r1))))"

record validate_input =
  av_address :: string
  av_chain :: string
  av_token :: "string option"
  av_check_other_chains :: bool

definition mixed_case :: "string \<Rightarrow> bool" where
  "mixed_case s \<longleftrightarrow> (let h = strip_0x (trim s) in list_ex is_lower h \<and> list_ex is_upper h)"

definition with_token :: "wallet_lib \<Rightarrow> (nat \<Rightarrow> ('s, 'p) vendor_world) \<Rightarrow> ('s, 'p, 'q) op_ctx \<Rightarrow> chain_entry \<Rightarrow> string option
    \<Rightarrow> (token_check \<Rightarrow> address_report \<Rightarrow> address_report) \<Rightarrow> address_report \<Rightarrow> ('s, domain_error + address_report) act" where
  "with_token x ws cx ce token f r = (case token of None \<Rightarrow> done_with (Inr r)
     | Some t \<Rightarrow> ok_then (check_token x ws cx ce t r) (\<lambda>(check, r). done_with (Inr ((f check r)\<lparr>ar_token := Some check\<rparr>))))"

definition checksum_report :: "string \<Rightarrow> address \<Rightarrow> address_report \<Rightarrow> address_report" where
  "checksum_report text a r =
     (let r1 = (if mixed_case text then r\<lparr>ar_checksum := Some ''valid''\<rparr>
            else warn ''address has no EIP-55 checksum (all one case); typos cannot be detected''
              (r\<lparr>ar_checksum := Some ''not_checksummed''\<rparr>))
      in if a = 0 then warn ''zero address: funds sent here are burned'' r1 else r1)"

definition code_report :: "op_lib \<Rightarrow> u8 list \<Rightarrow> address_report \<Rightarrow> address_report" where
  "code_report b bytes r = r\<lparr>ar_bytecode_size := Some (length bytes), ar_kind := fst (classify_code bytes),
     ar_delegate := map_option (to_checksum (ol_codec b)) (snd (classify_code bytes))\<rparr>"

definition elsewhere_report :: "chain_entry \<Rightarrow> chain_id list \<Rightarrow> address_report \<Rightarrow> address_report" where
  "elsewhere_report ce found r =
     (let r1 = r\<lparr>ar_code_elsewhere := found\<rparr> in
      if found = [] then r1
      else warn (''no code on '' @ show_chain (ce_id ce) @ '' but this address is a contract on ''
        @ join '', '' (map show_chain found) @ '': if it is a Safe or smart account deployed only there, funds sent on ''
        @ show_chain (ce_id ce) @ '' may be unrecoverable'') r1)"

definition flag_delegated :: "address_report \<Rightarrow> address_report" where
  "flag_delegated r = (if ar_kind r = KindEip7702Delegated
     then warn ''EOA with EIP-7702 delegation: the key holder controls it, but the delegate contract runs on every call'' r
     else r)"

definition look_elsewhere :: "op_lib \<Rightarrow> (chain_id \<Rightarrow> ('s, 'p) vendor_world) \<Rightarrow> ('s, 'p, 'q) op_ctx \<Rightarrow> chain_entry \<Rightarrow> address
    \<Rightarrow> bool \<Rightarrow> address_report \<Rightarrow> ('s, address_report) act" where
  "look_elsewhere b others cx ce a check r = (if ar_kind r = KindEoa \<and> check
     then map_act (\<lambda>found. elsewhere_report ce found r) (other_codes b others cx a
       (filter (\<lambda>c. ce_family c = Evm \<and> ce_id c \<noteq> ce_id ce) (enabled_chains (reg_chains (registry (cx_table cx))))))
     else done_with r)"

text \<open>The rest of the check once the code is known.\<close>

definition describe_evm :: "wallet_lib \<Rightarrow> (nat \<Rightarrow> ('s, 'p) vendor_world) \<Rightarrow> (chain_id \<Rightarrow> ('s, 'p) vendor_world)
    \<Rightarrow> ('s, 'p, 'q) op_ctx \<Rightarrow> chain_entry \<Rightarrow> address \<Rightarrow> validate_input \<Rightarrow> address_report \<Rightarrow> ('s, domain_error + address_report) act" where
  "describe_evm x ws others cx ce a inp r =
     then_do (if ar_kind r = KindContract then contract_kind (wl_ops x) ws cx ce a r else done_with r) (\<lambda>r.
     then_do (look_elsewhere (wl_ops x) others cx ce a (av_check_other_chains inp) (flag_delegated r)) (\<lambda>r.
     with_token x ws cx ce (av_token inp) (\<lambda>_ r. r) r))"

definition validate_evm :: "wallet_lib \<Rightarrow> (nat \<Rightarrow> ('s, 'p) vendor_world) \<Rightarrow> (chain_id \<Rightarrow> ('s, 'p) vendor_world)
    \<Rightarrow> ('s, 'p, 'q) op_ctx \<Rightarrow> chain_entry \<Rightarrow> address \<Rightarrow> validate_input \<Rightarrow> address_report \<Rightarrow> ('s, domain_error + address_report) act" where
  "validate_evm x ws others cx ce a inp r = (let b = wl_ops x in
     ok_then (done_with (evm_rpc ce)) (\<lambda>_.
     ok_then (ask_rpc cx ce (ws 0) ''eth_getCode'' (JArr [JStr (el_json_address (ol_evm b) a), JStr ''latest''])) (\<lambda>v.
     ok_then (done_with (ok_or (internal ''eth_getCode returned non-hex'') (json_bytes b v))) (\<lambda>bytes.
       describe_evm x ws others cx ce a inp (code_report b bytes (checksum_report (av_address inp) a r))))))"

section \<open>Solana accounts\<close>

definition sol_kind :: "json \<Rightarrow> address_kind" where
  "sol_kind acct =
     (if is_null acct then KindUnfundedWallet
      else if as_bool (jget acct ''executable'') = Some True then KindProgram
      else if account_owner acct = system_program then KindWallet
      else if account_owner acct \<in> set token_programs \<and> jget (parsed_data acct) ''type'' = JStr ''account'' then KindTokenAccount
      else if account_owner acct \<in> set token_programs \<and> jget (parsed_data acct) ''type'' = JStr ''mint'' then KindMint
      else KindProgramOwned)"

definition is_ata_of :: "wallet_lib \<Rightarrow> string \<Rightarrow> string \<Rightarrow> string \<Rightarrow> string \<Rightarrow> bool option" where
  "is_ata_of x owner mint program s = (let k = ol_codec (wl_ops x) in
     case (parse_pubkey k owner, parse_pubkey k mint, parse_pubkey k program) of
       (Inr o1, Inr m, Inr p) \<Rightarrow> map_option (\<lambda>ata. show_pubkey k ata = s)
           (to_option (associated_token_address k (wl_hash x) o1 m p))
     | _ \<Rightarrow> None)"

definition token_account_report :: "wallet_lib \<Rightarrow> string \<Rightarrow> json \<Rightarrow> address_report \<Rightarrow> address_report" where
  "token_account_report x s acct r =
     (let info = jget (parsed_data acct) ''info'';
          mint = unwrap_or [] (as_str (jget info ''mint'')); holder = unwrap_or [] (as_str (jget info ''owner''));
          r1 = warn (''this is a token account, not a wallet: most payment flows need the owner wallet '' @ holder) r;
          r2 = (if jget info ''state'' = JStr ''frozen'' then warn ''token account is frozen'' r1 else r1)
      in r2\<lparr>ar_token_account := Some \<lparr>ta_mint = mint, ta_owner = holder, ta_program = account_owner acct,
           ta_is_ata = is_ata_of x holder mint (account_owner acct) s, ta_state = as_str (jget info ''state'')\<rparr>\<rparr>)"

definition sol_kind_report :: "wallet_lib \<Rightarrow> string \<Rightarrow> json \<Rightarrow> address_report \<Rightarrow> address_report" where
  "sol_kind_report x s acct r0 = (let r = r0\<lparr>ar_kind := sol_kind acct\<rparr> in
     case sol_kind acct of
       KindUnfundedWallet \<Rightarrow> warn ''no account exists yet: it can receive SOL; a token transfer must create the recipient's associated token account'' r
     | KindTokenAccount \<Rightarrow> token_account_report x s acct r
     | KindMint \<Rightarrow> warn ''this is a token mint, not a wallet: funds sent here are lost'' r
     | KindProgram \<Rightarrow> warn ''account is owned by a program, not a wallet key: only send if the program expects it'' r
     | KindProgramOwned \<Rightarrow> warn ''account is owned by a program, not a wallet key: only send if the program expects it'' r
     | _ \<Rightarrow> r)"

definition held_mint :: "op_lib \<Rightarrow> token_check \<Rightarrow> address_report \<Rightarrow> address_report" where
  "held_mint b check r = (case (ar_token_account r, tc_asset check) of
       (Some ta, Some a) \<Rightarrow> if strip_suffix (ta_mint ta) (show_asset (ol_codec b) a) = None
         then warn (''token account holds mint '' @ ta_mint ta @ '', not '' @ show_asset (ol_codec b) a) r else r
     | _ \<Rightarrow> r)"

definition validate_solana :: "wallet_lib \<Rightarrow> (nat \<Rightarrow> ('s, 'p) vendor_world) \<Rightarrow> ('s, 'p, 'q) op_ctx \<Rightarrow> chain_entry
    \<Rightarrow> account_address \<Rightarrow> validate_input \<Rightarrow> address_report \<Rightarrow> ('s, domain_error + address_report) act" where
  "validate_solana x ws cx ce addr inp r =
     ok_then (done_with (solana_rpc ce)) (\<lambda>_.
       let s = show_address (ol_codec (wl_ops x)) addr in
       ok_then (sol_account cx ce (ws 0) s) (\<lambda>acct.
         with_token x ws cx ce (av_token inp) (held_mint (wl_ops x)) (sol_kind_report x s acct r)))"

definition other_family :: "chain_family \<Rightarrow> chain_family" where
  "other_family f = (case f of Evm \<Rightarrow> Solana | Solana \<Rightarrow> Evm)"

definition invalid_report :: "op_lib \<Rightarrow> chain_entry \<Rightarrow> string \<Rightarrow> domain_error \<Rightarrow> address_report" where
  "invalid_report b ce text e = (new_report ce)\<lparr>ar_errors := message e
     # (if is_ok (parse_address (ol_codec b) (other_family (ce_family ce)) text)
        then [''this is a '' @ debug_family (other_family (ce_family ce)) @ '' address, but '' @ show_chain (ce_id ce)
          @ '' is a '' @ debug_family (ce_family ce) @ '' chain''] else [])\<rparr>"

definition address_validate :: "wallet_lib \<Rightarrow> (nat \<Rightarrow> ('s, 'p) vendor_world) \<Rightarrow> (chain_id \<Rightarrow> ('s, 'p) vendor_world)
    \<Rightarrow> ('s, 'p, 'q) op_ctx \<Rightarrow> validate_input \<Rightarrow> ('s, domain_error + address_report op_output) act" where
  "address_validate x ws others cx inp = (let b = wl_ops x in
     ok_then (done_with (ctx_chain cx (av_chain inp))) (\<lambda>ce.
     case chain_address b ce (av_address inp) of
       Inl e \<Rightarrow> (\<lambda>rt c. (Inr (local_output (utc c) (invalid_report b ce (av_address inp) e)), rt, c))
     | Inr addr \<Rightarrow>
         (let r = (new_report ce)\<lparr>ar_valid := True, ar_normalized := Some (show_address (ol_codec b) addr)\<rparr> in
          ok_then (case addr of EvmAddress a \<Rightarrow> validate_evm x ws others cx ce a inp r
              | SolanaAddress p \<Rightarrow> validate_solana x ws cx ce addr inp r)
            (\<lambda>r rt c. (Inr \<lparr>op_data = r, op_meta = rpc_meta (ce_id ce) (utc c)\<rparr>, rt, c)))))"

section \<open>Balances are exact\<close>

definition of_asset :: "asset_id \<Rightarrow> token_balance list \<Rightarrow> token_balance list" where
  "of_asset a ts = filter (\<lambda>t. tb_asset t = a) ts"

definition held :: "asset_id \<Rightarrow> token_balance list \<Rightarrow> nat" where
  "held a ts = (\<Sum>t\<leftarrow>of_asset a ts. unat (raw (tb_amount t)))"

definition row_sums :: "token_balance list \<Rightarrow> balance_row \<Rightarrow> bool" where
  "row_sums ts r \<longleftrightarrow> unat (raw (bw_amount r)) = held (bw_asset r) ts
     \<and> (\<forall>t \<in> set (of_asset (bw_asset r) ts). decimals (tb_amount t) = decimals (bw_amount r))
     \<and> bw_native r = is_native (bw_asset r)
     \<and> bw_accounts r = concat (map (\<lambda>t. list_of_opt (tb_account t)) (of_asset (bw_asset r) ts))"

definition rows_sum :: "token_balance list \<Rightarrow> balance_row list \<Rightarrow> bool" where
  "rows_sum ts rs \<longleftrightarrow> distinct (map bw_asset rs) \<and> set (map bw_asset rs) = tb_asset ` set ts \<and> (\<forall>r \<in> set rs. row_sums ts r)"

definition summable_balances :: "token_balance list \<Rightarrow> bool" where
  "summable_balances ts \<longleftrightarrow> (\<forall>a. held a ts < 2 ^ 256
     \<and> (\<forall>t \<in> set (of_asset a ts). \<forall>u \<in> set (of_asset a ts). decimals (tb_amount t) = decimals (tb_amount u)))"

lemma of_asset_append [simp]: "of_asset a (ts @ us) = of_asset a ts @ of_asset a us"
  by (simp add: of_asset_def)

lemma of_asset_single: "of_asset a [t] = (if tb_asset t = a then [t] else [])"
  by (simp add: of_asset_def)

lemma held_append [simp]: "held a (ts @ us) = held a ts + held a us"
  by (simp add: held_def)

lemma held_single: "held a [t] = (if tb_asset t = a then unat (raw (tb_amount t)) else 0)"
  by (simp add: held_def of_asset_def)

lemma of_asset_absent: "a \<notin> tb_asset ` set ts \<Longrightarrow> of_asset a ts = [] \<and> held a ts = 0"
  by (auto simp: of_asset_def held_def filter_empty_conv)

lemma summableD:
  assumes "summable_balances ts"
  shows "held a ts < 2 ^ 256"
    and "u \<in> set (of_asset a ts) \<Longrightarrow> v \<in> set (of_asset a ts) \<Longrightarrow> decimals (tb_amount u) = decimals (tb_amount v)"
  using assms unfolding summable_balances_def by blast+

lemma summable_snoc:
  "summable_balances (ts @ [t]) \<longleftrightarrow> summable_balances ts \<and> held (tb_asset t) ts + unat (raw (tb_amount t)) < 2 ^ 256
     \<and> (\<forall>u \<in> set (of_asset (tb_asset t) ts). decimals (tb_amount u) = decimals (tb_amount t))" (is "?l \<longleftrightarrow> ?r")
proof
  assume l: ?l
  have "held a ts < 2 ^ 256" for a using summableD(1) [OF l, of a] by (simp add: held_single split: if_splits)
  moreover have "decimals (tb_amount u) = decimals (tb_amount v)"
    if "u \<in> set (of_asset a ts)" "v \<in> set (of_asset a ts)" for a u v
    by (rule summableD(2) [OF l, of _ a]) (use that in simp_all)
  moreover have "decimals (tb_amount u) = decimals (tb_amount t)" if "u \<in> set (of_asset (tb_asset t) ts)" for u
    by (rule summableD(2) [OF l, of _ "tb_asset t"]) (use that in \<open>simp_all add: of_asset_single\<close>)
  moreover have "held (tb_asset t) ts + unat (raw (tb_amount t)) < 2 ^ 256"
    using summableD(1) [OF l, of "tb_asset t"] by (simp add: held_single)
  ultimately show ?r unfolding summable_balances_def by blast
next
  assume r: ?r
  then have s: "summable_balances ts" by simp
  have "held a (ts @ [t]) < 2 ^ 256" for a
    using r summableD(1) [OF s, of a] by (cases "a = tb_asset t") (simp_all add: held_single)
  moreover have "decimals (tb_amount u) = decimals (tb_amount v)"
    if "u \<in> set (of_asset a (ts @ [t]))" "v \<in> set (of_asset a (ts @ [t]))" for a u v
    using r that summableD(2) [OF s, of u a v] by (cases "a = tb_asset t") (auto simp: of_asset_single)
  ultimately show ?l unfolding summable_balances_def by blast
qed

lemma row_sums_other: "tb_asset t \<noteq> bw_asset r \<Longrightarrow> row_sums (ts @ [t]) r \<longleftrightarrow> row_sums ts r"
  by (simp add: row_sums_def held_single of_asset_single)

text \<open>One more balance: the row it belongs to, or a new one, and failure exactly when it does not fit there.\<close>

lemma add_balance_new:
  "tb_asset t \<notin> set (map bw_asset rs) \<Longrightarrow> add_balance b ce t rs = Inr (rs @ [balance_row_of b ce t])"
  by (induction rs) auto

lemma add_balance_there:
  assumes "r \<in> set rs" and "bw_asset r = tb_asset t" and "distinct (map bw_asset rs)"
  shows "add_balance b ce t rs = and_then (amount_add (bw_amount r) (tb_amount t)) (\<lambda>a. Inr (map (\<lambda>x.
      if bw_asset x = tb_asset t then x\<lparr>bw_amount := a, bw_accounts := bw_accounts x @ list_of_opt (tb_account t)\<rparr> else x) rs))"
  using assms
proof (induction rs)
  case (Cons x rs)
  show ?case
  proof (cases "bw_asset x = tb_asset t")
    case True
    with Cons.prems have "x = r" by (cases "r = x") (force+)
    moreover from True Cons.prems have "\<forall>y \<in> set rs. bw_asset y \<noteq> tb_asset t" by force
    then have "map (\<lambda>y. if bw_asset y = tb_asset t then f y else y) rs = rs" for f by (auto intro: map_idI)
    ultimately show ?thesis using True by simp
  next
    case False
    with Cons.prems Cons.IH show ?thesis by (auto simp: and_then_def split: sum.splits)
  qed
qed simp

lemma add_balance_sums:
  assumes "rows_sum ts rs" and "summable_balances ts"
  shows "case add_balance b ce t rs of Inl e \<Rightarrow> \<not> summable_balances (ts @ [t])
    | Inr rs' \<Rightarrow> summable_balances (ts @ [t]) \<and> rows_sum (ts @ [t]) rs'"
proof (cases "tb_asset t \<in> set (map bw_asset rs)")
  case False
  with assms(1) have none: "of_asset (tb_asset t) ts = []" "held (tb_asset t) ts = 0"
    using of_asset_absent [of "tb_asset t" ts] by (simp_all add: rows_sum_def)
  have "summable_balances (ts @ [t])"
    using assms(2) none unsigned_less [of "raw (tb_amount t)", where ?'a = nat] by (simp add: summable_snoc)
  moreover have "row_sums (ts @ [t]) (balance_row_of b ce t)"
    by (simp add: row_sums_def balance_row_of_def Let_def none held_single of_asset_single)
  moreover have "\<forall>r \<in> set rs. row_sums (ts @ [t]) r"
  proof
    fix r
    assume "r \<in> set rs"
    moreover from this False have "tb_asset t \<noteq> bw_asset r" by auto
    ultimately show "row_sums (ts @ [t]) r" using assms(1) by (simp add: row_sums_other rows_sum_def)
  qed
  ultimately show ?thesis using assms(1) False
    by (auto simp: add_balance_new rows_sum_def balance_row_of_def Let_def)
next
  case True
  then obtain r where r: "r \<in> set rs" "bw_asset r = tb_asset t" by auto
  from assms(1) r have row: "row_sums ts r" and dist: "distinct (map bw_asset rs)" by (auto simp: rows_sum_def)
  obtain u where u: "u \<in> set (of_asset (tb_asset t) ts)"
    using assms(1) True by (auto simp: rows_sum_def of_asset_def)
  note step = add_balance_there [OF r dist, of b ce]
  show ?thesis
  proof (cases "amount_add (bw_amount r) (tb_amount t)")
    case (Inl e)
    then have "decimals (bw_amount r) \<noteq> decimals (tb_amount t)
        \<or> 2 ^ 256 \<le> unat (raw (bw_amount r)) + unat (raw (tb_amount t))"
      by (auto simp: amount_add_def same_scale_def and_then_def ok_or_def checked_add_None unat_ops split: if_splits option.splits)
    then have "\<not> summable_balances (ts @ [t])"
      using row r u by (auto simp: row_sums_def summable_snoc)
    with Inl step show ?thesis by simp
  next
    case (Inr a)
    with amount_add_Inr have a: "decimals (bw_amount r) = decimals (tb_amount t)" "decimals a = decimals (bw_amount r)"
      "unat (raw a) = unat (raw (bw_amount r)) + unat (raw (tb_amount t))" by blast+
    let ?f = "\<lambda>x. if bw_asset x = tb_asset t then x\<lparr>bw_amount := a, bw_accounts := bw_accounts x @ list_of_opt (tb_account t)\<rparr> else x"
    have same: "x = r" if "x \<in> set rs" "bw_asset x = tb_asset t" for x
      using that r dist inj_onD [of bw_asset "set rs" x r] by (simp add: distinct_map)
    have "held (tb_asset t) (ts @ [t]) = unat (raw a)" using row r a(3) by (simp add: row_sums_def held_single)
    then have "summable_balances (ts @ [t])"
      using assms(2) row r(2) a unsigned_less [of "raw a", where ?'a = nat] by (simp add: row_sums_def summable_snoc)
    have "row_sums (ts @ [t]) (?f r)"
      using row r a by (auto simp: row_sums_def held_single of_asset_single)
    then have "row_sums (ts @ [t]) (?f x)" if "x \<in> set rs" for x
      using that same [OF that] assms(1) row_sums_other [of t x ts] by (cases "bw_asset x = tb_asset t") (auto simp: rows_sum_def)
    then have rows: "\<forall>y \<in> set (map ?f rs). row_sums (ts @ [t]) y" unfolding set_map by blast
    have keys: "map bw_asset (map ?f rs) = map bw_asset rs" by auto
    have "set (map bw_asset rs) = tb_asset ` set (ts @ [t])" using assms(1) True by (auto simp: rows_sum_def)
    then have "rows_sum (ts @ [t]) (map ?f rs)" unfolding rows_sum_def keys using dist rows by blast
    with Inr step \<open>summable_balances (ts @ [t])\<close> show ?thesis by simp
  qed
qed

lemma sum_balances_sums:
  assumes "rows_sum pre rs" and "summable_balances pre"
  shows "case sum_balances b ce ts rs of Inl e \<Rightarrow> \<not> summable_balances (pre @ ts)
    | Inr rs' \<Rightarrow> summable_balances (pre @ ts) \<and> rows_sum (pre @ ts) rs'"
  using assms
proof (induction ts arbitrary: pre rs)
  case (Cons t ts)
  have prefix: "summable_balances (xs @ ys) \<Longrightarrow> summable_balances xs" for xs ys
    by (induction ys rule: rev_induct) (simp_all add: summable_snoc flip: append_assoc)
  show ?case
  proof (cases "add_balance b ce t rs")
    case (Inl e)
    with add_balance_sums [OF Cons.prems, where b = b and ce = ce and t = t] have "\<not> summable_balances (pre @ [t])" by simp
    then have "\<not> summable_balances ((pre @ [t]) @ ts)" using prefix by blast
    with Inl show ?thesis by simp
  next
    case (Inr rs')
    with add_balance_sums [OF Cons.prems, where b = b and ce = ce and t = t] Cons.IH [of "pre @ [t]" rs']
    show ?thesis by (simp only: append_assoc append_Cons append_Nil sum_balances.simps and_then_simps sum.case)
  qed
qed simp

text \<open>
  C18: A wallet's balances are the sums of its accounts: one row for every asset reported, its amount the
  exact total of all balances of that asset, all of one scale, its accounts theirs, the native coin first.
  The listing fails exactly when some total does not fit 256 bits or mixes scales, so no balance is ever
  wrapped, dropped or counted twice.
\<close>

theorem owner_balances_exact:
  "case sum_by_asset b ce ts of
     Inl e \<Rightarrow> \<not> summable_balances ts
   | Inr rs \<Rightarrow> summable_balances ts \<and> rows_sum ts rs \<and> sorted (map (\<lambda>r. \<not> bw_native r) rs)"
proof -
  have "rows_sum [] []" "summable_balances []" by (simp_all add: rows_sum_def summable_balances_def of_asset_def held_def)
  from sum_balances_sums [OF this, where b = b and ce = ce and ts = ts] show ?thesis
    by (cases "sum_balances b ce ts []")
      (auto simp: sum_by_asset_def rows_sum_def distinct_map)
qed

section \<open>Pages resume where they ended\<close>

text \<open>
  C16: A cursor goes back only to the vendor that issued it. Whatever page of transfers is returned was
  given by one usable vendor, named in its provenance, to the caller's query with one cursor: the vendor's
  own one exactly when the vendor that answered is the one named in the caller's cursor, none otherwise
  (unless two vendors share a port), and then \<open>cursor_reset\<close> tells the caller that the listing starts
  again. The next cursor names the vendor that answered, and resumes at its own cursor.
\<close>

theorem pages_resume:
  assumes "fetch_transfers w cx ce q rt c = (Inr out, rt', c')"
  shows "\<exists>v p i n own pg. serves (cx_router cx) (transfers_req cx ce) v p \<and> pv_provider (tp_meta out) = Some v
    \<and> w_pages w p i n (q\<lparr>tq_cursor := own\<rparr>) = Inr pg \<and> items (tp_page out) = items pg
    \<and> (case tq_cursor q of None \<Rightarrow> own = None \<and> \<not> tp_cursor_reset out
       | Some cur \<Rightarrow> \<exists>issuer rest. split_once (CHR '':'') cur = Some (issuer, rest)
           \<and> (tp_cursor_reset out \<longleftrightarrow> issuer \<noteq> v) \<and> (issuer = v \<longrightarrow> own = Some rest)
           \<and> (own = None \<or> own = Some rest \<and> serves (cx_router cx) (transfers_req cx ce) issuer p))
    \<and> (CHR '':'' \<notin> set v \<longrightarrow> split_cursor (next_cursor (tp_page out)) = Inr (case next_cursor pg of
         None \<Rightarrow> (None, None) | Some r \<Rightarrow> (Some v, Some r)))"
proof -
  let ?rx = "cx_router cx" and ?req = "transfers_req cx ce"
  have cap: "rq_capability ?req = CapTransferHistory" by (simp add: transfers_req_def ctx_route_def new_req_def)
  from assms obtain vendor inner where cur: "split_cursor (tq_cursor q) = Inr (vendor, inner)"
    by (cases "split_cursor (tq_cursor q)") (auto simp: fetch_transfers_def)
  obtain pinned rt1 c1 where pinned: "find_pinned cx ce vendor rt c = (pinned, rt1, c1)" by (rule prod_cases3)
  obtain r rt2 c2 where routed: "routed ?rx ?req w (\<lambda>p i n. w_pages w p i n (pinned_query pinned inner q p)) rt1 c1 = (r, rt2, c2)"
    by (rule prod_cases3)
  from assms cur pinned routed obtain y where y: "r = Inr y" "out = page_out vendor inner y"
    by (cases r) (auto simp: fetch_transfers_def then_do_def map_act_def)
  obtain cs2 skipped2 rt3 where again: "consider_all ?rx (trait_of (rq_capability ?req)) ?req c1 (order_of ?rx ?req) rt1 = (cs2, skipped2, rt3)"
    by (rule prod_cases3)
  from routed_served [OF routed [unfolded y(1)] again] obtain v p i n where
    v: "(v, p) \<in> set cs2" "serves ?rx ?req v p" "pv_provider (rd_provenance y) = Some v"
    and pg: "w_pages w p i n (pinned_query pinned inner q p) = Inr (rd_value y)" by blast
  define own where "own = (if pinned = Some p then inner else None)"
  have asked: "w_pages w p i n (q\<lparr>tq_cursor := own\<rparr>) = Inr (rd_value y)"
    using pg by (simp add: pinned_query_def own_def split: if_splits)
  have resumes: "case tq_cursor q of None \<Rightarrow> own = None \<and> \<not> tp_cursor_reset out
       | Some cur \<Rightarrow> \<exists>issuer rest. split_once (CHR '':'') cur = Some (issuer, rest)
           \<and> (tp_cursor_reset out \<longleftrightarrow> issuer \<noteq> v) \<and> (issuer = v \<longrightarrow> own = Some rest)
           \<and> (own = None \<or> own = Some rest \<and> serves ?rx ?req issuer p)"
  proof (cases "tq_cursor q")
    case None
    with cur show ?thesis by (simp add: split_cursor_def own_def y(2) page_out_def Let_def)
  next
    case (Some cu)
    with cur obtain issuer rest where s: "split_once (CHR '':'') cu = Some (issuer, rest)" "vendor = Some issuer" "inner = Some rest"
      by (auto simp: split_cursor_def split: option.splits prod.splits)
    obtain cs skipped rt4 where first: "consider_all ?rx (trait_of (rq_capability ?req)) ?req c (order_of ?rx ?req) rt = (cs, skipped, rt4)"
      by (rule prod_cases3)
    with pinned s(2) cap have look: "pinned = map_of cs issuer" "rt4 = rt1" "c1 = c"
      by (simp_all add: find_pinned_def)
    have "issuer = v \<longrightarrow> own = Some rest"
      using second_look [OF first, of cs2 skipped2 rt3 v p] again v(1) look by (auto simp: own_def s(3))
    moreover have "own = None \<or> own = Some rest \<and> serves ?rx ?req issuer p"
      using candidates_serve [OF first, of issuer p] look(1) by (auto simp: own_def s(3) dest: map_of_SomeD)
    ultimately show ?thesis by (simp add: Some s(1) y(2) page_out_def Let_def v(3)) (auto simp: s(2,3))
  qed
  have out: "pv_provider (tp_meta out) = Some v" "items (tp_page out) = items (rd_value y)"
    "next_cursor (tp_page out) = map_option (\<lambda>r. v @ '':'' @ r) (next_cursor (rd_value y))"
    by (simp_all add: y(2) page_out_def Let_def v(3))
  have "CHR '':'' \<notin> set v \<longrightarrow> split_cursor (next_cursor (tp_page out)) = Inr (case next_cursor (rd_value y) of
      None \<Rightarrow> (None, None) | Some r \<Rightarrow> (Some v, Some r))"
    by (cases "next_cursor (rd_value y)") (simp_all add: out(3) split_cursor_def split_once_append)
  with v(2) out asked resumes show ?thesis by blast
qed

definition sample_query :: transfer_query where
  "sample_query = \<lparr>tq_owner = EvmAddress 2, tq_direction = DirBoth, tq_assets = None, tq_from_block = None,
     tq_to_block = None, tq_cursor = None, tq_limit = 50\<rparr>"

theorem pages_resume_witness:
  "\<exists>out rt' c'. fetch_transfers pay_world pay_ctx sample_chain sample_query sample_state sample_clock = (Inr out, rt', c')
     \<and> items (tp_page out) = [ev_transfer] \<and> \<not> tp_cursor_reset out"
proof -
  let ?req = "transfers_req pay_ctx sample_chain"
  let ?f = "\<lambda>p i n. w_pages pay_world p i n (pinned_query None None sample_query p)"
  have req: "rq_capability ?req = CapTransferHistory" by (simp add: transfers_req_def ctx_route_def new_req_def)
  have none: "tq_cursor sample_query = None" by (simp add: sample_query_def)
  have page: "?f 0 0 0 = Inr pay_page" by (simp add: pay_world_def)
  from pay_failover [of ?req CapTransferHistory ?f, OF req _ page] req obtain y rt' c' where
    "failover pay_env (trait_of (rq_capability ?req)) ?req (asks pay_world ?f) sample_state sample_clock = (Inr y, rt', c')"
    by auto
  then have "\<exists>out rt' c'. fetch_transfers pay_world pay_ctx sample_chain sample_query sample_state sample_clock = (Inr out, rt', c')"
    using none by (simp add: fetch_transfers_def split_cursor_def find_pinned_def then_do_def map_act_def routed_def)
  then obtain out rt' c' where run: "fetch_transfers pay_world pay_ctx sample_chain sample_query sample_state sample_clock = (Inr out, rt', c')"
    by blast
  from none pages_resume [OF run] have "\<exists>pg. Inr pay_page = Inr pg \<and> items (tp_page out) = items pg" "\<not> tp_cursor_reset out"
    by (auto simp: pay_world_def)
  with run show ?thesis by (auto simp: pay_page_def)
qed

section \<open>The kind of an address is what a node showed\<close>

lemma then_doD: "fst (then_do m f rt c) = x \<Longrightarrow> \<exists>rt1 c1. fst (f (fst (m rt c)) rt1 c1) = x"
  by auto

text \<open>A report but for its warnings: what later steps only add to.\<close>

definition core :: "address_report \<Rightarrow> address_report" where
  "core r = r\<lparr>ar_warnings := []\<rparr>"

lemma core_warn [simp]: "core (warn t r) = core r"
  by (simp add: core_def warn_def)

lemma core_judged [simp]: "core (snd (judged_issuance b ce sm r)) = core r"
  by (simp add: judged_issuance_def split: option.splits)

text \<open>The parts of a report that say what the address is.\<close>

definition verdict :: "address_report \<Rightarrow> bool \<times> address_kind \<times> string option \<times> string option \<times> nat option \<times> token_account_info option" where
  "verdict r = (ar_valid r, ar_kind r, ar_delegate r, ar_smart_account r, ar_bytecode_size r, ar_token_account r)"

lemma core_verdict: "core r = core r' \<Longrightarrow> verdict r = verdict r'"
  by (cases r; cases r') (simp add: core_def verdict_def)

lemma verdict_kept [simp]:
  "verdict (warn t r) = verdict r" "verdict (elsewhere_report ce found r) = verdict r" "verdict (flag_delegated r) = verdict r"
  "verdict (checksum_report s a r) = verdict r" "verdict (r\<lparr>ar_token := chk\<rparr>) = verdict r"
  by (simp_all add: verdict_def warn_def elsewhere_report_def flag_delegated_def checksum_report_def Let_def)

lemma look_elsewhere_verdict [simp]: "verdict (fst (look_elsewhere b others cx ce a check r rt c)) = verdict r"
  by (simp add: look_elsewhere_def)

lemma check_token_core:
  assumes "fst (check_token x ws cx ce t r rt c) = Inr (chk, r')"
  shows "core r' = core r"
  using assms
  by (auto simp: check_token_def Let_def ok_then_result split_beta
      split: sum.splits if_splits option.splits asset_ref.splits)

lemma with_token_verdict:
  assumes "fst (with_token x ws cx ce token f r rt c) = Inr r'" and "\<And>chk s. core (f chk s) = core s"
  shows "verdict r' = verdict r"
proof (cases token)
  case (Some t)
  with assms(1) obtain chk r1 where "fst (check_token x ws cx ce t r rt c) = Inr (chk, r1)" "r' = (f chk r1)\<lparr>ar_token := Some chk\<rparr>"
    by (auto simp: with_token_def ok_then_result split_beta split: sum.splits)
  with check_token_core assms(2) have "core (f chk r1) = core r" by metis
  from core_verdict [OF this] \<open>r' = _\<close> show ?thesis by simp
qed (use assms in \<open>simp add: with_token_def\<close>)

lemma held_mint_core [simp]: "core (held_mint b chk r) = core r"
  by (simp add: held_mint_def split: option.splits)

definition node_showed :: "('s, 'p, 'q) op_ctx \<Rightarrow> ('s, 'p) vendor_world \<Rightarrow> chain_entry \<Rightarrow> string \<Rightarrow> json \<Rightarrow> json \<Rightarrow> bool" where
  "node_showed cx w ce method params v \<longleftrightarrow> (\<exists>vendor p i n.
     serves (cx_router cx) ((new_req (rpc_capability (ce_family ce)))\<lparr>rq_chain := Some (ce_id ce)\<rparr>) vendor p
     \<and> w_node w p i n method params = Inr v)"

lemma ask_rpc_shown:
  assumes "fst (ask_rpc cx ce w method params rt c) = Inr v"
  shows "node_showed cx w ce method params v"
proof -
  obtain r rt1 c1 where r: "rpc_request (cx_router cx) (rpc_capability (ce_family ce)) (ce_id ce) w method params rt c = (r, rt1, c1)"
    by (rule prod_cases3)
  with assms have "r = Inr v" by (cases r) (simp_all add: ask_rpc_def)
  with rpc_served [OF r [unfolded this]] show ?thesis by (simp add: node_showed_def)
qed

text \<open>What is asked of a node about an address.\<close>

definition account_request :: "string \<Rightarrow> json" where
  "account_request s = JArr [JStr s, JObj [(''encoding'', JStr ''jsonParsed''), (''commitment'', JStr ''confirmed'')]]"

definition code_request :: "op_lib \<Rightarrow> address \<Rightarrow> json" where
  "code_request b a = JArr [JStr (el_json_address (ol_evm b) a), JStr ''latest'']"

definition call_request :: "op_lib \<Rightarrow> address \<Rightarrow> string \<Rightarrow> json" where
  "call_request b a data = JArr [JObj [(''to'', JStr (el_json_address (ol_evm b) a)), (''data'', JStr data)], JStr ''latest'']"

lemma sol_account_shown:
  assumes "fst (sol_account cx ce w s rt c) = Inr acct"
  shows "\<exists>v. node_showed cx w ce ''getAccountInfo'' (account_request s) v \<and> acct = jget v ''value''"
proof -
  from assms obtain v where "fst (ask_rpc cx ce w ''getAccountInfo'' (account_request s) rt c) = Inr v" "acct = jget v ''value''"
    by (auto simp: sol_account_def account_request_def and_then_Inr)
  with ask_rpc_shown show ?thesis by blast
qed

text \<open>
  Solana: the kinds an account can have, by the fields of the node's answer, and the wallet and mint of a
  token account.
\<close>

definition account_is :: "json \<Rightarrow> address_kind \<Rightarrow> token_account_info option \<Rightarrow> bool" where
  "account_is acct k ta \<longleftrightarrow>
     (let program = jget acct ''owner''; parsed = jget (jget acct ''data'') ''parsed''; exec = (jget acct ''executable'' = JBool True);
          tokens = program \<in> {JStr ''TokenkegQfeZyiNwAJbNbGKPFXCWuBvf9Ss623VQ5DA'', JStr ''TokenzQdBNbLqP5VEhdkAS6EPFLC1PHnBqCXEpPxuEb''} in
      k \<in> {KindUnfundedWallet, KindProgram, KindWallet, KindTokenAccount, KindMint, KindProgramOwned}
      \<and> (k = KindUnfundedWallet \<longleftrightarrow> acct = JNull) \<and> (k = KindProgram \<longleftrightarrow> exec)
      \<and> (k = KindWallet \<longleftrightarrow> \<not> exec \<and> program = JStr ''11111111111111111111111111111111'')
      \<and> (k = KindTokenAccount \<longleftrightarrow> \<not> exec \<and> tokens \<and> jget parsed ''type'' = JStr ''account'')
      \<and> (k = KindMint \<longleftrightarrow> \<not> exec \<and> tokens \<and> jget parsed ''type'' = JStr ''mint'')
      \<and> (ta = None \<longleftrightarrow> k \<noteq> KindTokenAccount)
      \<and> (\<forall>i mint holder. ta = Some i \<and> jget (jget parsed ''info'') ''mint'' = JStr mint \<and> jget (jget parsed ''info'') ''owner'' = JStr holder
           \<longrightarrow> ta_mint i = mint \<and> ta_owner i = holder))"

lemma as_str_iff: "as_str v = Some s \<longleftrightarrow> v = JStr s"
  by (cases v) auto

lemma as_bool_iff: "as_bool v = Some b \<longleftrightarrow> v = JBool b"
  by (cases v) auto

lemma account_owner_is: "s \<noteq> [] \<Longrightarrow> account_owner acct = s \<longleftrightarrow> jget acct ''owner'' = JStr s"
  by (cases "jget acct ''owner''") (auto simp: account_owner_def)

lemma sol_kind_is:
  "account_is acct (sol_kind acct) ta \<longleftrightarrow> (ta = None \<longleftrightarrow> sol_kind acct \<noteq> KindTokenAccount)
     \<and> (\<forall>i mint holder. ta = Some i \<and> jget (jget (parsed_data acct) ''info'') ''mint'' = JStr mint
          \<and> jget (jget (parsed_data acct) ''info'') ''owner'' = JStr holder \<longrightarrow> ta_mint i = mint \<and> ta_owner i = holder)"
proof -
  have owner: "account_owner acct = system_program \<longleftrightarrow> jget acct ''owner'' = JStr ''11111111111111111111111111111111''"
    "account_owner acct \<in> set token_programs \<longleftrightarrow> jget acct ''owner'' \<in> {JStr ''TokenkegQfeZyiNwAJbNbGKPFXCWuBvf9Ss623VQ5DA'',
        JStr ''TokenzQdBNbLqP5VEhdkAS6EPFLC1PHnBqCXEpPxuEb''}"
    unfolding system_program_def token_programs_def token_2022_program_def by (simp_all add: account_owner_is)
  show ?thesis
    unfolding account_is_def Let_def sol_kind_def owner is_null_def as_bool_iff parsed_data_def by auto
qed

lemma sol_report_verdict:
  "verdict (sol_kind_report x s acct r) = (ar_valid r, sol_kind acct, ar_delegate r, ar_smart_account r, ar_bytecode_size r,
     if sol_kind acct = KindTokenAccount then Some \<lparr>ta_mint = unwrap_or [] (as_str (jget (jget (parsed_data acct) ''info'') ''mint'')),
         ta_owner = unwrap_or [] (as_str (jget (jget (parsed_data acct) ''info'') ''owner'')), ta_program = account_owner acct,
         ta_is_ata = is_ata_of x (unwrap_or [] (as_str (jget (jget (parsed_data acct) ''info'') ''owner'')))
           (unwrap_or [] (as_str (jget (jget (parsed_data acct) ''info'') ''mint''))) (account_owner acct) s,
         ta_state = as_str (jget (jget (parsed_data acct) ''info'') ''state'')\<rparr>
     else ar_token_account r)"
  by (cases "sol_kind acct") (simp_all add: sol_kind_report_def token_account_report_def warn_def verdict_def Let_def)

lemma validate_solana_kind:
  assumes "fst (validate_solana x ws cx ce addr inp r rt c) = Inr r'" and "ar_token_account r = None"
  shows "ar_valid r' = ar_valid r \<and> (\<exists>v. node_showed cx (ws 0) ce ''getAccountInfo''
      (account_request (show_address (ol_codec (wl_ops x)) addr)) v \<and> account_is (jget v ''value'') (ar_kind r') (ar_token_account r'))"
proof -
  from assms have fam: "\<exists>cap. solana_rpc ce = Inr cap" by (cases "solana_rpc ce") (simp_all add: validate_solana_def)
  let ?s = "show_address (ol_codec (wl_ops x)) addr"
  from assms fam obtain acct rt1 c1 where acct: "fst (sol_account cx ce (ws 0) ?s rt c) = Inr acct"
    and rest: "fst (with_token x ws cx ce (av_token inp) (held_mint (wl_ops x)) (sol_kind_report x ?s acct r) rt1 c1) = Inr r'"
    by (auto simp: validate_solana_def Let_def ok_then_result split: sum.splits)
  from with_token_verdict [OF rest] have "verdict r' = verdict (sol_kind_report x ?s acct r)" by simp
  then have "ar_valid r' = ar_valid r" "account_is acct (ar_kind r') (ar_token_account r')"
    using assms(2) unfolding sol_report_verdict by (auto simp: verdict_def sol_kind_is)
  with sol_account_shown [OF acct] show ?thesis by auto
qed

text \<open>
  EVM: what the code of an address makes it. A contract is a smart account only if it answered one of two
  calls that such accounts answer.
\<close>

definition answered_word :: "op_lib \<Rightarrow> ('s, 'p, 'q) op_ctx \<Rightarrow> ('s, 'p) vendor_world \<Rightarrow> chain_entry \<Rightarrow> address \<Rightarrow> string \<Rightarrow> u8 list \<Rightarrow> bool" where
  "answered_word b cx w ce a data bytes \<longleftrightarrow> (\<exists>s. node_showed cx w ce ''eth_call'' (call_request b a data) (JStr s)
     \<and> el_hex_decode (ol_evm b) s = Some bytes \<and> length bytes = 32)"

definition smart_account_shown :: "op_lib \<Rightarrow> ('s, 'p, 'q) op_ctx \<Rightarrow> (nat \<Rightarrow> ('s, 'p) vendor_world) \<Rightarrow> chain_entry \<Rightarrow> address
    \<Rightarrow> string option \<Rightarrow> bool" where
  "smart_account_shown b cx ws ce a which \<longleftrightarrow>
     which = Some ''safe'' \<and> (\<exists>bytes. answered_word b cx (ws 1) ce a ''0xe75235b8'' bytes)
     \<or> which = Some ''erc4337'' \<and> (\<exists>entry. answered_word b cx (ws 2) ce a ''0xb0d691fe'' (replicate 12 0 @ entry) \<and> (\<exists>y \<in> set entry. y \<noteq> 0))"

definition code_is :: "op_lib \<Rightarrow> ('s, 'p, 'q) op_ctx \<Rightarrow> (nat \<Rightarrow> ('s, 'p) vendor_world) \<Rightarrow> chain_entry \<Rightarrow> address \<Rightarrow> u8 list
    \<Rightarrow> address_report \<Rightarrow> bool" where
  "code_is b cx ws ce a code r \<longleftrightarrow>
     (let plain = (code \<noteq> [] \<and> (\<forall>d. code = [0xef, 0x01, 0x00] @ d \<longrightarrow> length d \<noteq> 20));
          listed = (\<exists>reg e. ol_registry b = Inr reg \<and> e \<in> set reg \<and> entry_asset e = AssetId (ce_id ce) (Erc20 a)) in
      ar_bytecode_size r = Some (length code)
      \<and> ar_kind r \<in> {KindEoa, KindEip7702Delegated, KindTokenContract, KindSmartAccount, KindContract}
      \<and> (ar_kind r = KindEoa \<longleftrightarrow> code = [])
      \<and> (\<forall>d. code = [0xef, 0x01, 0x00] @ d \<and> length d = 20 \<longrightarrow>
           ar_kind r = KindEip7702Delegated \<and> ar_delegate r = Some (to_checksum (ol_codec b) (of_nat (be_nat d))))
      \<and> (ar_kind r = KindEip7702Delegated \<or> ar_delegate r \<noteq> None \<longrightarrow> code \<noteq> [] \<and> \<not> plain)
      \<and> (ar_kind r = KindTokenContract \<longleftrightarrow> plain \<and> listed)
      \<and> (ar_kind r = KindSmartAccount \<longrightarrow> smart_account_shown b cx ws ce a (ar_smart_account r)))"

lemma address_bytes: "address_of_bytes bs = of_nat (be_nat bs)"
proof -
  have "foldl (\<lambda>acc x. 256 * acc + ucast x) (of_nat n) bs = (of_nat (foldl (\<lambda>acc b. 256 * acc + unat b) n bs) :: address)" for n
  proof (induction bs arbitrary: n)
    case (Cons b bs)
    have step: "256 * of_nat n + ucast b = (of_nat (256 * n + unat b) :: address)"
      by simp
    show ?case unfolding foldl_Cons step by (rule Cons)
  qed simp
  from this [of 0] show ?thesis by (simp add: address_of_bytes_def be_nat_def)
qed

lemma delegation_code: "take 3 code = [0xef, 0x01, 0x00] \<and> length code = 23 \<longleftrightarrow> (\<exists>d. code = [0xef, 0x01, 0x00] @ d \<and> length d = 20)"
  (is "?l \<longleftrightarrow> ?r")
proof
  assume l: ?l
  have "code = take 3 code @ drop 3 code" by simp
  with l show ?r by (intro exI [of _ "drop 3 code"]) (simp only: length_drop, simp)
qed auto

lemma listed_stablecoin:
  "stablecoin b a \<noteq> None \<longleftrightarrow> (\<exists>reg e. ol_registry b = Inr reg \<and> e \<in> set reg \<and> entry_asset e = a)"
  by (cases "ol_registry b") (auto simp: stablecoin_def stablecoins_def by_asset_def find_None_iff)

lemma call_word_shown:
  assumes "fst (call_word b cx ce w a data rt c) = Some bytes" and "ce_family ce = Evm"
  shows "answered_word b cx w ce a data bytes"
proof -
  obtain r rt1 c1 where r: "rpc_request (cx_router cx) CapEvmRpc (ce_id ce) w ''eth_call'' (call_request b a data) rt c = (r, rt1, c1)"
    by (rule prod_cases3)
  with assms(1) obtain s where "r = Inr (JStr s)" and s: "el_hex_decode (ol_evm b) s = Some bytes" "length bytes = 32"
    by (cases r) (auto simp: call_word_def call_request_def [symmetric] json_bytes_def bind_eq_Some_conv as_str_iff split: if_splits)
  from rpc_served [OF r [unfolded \<open>r = _\<close>]] assms(2)
  have "node_showed cx w ce ''eth_call'' (call_request b a data) (JStr s)" by (simp add: node_showed_def rpc_capability_def)
  with s show ?thesis by (auto simp: answered_word_def)
qed

lemma contract_kind_shown:
  assumes "ce_family ce = Evm" and "ar_kind r = KindContract"
  shows "\<exists>k which. verdict (fst (contract_kind b ws cx ce a r rt c)) = (ar_valid r, k, ar_delegate r, which, ar_bytecode_size r, ar_token_account r)
    \<and> k \<in> {KindTokenContract, KindSmartAccount, KindContract}
    \<and> (k = KindTokenContract \<longleftrightarrow> stablecoin b (AssetId (ce_id ce) (Erc20 a)) \<noteq> None)
    \<and> (k = KindSmartAccount \<longrightarrow> smart_account_shown b cx ws ce a which)"
proof (cases "stablecoin b (AssetId (ce_id ce) (Erc20 a))")
  case None
  show ?thesis
  proof (cases "fst (call_word b cx ce (ws 1) a ''0xe75235b8'' rt c)")
    case (Some bytes)
    with call_word_shown [OF this assms(1)] None show ?thesis
      by (auto simp: contract_kind_def verdict_def smart_account_shown_def)
  next
    case no_threshold: None
    define entry where "entry = fst (call_word b cx ce (ws 2) a ''0xb0d691fe'' (fst (snd (call_word b cx ce (ws 1) a ''0xe75235b8'' rt c)))
      (snd (snd (call_word b cx ce (ws 1) a ''0xe75235b8'' rt c))))"
    have "smart_account_shown b cx ws ce a (Some ''erc4337'')" if held: "holds_address entry"
    proof -
      from held obtain bytes where bytes: "entry = Some bytes" "12 \<le> length bytes" "list_all (\<lambda>y. y = 0) (take 12 bytes)"
        "list_ex (\<lambda>y. y \<noteq> 0) (drop 12 bytes)" by (auto simp: holds_address_def split: option.splits)
      have "take 12 bytes = replicate 12 0"
        using bytes(2,3) by (intro replicate_eqI) (auto simp: list_all_iff)
      then have "bytes = replicate 12 0 @ drop 12 bytes" by (metis append_take_drop_id)
      with call_word_shown [OF bytes(1) [unfolded entry_def] assms(1)] bytes(4) show ?thesis
        unfolding smart_account_shown_def list_ex_iff by metis
    qed
    with None no_threshold show ?thesis
      by (auto simp: contract_kind_def verdict_def then_do_def entry_def split_beta)
  qed
qed (auto simp: contract_kind_def verdict_def warn_def)

lemma validate_evm_kind:
  assumes "fst (validate_evm x ws others cx ce a inp r rt c) = Inr r'"
  shows "ar_valid r' = ar_valid r \<and> (\<exists>s code. node_showed cx (ws 0) ce ''eth_getCode'' (code_request (wl_ops x) a) (JStr s)
    \<and> el_hex_decode (ol_evm (wl_ops x)) s = Some code \<and> code_is (wl_ops x) cx ws ce a code r')"
proof -
  let ?b = "wl_ops x"
  from assms have rpc: "\<exists>cap. evm_rpc ce = Inr cap" by (cases "evm_rpc ce") (simp_all add: validate_evm_def)
  then have fam: "ce_family ce = Evm" by (auto simp: evm_rpc_def split: if_splits)
  from assms rpc obtain v where v: "fst (ask_rpc cx ce (ws 0) ''eth_getCode'' (code_request ?b a) rt c) = Inr v"
    by (auto simp: validate_evm_def code_request_def Let_def ok_then_result split: sum.splits)
  with assms rpc obtain code where code: "json_bytes ?b v = Some code"
    by (cases "json_bytes ?b v") (auto simp: validate_evm_def code_request_def [symmetric] Let_def ok_then_result split: sum.splits)
  then obtain s where s: "v = JStr s" "el_hex_decode (ol_evm ?b) s = Some code" by (auto simp: json_bytes_def bind_eq_Some_conv as_str_iff)
  define r1 where "r1 = code_report ?b code (checksum_report (av_address inp) a r)"
  from assms rpc v code obtain rt2 c2 where
    "fst (describe_evm x ws others cx ce a inp r1 rt2 c2) = Inr r'"
    by (auto simp: validate_evm_def code_request_def [symmetric] Let_def ok_then_result r1_def)
  then have described: "fst (then_do (if ar_kind r1 = KindContract then contract_kind ?b ws cx ce a r1 else done_with r1) (\<lambda>r.
      then_do (look_elsewhere ?b others cx ce a (av_check_other_chains inp) (flag_delegated r)) (\<lambda>r.
      with_token x ws cx ce (av_token inp) (\<lambda>_ r. r) r)) rt2 c2) = Inr r'"
    by (simp only: describe_evm_def)
  define r2 where "r2 = fst ((if ar_kind r1 = KindContract then contract_kind ?b ws cx ce a r1 else done_with r1) rt2 c2)"
  from then_doD [OF described] obtain rt3 c3 where look: "fst (then_do (look_elsewhere ?b others cx ce a
      (av_check_other_chains inp) (flag_delegated r2)) (\<lambda>r. with_token x ws cx ce (av_token inp) (\<lambda>_ r. r) r) rt3 c3) = Inr r'"
    unfolding r2_def by blast
  from then_doD [OF look] obtain rt4 c4 where "fst (with_token x ws cx ce (av_token inp) (\<lambda>_ r. r) (fst (look_elsewhere ?b others cx ce a
      (av_check_other_chains inp) (flag_delegated r2) rt3 c3)) rt4 c4) = Inr r'" by blast
  from with_token_verdict [OF this] have r': "verdict r' = verdict r2" by simp
  have "ar_valid (checksum_report (av_address inp) a r) = ar_valid r"
    by (simp add: checksum_report_def warn_def Let_def)
  then have r1: "ar_valid r1 = ar_valid r" "ar_bytecode_size r1 = Some (length code)" "ar_kind r1 = fst (classify_code code)"
    "ar_delegate r1 = map_option (to_checksum (ol_codec ?b)) (snd (classify_code code))"
    by (simp_all add: r1_def code_report_def)
  show ?thesis
  proof (cases "fst (classify_code code) = KindContract")
    case True
    then have plain: "code \<noteq> []" "\<not> (\<exists>d. code = [0xef, 0x01, 0x00] @ d \<and> length d = 20)" "snd (classify_code code) = None"
      unfolding delegation_code [symmetric] by (auto simp: classify_code_def split: if_splits)
    from True have "r2 = fst (contract_kind ?b ws cx ce a r1 rt2 c2)" by (simp add: r2_def r1)
    with contract_kind_shown [OF fam, of r1 ?b ws cx a rt2 c2] True r1 r' plain(3) obtain k which where
      "verdict r' = (ar_valid r, k, None, which, Some (length code), ar_token_account r1)"
      "k \<in> {KindTokenContract, KindSmartAccount, KindContract}"
      "k = KindTokenContract \<longleftrightarrow> stablecoin ?b (AssetId (ce_id ce) (Erc20 a)) \<noteq> None"
      "k = KindSmartAccount \<longrightarrow> smart_account_shown ?b cx ws ce a which" by auto
    then have "ar_valid r' = ar_valid r \<and> code_is ?b cx ws ce a code r'"
      using plain(1,2) unfolding verdict_def code_is_def listed_stablecoin by auto
    with ask_rpc_shown [OF v] s show ?thesis by blast
  next
    case False
    then have "verdict r' = verdict r1" by (simp add: r' r2_def r1)
    then have same: "ar_valid r' = ar_valid r" "ar_bytecode_size r' = Some (length code)" "ar_kind r' = fst (classify_code code)"
      "ar_delegate r' = map_option (to_checksum (ol_codec ?b)) (snd (classify_code code))"
      using r1 by (simp_all add: verdict_def)
    from False consider "code = []" | d where "code = [0xef, 0x01, 0x00] @ d" "length d = 20"
      using delegation_code [of code] by (auto simp: classify_code_def split: if_splits)
    then have "code_is ?b cx ws ce a code r'"
    proof cases
      case 1
      with same show ?thesis by (simp add: code_is_def classify_code_def)
    next
      case 2
      then have "classify_code code = (KindEip7702Delegated, Some (of_nat (be_nat d)))"
        by (simp add: classify_code_def address_bytes)
      with same 2 show ?thesis by (auto simp: code_is_def)
    qed
    with same(1) ask_rpc_shown [OF v] s show ?thesis by blast
  qed
qed

text \<open>
  C17: what \<open>address_validate\<close> says of a recipient is what a node showed of that address. An address is
  valid exactly when it parses on the chain. A Solana address has the kind of the account a usable vendor's
  node returned for it: it is a wallet exactly when the system program owns the account, a mint or a token
  account, with the wallet and mint it belongs to, exactly when a token program does and the parsed data
  say so, unfunded when there is none. An EVM address has the kind of the code a usable vendor's node
  returned for it: externally owned exactly with no code, delegated, to the address the code names, exactly
  with delegation code, a token contract exactly if it is other code of a listed stablecoin, and a smart
  account only if that contract answered a call of such accounts.
\<close>

theorem recipient_kind_shown:
  assumes "address_validate x ws others cx inp rt c = (Inr out, rt', c')"
  shows "\<exists>ce. ctx_chain cx (av_chain inp) = Inr ce \<and>
    (case chain_address (wl_ops x) ce (av_address inp) of
       Inl e \<Rightarrow> \<not> ar_valid (op_data out) \<and> ar_kind (op_data out) = KindInvalid
     | Inr (SolanaAddress p) \<Rightarrow> ar_valid (op_data out) \<and> (\<exists>v. node_showed cx (ws 0) ce ''getAccountInfo''
           (account_request (show_pubkey (ol_codec (wl_ops x)) p)) v
         \<and> account_is (jget v ''value'') (ar_kind (op_data out)) (ar_token_account (op_data out)))
     | Inr (EvmAddress a) \<Rightarrow> ar_valid (op_data out) \<and> (\<exists>s code. node_showed cx (ws 0) ce ''eth_getCode''
           (code_request (wl_ops x) a) (JStr s)
         \<and> el_hex_decode (ol_evm (wl_ops x)) s = Some code \<and> code_is (wl_ops x) cx ws ce a code (op_data out)))"
proof -
  have run: "fst (address_validate x ws others cx inp rt c) = Inr out" using assms by simp
  then obtain ce where ce: "ctx_chain cx (av_chain inp) = Inr ce"
    by (cases "ctx_chain cx (av_chain inp)") (simp_all add: address_validate_def Let_def)
  show ?thesis
  proof (cases "chain_address (wl_ops x) ce (av_address inp)")
    case (Inl e)
    with run ce show ?thesis by (auto simp: address_validate_def Let_def local_output_def invalid_report_def new_report_def)
  next
    case (Inr addr)
    define r where "r = (new_report ce)\<lparr>ar_valid := True, ar_normalized := Some (show_address (ol_codec (wl_ops x)) addr)\<rparr>"
    from run ce Inr have got: "fst ((case addr of EvmAddress a \<Rightarrow> validate_evm x ws others cx ce a inp r
        | SolanaAddress p \<Rightarrow> validate_solana x ws cx ce addr inp r) rt c) = Inr (op_data out)"
      unfolding r_def by (auto simp: address_validate_def Let_def ok_then_result split: sum.splits)
    have start: "ar_valid r" "ar_token_account r = None" by (simp_all add: r_def new_report_def)
    show ?thesis
    proof (cases addr)
      case (EvmAddress a)
      with got have "fst (validate_evm x ws others cx ce a inp r rt c) = Inr (op_data out)" by simp
      from validate_evm_kind [OF this] start EvmAddress Inr ce show ?thesis by simp
    next
      case (SolanaAddress p)
      with got have "fst (validate_solana x ws cx ce addr inp r rt c) = Inr (op_data out)" by simp
      from validate_solana_kind [OF this start(2)] start(1) SolanaAddress Inr ce show ?thesis by simp
    qed
  qed
qed

definition wallet_sample :: wallet_lib where
  "wallet_sample = \<lparr>wl_ops = pay_lib, wl_hash = \<lparr>sha256 = (\<lambda>_. replicate 32 0), on_curve = (\<lambda>_. False)\<rparr>, wl_symbol_call = [],
     wl_abi_string = (\<lambda>_. None), wl_utf8 = (\<lambda>_. None)\<rparr>"

definition recipient_input :: validate_input where
  "recipient_input = \<lparr>av_address = pay_to, av_chain = ''base'', av_token = None, av_check_other_chains = False\<rparr>"

lemma pay_evm_rpc: "evm_rpc sample_chain = Inr CapEvmRpc"
  by (simp add: evm_rpc_def sample_chain_def evm_chain_id_def parse_uint_def strip_prefix_def starts_with_def all_digits_def
      is_digit_def read_dec_def digit_val_def)

lemma pay_address: "chain_address pay_lib sample_chain pay_to = Inr (EvmAddress 2)"
  using pay_terms by (auto simp: payment_terms_def and_then_Inr pay_chain chain_address_def)

theorem recipient_kind_shown_witness:
  "\<exists>out rt' c'. address_validate wallet_sample (\<lambda>_. pay_world) (\<lambda>_. pay_world) pay_ctx recipient_input sample_state sample_clock
       = (Inr out, rt', c')
     \<and> ar_valid (op_data out) \<and> ar_kind (op_data out) \<in> {KindContract, KindSmartAccount}"
proof -
  let ?req = "(new_req CapEvmRpc)\<lparr>rq_chain := Some (ce_id sample_chain)\<rparr>"
  let ?ps = "JArr [JStr (el_json_address (ol_evm pay_lib) 2), JStr ''latest'']"
  let ?f = "\<lambda>p i n. w_node pay_world p i n ''eth_getCode'' ?ps"
  have req: "rq_capability ?req = CapEvmRpc" by (simp add: new_req_def)
  have node: "?f 0 0 0 = Inr (JStr ''d'')" by (simp add: pay_world_def ev_node_def)
  have bytes: "json_bytes pay_lib (JStr ''d'') = Some (replicate 31 0 @ [6])" by (simp add: json_bytes_def pay_lib_def ev_lib_def)
  have fam: "rpc_capability (ce_family sample_chain) = CapEvmRpc" by (simp add: rpc_capability_def sample_chain_def)
  from pay_failover [of ?req CapEvmRpc ?f, OF req _ node] have "fst (ask_rpc pay_ctx sample_chain pay_world ''eth_getCode'' ?ps sample_state sample_clock) = Inr (JStr ''d'')"
    by (auto simp: ask_rpc_def rpc_request_def fam)
  then have "\<exists>out. fst (address_validate wallet_sample (\<lambda>_. pay_world) (\<lambda>_. pay_world) pay_ctx recipient_input sample_state sample_clock) = Inr out"
    by (simp add: address_validate_def recipient_input_def wallet_sample_def pay_chain pay_address ok_then_result validate_evm_def
        pay_evm_rpc bytes describe_evm_def with_token_def Let_def)
  then obtain out rt' c' where run: "address_validate wallet_sample (\<lambda>_. pay_world) (\<lambda>_. pay_world) pay_ctx recipient_input
      sample_state sample_clock = (Inr out, rt', c')" by (metis fst_conv prod_cases3)
  have "length bs = 32" if "el_hex_decode (ol_evm pay_lib) s = Some bs" for s bs
    using that by (auto simp: pay_lib_def ev_lib_def bind_eq_Some_conv split: if_splits)
  moreover have "\<not> (\<exists>reg e. ol_registry pay_lib = Inr reg \<and> e \<in> set reg \<and> entry_asset e = AssetId (ce_id sample_chain) (Erc20 2))"
    by (simp add: pay_lib_def pay_entry_def)
  ultimately show ?thesis using recipient_kind_shown [OF run] run
    by (fastforce simp: pay_chain recipient_input_def wallet_sample_def pay_address code_is_def Let_def)
qed

end
