(* ===== verification/RoutedReads.thy ===== *)
theory RoutedReads
  imports WalletTools
begin

text \<open>
  Reading a transaction through the routed RPC: \<open>evm::tx::get_tx\<close> and \<open>solana::tx::get_tx\<close> as programs of
  requests, each of which may fail over to another node. A program that asks nothing twice behaves as with
  one node, whose answers are those of the vendors asked, so what holds of \<open>evm_get_tx\<close> and \<open>sol_get_tx\<close>
  with any node holds of the routed reading.
\<close>

section \<open>Programs of requests\<close>

datatype 'a asking = Answer 'a | Ask string json "provider_error + json \<Rightarrow> 'a asking"

primrec run_node :: "node \<Rightarrow> 'a asking \<Rightarrow> 'a" where
  "run_node rpc (Answer a) = a"
| "run_node rpc (Ask m ps k) = run_node rpc (k (rpc m ps))"

text \<open>\<open>ask j\<close> makes the \<open>j\<close>th request of the operation.\<close>

primrec run_routed :: "(nat \<Rightarrow> string \<Rightarrow> json \<Rightarrow> ('s, provider_error + json) act) \<Rightarrow> 'a asking \<Rightarrow> nat \<Rightarrow> ('s, 'a) act" where
  "run_routed ask (Answer a) = (\<lambda>j. done_with a)"
| "run_routed ask (Ask m ps k) = (\<lambda>j. then_do (ask j m ps) (\<lambda>r. run_routed ask (k r) (j + 1)))"

primrec then_ask :: "'a asking \<Rightarrow> ('a \<Rightarrow> 'b asking) \<Rightarrow> 'b asking" where
  "then_ask (Answer a) f = f a"
| "then_ask (Ask m ps k) f = Ask m ps (\<lambda>r. then_ask (k r) f)"

definition ok_ask :: "('e + 'a) asking \<Rightarrow> ('a \<Rightarrow> ('e + 'b) asking) \<Rightarrow> ('e + 'b) asking" where
  "ok_ask q f = then_ask q (\<lambda>r. case r of Inl e \<Rightarrow> Answer (Inl e) | Inr a \<Rightarrow> f a)"

abbreviation request :: "string \<Rightarrow> json \<Rightarrow> (provider_error + json) asking" where
  "request m ps \<equiv> Ask m ps Answer"

lemma run_then_ask [simp]: "run_node rpc (then_ask q f) = run_node rpc (f (run_node rpc q))"
  by (induction q) auto

lemma run_ok_ask [simp]: "run_node rpc (ok_ask q f) = and_then (run_node rpc q) (\<lambda>a. run_node rpc (f a))"
  by (simp add: ok_ask_def and_then_def split: sum.splits)

section \<open>The two readings\<close>

definition ask_block_number :: "(provider_error + u64) asking" where
  "ask_block_number = ok_ask (request ''eth_blockNumber'' (JArr [])) (\<lambda>v. Answer (hex_u64 v))"

definition ask_call :: "evm_lib \<Rightarrow> address \<Rightarrow> u8 list \<Rightarrow> string \<Rightarrow> (provider_error + u8 list) asking" where
  "ask_call x to data block = ok_ask (request ''eth_call'' (JArr [JObj [(''to'', JStr (el_json_address x to)),
     (''data'', JStr (''0x'' @ el_hex_encode x data))], JStr block])) (\<lambda>v. Answer (hex_bytes x v))"

definition ask_aggregate3 :: "evm_lib \<Rightarrow> (address \<times> u8 list) list \<Rightarrow> string \<Rightarrow> (provider_error + u8 list option list) asking" where
  "ask_aggregate3 x calls block =
     (if calls = [] then Answer (Inr [])
      else ok_ask (ask_call x multicall_address
          (el_aggregate3 x (map (\<lambda>(target, data). (target, True, data)) calls)) block) (\<lambda>out.
        Answer (and_then (ok_or (malformed ''aggregate3 return data'') (el_results x out)) (\<lambda>rs.
        if length rs \<noteq> length calls then Inl (malformed ''aggregate3 result count'')
        else Inr (map (\<lambda>(success, data). if success then Some data else None) rs)))))"

definition ask_token_decimals :: "evm_lib \<Rightarrow> address list \<Rightarrow> string \<Rightarrow> (provider_error + (address \<times> u8) list) asking" where
  "ask_token_decimals x ts block =
     (let unique = remdups ts in
      if unique = [] then Answer (Inr [])
      else ok_ask (ask_aggregate3 x (map (\<lambda>t. (t, el_decimals_call x)) unique) block) (\<lambda>rs.
        Answer (Inr (List.map_filter (\<lambda>(t, r). map_option (Pair t) (Option.bind r decode_decimals)) (zip unique rs)))))"

definition ask_tagged_block :: "string \<Rightarrow> (provider_error + u64 option) asking" where
  "ask_tagged_block tag = Ask ''eth_getBlockByNumber'' (JArr [JStr tag, JBool False]) (\<lambda>r. Answer (case r of
       Inr v \<Rightarrow> if is_null v then Inr None
         else and_then (hex_u64 (jget v ''number'')) (\<lambda>n. Inr (Some n))
     | Inl (Invalid _) \<Rightarrow> Inr None
     | Inl (Unsupported _) \<Rightarrow> Inr None
     | Inl e \<Rightarrow> Inl e))"

fun ask_finality_by_tags :: "u64 \<Rightarrow> (string \<times> finality) list \<Rightarrow> (provider_error + finality option) asking" where
  "ask_finality_by_tags b [] = Answer (Inr None)"
| "ask_finality_by_tags b ((tag, level) # tags) = ok_ask (ask_tagged_block tag) (\<lambda>n.
     if (case n of None \<Rightarrow> False | Some n \<Rightarrow> b \<le> n) then Answer (Inr (Some level))
     else ask_finality_by_tags b tags)"

definition ask_finality_of :: "chain_entry \<Rightarrow> u64 \<Rightarrow> (provider_error + finality) asking" where
  "ask_finality_of ce b = ok_ask
     (if fp_policy (ce_finality ce) = ''tags''
      then ask_finality_by_tags b [(''finalized'', Finalized), (''safe'', Safe)] else Answer (Inr None)) (\<lambda>level.
     case level of
       Some f \<Rightarrow> Answer (Inr f)
     | None \<Rightarrow> ok_ask ask_block_number (\<lambda>head. Answer (Inr (Confirmed (sat_sub head b + 1)))))"

definition ask_evm_tx :: "evm_lib \<Rightarrow> chain_entry \<Rightarrow> string \<Rightarrow> (provider_error + json tx option) asking" where
  "ask_evm_tx x ce h =
     ok_ask (request ''eth_getTransactionByHash'' (JArr [JStr h])) (\<lambda>t.
     if is_null t then Answer (Inr None)
     else let addr = (\<lambda>v. map_option EvmAddress (Option.bind (as_str v) (address_from_str (el_codec x))));
         pending = \<lparr>tx_chain = ce_id ce, tx_hash = unwrap_or h (as_str (jget t ''hash'')), status = TxPending,
           tx_finality = Pending, tx_block = None, tx_from = addr (jget t ''from''),
           tx_to = addr (jget t ''to''), fee = None, transfers = [], balance_deltas = [], tx_raw = None\<rparr>
       in if is_null (jget t ''blockNumber'') then Answer (Inr (Some pending))
       else ok_ask (request ''eth_getTransactionReceipt'' (JArr [JStr h])) (\<lambda>r.
       if is_null r then Answer (Inr (Some pending))
       else ok_ask (Answer (hex_u64 (jget r ''blockNumber''))) (\<lambda>n.
       ok_ask (Answer (fee_paid x r t)) (\<lambda>paid.
         let raws = List.map_filter (decode_transfer_log x) (elements (jget r ''logs'')) in
       ok_ask (ask_token_decimals x (map et_token raws) (block_tag n)) (\<lambda>decs.
         let ts = to_transfers (ce_id ce) raws decs in
       ok_ask (Answer (recipient_deltas ts)) (\<lambda>ds.
       ok_ask (ask_finality_of ce n) (\<lambda>f.
         Answer (Inr (Some (pending\<lparr>
           status := (if as_str (jget r ''status'') = Some ''0x1'' then TxSuccess else TxFailed),
           tx_block := Some \<lparr>number = n, block_hash = as_str (jget r ''blockHash''), timestamp = None\<rparr>,
           fee := Some (new_amount paid (nat_decimals (ce_native ce))),
           transfers := ts, balance_deltas := ds, tx_finality := f\<rparr>))))))))))"

definition ask_sol_tx :: "codec \<Rightarrow> (string \<Rightarrow> u256 option) \<Rightarrow> (int \<Rightarrow> datetime option) \<Rightarrow> chain_entry \<Rightarrow> string
    \<Rightarrow> (provider_error + json tx option) asking" where
  "ask_sol_tx k fsr ts ce sig =
     (if (case b58_decode k sig of None \<Rightarrow> True | Some b \<Rightarrow> length b \<noteq> 64)
      then Answer (Inl (Invalid (quoted sig @ '' is not a Solana transaction signature'')))
      else ok_ask (request ''getSignatureStatuses''
          (JArr [JArr [JStr sig], JObj [(''searchTransactionHistory'', JBool True)]])) (\<lambda>st.
        let st = jat (jget st ''value'') 0 in
        if is_null st then Answer (Inr None)
        else let fin = finality_from_status ce (as_str (jget st ''confirmationStatus''))
                   (as_u64 (jget st ''confirmations''))
          in ok_ask (request ''getTransaction'' (JArr [JStr sig, get_transaction_config ''confirmed''])) (\<lambda>v.
             Answer (if is_null v then Inr (Some \<lparr>tx_chain = ce_id ce, tx_hash = sig, status = TxPending,
               tx_finality = Pending,
               tx_block = map_option (\<lambda>n. \<lparr>number = n, block_hash = None, timestamp = None\<rparr>)
                 (as_u64 (jget st ''slot'')),
               tx_from = None, tx_to = None, fee = None, transfers = [], balance_deltas = [],
               tx_raw = None\<rparr>)
             else and_then (map_err (\<lambda>e. Transient (show_error e)) (parse_tx_with_finality k fsr ts ce v fin))
               (\<lambda>t. Inr (Some t))))))"

lemma run_block_number [simp]: "run_node rpc ask_block_number = block_number rpc"
  by (simp add: ask_block_number_def block_number_def)

lemma run_call [simp]: "run_node rpc (ask_call x to data block) = eth_call x rpc to data block"
  by (simp add: ask_call_def eth_call_def)

lemma run_aggregate3 [simp]: "run_node rpc (ask_aggregate3 x calls block) = aggregate3 x rpc calls block"
  by (simp add: ask_aggregate3_def aggregate3_def)

lemma run_token_decimals [simp]: "run_node rpc (ask_token_decimals x ts block) = token_decimals x rpc ts block"
  by (simp add: ask_token_decimals_def token_decimals_def Let_def)

lemma run_tagged_block [simp]: "run_node rpc (ask_tagged_block tag) = tagged_block rpc tag"
  by (simp add: ask_tagged_block_def tagged_block_def)

lemma run_finality_by_tags [simp]: "run_node rpc (ask_finality_by_tags b tags) = finality_by_tags rpc b tags"
  by (induction b tags rule: ask_finality_by_tags.induct)
    (auto simp: and_then_def split: sum.splits option.splits)

lemma run_finality_of [simp]: "run_node rpc (ask_finality_of ce b) = finality_of rpc ce b"
  by (auto simp: ask_finality_of_def finality_of_def and_then_def split: sum.splits option.splits)

lemma run_if [simp]: "run_node rpc (if P then q else q') = (if P then run_node rpc q else run_node rpc q')"
  by simp

lemma evm_tx_agrees: "run_node rpc (ask_evm_tx x ce h) = evm_get_tx x rpc ce h"
  by (simp add: ask_evm_tx_def evm_get_tx_def Let_def cong: if_cong)

lemma sol_tx_agrees: "run_node rpc (ask_sol_tx k fsr ts ce sig) = sol_get_tx k fsr ts rpc ce sig"
  by (simp add: ask_sol_tx_def sol_get_tx_def Let_def cong: if_cong)

section \<open>Nothing is asked twice\<close>

primrec questions :: "'a asking \<Rightarrow> (string \<times> json) set" where
  "questions (Answer a) = {}"
| "questions (Ask m ps k) = insert (m, ps) (\<Union>r. questions (k r))"

primrec asks_once :: "'a asking \<Rightarrow> bool" where
  "asks_once (Answer a) \<longleftrightarrow> True"
| "asks_once (Ask m ps k) \<longleftrightarrow> (\<forall>r. (m, ps) \<notin> questions (k r) \<and> asks_once (k r))"

lemma questions_then_ask: "questions (then_ask q f) \<subseteq> questions q \<union> (\<Union>a. questions (f a))"
  by (induction q) fastforce+

lemma questions_ok_ask: "questions (ok_ask (q :: ('e + 'a) asking) f) \<subseteq> questions q \<union> (\<Union>a. questions (f a))"
proof -
  have "questions (case r of Inl e \<Rightarrow> Answer (Inl e) | Inr a \<Rightarrow> f a) \<subseteq> (\<Union>a. questions (f a))" for r :: "'e + 'a"
    by (cases r) auto
  then show ?thesis
    unfolding ok_ask_def by (intro order.trans [OF questions_then_ask Un_mono] UN_least order.refl)
qed

lemma asks_once_then_ask:
  "asks_once q \<Longrightarrow> (\<And>a. asks_once (f a) \<and> questions q \<inter> questions (f a) = {}) \<Longrightarrow> asks_once (then_ask q f)"
proof (induction q)
  case (Ask m ps k)
  have "(m, ps) \<notin> questions (then_ask (k r) f) \<and> asks_once (then_ask (k r) f)" for r
  proof
    show "(m, ps) \<notin> questions (then_ask (k r) f)"
      using questions_then_ask [of "k r" f] Ask.prems by (auto simp: disjoint_iff)
    show "asks_once (then_ask (k r) f)"
    proof (rule Ask.IH)
      show "asks_once (k r)" using Ask.prems(1) by simp
      show "asks_once (f a) \<and> questions (k r) \<inter> questions (f a) = {}" for a
        using Ask.prems(2) [of a] by (auto simp: disjoint_iff)
      show "k r \<in> range k" by simp
    qed
  qed
  then show ?case by simp
qed auto

lemma asks_once_ok_ask:
  fixes q :: "('e + 'a) asking"
  assumes "asks_once q" and "\<And>a. asks_once (f a)" and "\<And>a. questions q \<inter> questions (f a) = {}"
  shows "asks_once (ok_ask q f)"
  unfolding ok_ask_def
proof (rule asks_once_then_ask [OF assms(1)])
  show "asks_once (case r of Inl e \<Rightarrow> Answer (Inl e) | Inr a \<Rightarrow> f a)
      \<and> questions q \<inter> questions (case r of Inl e \<Rightarrow> Answer (Inl e) | Inr a \<Rightarrow> f a) = {}" for r
    using assms(2,3) by (cases r) auto
qed

text \<open>
  Requests come in stages, and a program is staged when it asks nothing twice and stays within some stages.
\<close>

definition stage :: "string \<Rightarrow> nat" where
  "stage m = (if m \<in> {''eth_getTransactionByHash'', ''getSignatureStatuses''} then 0
     else if m \<in> {''eth_getTransactionReceipt'', ''getTransaction''} then 1
     else if m = ''eth_call'' then 2 else if m = ''eth_getBlockByNumber'' then 3 else 4)"

definition staged :: "nat \<Rightarrow> nat \<Rightarrow> 'a asking \<Rightarrow> bool" where
  "staged l u q \<longleftrightarrow> asks_once q \<and> (\<forall>x \<in> questions q. l \<le> stage (fst x) \<and> stage (fst x) < u)"

lemma staged_request: "l \<le> stage m \<Longrightarrow> stage m < u \<Longrightarrow> staged l u (Ask m ps (\<lambda>r. Answer (f r)))"
  by (simp add: staged_def)

lemma staged_answer [simp]: "staged l u (Answer a)"
  by (simp add: staged_def)

lemma staged_if: "staged l u q \<Longrightarrow> staged l u q' \<Longrightarrow> staged l u (if P then q else q')"
  by simp

lemma staged_ok: "staged l k q \<Longrightarrow> (\<And>a. staged k u (f a)) \<Longrightarrow> l \<le> k \<Longrightarrow> k \<le> u \<Longrightarrow> staged l u (ok_ask q f)"
  unfolding staged_def using questions_ok_ask [of q f] asks_once_ok_ask [of q f]
  by (fastforce simp: disjoint_iff)

lemma ask_call_staged: "staged 2 3 (ask_call x to data block)"
  unfolding ask_call_def by (rule staged_ok [where k = 3], rule staged_request) (simp_all add: stage_def)

lemma ask_decimals_staged: "staged 2 3 (ask_token_decimals x ts block)"
proof -
  have "staged 2 3 (ask_aggregate3 x calls block)" for calls
    unfolding ask_aggregate3_def by (auto intro: staged_ok [where k = 3, OF ask_call_staged])
  then show ?thesis unfolding ask_token_decimals_def Let_def by (auto intro: staged_ok [where k = 3])
qed

definition tag_questions :: "string set \<Rightarrow> (string \<times> json) set" where
  "tag_questions ts = (\<lambda>t. (''eth_getBlockByNumber'', JArr [JStr t, JBool False])) ` ts"

lemma ask_tags_once:
  "distinct (map fst tags) \<Longrightarrow> asks_once (ask_finality_by_tags b tags)
    \<and> questions (ask_finality_by_tags b tags) \<subseteq> tag_questions (fst ` set tags)"
proof (induction b tags rule: ask_finality_by_tags.induct)
  case (2 b tag level tags)
  let ?f = "\<lambda>n. if (case n of None \<Rightarrow> False | Some n \<Rightarrow> b \<le> n) then Answer (Inr (Some level)) else ask_finality_by_tags b tags"
  have one: "questions (ask_tagged_block tag) = tag_questions {tag}" "asks_once (ask_tagged_block tag)"
    by (simp_all add: ask_tagged_block_def tag_questions_def)
  have rest: "asks_once (ask_finality_by_tags b tags)" "questions (ask_finality_by_tags b tags) \<subseteq> tag_questions (fst ` set tags)"
    using 2(1) [of None] 2(2) by simp_all
  have "asks_once (ok_ask (ask_tagged_block tag) ?f)"
  proof (rule asks_once_ok_ask [OF one(2)])
    show "asks_once (?f n)" for n using rest(1) by simp
    show "questions (ask_tagged_block tag) \<inter> questions (?f n) = {}" for n
      using rest(2) 2(2) unfolding one by (auto simp: tag_questions_def)
  qed
  moreover have "questions (?f n) \<subseteq> tag_questions (fst ` set tags)" for n using rest(2) by simp
  then have "questions (ok_ask (ask_tagged_block tag) ?f) \<subseteq> tag_questions {tag} \<union> tag_questions (fst ` set tags)"
    using questions_ok_ask [of "ask_tagged_block tag" ?f] unfolding one by blast
  ultimately show ?case by (auto simp: tag_questions_def)
qed simp

lemma ask_finality_staged: "staged 3 5 (ask_finality_of ce b)"
proof -
  have "staged 3 4 q" if "asks_once q \<and> questions q \<subseteq> tag_questions ts" for q :: "(provider_error + finality option) asking" and ts
    using that by (auto simp: staged_def tag_questions_def stage_def)
  note this [OF ask_tags_once]
  then have tags: "staged 3 4 (ask_finality_by_tags b [(''finalized'', Finalized), (''safe'', Safe)])"
    by this simp
  have head: "staged 4 5 (ok_ask ask_block_number f)" if "\<And>a. staged 5 5 (f a)" for f :: "u64 \<Rightarrow> (provider_error + finality) asking"
  proof (rule staged_ok [where k = 5])
    show "staged 4 5 ask_block_number"
      unfolding ask_block_number_def by (rule staged_ok [where k = 5], rule staged_request) (simp_all add: stage_def)
  qed (use that in simp_all)
  show ?thesis
    unfolding ask_finality_of_def
    by (rule staged_ok [where k = 4]) (use tags head in \<open>auto split: option.split\<close>)
qed

lemma evm_tx_once: "asks_once (ask_evm_tx x ce h)"
proof -
  have "staged 0 5 (ask_evm_tx x ce h)"
    unfolding ask_evm_tx_def Let_def
    by (rule staged_ok [where k = 1], (rule staged_request; simp add: stage_def), rule staged_if [OF staged_answer],
        rule staged_if [OF staged_answer], rule staged_ok [where k = 2], (rule staged_request; simp add: stage_def),
        rule staged_if [OF staged_answer], (rule staged_ok [where k = 2], rule staged_answer)+,
        rule staged_ok [where k = 3], rule ask_decimals_staged, rule staged_ok [where k = 3], rule staged_answer,
        rule staged_ok [where k = 5], rule ask_finality_staged, simp_all)
  then show ?thesis by (simp add: staged_def)
qed

lemma sol_tx_once: "asks_once (ask_sol_tx k fsr ts ce sig)"
proof -
  have "staged 0 2 (ask_sol_tx k fsr ts ce sig)"
    unfolding ask_sol_tx_def Let_def
    by (rule staged_if [OF staged_answer], rule staged_ok [where k = 1], (rule staged_request; simp add: stage_def),
        rule staged_if [OF staged_answer], rule staged_ok [where k = 2], (rule staged_request; simp add: stage_def), simp_all)
  then show ?thesis by (simp add: staged_def)
qed

section \<open>One node\<close>

lemma run_node_cong: "(\<And>m ps. (m, ps) \<in> questions q \<Longrightarrow> nd m ps = nd' m ps) \<Longrightarrow> run_node nd q = run_node nd' q"
proof (induction q)
  case (Ask m ps k)
  have "nd m ps = nd' m ps" using Ask.prems by simp
  moreover have "run_node nd (k (nd' m ps)) = run_node nd' (k (nd' m ps))"
    using Ask.prems by (intro Ask.IH) auto
  ultimately show ?case by simp
qed simp

lemma routed_as_node:
  "asks_once q \<Longrightarrow> \<exists>nd. run_node nd q = fst (run_routed ask q j rt c) \<and> (\<forall>m ps. \<exists>i rt' c'. nd m ps = fst (ask i m ps rt' c'))"
proof (induction q arbitrary: j rt c)
  case (Answer a)
  show ?case by (rule exI [of _ "\<lambda>m ps. fst (ask j m ps rt c)"]) auto
next
  case (Ask m ps k)
  obtain r rt1 c1 where r: "ask j m ps rt c = (r, rt1, c1)" by (metis prod_cases3)
  from Ask.prems have "asks_once (k r)" "(m, ps) \<notin> questions (k r)" by simp_all
  from Ask.IH [OF _ this(1), of "j + 1" rt1 c1] obtain nd where nd: "run_node nd (k r) = fst (run_routed ask (k r) (j + 1) rt1 c1)"
    "\<And>m ps. \<exists>i rt' c'. nd m ps = fst (ask i m ps rt' c')" by auto
  define nd' where "nd' m' ps' = (if m' = m \<and> ps' = ps then r else nd m' ps')" for m' ps'
  have "run_node nd' (k r) = run_node nd (k r)"
    using \<open>(m, ps) \<notin> questions (k r)\<close> by (intro run_node_cong) (auto simp: nd'_def)
  moreover have "nd' m ps = r" by (simp add: nd'_def)
  moreover have "\<exists>i rt' c'. nd' m' ps' = fst (ask i m' ps' rt' c')" for m' ps'
    using nd(2) [of m' ps'] r by (auto simp: nd'_def) (metis fst_conv)
  ultimately show ?case using nd(1) r by (intro exI [of _ nd']) (simp add: then_do_def)
qed

text \<open>\<open>lookup_tx\<close> of \<open>crates/app/src/ops/tx.rs\<close>.\<close>

definition lookup_routed :: "op_lib \<Rightarrow> (nat \<Rightarrow> ('s, 'p) vendor_world) \<Rightarrow> ('s, 'p, 'q) op_ctx \<Rightarrow> chain_entry \<Rightarrow> string
    \<Rightarrow> ('s, domain_error + json tx option) act" where
  "lookup_routed b ws cx ce h = ok_then (done_with (family_rpc ce)) (\<lambda>cap.
     map_act (map_err domain_error_of) (run_routed (\<lambda>j. rpc_request (cx_router cx) cap (ce_id ce) (ws j))
       (case ce_family ce of Evm \<Rightarrow> ask_evm_tx (ol_evm b) ce h
          | Solana \<Rightarrow> ask_sol_tx (ol_codec b) (ol_fsr b) (ol_time b) ce h) 0))"

definition shown_by_vendors :: "('s, 'p, 'q) op_ctx \<Rightarrow> (nat \<Rightarrow> ('s, 'p) vendor_world) \<Rightarrow> chain_entry \<Rightarrow> node \<Rightarrow> bool" where
  "shown_by_vendors cx ws ce nd \<longleftrightarrow> (\<forall>m ps v. nd m ps = Inr v \<longrightarrow> (\<exists>j. node_showed cx (ws j) ce m ps v))"

lemma lookup_as_node:
  assumes "fst (lookup_routed b ws cx ce h rt c) = Inr t"
  shows "\<exists>nd. shown_by_vendors cx ws ce nd \<and> (case ce_family ce of
      Evm \<Rightarrow> evm_get_tx (ol_evm b) nd ce h = Inr t
    | Solana \<Rightarrow> sol_get_tx (ol_codec b) (ol_fsr b) (ol_time b) nd ce h = Inr t)"
proof -
  define q where "q = (case ce_family ce of Evm \<Rightarrow> ask_evm_tx (ol_evm b) ce h
      | Solana \<Rightarrow> ask_sol_tx (ol_codec b) (ol_fsr b) (ol_time b) ce h)"
  let ?ask = "\<lambda>j. rpc_request (cx_router cx) (rpc_capability (ce_family ce)) (ce_id ce) (ws j)"
  from assms family_rpc_Inr [of ce] have run: "fst (run_routed ?ask q 0 rt c) = Inr t"
    by (cases "family_rpc ce"; cases "fst (run_routed ?ask q 0 rt c)") (auto simp: lookup_routed_def q_def)
  have "asks_once q" by (cases "ce_family ce") (simp_all add: q_def evm_tx_once sol_tx_once)
  from routed_as_node [OF this, of ?ask 0 rt c] run obtain nd where nd: "run_node nd q = Inr t"
    "\<And>m ps. \<exists>i rt' c'. nd m ps = fst (?ask i m ps rt' c')" by auto
  have "shown_by_vendors cx ws ce nd"
    unfolding shown_by_vendors_def
  proof (intro allI impI)
    fix m ps v assume "nd m ps = Inr v"
    with nd(2) [of m ps] obtain i rt' c' where "fst (?ask i m ps rt' c') = Inr v" by metis
    then obtain rt1 c1 where "?ask i m ps rt' c' = (Inr v, rt1, c1)" by (metis fst_conv prod_cases3)
    from rpc_served [OF this] have "node_showed cx (ws i) ce m ps v" by (simp add: node_showed_def)
    then show "\<exists>j. node_showed cx (ws j) ce m ps v" by blast
  qed
  moreover from nd(1) have "case ce_family ce of
      Evm \<Rightarrow> evm_get_tx (ol_evm b) nd ce h = Inr t
    | Solana \<Rightarrow> sol_get_tx (ol_codec b) (ol_fsr b) (ol_time b) nd ce h = Inr t"
    by (cases "ce_family ce") (simp_all add: q_def evm_tx_agrees sol_tx_agrees)
  ultimately show ?thesis by blast
qed

end
