(* ===== verification/SampleVendor.thy ===== *)
theory SampleVendor
  imports RoutedReads
begin

text \<open>
  A router with one vendor, for the examples of the operations: while the vendor is healthy every request
  is answered by its node, and it stays healthy.
\<close>

section \<open>One healthy vendor\<close>

definition lone :: "('s, nat, 'q) router_env \<Rightarrow> capability \<Rightarrow> bool" where
  "lone rx cap \<longleftrightarrow> (\<forall>req. rq_capability req = cap \<longrightarrow> order_of rx req = [''a''])
     \<and> vendor_status (r_config rx) ''a'' = Active \<and> effective_budget_of (r_config rx) ''a'' = None
     \<and> (\<forall>chain. registry_get (r_registry rx) cap chain ''a'' = Some (PortHandle cap 0))
     \<and> r_options rx = default_options"

definition calm :: "('s, 'p) vendor_world \<Rightarrow> bool" where
  "calm w \<longleftrightarrow> (\<forall>p i n. w_took w p i n = 0 \<and> w_during w p i n = (\<lambda>rt. rt))"

definition healthy :: "'s runtime \<Rightarrow> bool" where
  "healthy rt \<longleftrightarrow> st_exhausted_until (vendors rt ''a'') = None \<and> (\<exists>n. st_breaker (vendors rt ''a'') = Closed n)"

lemma lone_considered:
  assumes "lone rx (rq_capability req)" and "healthy rt"
  shows "\<exists>rt'. consider_all rx (trait_of (rq_capability req)) req c (order_of rx req) rt = ([(''a'', 0)], [], rt') \<and> healthy rt'"
proof -
  from assms have "\<exists>rt'. consider_vendor rx (trait_of (rq_capability req)) req c ''a'' rt = (Inr 0, rt') \<and> healthy rt'"
    by (auto simp: lone_def healthy_def consider_vendor_def extract_port_def quota_block_def breaker_allows_def with_vendor_def)
  with assms(1) show ?thesis by (auto simp: lone_def consider_all.simps)
qed

lemma lone_try:
  assumes "lone rx cap" and "healthy rt" and "calm w" and "f 0 0 0 = Inr x"
  shows "\<exists>row rt' c'. try_vendor rx ''a'' (asks w f 0 0) rt c = ((Inr x, row), rt', c') \<and> healthy rt'"
proof -
  have "acquire rt ''a'' (effective_budget_of (r_config rx) ''a'') l c = (True, rt, c)" for l
    using assms(1) by (simp add: lone_def acquire_def)
  moreover have "\<exists>rt2 c2. tries_from rx ''a'' (asks w f 0 0) 0 rt c = (Inr x, rt2, c2) \<and> healthy rt2"
    using assms by (subst tries_from.simps)
      (auto simp: asks_def timed_def calm_def Let_def healthy_def record_result_def with_vendor_def err_of_def lone_def)
  ultimately show ?thesis by (auto simp: try_vendor_def Let_def)
qed

lemma lone_failover:
  assumes "lone rx (rq_capability req)" and "healthy rt" and "calm w" and "f 0 0 0 = Inr x"
  shows "\<exists>y rt' c'. failover rx (trait_of (rq_capability req)) req (asks w f) rt c = (Inr y, rt', c') \<and> rd_value y = x \<and> healthy rt'"
proof -
  from lone_considered [OF assms(1,2), of c] obtain rt1 where cands:
    "consider_all rx (trait_of (rq_capability req)) req c (order_of rx req) rt = ([(''a'', 0)], [], rt1)" "healthy rt1" by blast
  from lone_try [OF assms(1) this(2) assms(3), where f = f and x = x and c = c] assms(4) cands(1) show ?thesis by (auto simp: failover_def Let_def)
qed

lemma lone_routed:
  assumes "lone rx (rq_capability req)" and "healthy rt" and "calm w" and "f 0 0 0 = Inr x"
  shows "\<exists>y rt' c'. routed rx req w f rt c = (Inr y, rt', c') \<and> rd_value y = x \<and> healthy rt'"
  using lone_failover [OF assms(1-3), where f = f and x = x and c = c] assms(4) by (auto simp: routed_def)

lemma lone_rpc:
  assumes "lone rx cap" and "healthy rt" and "calm w" and "w_node w 0 0 0 m ps = Inr x"
  shows "\<exists>rt' c'. rpc_request rx cap chain w m ps rt c = (Inr x, rt', c') \<and> healthy rt'"
proof -
  have "rq_capability ((new_req cap)\<lparr>rq_chain := Some chain\<rparr>) = cap" by (simp add: new_req_def)
  with lone_failover [of rx "(new_req cap)\<lparr>rq_chain := Some chain\<rparr>" rt w "\<lambda>p i n. w_node w p i n m ps" x c] assms
  show ?thesis by (auto simp: rpc_request_def)
qed

text \<open>A program of requests gets the answers of the vendor's node.\<close>

lemma lone_program:
  assumes "lone rx cap" and "\<And>j. calm (ws j)" and "\<And>j m ps. w_node (ws j) 0 0 0 m ps = nd m ps" and "\<And>m ps. is_ok (nd m ps)"
  shows "healthy rt \<Longrightarrow> \<exists>rt' c'. run_routed (\<lambda>j. rpc_request rx cap chain (ws j)) q j rt c = (run_node nd q, rt', c') \<and> healthy rt'"
proof (induction q arbitrary: j rt c)
  case (Ask m ps k)
  obtain v where v: "nd m ps = Inr v" using assms(4) [of m ps] by (cases "nd m ps") (auto simp: is_ok_def)
  from lone_rpc [OF assms(1) Ask.prems assms(2), of j m ps v chain c] v assms(3) obtain rt1 c1 where
    one: "rpc_request rx cap chain (ws j) m ps rt c = (Inr v, rt1, c1)" "healthy rt1" by auto
  from Ask.IH [of "k (Inr v)" rt1 "j + 1" c1] this(2) obtain rt2 c2 where
    "run_routed (\<lambda>j. rpc_request rx cap chain (ws j)) (k (Inr v)) (j + 1) rt1 c1 = (run_node nd (k (Inr v)), rt2, c2)" "healthy rt2"
    by auto
  with one v show ?case by (simp add: then_do_def)
qed simp

section \<open>The router of the examples\<close>

definition sample_solana :: chain_entry where
  "sample_solana = \<lparr>ce_id = ChainId ''solana'' ''S'', ce_name = ''Solana'', ce_aliases = [''solana''],
     ce_family = Solana, ce_native = \<lparr>nat_symbol = ''SOL'', nat_decimals = 9, nat_slip44 = 501\<rparr>,
     ce_block_time_ms = 400, ce_finality = \<lparr>fp_policy = ''commitment'', fp_default = None, fp_note = None\<rparr>,
     ce_multicall3 = None, ce_public_rpc = [], ce_explorer = None, ce_enabled = True\<rparr>"

definition tx_caps :: "capability list" where
  "tx_caps = [CapEvmRpc, CapSolanaRpc, CapFeeEstimate, CapSimulate, CapBroadcast, CapPrivateRelay, CapPrice]"

definition tx_env :: "(memory_store, nat, unit) router_env" where
  "tx_env = \<lparr>r_config = sample_loaded\<lparr>
       settings := sample_settings\<lparr>set_routing := \<lparr>route_defaults = map (\<lambda>cap. (cap, [''a''])) tx_caps, route_chains = []\<rparr>,
         set_custom_rpc := [(''a'', sample_endpoint)]\<rparr>,
       registry := sample_registry_of\<lparr>reg_chains := \<lparr>cr_chains = [sample_chain, sample_solana],
         cr_index = [(''base'', 0), (''solana'', 1)]\<rparr>\<rparr>\<rparr>,
     r_registry = registry_of [foldr (\<lambda>cap. global_port (PortHandle cap 0)) tx_caps (new_registration (sample_meta ''a''))],
     r_options = default_options, r_calendar = sample_calendar, r_usage = mem_total\<rparr>"

definition tx_ctx :: "(memory_store, nat, unit) op_ctx" where
  "tx_ctx = ctx_new tx_env ''tx''"

lemma tx_ctx_parts [simp]: "cx_router tx_ctx = tx_env" "cx_table tx_ctx = r_config tx_env"
  by (simp_all add: tx_ctx_def ctx_new_def)

lemma tx_lone: "cap \<in> set tx_caps \<Longrightarrow> lone tx_env cap"
  unfolding lone_def
proof (intro conjI allI impI)
  assume cap: "cap \<in> set tx_caps"
  show "order_of tx_env req = [''a'']" if "rq_capability req = cap" for req
    using that cap by (auto simp: order_of_def resolve_order_def operation_order_def chain_order_def tx_env_def tx_caps_def
      sample_loaded_def sample_settings_def split: Option.bind_splits option.splits)
  show "registry_get (r_registry tx_env) cap chain ''a'' = Some (PortHandle cap 0)" for chain
    using cap by (auto simp: tx_env_def registry_of_def registry_add_def add_port_def registry_get_def tx_caps_def
        port_at_def empty_registry_def new_registration_def global_port_def sample_meta_def unwrap_or_def
        Let_def split: Option.bind_splits option.splits)
qed (simp_all add: vendor_status_def tx_env_def has_key_def effective_budget_of_def sample_loaded_def sample_registry_of_def)

lemma tx_chain: "ctx_chain tx_ctx ''base'' = Inr sample_chain" "ctx_chain tx_ctx ''solana'' = Inr sample_solana"
proof -
  have low: "lower ''base'' = ''base''" "lower ''solana'' = ''solana''" by (simp_all add: lower_def to_lower_def is_upper_def)
  have trim: "trim ''base'' = ''base''" "trim ''solana'' = ''solana''" by (rule trim_id, simp add: is_space_def)+
  show "ctx_chain tx_ctx ''base'' = Inr sample_chain" "ctx_chain tx_ctx ''solana'' = Inr sample_solana"
    by (simp_all add: ctx_chain_def resolve_chain_def tx_env_def sample_loaded_def find_chain_def trim low nth_opt_def)
      (simp_all add: sample_chain_def sample_solana_def)
qed

lemma sample_healthy: "healthy sample_state"
  by (simp add: healthy_def sample_state_def new_router_def new_runtime_def default_state_def)

definition tx_world :: "(memory_store, nat) vendor_world" where
  "tx_world = \<lparr>w_node = (\<lambda>_ _ _. ev_node), w_pages = (\<lambda>_ _ _ _. Inr pay_page),
     w_took = (\<lambda>_ _ _. 0), w_during = (\<lambda>_ _ _ rt. rt), w_jitter = (\<lambda>_ _ _. 0)\<rparr>"

lemma tx_world_calm: "calm tx_world"
  by (simp add: calm_def tx_world_def)

end
