(* ===== verification/TxTools.thy ===== *)
theory TxTools
  imports SampleVendor
begin

text \<open>
  Tools on transactions (\<open>crates/app/src/ops/tx.rs\<close>): reading one (\<open>tx_get\<close>, \<open>tx_status\<close>), fees
  (\<open>tx_estimate_fee\<close>), dry runs (\<open>tx_simulate\<close>) and sending a signed one to every vendor (\<open>tx_broadcast\<close>).
  \<open>tx_ports\<close> is what vendors answer through the ports used here, \<open>tx_lib\<close> the libraries.
\<close>

section \<open>Ports and libraries\<close>

record 'p tx_ports =
  xp_price :: "'p \<Rightarrow> nat \<Rightarrow> nat \<Rightarrow> asset_id \<Rightarrow> string \<Rightarrow> provider_error + price"
  xp_fee :: "'p \<Rightarrow> nat \<Rightarrow> nat \<Rightarrow> provider_error + fee_estimate"
  xp_simulate :: "'p \<Rightarrow> nat \<Rightarrow> nat \<Rightarrow> account_address \<Rightarrow> unsigned_tx \<Rightarrow> provider_error + simulation_result"
  xp_send :: "'p \<Rightarrow> nat \<Rightarrow> nat \<Rightarrow> string \<Rightarrow> provider_error + broadcast_receipt"

record tx_lib =
  xl_ops :: op_lib
  xl_hash :: hashing
  xl_dec :: dec_lib
  xl_base64 :: base64
  xl_keccak :: "u8 list \<Rightarrow> u8 list"
  xl_transfer_call :: "address \<Rightarrow> u256 \<Rightarrow> u8 list"

definition xl_codec :: "tx_lib \<Rightarrow> codec" where
  "xl_codec x = ol_codec (xl_ops x)"

section \<open>Reading a transaction\<close>

definition is_hex :: "char \<Rightarrow> bool" where
  "is_hex c \<longleftrightarrow> hex_digit c \<noteq> None"

definition validate_hash :: "op_lib \<Rightarrow> chain_entry \<Rightarrow> string \<Rightarrow> domain_error + string" where
  "validate_hash b ce s =
     (let h = trim s;
          ok = (case ce_family ce of
              Evm \<Rightarrow> length h = 66 \<and> starts_with ''0x'' h \<and> list_all is_hex (drop 2 h)
            | Solana \<Rightarrow> (case b58_decode (ol_codec b) h of None \<Rightarrow> False | Some v \<Rightarrow> length v = 64))
      in if ok then Inr h
         else Inl (invalid (quoted h @ '' is not a '' @ ce_name ce @ '' transaction ''
           @ (if ce_family ce = Evm then ''hash (0x + 64 hex)'' else ''signature (base58, 64 bytes)''))))"

record tx_ref =
  tg_chain :: string
  tg_hash :: string
  tg_include_raw :: bool

definition chain_and_hash :: "op_lib \<Rightarrow> ('s, 'p, 'q) op_ctx \<Rightarrow> string \<Rightarrow> string \<Rightarrow> domain_error + chain_entry \<times> string" where
  "chain_and_hash b cx chain h = and_then (ctx_chain cx chain) (\<lambda>ce. and_then (validate_hash b ce h) (\<lambda>h. Inr (ce, h)))"

definition unknown_tx :: "chain_entry \<Rightarrow> string \<Rightarrow> domain_error" where
  "unknown_tx ce h = with_hint ''it may still be pending, have been dropped, or be on another chain''
     (new_error ENotFound (h @ '' not found on '' @ show_chain (ce_id ce)))"

definition tx_get :: "op_lib \<Rightarrow> (nat \<Rightarrow> ('s, 'p) vendor_world) \<Rightarrow> ('s, 'p, 'q) op_ctx \<Rightarrow> tx_ref
    \<Rightarrow> ('s, domain_error + json tx op_output) act" where
  "tx_get b ws cx inp =
     ok_then (done_with (chain_and_hash b cx (tg_chain inp) (tg_hash inp))) (\<lambda>(ce, h).
     ok_then (lookup_routed b ws cx ce h) (\<lambda>found rt c.
       (case found of None \<Rightarrow> Inl (unknown_tx ce h)
        | Some t \<Rightarrow> let t = (if tg_include_raw inp then t else t\<lparr>tx_raw := None\<rparr>) in
            Inr \<lparr>op_data = t, op_meta = (rpc_meta (ce_id ce) (utc c))\<lparr>pv_block := tx_block t,
              pv_finality := Some (tx_finality t)\<rparr>\<rparr>, rt, c)))"

record status_input =
  sn_chain :: string
  sn_hash :: string
  sn_last_valid :: "u64 option"

record status_out =
  so_chain :: chain_id
  so_hash :: string
  so_status :: tx_status
  so_finality :: "finality option"
  so_block :: "block_ref option"
  so_settled :: bool
  so_height :: "u64 option"

definition unseen_solana_status :: "u64 option \<Rightarrow> u64 option \<Rightarrow> tx_status" where
  "unseen_solana_status lvbh current = (case lvbh of
       None \<Rightarrow> TxNotFound
     | Some l \<Rightarrow> (case current of Some c \<Rightarrow> if l < c then TxDropped else TxPending | None \<Rightarrow> TxPending))"

text \<open>The status of what was found; a Solana transaction nobody has seen is told by the block height.\<close>

definition found_status :: "(nat \<Rightarrow> ('s, 'p) vendor_world) \<Rightarrow> ('s, 'p, 'q) op_ctx \<Rightarrow> chain_entry \<Rightarrow> u64 option \<Rightarrow> json tx option
    \<Rightarrow> ('s, domain_error + tx_status \<times> finality option \<times> block_ref option \<times> u64 option) act" where
  "found_status ws cx ce lvbh found = (case found of
       Some t \<Rightarrow> done_with (Inr (status t, Some (tx_finality t), tx_block t, None))
     | None \<Rightarrow> if ce_family ce = Solana \<and> lvbh \<noteq> None
         then ok_then (ask_rpc cx ce (ws 5) ''getBlockHeight'' (JArr [JObj [(''commitment'', JStr ''finalized'')]])) (\<lambda>v.
           done_with (Inr (unseen_solana_status lvbh (as_u64 v), None, None, as_u64 v)))
         else done_with (Inr (TxNotFound, None, None, None)))"

definition tx_status_op :: "op_lib \<Rightarrow> (nat \<Rightarrow> ('s, 'p) vendor_world) \<Rightarrow> ('s, 'p, 'q) op_ctx \<Rightarrow> status_input
    \<Rightarrow> ('s, domain_error + status_out op_output) act" where
  "tx_status_op b ws cx inp =
     ok_then (done_with (chain_and_hash b cx (sn_chain inp) (sn_hash inp))) (\<lambda>(ce, h).
     ok_then (lookup_routed b ws cx ce h) (\<lambda>found.
     ok_then (found_status ws cx ce (sn_last_valid inp) found) (\<lambda>(st, fin, blk, height) rt c.
       (Inr \<lparr>op_data = \<lparr>so_chain = ce_id ce, so_hash = h, so_status = st, so_finality = fin, so_block = blk,
           so_settled = (st = TxSuccess \<and> fin = Some Finalized), so_height = height\<rparr>,
         op_meta = (rpc_meta (ce_id ce) (utc c))\<lparr>pv_block := blk, pv_finality := fin\<rparr>\<rparr>, rt, c))))"

section \<open>Fees\<close>

definition to_upper :: "char \<Rightarrow> char" where
  "to_upper c = (if is_lower c then char_of (byte c - 32) else c)"

definition currency_code :: "string \<Rightarrow> domain_error + string" where
  "currency_code s = (let c = map to_upper (trim s) in
     if length c = 3 \<and> list_all (\<lambda>d. is_upper d \<or> is_lower d) c then Inr c
     else Inl (invalid (quoted c @ '' is not an ISO 4217 currency code'')))"

definition native_price :: "'p tx_ports \<Rightarrow> ('s, 'p) vendor_world \<Rightarrow> ('s, 'p, 'q) op_ctx \<Rightarrow> chain_entry \<Rightarrow> string
    \<Rightarrow> ('s, price routed option) act" where
  "native_price ps w cx ce currency = map_act to_option
     (routed (cx_router cx) ((ctx_route cx CapPrice)\<lparr>rq_chain := Some (ce_id ce)\<rparr>) w
       (\<lambda>p i n. xp_price ps p i n (chain_native ce) currency))"

definition estimated_fee :: "'p tx_ports \<Rightarrow> ('s, 'p) vendor_world \<Rightarrow> ('s, 'p, 'q) op_ctx \<Rightarrow> chain_entry
    \<Rightarrow> ('s, domain_error + fee_estimate routed) act" where
  "estimated_fee ps w cx ce = routed (cx_router cx) ((ctx_route cx CapFeeEstimate)\<lparr>rq_chain := Some (ce_id ce)\<rparr>) w (xp_fee ps)"

record fee_out =
  fu_estimate :: fee_estimate
  fu_price :: "price option"

definition tier_in_fiat :: "dec_lib \<Rightarrow> price \<Rightarrow> fee_tier \<Rightarrow> fee_tier" where
  "tier_in_fiat d p t = (if estimated_total_fiat t = None
     then t\<lparr>estimated_total_fiat := Option.bind (estimated_total t) (\<lambda>a. fiat_value d a p)\<rparr> else t)"

text \<open>\<open>tokio::join!\<close> of the two requests, made in order.\<close>

definition tx_estimate_fee :: "tx_lib \<Rightarrow> (nat \<Rightarrow> 'p tx_ports) \<Rightarrow> (nat \<Rightarrow> ('s, 'p) vendor_world) \<Rightarrow> ('s, 'p, 'q) op_ctx
    \<Rightarrow> string \<Rightarrow> string option \<Rightarrow> ('s, domain_error + fee_out op_output) act" where
  "tx_estimate_fee x ps ws cx chain currency =
     ok_then (done_with (ctx_chain cx chain)) (\<lambda>ce.
     ok_then (done_with (currency_code (unwrap_or ''USD'' currency))) (\<lambda>cur.
     then_do (estimated_fee (ps 0) (ws 0) cx ce) (\<lambda>fee.
     then_do (native_price (ps 1) (ws 1) cx ce cur) (\<lambda>pr rt c.
       (and_then fee (\<lambda>f.
          let est = (case pr of None \<Rightarrow> rd_value f
                | Some p \<Rightarrow> (rd_value f)\<lparr>fe_tiers := map (tier_in_fiat (xl_dec x) (rd_value p)) (fe_tiers (rd_value f))\<rparr>)
          in Inr \<lparr>op_data = \<lparr>fu_estimate = est, fu_price = map_option rd_value pr\<rparr>,
               op_meta = merge_meta (Some (ce_id ce)) (rd_provenance f # list_of_opt (map_option rd_provenance pr)) (utc c)\<rparr>),
        rt, c)))))"

section \<open>Dry runs\<close>

fun check_tx_chain :: "chain_entry \<Rightarrow> unsigned_tx \<Rightarrow> domain_error + unit" where
  "check_tx_chain ce (UnsignedEvm n _ _ _ _ _ _ _) =
     (if ce_family ce = Evm
      then if Some n = evm_chain_id (ce_id ce) then Inr ()
        else Inl (invalid (''tx chain_id '' @ show_nat (unat n) @ '' does not match '' @ show_chain (ce_id ce)))
      else Inl (invalid (''transaction family does not match '' @ show_chain (ce_id ce) @ '' ('' @ debug_family (ce_family ce) @ '')'')))"
| "check_tx_chain ce (UnsignedSolana _ _ _) =
     (if ce_family ce = Solana then Inr ()
      else Inl (invalid (''transaction family does not match '' @ show_chain (ce_id ce) @ '' ('' @ debug_family (ce_family ce) @ '')'')))"

definition simulate :: "'p tx_ports \<Rightarrow> ('s, 'p) vendor_world \<Rightarrow> ('s, 'p, 'q) op_ctx \<Rightarrow> chain_entry \<Rightarrow> account_address \<Rightarrow> unsigned_tx
    \<Rightarrow> ('s, domain_error + simulation_result routed) act" where
  "simulate ps w cx ce sender t = routed (cx_router cx) ((ctx_route cx CapSimulate)\<lparr>rq_chain := Some (ce_id ce)\<rparr>) w
     (\<lambda>p i n. xp_simulate ps p i n sender t)"

record simulate_input =
  sm_chain :: string
  sm_from :: string
  sm_tx :: unsigned_tx

definition tx_simulate :: "op_lib \<Rightarrow> 'p tx_ports \<Rightarrow> ('s, 'p) vendor_world \<Rightarrow> ('s, 'p, 'q) op_ctx \<Rightarrow> simulate_input
    \<Rightarrow> ('s, domain_error + simulation_result op_output) act" where
  "tx_simulate b ps w cx inp =
     ok_then (done_with (and_then (ctx_chain cx (sm_chain inp)) (\<lambda>ce.
       and_then (chain_address b ce (sm_from inp)) (\<lambda>a.
       and_then (check_tx_chain ce (sm_tx inp)) (\<lambda>_. Inr (ce, a))))))
     (\<lambda>(ce, a). map_act (\<lambda>r. and_then r (\<lambda>y. Inr \<lparr>op_data = rd_value y, op_meta = rd_provenance y\<rparr>))
       (simulate ps w cx ce a (sm_tx inp)))"

section \<open>Sending\<close>

record broadcast_input =
  bi_chain :: string
  bi_signed_tx :: string
  bi_private :: bool

record rejection =
  rj_vendor :: string
  rj_error :: string

record broadcast_out =
  bt_tx_hash :: string
  bt_private :: bool
  bt_accepted :: "string list"
  bt_rejected :: "rejection list"
  bt_mismatch :: "string list"

fun split_spaces :: "string \<Rightarrow> string \<Rightarrow> string list" where
  "split_spaces acc [] = (if acc = [] then [] else [rev acc])"
| "split_spaces acc (c # cs) = (if is_space c
     then (if acc = [] then split_spaces [] cs else rev acc # split_spaces [] cs)
     else split_spaces (c # acc) cs)"

definition looks_like_secret :: "codec \<Rightarrow> string \<Rightarrow> bool" where
  "looks_like_secret k s =
     (let t = trim s; hex = unwrap_or t (strip_prefix ''0x'' t); ws = split_spaces [] t in
      length hex = 64 \<and> list_all is_hex hex
      \<or> (case b58_decode k t of None \<Rightarrow> False | Some v \<Rightarrow> length v = 64)
      \<or> starts_with ''['' t \<and> length (filter (\<lambda>c. c = CHR '','') t) + 1 = 64
      \<or> list_ex (\<lambda>p. starts_with p t) [''xprv'', ''tprv'', ''yprv'', ''zprv'']
      \<or> length ws \<in> {12, 15, 18, 21, 24} \<and> list_all (\<lambda>w. 3 \<le> length w \<and> length w \<le> 8 \<and> list_all is_lower w) ws)"

definition local_tx_hash :: "tx_lib \<Rightarrow> chain_family \<Rightarrow> string \<Rightarrow> domain_error + string" where
  "local_tx_hash x f s =
     (let t = trim s in
      case f of
        Evm \<Rightarrow> and_then (ok_or (invalid ''signed_tx must be 0x-prefixed raw transaction hex'')
            (Option.bind (Option.bind (strip_prefix ''0x'' t) (el_hex_decode (ol_evm (xl_ops x)))) (\<lambda>b.
               if 64 < length b then Some b else None)))
          (\<lambda>b. Inr (''0x'' @ el_hex_encode (ol_evm (xl_ops x)) (xl_keccak x b)))
      | Solana \<Rightarrow> and_then (ok_or (invalid ''signed_tx must be a base64 Solana transaction'') (b64_decode (xl_base64 x) t)) (\<lambda>b.
          and_then (ok_or (invalid ''signed_tx has no signature'')
            (case b of n # rest \<Rightarrow> if 1 \<le> n \<and> n < 0x80 \<and> 64 \<le> length rest then Some (take 64 rest) else None
               | [] \<Rightarrow> None)) (\<lambda>sig.
          if list_all (\<lambda>u. u = 0) sig then Inl (invalid ''transaction is not signed (empty signature)'')
          else Inr (b58_encode (xl_codec x) sig))))"

text \<open>Accepted, rejected, and the vendors whose hash differs from the local one, in the order asked.\<close>

fun note_receipt :: "loaded \<Rightarrow> string \<times> (provider_error + broadcast_receipt) \<Rightarrow> broadcast_out \<Rightarrow> broadcast_out" where
  "note_receipt l (vendor, Inr rc) out = out\<lparr>
     bt_mismatch := bt_mismatch out @ (if lower (br_tx_hash rc) = lower (bt_tx_hash out) then [] else [vendor]),
     bt_accepted := bt_accepted out @ [vendor]\<rparr>"
| "note_receipt l (vendor, Inl e) out = out\<lparr>
     bt_rejected := bt_rejected out @ [\<lparr>rj_vendor = vendor, rj_error = scrub l (show_provider_error e)\<rparr>]\<rparr>"

definition summarize :: "loaded \<Rightarrow> string \<Rightarrow> bool \<Rightarrow> (string \<times> (provider_error + broadcast_receipt)) list \<Rightarrow> broadcast_out" where
  "summarize l h private rs = fold (note_receipt l) rs
     \<lparr>bt_tx_hash = h, bt_private = private, bt_accepted = [], bt_rejected = [], bt_mismatch = []\<rparr>"

definition broadcast_cap :: "bool \<Rightarrow> capability" where
  "broadcast_cap private = (if private then CapPrivateRelay else CapBroadcast)"

definition broadcast_req :: "('s, 'p, 'q) op_ctx \<Rightarrow> chain_entry \<Rightarrow> bool \<Rightarrow> route_req" where
  "broadcast_req cx ce private = (ctx_route cx (broadcast_cap private))\<lparr>rq_chain := Some (ce_id ce)\<rparr>"

text \<open>A private send looks whether there is a relay before it fans out.\<close>

definition no_relay :: "('s, 'p, 'q) op_ctx \<Rightarrow> chain_entry \<Rightarrow> bool \<Rightarrow> ('s, bool) act" where
  "no_relay cx ce private rt c = (if private
     then let (cs, _, rt1) = consider_all (cx_router cx) BroadcasterT (broadcast_req cx ce private) c
            (order_of (cx_router cx) (broadcast_req cx ce private)) rt in (cs = [], rt1, c)
     else (False, rt, c))"

definition send_all :: "'p tx_ports \<Rightarrow> ('s, 'p) vendor_world \<Rightarrow> ('s, 'p, 'q) op_ctx \<Rightarrow> chain_entry \<Rightarrow> broadcast_input \<Rightarrow> string
    \<Rightarrow> ('s, domain_error + broadcast_out op_output) act" where
  "send_all ps w cx ce inp h rt c =
     (let (r, rt1, c1) = fan_out (cx_router cx) BroadcasterT (broadcast_req cx ce (bi_private inp))
            (asks w (\<lambda>p i n. xp_send ps p i n (trim (bi_signed_tx inp)))) rt c
      in (and_then (map_err re_error r) (\<lambda>y. Inr \<lparr>op_data = summarize (cx_table cx) h (bi_private inp) (rd_value y),
           op_meta = rd_provenance y\<rparr>), rt1, c1))"

definition tx_broadcast :: "tx_lib \<Rightarrow> 'p tx_ports \<Rightarrow> ('s, 'p) vendor_world \<Rightarrow> ('s, 'p, 'q) op_ctx \<Rightarrow> broadcast_input
    \<Rightarrow> ('s, domain_error + broadcast_out op_output) act" where
  "tx_broadcast x ps w cx inp =
     (if looks_like_secret (xl_codec x) (bi_signed_tx inp)
      then done_with (Inl (invalid (''input looks like a private key or seed phrase. This server never accepts ''
        @ ''secrets: sign in the user's wallet and pass the signed transaction'')))
      else ok_then (done_with (ctx_chain cx (bi_chain inp))) (\<lambda>ce.
        ok_then (done_with (local_tx_hash x (ce_family ce) (bi_signed_tx inp))) (\<lambda>h.
        then_do (no_relay cx ce (bi_private inp)) (\<lambda>none.
          if none then done_with (Inl (with_hint ''send with private=false to use the public mempool''
            (new_error UnsupportedCapability (''no private relay available on '' @ show_chain (ce_id ce) @ '' (no private mempool)''))))
          else send_all ps w cx ce inp h))))"

section \<open>Settled and dropped\<close>

lemma evm_status_found: "evm_get_tx x rpc ce h = Inr (Some t) \<Longrightarrow> status t \<in> {TxPending, TxSuccess, TxFailed}"
  by (auto simp: evm_get_tx_def and_then_Inr Let_def split: if_splits)

lemma sol_status_found: "sol_get_tx k fsr ts rpc ce sig = Inr (Some t) \<Longrightarrow> status t \<in> {TxPending, TxSuccess, TxFailed}"
  by (auto simp: sol_get_tx_def parse_tx_with_finality_def and_then_Inr map_err_def Let_def split: if_splits sum.splits)

text \<open>What a usable node must have shown for a transaction to be final.\<close>

definition final_shown :: "('s, 'p, 'q) op_ctx \<Rightarrow> (nat \<Rightarrow> ('s, 'p) vendor_world) \<Rightarrow> chain_entry \<Rightarrow> string \<Rightarrow> block_ref option \<Rightarrow> bool" where
  "final_shown cx ws ce h blk \<longleftrightarrow> (case ce_family ce of
     Evm \<Rightarrow> fp_policy (ce_finality ce) = ''tags'' \<and> (\<exists>j b v n. blk = Some b
       \<and> node_showed cx (ws j) ce ''eth_getBlockByNumber'' (JArr [JStr ''finalized'', JBool False]) v
       \<and> hex_u64 (jget v ''number'') = Inr n \<and> number b \<le> n)
   | Solana \<Rightarrow> (\<exists>j st. node_showed cx (ws j) ce ''getSignatureStatuses''
         (JArr [JArr [JStr h], JObj [(''searchTransactionHistory'', JBool True)]]) st
       \<and> (as_str (jget (jat (jget st ''value'') 0) ''confirmationStatus'') = Some ''finalized''
         \<or> as_str (jget (jat (jget st ''value'') 0) ''confirmationStatus'') = Some ''confirmed''
           \<and> fp_default (ce_finality ce) = Some ''confirmed'')))"

lemma lookup_final_shown:
  assumes "fst (lookup_routed b ws cx ce h rt c) = Inr (Some t)"
  shows "status t \<noteq> TxDropped" and "tx_finality t = Finalized \<Longrightarrow> final_shown cx ws ce h (tx_block t)"
proof -
  from lookup_as_node [OF assms] obtain nd where nd: "shown_by_vendors cx ws ce nd"
    and read: "case ce_family ce of Evm \<Rightarrow> evm_get_tx (ol_evm b) nd ce h = Inr (Some t)
      | Solana \<Rightarrow> sol_get_tx (ol_codec b) (ol_fsr b) (ol_time b) nd ce h = Inr (Some t)" by blast
  then show "status t \<noteq> TxDropped"
    by (cases "ce_family ce") (auto dest: evm_status_found sol_status_found)
  assume fin: "tx_finality t = Finalized"
  show "final_shown cx ws ce h (tx_block t)"
  proof (cases "ce_family ce")
    case Evm
    with read have read: "evm_get_tx (ol_evm b) nd ce h = Inr (Some t)" by simp
    from evm_get_tx_cases [OF this] fin obtain r n decs where m: "mined_as (ol_evm b) nd ce h t r n decs" by auto
    then have "finality_of nd ce n = Inr Finalized" "tx_block t = Some \<lparr>number = n, block_hash = as_str (jget r ''blockHash''), timestamp = None\<rparr>"
      using fin by (simp_all add: mined_as_def)
    moreover from finality_of_tag [OF this(1)] obtain k v where "fp_policy (ce_finality ce) = ''tags''" "n \<le> k"
      "nd ''eth_getBlockByNumber'' (JArr [JStr ''finalized'', JBool False]) = Inr v" "hex_u64 (jget v ''number'') = Inr k"
      by (auto simp: tagged_block_Some)
    moreover from this nd obtain j where "node_showed cx (ws j) ce ''eth_getBlockByNumber'' (JArr [JStr ''finalized'', JBool False]) v"
      unfolding shown_by_vendors_def by blast
    ultimately show ?thesis using Evm by (auto simp: final_shown_def)
  next
    case Solana
    with read have "sol_get_tx (ol_codec b) (ol_fsr b) (ol_time b) nd ce h = Inr (Some t)" by simp
    from sol_final_only_if_reported [OF this fin] obtain st where st:
      "nd ''getSignatureStatuses'' (JArr [JArr [JStr h], JObj [(''searchTransactionHistory'', JBool True)]]) = Inr st"
      "as_str (jget (jat (jget st ''value'') 0) ''confirmationStatus'') = Some ''finalized''
        \<or> as_str (jget (jat (jget st ''value'') 0) ''confirmationStatus'') = Some ''confirmed''
          \<and> fp_default (ce_finality ce) = Some ''confirmed''" by blast
    from st(1) nd obtain j where "node_showed cx (ws j) ce ''getSignatureStatuses''
      (JArr [JArr [JStr h], JObj [(''searchTransactionHistory'', JBool True)]]) st" unfolding shown_by_vendors_def by blast
    with st(2) Solana show ?thesis by (simp only: final_shown_def chain_family.case) blast
  qed
qed

text \<open>
  C15: A transaction is reported settled only when it succeeded and a usable vendor's node showed it final: on
  an EVM chain that trusts block tags, a block tagged finalized at or above its own; on Solana, its own
  signature as finalized (or confirmed, where the chain takes that for final). And it is reported dropped
  only on Solana, when a node's finalized block height is past the last height its blockhash was valid for:
  until then it may still land, and sending the money again would pay twice.
\<close>

theorem settled_means_final:
  assumes "tx_status_op b ws cx inp rt c = (Inr out, rt', c')"
  shows "\<exists>ce h. chain_and_hash b cx (sn_chain inp) (sn_hash inp) = Inr (ce, h)
    \<and> (so_settled (op_data out) \<longrightarrow> so_status (op_data out) = TxSuccess \<and> final_shown cx ws ce h (so_block (op_data out)))
    \<and> (so_status (op_data out) = TxDropped \<longrightarrow> ce_family ce = Solana \<and> (\<exists>l v n. sn_last_valid inp = Some l
         \<and> node_showed cx (ws 5) ce ''getBlockHeight'' (JArr [JObj [(''commitment'', JStr ''finalized'')]]) v
         \<and> as_u64 v = Some n \<and> l < n))"
proof -
  have run: "fst (tx_status_op b ws cx inp rt c) = Inr out" using assms by simp
  then obtain ce h where ce: "chain_and_hash b cx (sn_chain inp) (sn_hash inp) = Inr (ce, h)"
    by (cases "chain_and_hash b cx (sn_chain inp) (sn_hash inp)") (auto simp: tx_status_op_def)
  with run obtain found rt1 c1 where found: "fst (lookup_routed b ws cx ce h rt c) = Inr found"
    and rest: "fst (ok_then (found_status ws cx ce (sn_last_valid inp) found) (\<lambda>(st, fin, blk, height) rt c.
       (Inr \<lparr>op_data = \<lparr>so_chain = ce_id ce, so_hash = h, so_status = st, so_finality = fin, so_block = blk,
           so_settled = (st = TxSuccess \<and> fin = Some Finalized), so_height = height\<rparr>,
         op_meta = (rpc_meta (ce_id ce) (utc c))\<lparr>pv_block := blk, pv_finality := fin\<rparr>\<rparr>, rt, c)) rt1 c1) = Inr out"
    by (cases "fst (lookup_routed b ws cx ce h rt c)") (auto simp: tx_status_op_def ok_then_result)
  from rest obtain st fin blk height where status: "fst (found_status ws cx ce (sn_last_valid inp) found rt1 c1) = Inr (st, fin, blk, height)"
    and out: "so_status (op_data out) = st" "so_settled (op_data out) \<longleftrightarrow> st = TxSuccess \<and> fin = Some Finalized" "so_block (op_data out) = blk"
    by (cases "fst (found_status ws cx ce (sn_last_valid inp) found rt1 c1)") (auto simp: ok_then_result)
  show ?thesis
  proof (cases found)
    case (Some t)
    with status have "st = status t" "fin = Some (tx_finality t)" "blk = tx_block t" by (simp_all add: found_status_def)
    with lookup_final_shown [OF found [unfolded Some]] ce out show ?thesis by auto
  next
    case None
    show ?thesis
    proof (cases "ce_family ce = Solana \<and> sn_last_valid inp \<noteq> None")
      case True
      with None status obtain v where v: "fst (ask_rpc cx ce (ws 5) ''getBlockHeight'' (JArr [JObj [(''commitment'', JStr ''finalized'')]]) rt1 c1) = Inr v"
        "st = unseen_solana_status (sn_last_valid inp) (as_u64 v)" "fin = None"
        by (auto simp: found_status_def ok_then_result split: sum.splits)
      with ask_rpc_shown [OF v(1)] True ce out show ?thesis
        by (auto simp: unseen_solana_status_def split: option.splits if_splits)
    next
      case False
      with None status have "st = TxNotFound" by (auto simp: found_status_def)
      with ce out show ?thesis by auto
    qed
  qed
qed

definition sample_hash :: string where
  "sample_hash = ''0x'' @ replicate 64 (CHR ''0'')"

lemma sample_hash_valid: "chain_and_hash pay_lib tx_ctx ''base'' sample_hash = Inr (sample_chain, sample_hash)"
proof -
  have "trim sample_hash = sample_hash" by (rule trim_id) (simp add: sample_hash_def is_space_def)
  then show ?thesis
    by (simp add: chain_and_hash_def tx_chain validate_hash_def)
      (simp add: sample_chain_def sample_hash_def starts_with_def is_hex_def hex_digit_def is_digit_def list_all_iff)
qed

lemma sample_family: "family_rpc sample_chain = Inr CapEvmRpc" "ce_family sample_chain = Evm"
  using pay_evm_rpc by (simp_all add: family_rpc_def sample_chain_def)

lemma settled_lookup:
  "\<exists>t rt' c'. lookup_routed pay_lib (\<lambda>_. tx_world) tx_ctx sample_chain h sample_state sample_clock = (Inr (Some t), rt', c')
     \<and> status t = TxSuccess \<and> tx_finality t = Finalized"
proof -
  obtain t where t: "evm_get_tx ev_lib ev_node sample_chain h = Inr (Some t)" "status t = TxSuccess" "tx_finality t = Finalized"
    using ev_get by blast
  have ok: "is_ok (ev_node m ps)" for m ps by (simp add: ev_node_def is_ok_def)
  have node: "w_node tx_world 0 0 0 m ps = ev_node m ps" for m ps by (simp add: tx_world_def)
  have "lone tx_env CapEvmRpc" by (rule tx_lone) (simp add: tx_caps_def)
  from lone_program [OF this tx_world_calm node ok sample_healthy, of "ce_id sample_chain" "ask_evm_tx ev_lib sample_chain h" 0 sample_clock] obtain rt' c'
    where "run_routed (\<lambda>j. rpc_request tx_env CapEvmRpc (ce_id sample_chain) tx_world) (ask_evm_tx ev_lib sample_chain h) 0 sample_state sample_clock
      = (Inr (Some t), rt', c')" using t(1) by (auto simp: evm_tx_agrees)
  with t show ?thesis by (auto simp: lookup_routed_def sample_family map_act_def then_do_def pay_lib_def map_err_def)
qed

theorem settled_means_final_witness:
  "\<exists>out rt' c'. tx_status_op pay_lib (\<lambda>_. tx_world) tx_ctx \<lparr>sn_chain = ''base'', sn_hash = sample_hash, sn_last_valid = None\<rparr>
       sample_state sample_clock = (Inr out, rt', c')
     \<and> so_settled (op_data out) \<and> final_shown tx_ctx (\<lambda>_. tx_world) sample_chain sample_hash (so_block (op_data out))"
proof -
  obtain t rt1 c1 where t: "lookup_routed pay_lib (\<lambda>_. tx_world) tx_ctx sample_chain sample_hash sample_state sample_clock = (Inr (Some t), rt1, c1)"
    "status t = TxSuccess" "tx_finality t = Finalized" using settled_lookup by blast
  let ?inp = "\<lparr>sn_chain = ''base'', sn_hash = sample_hash, sn_last_valid = None\<rparr>"
  have "\<exists>out rt' c'. tx_status_op pay_lib (\<lambda>_. tx_world) tx_ctx ?inp sample_state sample_clock = (Inr out, rt', c') \<and> so_settled (op_data out)"
    using t by (simp add: tx_status_op_def sample_hash_valid ok_then_def then_do_def found_status_def)
  then obtain out rt' c' where run: "tx_status_op pay_lib (\<lambda>_. tx_world) tx_ctx ?inp sample_state sample_clock = (Inr out, rt', c')"
    "so_settled (op_data out)" by blast
  from settled_means_final [OF run(1)] run sample_hash_valid show ?thesis by auto
qed

section \<open>What was sent where\<close>

text \<open>What a wave notes of a vendor is what that vendor's own attempt gave, at its position and from the common start.\<close>

lemma wave_says:
  "wave rx calls i cs rt c l = (rs, rt', c') \<Longrightarrow> j < length cs \<Longrightarrow>
     \<exists>rt1. rs ! j = (fst (cs ! j), fst (try_vendor rx (fst (cs ! j)) (calls (snd (cs ! j)) (i + j)) rt1 c))"
proof (induction rx calls i cs rt c l arbitrary: rs rt' c' j rule: wave.induct)
  case (2 rx calls i w p cs rt c l)
  obtain ra rt1 c1 where one: "try_vendor rx w (calls p i) rt c = (ra, rt1, c1)" by (metis prod_cases3)
  obtain rs2 rt2 c2 where rest: "wave rx calls (i + 1) cs rt1 c (if inst l < inst c1 then c1 else l) = (rs2, rt2, c2)"
    by (metis prod_cases3)
  from one rest 2(2) have rs: "rs = (w, ra) # rs2" by (simp add: wave.simps Let_def)
  show ?case
  proof (cases j)
    case 0
    with rs one show ?thesis by (intro exI [of _ rt]) simp
  next
    case (Suc n)
    with 2(3) 2(1) [OF one [symmetric] refl refl rest, of n] rs show ?thesis by simp
  qed
qed simp

text \<open>An attempt asks its vendor, or its own rate limit for that vendor has run out.\<close>

lemma try_vendor_asks:
  "(\<exists>k \<le> unat (retries (r_options rx)). fst (fst (try_vendor rx v calls rt c)) = attempt_reply rx v (calls k))
   \<or> (\<not> fst (acquire rt v (effective_budget_of (r_config rx) v) (max_rate_wait (r_options rx)) c)
      \<and> fst (fst (try_vendor rx v calls rt c)) = Inl (RateLimited None))"
proof -
  obtain ok rt1 c1 where acq: "acquire rt v (effective_budget_of (r_config rx) v)
      (max_rate_wait (r_options rx)) c = (ok, rt1, c1)" by (metis prod_cases3)
  show ?thesis
  proof (cases ok)
    case True
    with acq have "fst (fst (try_vendor rx v calls rt c)) = fst (tries_from rx v calls 0 rt1 c1)"
      by (simp add: try_vendor_def Let_def case_prod_unfold)
    with tries_from_reply [of 0 rx v calls rt1 c1] show ?thesis by auto
  next
    case False
    with acq show ?thesis by (simp add: try_vendor_def)
  qed
qed

definition accepted_in :: "(string \<times> (provider_error + broadcast_receipt)) list \<Rightarrow> string list" where
  "accepted_in rs = map fst (filter (\<lambda>(v, r). is_ok r) rs)"

lemma accepted_found: "find (\<lambda>(_, r). is_ok r) rs \<noteq> None \<Longrightarrow> accepted_in rs \<noteq> []"
  by (induction rs) (auto simp: accepted_in_def split: if_splits)

lemma summarize_partition:
  "summarize l h private rs = \<lparr>bt_tx_hash = h, bt_private = private, bt_accepted = accepted_in rs,
     bt_rejected = List.map_filter (\<lambda>(v, r). map_option (\<lambda>e. \<lparr>rj_vendor = v, rj_error = scrub l (show_provider_error e)\<rparr>) (err_of r)) rs,
     bt_mismatch = List.map_filter (\<lambda>(v, r). Option.bind (to_option r) (\<lambda>rc. if lower (br_tx_hash rc) = lower h then None else Some v)) rs\<rparr>"
proof -
  have "fold (note_receipt l) rs out = out\<lparr>bt_accepted := bt_accepted out @ accepted_in rs,
     bt_rejected := bt_rejected out @ List.map_filter (\<lambda>(v, r). map_option (\<lambda>e. \<lparr>rj_vendor = v, rj_error = scrub l (show_provider_error e)\<rparr>) (err_of r)) rs,
     bt_mismatch := bt_mismatch out @ List.map_filter (\<lambda>(v, r). Option.bind (to_option r)
       (\<lambda>rc. if lower (br_tx_hash rc) = lower (bt_tx_hash out) then None else Some v)) rs\<rparr>" for out
  proof (induction rs arbitrary: out)
    case (Cons x rs)
    obtain v r where x: "x = (v, r)" by (cases x)
    show ?case
      by (cases r) (simp_all add: Cons.IH x accepted_in_def is_ok_def err_of_def to_option_def map_filter_simps)
  qed (simp add: accepted_in_def map_filter_simps)
  then show ?thesis by (simp add: summarize_def)
qed

text \<open>
  The results of sending: the vendors asked are usable ones, in the order of the configuration, and the
  result of each is what that vendor itself answered to exactly the caller's bytes, on the first try or a
  retry, or that it took longer than an attempt may; but for a vendor whose configured request rate left no
  room within the wait the router allows.
\<close>

definition answered_send :: "'p tx_ports \<Rightarrow> ('s, 'p) vendor_world \<Rightarrow> ('s, 'p, 'q) op_ctx \<Rightarrow> broadcast_input \<Rightarrow> string \<Rightarrow> 'p \<Rightarrow> nat
    \<Rightarrow> provider_error + broadcast_receipt \<Rightarrow> bool" where
  "answered_send ps w cx inp v p j r \<longleftrightarrow> (\<exists>n \<le> unat (retries (r_options (cx_router cx))).
     r = (if w_took w p j n \<le> attempt_timeout_for (r_options (cx_router cx)) v then xp_send ps p j n (trim (bi_signed_tx inp))
          else Inl (Transient ''timeout'')))"

definition out_of_rate :: "('s, 'p, 'q) op_ctx \<Rightarrow> string \<Rightarrow> clock \<Rightarrow> bool" where
  "out_of_rate cx v c \<longleftrightarrow> (\<exists>b rt :: 's runtime. effective_budget_of (r_config (cx_router cx)) v = Some b
     \<and> \<not> fst (acquire rt v (Some b) (max_rate_wait (r_options (cx_router cx))) c))"

definition sent_to :: "'p tx_ports \<Rightarrow> ('s, 'p) vendor_world \<Rightarrow> ('s, 'p, 'q) op_ctx \<Rightarrow> chain_entry \<Rightarrow> broadcast_input \<Rightarrow> clock
    \<Rightarrow> (string \<times> (provider_error + broadcast_receipt)) list \<Rightarrow> bool" where
  "sent_to ps w cx ce inp c rs \<longleftrightarrow> (let req = broadcast_req cx ce (bi_private inp) in
     subseq (map fst rs) (order_of (cx_router cx) req)
     \<and> (\<forall>j < length rs. \<exists>p. serves (cx_router cx) req (fst (rs ! j)) p
          \<and> (answered_send ps w cx inp (fst (rs ! j)) p j (snd (rs ! j))
             \<or> snd (rs ! j) = Inl (RateLimited None) \<and> out_of_rate cx (fst (rs ! j)) c)))"

lemma broadcast_trait: "trait_of (rq_capability (broadcast_req cx ce private)) = BroadcasterT"
  by (simp add: broadcast_req_def broadcast_cap_def ctx_route_def new_req_def)

lemma send_all_results:
  assumes "send_all ps w cx ce inp h rt c = (Inr out, rt', c')"
    and "consider_all (cx_router cx) BroadcasterT (broadcast_req cx ce (bi_private inp)) c
      (order_of (cx_router cx) (broadcast_req cx ce (bi_private inp))) rt = (cs, skipped, rt1)"
  shows "\<exists>rs. sent_to ps w cx ce inp c rs \<and> map fst rs = map fst cs \<and> accepted_in rs \<noteq> []
    \<and> op_data out = summarize (cx_table cx) h (bi_private inp) rs"
proof -
  let ?req = "broadcast_req cx ce (bi_private inp)" and ?rx = "cx_router cx"
  let ?calls = "asks w (\<lambda>p i n. xp_send ps p i n (trim (bi_signed_tx inp)))"
  obtain rs rt2 c2 where w: "wave ?rx ?calls 0 cs rt1 c c = (rs, rt2, c2)" by (metis prod_cases3)
  define out_rs where "out_rs = map (\<lambda>(v, r, _). (v, r)) rs"
  have names: "map fst out_rs = map fst cs" using wave_vendors [OF w] by (simp add: out_rs_def comp_def case_prod_unfold)
  have cands: "subseq (map fst cs) (order_of ?rx ?req)" using consider_all_sound [OF assms(2)] by blast
  have serves: "serves ?rx ?req v p" if "(v, p) \<in> set cs" for v p
    using candidates_serve [of ?rx ?req c rt cs skipped rt1 v p] assms(2) that by (simp add: broadcast_trait)
  have "\<exists>p. serves ?rx ?req (fst (out_rs ! j)) p \<and> (answered_send ps w cx inp (fst (out_rs ! j)) p j (snd (out_rs ! j))
      \<or> snd (out_rs ! j) = Inl (RateLimited None) \<and> out_of_rate cx (fst (out_rs ! j)) c)" if "j < length out_rs" for j
  proof -
    obtain v p where vp: "cs ! j = (v, p)" by fastforce
    from that names have j: "j < length cs" by (metis length_map)
    from wave_says [OF w j] vp obtain rt2 where "rs ! j = (v, fst (try_vendor ?rx v (?calls p j) rt2 c))" by auto
    moreover have "j < length rs" using that by (simp add: out_rs_def)
    ultimately have at: "fst (out_rs ! j) = v" "snd (out_rs ! j) = fst (fst (try_vendor ?rx v (?calls p j) rt2 c))"
      by (simp_all add: out_rs_def case_prod_unfold)
    have "serves ?rx ?req v p" using serves vp j by (metis nth_mem)
    moreover from try_vendor_asks [of ?rx v "?calls p j" rt2 c] have "answered_send ps w cx inp v p j (snd (out_rs ! j))
        \<or> snd (out_rs ! j) = Inl (RateLimited None) \<and> out_of_rate cx v c"
    proof (elim disjE)
      assume "\<exists>k \<le> unat (retries (r_options ?rx)). fst (fst (try_vendor ?rx v (?calls p j) rt2 c)) = attempt_reply ?rx v (?calls p j k)"
      then show ?thesis unfolding at(2) [symmetric]
        by (auto simp: answered_send_def attempt_reply_def timed_def asks_def)
    next
      assume no: "\<not> fst (acquire rt2 v (effective_budget_of (r_config ?rx) v) (max_rate_wait (r_options ?rx)) c)
        \<and> fst (fst (try_vendor ?rx v (?calls p j) rt2 c)) = Inl (RateLimited None)"
      then obtain b where "effective_budget_of (r_config ?rx) v = Some b"
        by (cases "effective_budget_of (r_config ?rx) v") (simp_all add: acquire_def)
      with no at(2) show ?thesis by (auto simp: out_of_rate_def)
    qed
    ultimately show ?thesis unfolding at(1) by blast
  qed
  with names cands have sent: "sent_to ps w cx ce inp c out_rs" by (simp add: sent_to_def Let_def)
  from assms w have "fst (fan_out ?rx BroadcasterT ?req ?calls rt c) = Inr \<lparr>rd_value = out_rs,
      rd_provenance = op_meta out\<rparr> \<and> find (\<lambda>(_, r). is_ok r) out_rs \<noteq> None
      \<and> op_data out = summarize (cx_table cx) h (bi_private inp) out_rs"
    unfolding out_rs_def by (auto simp: send_all_def fan_out_def Let_def map_err_def and_then_def split: option.splits)
  moreover from this have "accepted_in out_rs \<noteq> []"
    using accepted_found by blast
  ultimately show ?thesis using sent names by blast
qed

text \<open>
  C14: A broadcast never sends key material: given what looks like a secret it returns one fixed error, the
  same whatever vendors there are and whatever the secret is, and no state or clock moves. Otherwise its
  report accounts for every vendor. On success the hash is the one computed from the signed bytes; the
  vendors are usable broadcasters - only private relays for a private send - in the configured order; the
  result of each is its own answer to the caller's bytes as they are, unless its rate limit had run out; the
  accepted ones took them and there is at least one; rejected and mismatched ones are exactly the others
  that failed or named another hash. A public send leaves out no vendor that was usable and whose breaker
  let it through: that another vendor had already accepted makes no difference.
\<close>

theorem broadcast_accounts_for_all:
  "(\<exists>e. \<forall>x (ps :: 'p tx_ports) (w :: ('s, 'p) vendor_world) (cx :: ('s, 'p, 'q) op_ctx) inp rt c.
      looks_like_secret (xl_codec x) (bi_signed_tx inp) \<longrightarrow> tx_broadcast x ps w cx inp rt c = (Inl e, rt, c))
    \<and> (\<forall>x (ps :: 'p tx_ports) (w :: ('s, 'p) vendor_world) (cx :: ('s, 'p, 'q) op_ctx) inp rt c out rt' c'.
        tx_broadcast x ps w cx inp rt c = (Inr out, rt', c') \<longrightarrow> (\<exists>ce h rs.
    ctx_chain cx (bi_chain inp) = Inr ce \<and> local_tx_hash x (ce_family ce) (bi_signed_tx inp) = Inr h
    \<and> rq_capability (broadcast_req cx ce (bi_private inp)) = (if bi_private inp then CapPrivateRelay else CapBroadcast)
    \<and> sent_to ps w cx ce inp c rs \<and> accepted_in rs \<noteq> []
    \<and> op_data out = \<lparr>bt_tx_hash = h, bt_private = bi_private inp, bt_accepted = accepted_in rs,
        bt_rejected = List.map_filter (\<lambda>(v, r). map_option (\<lambda>e. \<lparr>rj_vendor = v,
          rj_error = scrub (cx_table cx) (show_provider_error e)\<rparr>) (err_of r)) rs,
        bt_mismatch = List.map_filter (\<lambda>(v, r). Option.bind (to_option r)
          (\<lambda>rc. if lower (br_tx_hash rc) = lower h then None else Some v)) rs\<rparr>
    \<and> (\<not> bi_private inp \<longrightarrow> (\<forall>v p. v \<in> set (order_of (cx_router cx) (broadcast_req cx ce False))
        \<and> usable (cx_router cx) BroadcasterT (broadcast_req cx ce False) c rt (v, p) \<and> \<not> refused rt c v
        \<longrightarrow> v \<in> fst ` set rs))))"
proof (intro conjI allI impI)
  show "\<exists>e. \<forall>x (ps :: 'p tx_ports) (w :: ('s, 'p) vendor_world) (cx :: ('s, 'p, 'q) op_ctx) inp rt c.
      looks_like_secret (xl_codec x) (bi_signed_tx inp) \<longrightarrow> tx_broadcast x ps w cx inp rt c = (Inl e, rt, c)"
    by (intro exI [of _ "invalid (''input looks like a private key or seed phrase. This server never accepts ''
        @ ''secrets: sign in the user's wallet and pass the signed transaction'')"]) (simp add: tx_broadcast_def)
next
  fix x and ps :: "'p tx_ports" and w :: "('s, 'p) vendor_world" and cx :: "('s, 'p, 'q) op_ctx" and inp rt c out rt' c'
  assume "tx_broadcast x ps w cx inp rt c = (Inr out, rt', c')"
  then have run: "fst (tx_broadcast x ps w cx inp rt c) = Inr out" by simp
  then have secret: "\<not> looks_like_secret (xl_codec x) (bi_signed_tx inp)" by (auto simp: tx_broadcast_def)
  with run obtain ce where ce: "ctx_chain cx (bi_chain inp) = Inr ce"
    by (cases "ctx_chain cx (bi_chain inp)") (auto simp: tx_broadcast_def)
  with run secret obtain h where h: "local_tx_hash x (ce_family ce) (bi_signed_tx inp) = Inr h"
    by (cases "local_tx_hash x (ce_family ce) (bi_signed_tx inp)") (auto simp: tx_broadcast_def)
  obtain none rt0 c0 where look: "no_relay cx ce (bi_private inp) rt c = (none, rt0, c0)" by (metis prod_cases3)
  then have c0: "c0 = c" by (auto simp: no_relay_def split: if_splits prod.splits)
  from look run secret ce h have sent: "fst (send_all ps w cx ce inp h rt0 c) = Inr out"
    by (cases none) (auto simp: tx_broadcast_def c0)
  then obtain rt2 c2 where run: "send_all ps w cx ce inp h rt0 c = (Inr out, rt2, c2)" by (metis fst_conv prod_cases3)
  let ?req = "broadcast_req cx ce (bi_private inp)"
  obtain cs skipped rt1 where cs: "consider_all (cx_router cx) BroadcasterT ?req c (order_of (cx_router cx) ?req) rt0 = (cs, skipped, rt1)"
    by (metis prod_cases3)
  from send_all_results [OF run cs] obtain rs where rs: "sent_to ps w cx ce inp c rs" "map fst rs = map fst cs" "accepted_in rs \<noteq> []"
    "op_data out = summarize (cx_table cx) h (bi_private inp) rs" by blast
  have all: "v \<in> fst ` set rs" if "\<not> bi_private inp" "v \<in> set (order_of (cx_router cx) (broadcast_req cx ce False))"
    "usable (cx_router cx) BroadcasterT (broadcast_req cx ce False) c rt (v, p)" "\<not> refused rt c v" for v p
  proof -
    from look that(1) have "rt0 = rt" by (simp add: no_relay_def)
    with allowed_candidate [OF cs] that have "(v, p) \<in> set cs" by auto
    then have "v \<in> set (map fst cs)" by force
    then show ?thesis unfolding rs(2) [symmetric] by simp
  qed
  have "rq_capability ?req = (if bi_private inp then CapPrivateRelay else CapBroadcast)"
    by (simp add: broadcast_req_def broadcast_cap_def ctx_route_def new_req_def)
  with ce h rs all show "\<exists>ce h rs.
    ctx_chain cx (bi_chain inp) = Inr ce \<and> local_tx_hash x (ce_family ce) (bi_signed_tx inp) = Inr h
    \<and> rq_capability (broadcast_req cx ce (bi_private inp)) = (if bi_private inp then CapPrivateRelay else CapBroadcast)
    \<and> sent_to ps w cx ce inp c rs \<and> accepted_in rs \<noteq> []
    \<and> op_data out = \<lparr>bt_tx_hash = h, bt_private = bi_private inp, bt_accepted = accepted_in rs,
        bt_rejected = List.map_filter (\<lambda>(v, r). map_option (\<lambda>e. \<lparr>rj_vendor = v,
          rj_error = scrub (cx_table cx) (show_provider_error e)\<rparr>) (err_of r)) rs,
        bt_mismatch = List.map_filter (\<lambda>(v, r). Option.bind (to_option r)
          (\<lambda>rc. if lower (br_tx_hash rc) = lower h then None else Some v)) rs\<rparr>
    \<and> (\<not> bi_private inp \<longrightarrow> (\<forall>v p. v \<in> set (order_of (cx_router cx) (broadcast_req cx ce False))
        \<and> usable (cx_router cx) BroadcasterT (broadcast_req cx ce False) c rt (v, p) \<and> \<not> refused rt c v
        \<longrightarrow> v \<in> fst ` set rs))" unfolding summarize_partition by blast
qed

text \<open>
  Looking for a relay first costs the relay its probe: when the only relay's breaker is open past its
  cooldown, the look makes it half open with its probe taken, the fan-out then skips it, nothing is sent,
  and no later request can use the relay.
\<close>

lemma private_probe_lost:
  assumes "bi_private inp" and "\<not> looks_like_secret (xl_codec x) (bi_signed_tx inp)"
    and "ctx_chain cx (bi_chain inp) = Inr ce" and "local_tx_hash x (ce_family ce) (bi_signed_tx inp) = Inr h"
    and "order_of (cx_router cx) (broadcast_req cx ce True) = [v]"
    and "usable (cx_router cx) BroadcasterT (broadcast_req cx ce True) c rt (v, p)"
    and "st_breaker (vendors rt v) = Open u" and "u \<le> inst c"
  shows "\<exists>e rt'. tx_broadcast x ps w cx inp rt c = (Inl e, rt', c) \<and> (\<forall>c'. refused rt' c' v)"
proof -
  let ?rx = "cx_router cx" and ?req = "broadcast_req cx ce True"
  obtain r rt1 where one: "consider_vendor ?rx BroadcasterT ?req c v rt = (r, rt1)" by fastforce
  have first: "r = Inr p" "st_breaker (vendors rt1 v) = HalfOpen True"
    using assms(6-8) one by (auto simp: consider_vendor_def usable_def Let_def split_beta breaker_allows_def with_vendor_def)
  then have stuck: "refused rt1 c' v" for c' by (simp add: refused_def)
  obtain r2 rt2 where two: "consider_vendor ?rx BroadcasterT ?req c v rt1 = (r2, rt2)" by fastforce
  with consider_refused [of ?rx BroadcasterT ?req c v rt1 _ rt2] stuck obtain why where "r2 = Inl why" by (cases r2) auto
  moreover have still: "refused rt2 c' v" for c'
    using consider_breaker [OF two, of v] stuck by (simp add: refused_def)
  ultimately have "send_all ps w cx ce inp h rt1 c = (Inl (re_error (route_error_of ?req None [skip_row v why])), rt2, c)"
    using two assms(1,5) by (simp add: send_all_def fan_out_def consider_all.simps wave.simps last_error_def hd_opt_def
        map_filter_simps map_err_def)
  moreover have "no_relay cx ce True rt c = (False, rt1, c)"
    using one first assms(5) by (simp add: no_relay_def consider_all.simps)
  ultimately have "tx_broadcast x ps w cx inp rt c = (Inl (re_error (route_error_of ?req None [skip_row v why])), rt2, c)"
    using assms(1-4) by (simp add: tx_broadcast_def then_do_def)
  with still show ?thesis by blast
qed

section \<open>A sample broadcast\<close>

definition tx_lib_sample :: tx_lib where
  "tx_lib_sample = \<lparr>xl_ops = pay_lib, xl_hash = \<lparr>sha256 = (\<lambda>_. replicate 32 0), on_curve = (\<lambda>_. False)\<rparr>,
     xl_dec = \<lparr>dl_parse = (\<lambda>_. None), dl_mul = (\<lambda>x y. Some (x * y)), dl_div = (\<lambda>x y. None)\<rparr>,
     xl_base64 = \<lparr>b64_encode = (\<lambda>_. []), b64_decode = (\<lambda>_. Some (1 # replicate 64 1))\<rparr>, xl_keccak = (\<lambda>b. b),
     xl_transfer_call = (\<lambda>_ _. [])\<rparr>"

definition sample_ports :: "nat tx_ports" where
  "sample_ports = \<lparr>xp_price = (\<lambda>_ _ _ _ _. Inl NotFound), xp_fee = (\<lambda>_ _ _. Inl NotFound),
     xp_simulate = (\<lambda>_ _ _ _ _. Inl NotFound), xp_send = (\<lambda>_ _ _ _. Inr \<lparr>br_tx_hash = [], br_private = False\<rparr>)\<rparr>"

definition sample_broadcast :: broadcast_input where
  "sample_broadcast = \<lparr>bi_chain = ''solana'', bi_signed_tx = ''AB'', bi_private = False\<rparr>"

lemma sample_signed:
  "\<not> looks_like_secret (xl_codec tx_lib_sample) ''AB''" "local_tx_hash tx_lib_sample (ce_family sample_solana) ''AB'' = Inr []"
proof -
  have "trim ''AB'' = ''AB''" by (rule trim_id) (simp add: is_space_def)
  then show "\<not> looks_like_secret (xl_codec tx_lib_sample) ''AB''" "local_tx_hash tx_lib_sample (ce_family sample_solana) ''AB'' = Inr []"
    by (simp_all add: looks_like_secret_def strip_prefix_def starts_with_def is_space_def local_tx_hash_def sample_solana_def
        tx_lib_sample_def xl_codec_def ol_codec_def pay_lib_def ev_lib_def ev_codec_def list_all_iff)
qed

theorem broadcast_accounts_for_all_witness:
  "\<exists>out rt' c'. tx_broadcast tx_lib_sample sample_ports tx_world tx_ctx sample_broadcast sample_state sample_clock = (Inr out, rt', c')
     \<and> bt_accepted (op_data out) \<noteq> []"
proof -
  let ?req = "broadcast_req tx_ctx sample_solana False"
  let ?f = "\<lambda>p i n. xp_send sample_ports p i n (trim ''AB'')"
  have cap: "rq_capability ?req = CapBroadcast" by (simp add: broadcast_req_def broadcast_cap_def ctx_route_def new_req_def)
  have lone: "lone tx_env (rq_capability ?req)" by (rule tx_lone) (simp add: cap tx_caps_def)
  from lone_considered [OF lone sample_healthy, of sample_clock] obtain rt1 where
    cs: "consider_all tx_env BroadcasterT ?req sample_clock (order_of tx_env ?req) sample_state = ([(''a'', 0)], [], rt1)" "healthy rt1"
    unfolding broadcast_trait by blast
  have "?f 0 0 0 = Inr \<lparr>br_tx_hash = [], br_private = False\<rparr>" by (simp add: sample_ports_def)
  from lone_try [OF lone cs(2) tx_world_calm, where f = ?f, OF this, of sample_clock] obtain row rt2 c2 where
    "try_vendor tx_env ''a'' (asks tx_world ?f 0 0) rt1 sample_clock = ((Inr \<lparr>br_tx_hash = [], br_private = False\<rparr>, row), rt2, c2)" by blast
  then have "is_ok (fst (send_all sample_ports tx_world tx_ctx sample_solana sample_broadcast [] sample_state sample_clock))"
    using cs(1) by (simp add: send_all_def fan_out_def sample_broadcast_def wave.simps map_err_def is_ok_def)
  then have "is_ok (fst (tx_broadcast tx_lib_sample sample_ports tx_world tx_ctx sample_broadcast sample_state sample_clock))"
    using sample_signed by (simp add: tx_broadcast_def sample_broadcast_def tx_chain no_relay_def then_do_def)
  then obtain out rt' c' where run: "tx_broadcast tx_lib_sample sample_ports tx_world tx_ctx sample_broadcast sample_state sample_clock = (Inr out, rt', c')"
    by (auto simp: is_ok_def split: sum.splits) (metis prod.collapse)
  from conjunct2 [OF broadcast_accounts_for_all, rule_format, OF run] have "bt_accepted (op_data out) \<noteq> []" by auto
  with run show ?thesis by blast
qed

end
