(* ===== verification/MessageBuild.thy ===== *)
theory MessageBuild
  imports Spl
begin

text \<open>
  Compiling a Solana message (\<open>crates/app/src/ops/tx.rs\<close>, \<open>compile_message\<close>): instructions on named
  accounts become a header, a list of keys and instructions on positions. What it compiles reads back,
  with the decoder of \<open>protocols/solana/tx.rs\<close>, as the same instructions on the same accounts.
\<close>

section \<open>Instructions and accounts\<close>

record acct_meta =
  am_key :: pubkey
  am_signer :: bool
  am_writable :: bool

definition meta_signer :: "pubkey \<Rightarrow> acct_meta" where
  "meta_signer k = \<lparr>am_key = k, am_signer = True, am_writable = True\<rparr>"

definition meta_writable :: "pubkey \<Rightarrow> acct_meta" where
  "meta_writable k = \<lparr>am_key = k, am_signer = False, am_writable = True\<rparr>"

definition meta_readonly :: "pubkey \<Rightarrow> acct_meta" where
  "meta_readonly k = \<lparr>am_key = k, am_signer = False, am_writable = False\<rparr>"

record sol_ix =
  six_program :: pubkey
  six_accounts :: "acct_meta list"
  six_data :: "u8 list"

function compact_u16 :: "nat \<Rightarrow> u8 list \<Rightarrow> u8 list" where
  "compact_u16 n out =
     (let b = of_nat (n AND 0x7F); n' = drop_bit 7 n
      in if n' = 0 then out @ [b] else compact_u16 n' (out @ [b OR 0x80]))"
  by pat_completeness auto
termination
  by (relation "measure fst") (auto simp: drop_bit_eq_div div_greater_zero_iff split: if_splits)

declare compact_u16.simps [simp del]

section \<open>Keys\<close>

text \<open>A key that is there gains the flags, a new one goes last.\<close>

fun add_meta :: "acct_meta \<Rightarrow> acct_meta list \<Rightarrow> acct_meta list" where
  "add_meta m [] = [m]"
| "add_meta m (k # ks) = (if am_key k = am_key m
     then k\<lparr>am_signer := am_signer k \<or> am_signer m, am_writable := am_writable k \<or> am_writable m\<rparr> # ks
     else k # add_meta m ks)"

definition ix_metas :: "sol_ix \<Rightarrow> acct_meta list" where
  "ix_metas ix = six_accounts ix @ [meta_readonly (six_program ix)]"

definition collect_keys :: "pubkey \<Rightarrow> sol_ix list \<Rightarrow> acct_meta list" where
  "collect_keys fp ixs = fold add_meta (concat (map ix_metas ixs)) [meta_signer fp]"

definition sort_keys :: "acct_meta list \<Rightarrow> acct_meta list" where
  "sort_keys ks = sort_key (\<lambda>m. (\<not> am_signer m, \<not> am_writable m)) ks"

fun position :: "('a \<Rightarrow> bool) \<Rightarrow> 'a list \<Rightarrow> nat option" where
  "position P [] = None"
| "position P (x # xs) = (if P x then Some 0 else map_option Suc (position P xs))"

definition key_index :: "acct_meta list \<Rightarrow> pubkey \<Rightarrow> domain_error + u8" where
  "key_index ks k = ok_or (internal ''compile_message: account key not collected'')
     (map_option of_nat (position (\<lambda>m. am_key m = k) ks))"

definition count_keys :: "acct_meta list \<Rightarrow> bool \<Rightarrow> bool \<Rightarrow> nat" where
  "count_keys ks s w = length (filter (\<lambda>m. am_signer m = s \<and> am_writable m = w) ks)"

section \<open>The message\<close>

definition compile_ix :: "acct_meta list \<Rightarrow> u8 list \<Rightarrow> sol_ix \<Rightarrow> domain_error + u8 list" where
  "compile_ix ks out ix =
     and_then (key_index ks (six_program ix)) (\<lambda>p.
     and_then (collect_results (map (\<lambda>a. key_index ks (am_key a)) (six_accounts ix))) (\<lambda>idx.
       Inr (compact_u16 (length (six_data ix)) (compact_u16 (length (six_accounts ix)) (out @ [p]) @ idx) @ six_data ix)))"

fun compile_ixs :: "acct_meta list \<Rightarrow> u8 list \<Rightarrow> sol_ix list \<Rightarrow> domain_error + u8 list" where
  "compile_ixs ks out [] = Inr out"
| "compile_ixs ks out (ix # ixs) = and_then (compile_ix ks out ix) (\<lambda>out. compile_ixs ks out ixs)"

definition compile_message :: "pubkey \<Rightarrow> sol_ix list \<Rightarrow> u8 list \<Rightarrow> domain_error + u8 list" where
  "compile_message fp ixs blockhash =
     (let ks = sort_keys (collect_keys fp ixs);
          out = [of_nat (length (filter am_signer ks)), of_nat (count_keys ks True False), of_nat (count_keys ks False False)];
          out = compact_u16 (length ks) out @ concat (map (\<lambda>m. key_bytes (am_key m)) ks) @ blockhash
      in compile_ixs ks (compact_u16 (length ixs) out) ixs)"

section \<open>Collected keys\<close>

lemma compact_u16_encode: "compact_u16 n out = out @ encode_compact n"
proof (induction n out rule: compact_u16.induct)
  case (1 n out)
  then show ?case
    by (subst compact_u16.simps, subst encode_compact.simps) (simp add: Let_def)
qed

definition flagged :: "(acct_meta \<Rightarrow> bool) \<Rightarrow> acct_meta list \<Rightarrow> pubkey \<Rightarrow> bool" where
  "flagged f ks k \<longleftrightarrow> (\<exists>m \<in> set ks. am_key m = k \<and> f m)"

lemma flagged_simps [simp]:
  "\<not> flagged f [] k"
  "flagged f (m # ms) k \<longleftrightarrow> (am_key m = k \<and> f m) \<or> flagged f ms k"
  by (auto simp: flagged_def)

lemma add_meta_keys:
  "map am_key (add_meta m ks) = (if am_key m \<in> am_key ` set ks then map am_key ks else map am_key ks @ [am_key m])"
  by (induction ks) auto

lemma add_meta_flagged:
  "flagged am_signer (add_meta m ks) k \<longleftrightarrow> flagged am_signer ks k \<or> (am_key m = k \<and> am_signer m)"
  "flagged am_writable (add_meta m ks) k \<longleftrightarrow> flagged am_writable ks k \<or> (am_key m = k \<and> am_writable m)"
  by (induction ks) auto

lemma add_meta_hd:
  "ks \<noteq> [] \<Longrightarrow> hd (add_meta m ks) = hd ks \<or>
     hd (add_meta m ks) = (hd ks)\<lparr>am_signer := am_signer (hd ks) \<or> am_signer m, am_writable := am_writable (hd ks) \<or> am_writable m\<rparr>"
  by (cases ks) auto

lemma fold_metas:
  assumes "distinct (map am_key ks)"
  shows "distinct (map am_key (fold add_meta ms ks))
    \<and> am_key ` set (fold add_meta ms ks) = am_key ` set ks \<union> am_key ` set ms
    \<and> (\<forall>k. flagged am_signer (fold add_meta ms ks) k \<longleftrightarrow> flagged am_signer ks k \<or> flagged am_signer ms k)
    \<and> (\<forall>k. flagged am_writable (fold add_meta ms ks) k \<longleftrightarrow> flagged am_writable ks k \<or> flagged am_writable ms k)"
  using assms
proof (induction ms arbitrary: ks)
  case (Cons m ms)
  have "distinct (map am_key (add_meta m ks))" using Cons.prems by (auto simp: add_meta_keys)
  from Cons.IH [OF this] have ih: "distinct (map am_key (fold add_meta ms (add_meta m ks)))"
    "am_key ` set (fold add_meta ms (add_meta m ks)) = am_key ` set (add_meta m ks) \<union> am_key ` set ms"
    "\<And>k. flagged am_signer (fold add_meta ms (add_meta m ks)) k \<longleftrightarrow> flagged am_signer (add_meta m ks) k \<or> flagged am_signer ms k"
    "\<And>k. flagged am_writable (fold add_meta ms (add_meta m ks)) k \<longleftrightarrow> flagged am_writable (add_meta m ks) k \<or> flagged am_writable ms k"
    by blast+
  have "am_key ` set (add_meta m ks) = insert (am_key m) (am_key ` set ks)"
    using arg_cong [OF add_meta_keys [of m ks], of set] by (auto split: if_splits)
  with ih show ?case by (simp add: add_meta_flagged)
qed simp

lemma fold_metas_hd:
  "ks \<noteq> [] \<Longrightarrow> am_key (hd ks) = p \<and> am_signer (hd ks) \<and> am_writable (hd ks) \<Longrightarrow>
    fold add_meta ms ks \<noteq> [] \<and> am_key (hd (fold add_meta ms ks)) = p
      \<and> am_signer (hd (fold add_meta ms ks)) \<and> am_writable (hd (fold add_meta ms ks))"
proof (induction ms arbitrary: ks)
  case (Cons m ms)
  from add_meta_hd [OF Cons.prems(1), of m] Cons.prems
  have "add_meta m ks \<noteq> [] \<and> am_key (hd (add_meta m ks)) = p \<and> am_signer (hd (add_meta m ks)) \<and> am_writable (hd (add_meta m ks))"
    by (cases ks) auto
  with Cons.IH [of "add_meta m ks"] show ?case by simp
qed simp

definition mentions :: "pubkey \<Rightarrow> sol_ix list \<Rightarrow> pubkey set" where
  "mentions fp ixs = insert fp (am_key ` set (concat (map ix_metas ixs)))"

definition signs :: "pubkey \<Rightarrow> sol_ix list \<Rightarrow> pubkey \<Rightarrow> bool" where
  "signs fp ixs k \<longleftrightarrow> k = fp \<or> (\<exists>ix \<in> set ixs. \<exists>a \<in> set (six_accounts ix). am_key a = k \<and> am_signer a)"

definition written :: "pubkey \<Rightarrow> sol_ix list \<Rightarrow> pubkey \<Rightarrow> bool" where
  "written fp ixs k \<longleftrightarrow> k = fp \<or> (\<exists>ix \<in> set ixs. \<exists>a \<in> set (six_accounts ix). am_key a = k \<and> am_writable a)"

lemma collect_spec:
  "distinct (map am_key (collect_keys fp ixs))"
  "am_key ` set (collect_keys fp ixs) = mentions fp ixs"
  "flagged am_signer (collect_keys fp ixs) k \<longleftrightarrow> signs fp ixs k"
  "flagged am_writable (collect_keys fp ixs) k \<longleftrightarrow> written fp ixs k"
  using fold_metas [of "[meta_signer fp]" "concat (map ix_metas ixs)"]
  by (auto simp: collect_keys_def mentions_def signs_def written_def flagged_def ix_metas_def meta_signer_def meta_readonly_def)

lemma collect_flags:
  assumes "m \<in> set (collect_keys fp ixs)"
  shows "am_signer m \<longleftrightarrow> signs fp ixs (am_key m)" "am_writable m \<longleftrightarrow> written fp ixs (am_key m)"
proof -
  have "f m \<longleftrightarrow> flagged f (collect_keys fp ixs) (am_key m)" for f
    using assms collect_spec(1) [of fp ixs] by (auto simp: flagged_def distinct_map inj_on_def)
  from this [of am_signer] this [of am_writable]
  show "am_signer m \<longleftrightarrow> signs fp ixs (am_key m)" "am_writable m \<longleftrightarrow> written fp ixs (am_key m)"
    by (simp_all add: collect_spec)
qed

section \<open>Sorted keys\<close>

lemma filter_split:
  "sorted_wrt (\<lambda>a b. P b \<longrightarrow> P a) ys \<Longrightarrow> ys = filter P ys @ filter (\<lambda>y. \<not> P y) ys"
proof (induction ys)
  case (Cons y ys)
  then show ?case
  proof (cases "P y")
    case False
    with Cons.prems have "filter P ys = []" "filter (\<lambda>y. \<not> P y) ys = ys" by (auto simp: filter_empty_conv filter_id_conv)
    with False show ?thesis by simp
  qed simp
qed simp

lemma distinct_by_card: "distinct xs \<longleftrightarrow> card (set xs) = length xs"
  by (rule iffI, erule distinct_card, erule card_distinct)

lemma sort_keys_simps [simp]:
  "set (sort_keys ks) = set ks" "length (sort_keys ks) = length ks"
  by (simp_all add: sort_keys_def)

lemma sort_keys_distinct [simp]: "distinct (map am_key (sort_keys ks)) \<longleftrightarrow> distinct (map am_key ks)"
  by (simp only: distinct_by_card set_map sort_keys_simps length_map)

lemma sort_keys_order:
  "sorted_wrt (\<lambda>a b. (am_signer a \<and> \<not> am_signer b) \<or> (am_signer a = am_signer b \<and> (am_writable b \<longrightarrow> am_writable a))) (sort_keys ks)"
proof -
  have "sorted_wrt (\<lambda>a b. (\<not> am_signer a, \<not> am_writable a) \<le> (\<not> am_signer b, \<not> am_writable b)) (sort_keys ks)"
    using sorted_sort_key [of "\<lambda>m. (\<not> am_signer m, \<not> am_writable m)" ks] by (simp add: sort_keys_def sorted_map)
  then show ?thesis by (rule sorted_wrt_mono_rel [rotated]) (auto simp: less_eq_prod_def)
qed

text \<open>Signers first, and the writable ones first among signers and among the others.\<close>

lemma sort_keys_split:
  fixes ks
  defines "ys \<equiv> sort_keys ks"
  shows "ys = filter am_signer ys @ filter (\<lambda>m. \<not> am_signer m) ys"
    and "filter am_signer ys = filter (\<lambda>m. am_signer m \<and> am_writable m) ys @ filter (\<lambda>m. am_signer m \<and> \<not> am_writable m) ys"
    and "filter (\<lambda>m. \<not> am_signer m) ys
      = filter (\<lambda>m. \<not> am_signer m \<and> am_writable m) ys @ filter (\<lambda>m. \<not> am_signer m \<and> \<not> am_writable m) ys"
proof -
  note ord = sort_keys_order [of ks, folded ys_def]
  show "ys = filter am_signer ys @ filter (\<lambda>m. \<not> am_signer m) ys"
    by (rule filter_split, rule sorted_wrt_mono_rel [OF _ ord]) auto
  have "sorted_wrt (\<lambda>a b. am_writable b \<longrightarrow> am_writable a) (filter P ys)"
    if "\<And>a b. P a \<Longrightarrow> P b \<Longrightarrow> am_signer a = am_signer b" for P
  proof -
    have "sorted_wrt (\<lambda>a b. (am_signer a \<and> \<not> am_signer b) \<or> (am_signer a = am_signer b \<and> (am_writable b \<longrightarrow> am_writable a)))
        (filter P ys)" by (rule sorted_wrt_filter [OF ord])
    then show ?thesis by (rule sorted_wrt_mono_rel [rotated]) (use that in auto)
  qed
  from filter_split [OF this [of am_signer]] filter_split [OF this [of "\<lambda>m. \<not> am_signer m"]]
  show "filter am_signer ys = filter (\<lambda>m. am_signer m \<and> am_writable m) ys @ filter (\<lambda>m. am_signer m \<and> \<not> am_writable m) ys"
    "filter (\<lambda>m. \<not> am_signer m) ys
      = filter (\<lambda>m. \<not> am_signer m \<and> am_writable m) ys @ filter (\<lambda>m. \<not> am_signer m \<and> \<not> am_writable m) ys"
    by (simp_all add: conj_commute)
qed

lemma sort_keys_hd:
  assumes "ks \<noteq> []" and "am_signer (hd ks)" and "am_writable (hd ks)"
  shows "hd (sort_keys ks) = hd ks"
proof -
  obtain x xs where ks: "ks = x # xs" using assms(1) by (cases ks) auto
  have "insort_key f x zs = x # zs" if "\<And>z. f x \<le> f z" for f :: "acct_meta \<Rightarrow> bool \<times> bool" and zs
    using that by (cases zs) auto
  with assms(2,3) show ?thesis by (simp add: sort_keys_def ks less_eq_prod_def)
qed

lemma collect_hd:
  "collect_keys fp ixs \<noteq> []" "am_key (hd (collect_keys fp ixs)) = fp"
  "am_signer (hd (collect_keys fp ixs))" "am_writable (hd (collect_keys fp ixs))"
  using fold_metas_hd [of "[meta_signer fp]" fp "concat (map ix_metas ixs)"]
  by (simp_all add: collect_keys_def meta_signer_def)

section \<open>Positions\<close>

lemma position_Some:
  assumes "distinct (map f ks)" and "i < length ks" and "f (ks ! i) = k"
  shows "position (\<lambda>m. f m = k) ks = Some i"
  using assms
proof (induction ks arbitrary: i)
  case (Cons x ks)
  show ?case
  proof (cases i)
    case (Suc j)
    with Cons.prems have "f (ks ! j) = k" "j < length ks" by simp_all
    then have "k \<in> f ` set ks" by (metis image_eqI nth_mem)
    then have "f x \<noteq> k" using Cons.prems(1) by auto
    with Cons Suc show ?thesis by simp
  qed (use Cons.prems in simp)
qed simp

lemma key_index_ok:
  assumes "distinct (map am_key ks)" and "k \<in> am_key ` set ks" and "length ks < 256"
  shows "\<exists>i. key_index ks k = Inr i \<and> nth_opt (map (\<lambda>m. key_bytes (am_key m)) ks) (unat i) = Some (key_bytes k)"
proof -
  obtain j where j: "j < length ks" "am_key (ks ! j) = k" using assms(2) by (auto simp: in_set_conv_nth)
  then have "key_index ks k = Inr (of_nat j)"
    using position_Some [OF assms(1) j(1,2)] by (simp add: key_index_def)
  moreover have "unat (of_nat j :: u8) = j" using j(1) assms(3) by (simp add: unat_of_nat)
  ultimately show ?thesis using j by (auto simp: nth_opt_def)
qed

text \<open>An instruction as the decoder shows it, and what it is about.\<close>

definition resolve_ix :: "wire_message \<Rightarrow> wire_ix \<Rightarrow> u8 list option \<times> u8 list option list \<times> u8 list" where
  "resolve_ix m ix = (nth_opt (msg_keys m) (unat (program_index ix)),
     map (\<lambda>i. nth_opt (msg_keys m) (unat i)) (ix_accounts ix), ix_data ix)"

definition content :: "sol_ix \<Rightarrow> u8 list option \<times> u8 list option list \<times> u8 list" where
  "content ix = (Some (key_bytes (six_program ix)), map (\<lambda>a. Some (key_bytes (am_key a))) (six_accounts ix), six_data ix)"

definition wire_of :: "u8 list list \<Rightarrow> sol_ix \<Rightarrow> wire_ix \<Rightarrow> bool" where
  "wire_of keys ix w \<longleftrightarrow> nth_opt keys (unat (program_index w)) = Some (key_bytes (six_program ix))
     \<and> map (\<lambda>i. nth_opt keys (unat i)) (ix_accounts w) = map (\<lambda>a. Some (key_bytes (am_key a))) (six_accounts ix)
     \<and> ix_data w = six_data ix"

lemma indices_ok:
  assumes "distinct (map am_key ks)" and "am_key ` set as \<subseteq> am_key ` set ks" and "length ks < 256"
  shows "\<exists>is. collect_results (map (\<lambda>a. key_index ks (am_key a)) as) = Inr is
    \<and> map (\<lambda>i. nth_opt (map (\<lambda>m. key_bytes (am_key m)) ks) (unat i)) is = map (\<lambda>a. Some (key_bytes (am_key a))) as"
  using assms(2)
proof (induction as)
  case (Cons a as)
  then obtain i where i: "key_index ks (am_key a) = Inr i"
    "nth_opt (map (\<lambda>m. key_bytes (am_key m)) ks) (unat i) = Some (key_bytes (am_key a))"
    using key_index_ok [OF assms(1) _ assms(3), of "am_key a"] by auto
  from Cons obtain js where "collect_results (map (\<lambda>a. key_index ks (am_key a)) as) = Inr js"
    "map (\<lambda>i. nth_opt (map (\<lambda>m. key_bytes (am_key m)) ks) (unat i)) js = map (\<lambda>a. Some (key_bytes (am_key a))) as" by auto
  with i show ?case by (intro exI [of _ "i # js"]) simp
qed simp

lemma compile_ixs_ok:
  assumes "distinct (map am_key ks)" and "length ks < 256"
    and "\<forall>ix \<in> set ixs. am_key ` set (ix_metas ix) \<subseteq> am_key ` set ks"
  shows "\<exists>ws. compile_ixs ks out ixs = Inr (out @ concat (map encode_ix ws))
    \<and> list_all2 (wire_of (map (\<lambda>m. key_bytes (am_key m)) ks)) ixs ws"
  using assms(3)
proof (induction ixs arbitrary: out)
  case (Cons ix ixs)
  then have sub: "six_program ix \<in> am_key ` set ks" "am_key ` set (six_accounts ix) \<subseteq> am_key ` set ks"
    by (auto simp: ix_metas_def meta_readonly_def)
  from key_index_ok [OF assms(1) sub(1) assms(2)] obtain p where
    p: "key_index ks (six_program ix) = Inr p"
    "nth_opt (map (\<lambda>m. key_bytes (am_key m)) ks) (unat p) = Some (key_bytes (six_program ix))" by blast
  from indices_ok [OF assms(1) sub(2) assms(2)] obtain js where
    js: "collect_results (map (\<lambda>a. key_index ks (am_key a)) (six_accounts ix)) = Inr js"
    "map (\<lambda>i. nth_opt (map (\<lambda>m. key_bytes (am_key m)) ks) (unat i)) js = map (\<lambda>a. Some (key_bytes (am_key a))) (six_accounts ix)" by blast
  let ?w = "\<lparr>program_index = p, ix_accounts = js, ix_data = six_data ix\<rparr>"
  have len: "length js = length (six_accounts ix)" using arg_cong [OF js(2), of length] by simp
  have "compile_ix ks out ix = Inr (out @ encode_ix ?w)"
    by (simp add: compile_ix_def p js compact_u16_encode encode_ix_def len)
  moreover from Cons.IH [of "out @ encode_ix ?w"] Cons.prems obtain ws where
    "compile_ixs ks (out @ encode_ix ?w) ixs = Inr ((out @ encode_ix ?w) @ concat (map encode_ix ws))"
    "list_all2 (wire_of (map (\<lambda>m. key_bytes (am_key m)) ks)) ixs ws" by auto
  moreover have "wire_of (map (\<lambda>m. key_bytes (am_key m)) ks) ix ?w" using p js by (simp add: wire_of_def)
  ultimately show ?case by (intro exI [of _ "?w # ws"]) simp
qed simp

section \<open>What is compiled reads back\<close>

lemma key_bytes_inj [simp]: "key_bytes a = key_bytes b \<longleftrightarrow> a = b"
  by (rule iffI, rule pubkey.expand) simp_all

lemma small_count: "n < 128 \<Longrightarrow> unat (of_nat n :: u8) = n" "n < 128 \<Longrightarrow> (of_nat n :: u8) AND 0x80 = 0"
  using flag7(1) [of n] by (simp_all add: unat_of_nat)

definition message_of :: "pubkey \<Rightarrow> sol_ix list \<Rightarrow> u8 list \<Rightarrow> wire_ix list \<Rightarrow> wire_message" where
  "message_of fp ixs blockhash ws = (let ks = sort_keys (collect_keys fp ixs) in
     \<lparr>required_signatures = of_nat (length (filter am_signer ks)), msg_keys = map (\<lambda>m. key_bytes (am_key m)) ks,
      recent_blockhash = blockhash, msg_instructions = ws\<rparr>)"

lemma compile_message_encodes:
  assumes "length (collect_keys fp ixs) < 128"
  shows "\<exists>ws. compile_message fp ixs blockhash = Inr (encode_message False
        (of_nat (count_keys (sort_keys (collect_keys fp ixs)) True False))
        (of_nat (count_keys (sort_keys (collect_keys fp ixs)) False False)) (message_of fp ixs blockhash ws) [])
    \<and> list_all2 (wire_of (msg_keys (message_of fp ixs blockhash ws))) ixs ws"
proof -
  let ?ks = "sort_keys (collect_keys fp ixs)"
  have "\<forall>ix \<in> set ixs. am_key ` set (ix_metas ix) \<subseteq> am_key ` set ?ks"
    using collect_spec(2) [of fp ixs] by (auto simp: mentions_def)
  from compile_ixs_ok [of ?ks, OF _ _ this] assms collect_spec(1) [of fp ixs] obtain ws where
    "compile_ixs ?ks (compact_u16 (length ixs) (compact_u16 (length ?ks)
        [of_nat (length (filter am_signer ?ks)), of_nat (count_keys ?ks True False), of_nat (count_keys ?ks False False)]
        @ concat (map (key_bytes \<circ> am_key) ?ks) @ blockhash)) ixs
      = Inr (compact_u16 (length ixs) (compact_u16 (length ?ks)
        [of_nat (length (filter am_signer ?ks)), of_nat (count_keys ?ks True False), of_nat (count_keys ?ks False False)]
        @ concat (map (key_bytes \<circ> am_key) ?ks) @ blockhash) @ concat (map encode_ix ws))"
    and ws: "list_all2 (wire_of (map (\<lambda>m. key_bytes (am_key m)) ?ks)) ixs ws" by fastforce
  then have "compile_message fp ixs blockhash = Inr (encode_message False (of_nat (count_keys ?ks True False))
      (of_nat (count_keys ?ks False False)) (message_of fp ixs blockhash ws) [])"
    using list_all2_lengthD [OF ws]
    by (simp add: compile_message_def encode_message_def message_of_def Let_def compact_u16_encode o_def)
  with ws show ?thesis by (auto simp: message_of_def Let_def)
qed

text \<open>The keys a message lets its instructions write: the first signers and the first others.\<close>

definition header_writable :: "u8 list \<Rightarrow> wire_message \<Rightarrow> nat \<Rightarrow> bool" where
  "header_writable bs m i \<longleftrightarrow> (let s = unat (required_signatures m) in
     if i < s then i < s - unat (bs ! 1) else i < length (msg_keys m) - unat (bs ! 2))"

lemma nth_quarters:
  assumes "list_all P A" "list_all (\<lambda>x. \<not> P x) B" "list_all P C" "list_all (\<lambda>x. \<not> P x) D"
    and "i < length (A @ B @ C @ D)"
  shows "P ((A @ B @ C @ D) ! i) \<longleftrightarrow> (if i < length A + length B then i < length A else i < length A + length B + length C)"
  using assms by (auto simp: nth_append list_all_length)

lemma nth_halves:
  assumes "list_all P A" "list_all (\<lambda>x. \<not> P x) B" and "i < length (A @ B)"
  shows "P ((A @ B) ! i) \<longleftrightarrow> i < length A"
  using assms by (auto simp: nth_append list_all_length)

lemma sorted_flags:
  fixes ks i
  defines "ys \<equiv> sort_keys ks"
  assumes "i < length ks"
  shows "am_signer (ys ! i) \<longleftrightarrow> i < length (filter am_signer ys)"
    and "am_writable (ys ! i) \<longleftrightarrow> (if i < length (filter am_signer ys)
      then i < length (filter am_signer ys) - count_keys ys True False
      else i < length ys - count_keys ys False False)"
proof -
  note split = sort_keys_split [of ks, folded ys_def]
  have i: "i < length ys" using assms by simp
  show "am_signer (ys ! i) \<longleftrightarrow> i < length (filter am_signer ys)"
    using nth_halves [of am_signer "filter am_signer ys" "filter (\<lambda>m. \<not> am_signer m) ys" i] i split(1)
    by (simp add: list_all_iff)
  let ?A = "filter (\<lambda>m. am_signer m \<and> am_writable m) ys" and ?B = "filter (\<lambda>m. am_signer m \<and> \<not> am_writable m) ys"
    and ?C = "filter (\<lambda>m. \<not> am_signer m \<and> am_writable m) ys" and ?D = "filter (\<lambda>m. \<not> am_signer m \<and> \<not> am_writable m) ys"
  have ys: "ys = ?A @ ?B @ ?C @ ?D" using split by (metis append.assoc)
  have len: "length ys = length ?A + length ?B + length ?C + length ?D"
    "length (filter am_signer ys) = length ?A + length ?B"
    using arg_cong [OF ys, of length] arg_cong [OF split(2), of length] by simp_all
  have "am_writable ((?A @ ?B @ ?C @ ?D) ! i) \<longleftrightarrow> (if i < length ?A + length ?B then i < length ?A
      else i < length ?A + length ?B + length ?C)"
    by (rule nth_quarters) (use i ys in \<open>auto simp: list_all_iff\<close>)
  then show "am_writable (ys ! i) \<longleftrightarrow> (if i < length (filter am_signer ys)
      then i < length (filter am_signer ys) - count_keys ys True False
      else i < length ys - count_keys ys False False)"
    using ys len by (simp add: count_keys_def)
qed

text \<open>
  A compiled message, decoded: the same instructions on the same accounts with the same data; the fee
  payer first; every account once; the first keys are exactly those that sign, and the header lets
  exactly the accounts be written that an instruction writes.
\<close>

definition reads_back :: "pubkey \<Rightarrow> sol_ix list \<Rightarrow> u8 list \<Rightarrow> u8 list \<Rightarrow> wire_message \<Rightarrow> bool" where
  "reads_back fp ixs blockhash bs m \<longleftrightarrow> recent_blockhash m = blockhash
     \<and> map (resolve_ix m) (msg_instructions m) = map content ixs
     \<and> hd_opt (msg_keys m) = Some (key_bytes fp) \<and> distinct (msg_keys m)
     \<and> set (msg_keys m) = key_bytes ` mentions fp ixs
     \<and> (\<forall>i < length (msg_keys m). \<exists>k \<in> mentions fp ixs. msg_keys m ! i = key_bytes k
          \<and> (i < unat (required_signatures m) \<longleftrightarrow> signs fp ixs k)
          \<and> (header_writable bs m i \<longleftrightarrow> written fp ixs k))"

lemma reads_back_compiled:
  assumes "card (mentions fp ixs) < 128" and "\<forall>k \<in> mentions fp ixs. length (key_bytes k) = 32"
    and "length blockhash = 32" and "length ixs < 2 ^ 21"
    and "\<forall>ix \<in> set ixs. length (six_accounts ix) < 2 ^ 21 \<and> length (six_data ix) < 2 ^ 21"
  shows "\<exists>bs m. compile_message fp ixs blockhash = Inr bs \<and> decode_message bs = Inr m \<and> reads_back fp ixs blockhash bs m"
proof -
  let ?c = "collect_keys fp ixs" and ?ys = "sort_keys (collect_keys fp ixs)"
  have card: "length ?c = card (mentions fp ixs)"
    using distinct_card [OF collect_spec(1) [of fp ixs]] collect_spec(2) [of fp ixs] by simp
  with assms(1) have small: "length ?c < 128" by simp
  from compile_message_encodes [OF this, of blockhash] obtain ws where
    ws: "compile_message fp ixs blockhash = Inr (encode_message False (of_nat (count_keys ?ys True False))
        (of_nat (count_keys ?ys False False)) (message_of fp ixs blockhash ws) [])"
    and all: "list_all2 (wire_of (msg_keys (message_of fp ixs blockhash ws))) ixs ws" by blast
  define m where "m = message_of fp ixs blockhash ws"
  define bs where "bs = encode_message False (of_nat (count_keys ?ys True False)) (of_nat (count_keys ?ys False False)) m []"
  have keys: "msg_keys m = map (\<lambda>x. key_bytes (am_key x)) ?ys" by (simp add: m_def message_of_def Let_def)
  have le: "length (filter P ?ys) < 128" for P
    using length_filter_le [of P ?ys] small by (simp only: sort_keys_simps)
  have req: "required_signatures m = of_nat (length (filter am_signer ?ys))"
    by (simp only: m_def message_of_def Let_def wire_message.simps)
  have bytes: "bs ! 1 = of_nat (count_keys ?ys True False)" "bs ! 2 = of_nat (count_keys ?ys False False)"
    by (simp_all only: bs_def encode_message_def if_False append_Nil append_Cons nth_Cons_0 nth_Cons_Suc One_nat_def numeral_2_eq_2)
  have ck: "count_keys ?ys s w < 128" for s w unfolding count_keys_def by (rule le)
  have hdr: "unat (required_signatures m) = length (filter am_signer ?ys)" "required_signatures m AND 0x80 = 0"
    "unat (bs ! 1) = count_keys ?ys True False" "unat (bs ! 2) = count_keys ?ys False False"
    by (simp_all only: req bytes small_count [OF le] small_count [OF ck])
  have wf: "wf_ix w" if w: "wire_of ks ix w" and ix: "ix \<in> set ixs" for ks ix w
  proof -
    have "length (ix_accounts w) = length (six_accounts ix)" "ix_data w = six_data ix"
      using w unfolding wire_of_def by (metis map_eq_imp_length_eq)+
    with assms(5) ix show ?thesis by (simp add: wf_ix_def)
  qed
  have "wf_ix (ws ! i)" if "i < length ws" for i
    using wf [of "msg_keys m" "ixs ! i"] all that by (simp add: list_all2_conv_all_nth m_def)
  then have "list_all wf_ix ws" by (simp add: list_all_length)
  moreover have "list_all (\<lambda>k. length k = 32) (msg_keys m)"
    using assms(2) collect_spec(2) [of fp ixs] by (auto simp: keys list_all_iff)
  ultimately have "wf_message False m"
    using hdr(2) small assms(3,4) list_all2_lengthD [OF all] keys
    by (simp add: wf_message_def m_def message_of_def Let_def)
  then have dec: "decode_message bs = Inr m" unfolding bs_def by (rule decode_encode_message)
  have "reads_back fp ixs blockhash bs m"
    unfolding reads_back_def
  proof (intro conjI allI impI)
    show "recent_blockhash m = blockhash" by (simp add: m_def message_of_def Let_def)
    have "resolve_ix m w = content ix" if "wire_of (msg_keys m) ix w" for ix w
      using that by (simp add: wire_of_def resolve_ix_def content_def)
    then have "map (resolve_ix m) ws = map content ixs"
      using all [folded m_def] by (intro nth_equalityI) (simp_all add: list_all2_conv_all_nth)
    then show "map (resolve_ix m) (msg_instructions m) = map content ixs"
      by (simp add: m_def message_of_def Let_def)
    have "hd ?ys = hd ?c" by (rule sort_keys_hd [OF collect_hd(1,3,4)])
    moreover have "?ys \<noteq> []" by (metis collect_hd(1) length_0_conv sort_keys_simps(2))
    ultimately show "hd_opt (msg_keys m) = Some (key_bytes fp)"
      using collect_hd(2) [of fp ixs] by (cases ?ys) (simp_all add: keys hd_opt_def)
    show "distinct (msg_keys m)" using collect_spec(1) [of fp ixs]
      sort_keys_distinct [of ?c] by (simp add: keys distinct_map inj_on_def)
    show "set (msg_keys m) = key_bytes ` mentions fp ixs"
      by (simp add: keys collect_spec(2) [symmetric] image_image)
    fix i assume "i < length (msg_keys m)"
    then have i: "i < length ?c" by (simp add: keys)
    then have "?ys ! i \<in> set ?c" using nth_mem [of i ?ys] by simp
    from collect_flags [OF this] sorted_flags [OF i] i hdr collect_spec(2) [of fp ixs] \<open>?ys ! i \<in> set ?c\<close>
    show "\<exists>k \<in> mentions fp ixs. msg_keys m ! i = key_bytes k
        \<and> (i < unat (required_signatures m) \<longleftrightarrow> signs fp ixs k)
        \<and> (header_writable bs m i \<longleftrightarrow> written fp ixs k)"
      by (intro bexI [of _ "am_key (?ys ! i)"]) (auto simp: keys header_writable_def Let_def)
  qed
  with ws dec show ?thesis by (auto simp: bs_def m_def)
qed

text \<open>
  C11: a compiled message means what was asked for. With fewer than 128 accounts it decodes, by the
  decoder the server itself uses on transactions, to the same instructions on the same accounts with
  the same data; the fee payer is its first key; its signers are exactly the fee payer and the
  accounts an instruction marks as signers; and it may write exactly the accounts an instruction marks.
\<close>

theorem compiled_message_reads_back:
  assumes "card (mentions fp ixs) < 128" and "\<forall>k \<in> mentions fp ixs. length (key_bytes k) = 32"
    and "length blockhash = 32" and "length ixs < 2 ^ 21"
    and "\<forall>ix \<in> set ixs. length (six_accounts ix) < 2 ^ 21 \<and> length (six_data ix) < 2 ^ 21"
  shows "\<exists>bs m. compile_message fp ixs blockhash = Inr bs \<and> decode_message bs = Inr m \<and> reads_back fp ixs blockhash bs m"
  by (rule reads_back_compiled [OF assms])

text \<open>One account pays another, and a third is only read.\<close>

definition key_of :: "u8 \<Rightarrow> pubkey" where
  "key_of b = SolanaPubkey (replicate 32 b)"

definition sample_ix :: sol_ix where
  "sample_ix = \<lparr>six_program = key_of 9, six_accounts = [meta_readonly (key_of 3), meta_writable (key_of 2), meta_signer (key_of 1)],
     six_data = [7, 8]\<rparr>"

lemma compiled_message_reads_back_witness:
  "\<exists>bs m. compile_message (key_of 1) [sample_ix] (replicate 32 5) = Inr bs \<and> decode_message bs = Inr m
     \<and> map (resolve_ix m) (msg_instructions m) = [content sample_ix]
     \<and> set (msg_keys m) = {replicate 32 1, replicate 32 2, replicate 32 3, replicate 32 9}"
proof -
  have men: "mentions (key_of 1) [sample_ix] = {key_of 1, key_of 3, key_of 2, key_of 9}"
    by (auto simp: mentions_def ix_metas_def sample_ix_def meta_signer_def meta_readonly_def meta_writable_def)
  have "card {key_of 1, key_of 3, key_of 2, key_of 9} \<le> 4" by (simp add: card_insert_if)
  moreover have "length (key_bytes (key_of b)) = 32" for b by (simp add: key_of_def)
  ultimately obtain bs m where "compile_message (key_of 1) [sample_ix] (replicate 32 5) = Inr bs" "decode_message bs = Inr m"
    "reads_back (key_of 1) [sample_ix] (replicate 32 5) bs m"
    using compiled_message_reads_back [of "key_of 1" "[sample_ix]" "replicate 32 5"] men by (auto simp: sample_ix_def)
  moreover from this have "set (msg_keys m) = key_bytes ` {key_of 1, key_of 3, key_of 2, key_of 9}"
    "map (resolve_ix m) (msg_instructions m) = [content sample_ix]" by (simp_all add: reads_back_def men)
  moreover have "key_bytes ` {key_of 1, key_of 3, key_of 2, key_of 9} = {replicate 32 1, replicate 32 2, replicate 32 3, replicate 32 9}"
    by (auto simp: key_of_def)
  ultimately show ?thesis by metis
qed

end
