(* ===== verification/TxBuild.thy ===== *)
theory TxBuild
  imports TxTools MessageBuild
begin

text \<open>
  \<open>tx_build_transfer\<close> (\<open>crates/app/src/ops/tx.rs\<close>): an unsigned transfer for the user to sign. On EVM the
  fields of an EIP-1559 transaction; on Solana a compiled message that pays the owner's associated token
  account, created when it is missing. The result is simulated before it is returned.
\<close>

section \<open>What is asked and built\<close>

record transfer_input =
  bu_chain :: string
  bu_from :: string
  bu_to :: string
  bu_asset :: "string option"
  bu_amount :: string
  bu_memo :: "string option"
  bu_create :: bool

record transfer_out =
  bd_tx :: unsigned_tx
  bd_asset :: asset_id
  bd_amount :: amount
  bd_from :: account_address
  bd_to :: account_address
  bd_account :: "string option"
  bd_creates :: bool
  bd_simulation :: "simulation_result option"
  bd_ready :: bool
  bd_warnings :: "string list"

record built =
  bx_tx :: unsigned_tx
  bx_amount :: amount
  bx_account :: "string option"
  bx_creates :: bool

definition positive_amount :: "tx_lib \<Rightarrow> string \<Rightarrow> u8 \<Rightarrow> domain_error + amount" where
  "positive_amount x s d = and_then (parse_units (ol_fsr (xl_ops x)) s d) (\<lambda>a.
     if is_zero a then Inl (invalid ''amount must be greater than zero'') else Inr a)"

section \<open>EVM\<close>

definition ask_decimals :: "evm_lib \<Rightarrow> address \<Rightarrow> (provider_error + u8) asking" where
  "ask_decimals x token = ok_ask (ask_call x token (el_decimals_call x) ''latest'') (\<lambda>out.
     Answer (if out = [] then Inl NotFound else ok_or (malformed ''decimals'') (decode_decimals out)))"

definition erc20_transfer_data :: "tx_lib \<Rightarrow> address \<Rightarrow> u256 \<Rightarrow> string" where
  "erc20_transfer_data x recipient amt = ''0x'' @ el_hex_encode (ol_evm (xl_ops x)) (xl_transfer_call x recipient amt)"

definition evm_node :: "(nat \<Rightarrow> ('s, 'p) vendor_world) \<Rightarrow> ('s, 'p, 'q) op_ctx \<Rightarrow> chain_entry \<Rightarrow> nat \<Rightarrow> string \<Rightarrow> json
    \<Rightarrow> ('s, provider_error + json) act" where
  "evm_node ws cx ce j = rpc_request (cx_router cx) CapEvmRpc (ce_id ce) (ws j)"

text \<open>Scale, receiver of the call, and whether it is a token's contract.\<close>

definition evm_target :: "tx_lib \<Rightarrow> (nat \<Rightarrow> ('s, 'p) vendor_world) \<Rightarrow> ('s, 'p, 'q) op_ctx \<Rightarrow> chain_entry \<Rightarrow> address \<Rightarrow> asset_id
    \<Rightarrow> ('s, domain_error + u8 \<times> address \<times> bool) act" where
  "evm_target x ws cx ce t a = (case asset a of
       Native _ \<Rightarrow> done_with (Inr (nat_decimals (ce_native ce), t, False))
     | Erc20 token \<Rightarrow> (case stablecoin (xl_ops x) a of
           Some e \<Rightarrow> done_with (Inr (entry_decimals e, token, True))
         | None \<Rightarrow> map_act (\<lambda>r. and_then (map_err domain_error_of r) (\<lambda>d. Inr (d, token, True)))
             (run_routed (evm_node ws cx ce) (ask_decimals (ol_evm (xl_ops x)) token) 0))
     | SplToken _ \<Rightarrow> done_with (Inl (invalid ''SPL token on an EVM chain'')))"

definition pad_gas :: "u64 \<Rightarrow> u64" where
  "pad_gas g = (if g = 21000 then g else g + g div 5)"

definition gas_of :: "provider_error + json \<Rightarrow> u64 option \<times> string list" where
  "gas_of r = (case r of Inr v \<Rightarrow> (map_option pad_gas (hex_quantity v), [])
     | Inl e \<Rightarrow> (None, [''gas estimation failed (likely to revert): '' @ show_provider_error e]))"

definition tier_of :: "domain_error + fee_estimate routed \<Rightarrow> fee_tier option \<times> string list" where
  "tier_of r = (case r of
       Inr f \<Rightarrow> (or_opt (find (\<lambda>t. speed t = Standard) (fe_tiers (rd_value f))) (hd_opt (fe_tiers (rd_value f))), [])
     | Inl e \<Rightarrow> (None, [''no fee estimate ('' @ message e @ ''); the signer must set fees'']))"

definition rpc_chain_id :: "chain_entry \<Rightarrow> domain_error + u64" where
  "rpc_chain_id ce = ok_or (internal (show_chain (ce_id ce) @ '' has no EIP-155 id'')) (evm_chain_id (ce_id ce))"

definition transfer_call :: "tx_lib \<Rightarrow> address \<Rightarrow> address \<Rightarrow> u256 \<Rightarrow> string \<Rightarrow> json" where
  "transfer_call x f target val payload = JObj [(''from'', JStr (el_json_address (ol_evm (xl_ops x)) f)),
     (''to'', JStr (el_json_address (ol_evm (xl_ops x)) target)), (''value'', JStr (''0x'' @ show_hex (unat val))), (''data'', JStr payload)]"

definition build_evm :: "tx_lib \<Rightarrow> 'p tx_ports \<Rightarrow> (nat \<Rightarrow> ('s, 'p) vendor_world) \<Rightarrow> ('s, 'p, 'q) op_ctx \<Rightarrow> chain_entry
    \<Rightarrow> address \<Rightarrow> address \<Rightarrow> asset_id \<Rightarrow> string \<Rightarrow> ('s, domain_error + built \<times> string list) act" where
  "build_evm x ps ws cx ce f t a amt =
     ok_then (done_with (evm_rpc ce)) (\<lambda>_.
     ok_then (evm_target x ws cx ce t a) (\<lambda>(d, target, is_token).
     ok_then (done_with (positive_amount x amt d)) (\<lambda>amount.
       let val = (if is_token then 0 else raw amount);
           payload = (if is_token then erc20_transfer_data x t (raw amount) else ''0x'');
           w0 = (if stablecoin (xl_ops x) a = None \<and> \<not> is_native a
                 then [''token is not a canonical stablecoin in the registry: verify the contract''] else [])
       in then_do (evm_node ws cx ce 1 ''eth_getTransactionCount'' (JArr [JStr (el_json_address (ol_evm (xl_ops x)) f), JStr ''pending''])) (\<lambda>nonce.
          then_do (evm_node ws cx ce 2 ''eth_estimateGas'' (JArr [transfer_call x f target val payload])) (\<lambda>gas.
          then_do (estimated_fee ps (ws 3) cx ce) (\<lambda>fee. done_with
            (and_then (map_err domain_error_of nonce) (\<lambda>n.
             let (limit, w1) = gas_of gas; (tier, w2) = tier_of fee in
             and_then (rpc_chain_id ce) (\<lambda>cid.
             Inr (\<lparr>bx_tx = UnsignedEvm cid (to_checksum (xl_codec x) target) payload (show_nat (unat val)) limit
                  (map_option (\<lambda>v. show_nat (unat v)) (Option.bind tier max_fee_per_gas))
                  (map_option (\<lambda>v. show_nat (unat v)) (Option.bind tier max_priority_fee_per_gas)) (hex_quantity n),
                bx_amount = amount, bx_account = None, bx_creates = False\<rparr>, w0 @ w1 @ w2))))))))))"

section \<open>Solana\<close>

definition memo_program :: string where
  "memo_program = ''MemoSq4gqABAXKb96qnH8TysNcWxMyWCqXgDLGmfcHr''"

definition memo_ix :: "codec \<Rightarrow> string option \<Rightarrow> domain_error + sol_ix list" where
  "memo_ix k memo = (case memo of None \<Rightarrow> Inr []
     | Some m \<Rightarrow> if 256 < length m then Inl (invalid ''memo is longer than 256 bytes'')
         else and_then (parse_pubkey k memo_program) (\<lambda>p.
           Inr [\<lparr>six_program = p, six_accounts = [], six_data = map (of_nat \<circ> of_char) m\<rparr>]))"

definition amount_u64 :: "amount \<Rightarrow> domain_error + u64" where
  "amount_u64 a = (if unat (raw a) < 2 ^ 64 then Inr (ucast (raw a)) else Inl (invalid ''amount exceeds u64 base units''))"

fun le_bytes :: "nat \<Rightarrow> nat \<Rightarrow> u8 list" where
  "le_bytes 0 n = []"
| "le_bytes (Suc k) n = of_nat (n mod 256) # le_bytes k (n div 256)"

definition pay_lamports :: "pubkey \<Rightarrow> pubkey \<Rightarrow> pubkey \<Rightarrow> u64 \<Rightarrow> sol_ix" where
  "pay_lamports sys f t n = \<lparr>six_program = sys, six_accounts = [meta_signer f, meta_writable t],
     six_data = [2, 0, 0, 0] @ le_bytes 8 (unat n)\<rparr>"

definition create_account :: "pubkey \<Rightarrow> pubkey \<Rightarrow> pubkey \<Rightarrow> pubkey \<Rightarrow> pubkey \<Rightarrow> pubkey \<Rightarrow> pubkey \<Rightarrow> sol_ix" where
  "create_account ata f dst t mint sys program = \<lparr>six_program = ata,
     six_accounts = [meta_signer f, meta_writable dst, meta_readonly t, meta_readonly mint, meta_readonly sys, meta_readonly program],
     six_data = [1]\<rparr>"

definition transfer_checked :: "pubkey \<Rightarrow> pubkey \<Rightarrow> pubkey \<Rightarrow> pubkey \<Rightarrow> pubkey \<Rightarrow> u64 \<Rightarrow> u8 \<Rightarrow> sol_ix" where
  "transfer_checked program src mint dst f n d = \<lparr>six_program = program,
     six_accounts = [meta_writable src, meta_readonly mint, meta_writable dst, \<lparr>am_key = f, am_signer = True, am_writable = False\<rparr>],
     six_data = 12 # le_bytes 8 (unat n) @ [d]\<rparr>"

text \<open>What a branch of the match on the asset yields: amount, instructions, account, created, warnings.\<close>

type_synonym sol_plan = "amount \<times> sol_ix list \<times> string option \<times> bool \<times> string list"

definition native_plan :: "tx_lib \<Rightarrow> chain_entry \<Rightarrow> pubkey \<Rightarrow> pubkey \<Rightarrow> pubkey \<Rightarrow> sol_ix list \<Rightarrow> string \<Rightarrow> domain_error + sol_plan" where
  "native_plan x ce sys f t memo amt =
     and_then (parse_units (ol_fsr (xl_ops x)) amt (nat_decimals (ce_native ce))) (\<lambda>amount.
     and_then (amount_u64 amount) (\<lambda>n. Inr (amount, memo @ [pay_lamports sys f t n], None, False, [])))"

definition token_plan :: "tx_lib \<Rightarrow> (nat \<Rightarrow> ('s, 'p) vendor_world) \<Rightarrow> ('s, 'p, 'q) op_ctx \<Rightarrow> chain_entry \<Rightarrow> pubkey \<Rightarrow> pubkey
    \<Rightarrow> pubkey \<Rightarrow> pubkey \<Rightarrow> sol_ix list \<Rightarrow> transfer_input \<Rightarrow> ('s, domain_error + sol_plan) act" where
  "token_plan x ws cx ce sys f t mint memo inp =
     (let k = xl_codec x; hs = xl_hash x in
      ok_then (sol_mint (xl_ops x) cx ce (ws 1) mint) (\<lambda>(program, d).
      ok_then (done_with (and_then (parse_units (ol_fsr (xl_ops x)) (bu_amount inp) d) (\<lambda>amount.
        and_then (amount_u64 amount) (\<lambda>n.
        and_then (associated_token_address k hs f mint program) (\<lambda>src.
        and_then (associated_token_address k hs t mint program) (\<lambda>dst. Inr (amount, n, src, dst))))))) (\<lambda>(amount, n, src, dst).
      ok_then (sol_account cx ce (ws 2) (show_pubkey k dst)) (\<lambda>acct.
      ok_then (done_with (if \<not> is_null acct then Inr []
        else if \<not> bu_create inp
        then Inl (invalid (''recipient has no token account for '' @ show_pubkey k mint @ ''; set create_recipient_account''))
        else and_then (parse_pubkey k associated_token_program) (\<lambda>ata. Inr [create_account ata f dst t mint sys program]))) (\<lambda>create.
      done_with (Inr (amount, create @ memo @ [transfer_checked program src mint dst f n d], Some (show_pubkey k dst),
        create \<noteq> [], if show_pubkey k program = token_2022_program
          then [''Token-2022 mint: extensions (transfer fee, hook, memo-required) are checked only by the simulation'']
          else [])))))))"

definition sol_plan_of :: "tx_lib \<Rightarrow> (nat \<Rightarrow> ('s, 'p) vendor_world) \<Rightarrow> ('s, 'p, 'q) op_ctx \<Rightarrow> chain_entry \<Rightarrow> pubkey \<Rightarrow> pubkey
    \<Rightarrow> pubkey \<Rightarrow> asset_id \<Rightarrow> sol_ix list \<Rightarrow> transfer_input \<Rightarrow> ('s, domain_error + sol_plan) act" where
  "sol_plan_of x ws cx ce sys f t a memo inp = (case asset a of
       Native _ \<Rightarrow> done_with (native_plan x ce sys f t memo (bu_amount inp))
     | SplToken mint \<Rightarrow> token_plan x ws cx ce sys f t mint memo inp
     | Erc20 _ \<Rightarrow> done_with (Inl (invalid ''ERC-20 token on Solana'')))"

definition sol_message :: "tx_lib \<Rightarrow> pubkey \<Rightarrow> sol_ix list \<Rightarrow> json \<Rightarrow> domain_error + unsigned_tx" where
  "sol_message x f ixs bh =
     and_then (ok_or (internal ''getLatestBlockhash: no blockhash'') (as_str (jget (jget bh ''value'') ''blockhash''))) (\<lambda>h.
     and_then (ok_or (internal ''getLatestBlockhash: no lastValidBlockHeight'')
       (as_u64 (jget (jget bh ''value'') ''lastValidBlockHeight''))) (\<lambda>height.
     and_then (parse_pubkey (xl_codec x) h) (\<lambda>hash.
     and_then (compile_message f ixs (key_bytes hash)) (\<lambda>bytes.
       Inr (UnsignedSolana (b64_encode (xl_base64 x) bytes) h height)))))"

text \<open>The recipient must be a wallet: a token account or mint is refused, another owner is a warning.\<close>

definition wallet_recipient :: "codec \<Rightarrow> pubkey \<Rightarrow> json \<Rightarrow> domain_error + string list" where
  "wallet_recipient k t acct =
     (let owner = account_owner acct in
      if owner \<in> set token_programs
      then Inl (invalid (show_pubkey k t @ '' is a token account or mint, not a wallet: pass the owner wallet''))
      else Inr (if \<not> is_null acct \<and> owner \<noteq> system_program
        then [''recipient is owned by program '' @ owner @ '', not a wallet key''] else []))"

definition build_solana :: "tx_lib \<Rightarrow> (nat \<Rightarrow> ('s, 'p) vendor_world) \<Rightarrow> ('s, 'p, 'q) op_ctx \<Rightarrow> chain_entry \<Rightarrow> pubkey \<Rightarrow> pubkey
    \<Rightarrow> asset_id \<Rightarrow> transfer_input \<Rightarrow> ('s, domain_error + built \<times> string list) act" where
  "build_solana x ws cx ce f t a inp =
     (let k = xl_codec x in
      ok_then (done_with (solana_rpc ce)) (\<lambda>_.
      ok_then (sol_account cx ce (ws 0) (show_pubkey k t)) (\<lambda>recipient.
      ok_then (done_with (wallet_recipient k t recipient)) (\<lambda>w0.
      ok_then (done_with (and_then (parse_pubkey k system_program) (\<lambda>sys.
        and_then (memo_ix k (bu_memo inp)) (\<lambda>memo. Inr (sys, memo))))) (\<lambda>(sys, memo).
      ok_then (sol_plan_of x ws cx ce sys f t a memo inp) (\<lambda>(amount, ixs, account, creates, w1).
      ok_then (done_with (if is_zero amount then Inl (invalid ''amount must be greater than zero'') else Inr ())) (\<lambda>_.
      ok_then (ask_rpc cx ce (ws 3) ''getLatestBlockhash'' (JArr [JObj [(''commitment'', JStr ''confirmed'')]])) (\<lambda>bh.
      done_with (and_then (sol_message x f ixs bh) (\<lambda>tx. Inr (\<lparr>bx_tx = tx, bx_amount = amount, bx_account = account,
        bx_creates = creates\<rparr>, w0 @ w1)))))))))))"

section \<open>The operation\<close>

definition build_parties :: "tx_lib \<Rightarrow> ('s, 'p, 'q) op_ctx \<Rightarrow> transfer_input
    \<Rightarrow> domain_error + chain_entry \<times> account_address \<times> account_address \<times> asset_id" where
  "build_parties x cx inp =
     and_then (ctx_chain cx (bu_chain inp)) (\<lambda>ce.
     and_then (chain_address (xl_ops x) ce (bu_from inp)) (\<lambda>f.
     and_then (chain_address (xl_ops x) ce (bu_to inp)) (\<lambda>t.
     and_then (resolve_asset (xl_ops x) ce (bu_asset inp)) (\<lambda>a. Inr (ce, f, t, a)))))"

definition build_for :: "tx_lib \<Rightarrow> 'p tx_ports \<Rightarrow> (nat \<Rightarrow> ('s, 'p) vendor_world) \<Rightarrow> ('s, 'p, 'q) op_ctx \<Rightarrow> transfer_input
    \<Rightarrow> chain_entry \<Rightarrow> account_address \<Rightarrow> account_address \<Rightarrow> asset_id \<Rightarrow> ('s, domain_error + built \<times> string list) act" where
  "build_for x ps ws cx inp ce f t a = (case (f, t) of
       (EvmAddress f, EvmAddress t) \<Rightarrow> build_evm x ps ws cx ce f t a (bu_amount inp)
     | (SolanaAddress f, SolanaAddress t) \<Rightarrow> build_solana x ws cx ce f t a inp
     | _ \<Rightarrow> done_with (Inl (invalid ''from/to belong to different chain families'')))"

definition judged_simulation :: "domain_error + simulation_result routed \<Rightarrow> simulation_result option \<times> provenance list \<times> string list" where
  "judged_simulation r = (case r of
       Inl e \<Rightarrow> (None, [], [''not simulated: '' @ message e])
     | Inr y \<Rightarrow> (Some (rd_value y), [rd_provenance y], if sr_success (rd_value y) then []
         else [''simulation failed: '' @ unwrap_or ''unknown error'' (sr_error (rd_value y))]))"

definition tx_build_transfer :: "tx_lib \<Rightarrow> 'p tx_ports \<Rightarrow> (nat \<Rightarrow> ('s, 'p) vendor_world) \<Rightarrow> ('s, 'p, 'q) op_ctx \<Rightarrow> transfer_input
    \<Rightarrow> ('s, domain_error + transfer_out op_output) act" where
  "tx_build_transfer x ps ws cx inp =
     ok_then (done_with (build_parties x cx inp)) (\<lambda>(ce, f, t, a).
     ok_then (build_for x ps ws cx inp ce f t a) (\<lambda>(built, w0).
     then_do (simulate ps (ws 4) cx ce f (bx_tx built)) (\<lambda>sim rt c.
       (let (simulation, metas, w1) = judged_simulation sim in
        Inr \<lparr>op_data = \<lparr>bd_tx = bx_tx built, bd_asset = a, bd_amount = bx_amount built, bd_from = f, bd_to = t,
            bd_account = bx_account built, bd_creates = bx_creates built, bd_simulation = simulation,
            bd_ready = (case simulation of None \<Rightarrow> False | Some s \<Rightarrow> sr_success s), bd_warnings = w0 @ w1\<rparr>,
          op_meta = merge_meta (Some (ce_id ce)) (rpc_meta (ce_id ce) (utc c) # metas) (utc c)\<rparr>, rt, c))))"

section \<open>A small plan compiles to what it says\<close>

definition only_signer :: "pubkey \<Rightarrow> sol_ix \<Rightarrow> bool" where
  "only_signer f ix \<longleftrightarrow> (\<forall>a \<in> set (six_accounts ix). am_signer a \<longrightarrow> am_key a = f)"

definition small_ix :: "pubkey \<Rightarrow> sol_ix \<Rightarrow> bool" where
  "small_ix f ix \<longleftrightarrow> (\<forall>k \<in> insert (six_program ix) (am_key ` set (six_accounts ix)). length (key_bytes k) = 32)
     \<and> length (six_accounts ix) \<le> 6 \<and> length (six_data ix) \<le> 256
     \<and> only_signer f ix"

definition small_plan :: "pubkey \<Rightarrow> sol_ix list \<Rightarrow> bool" where
  "small_plan f ixs \<longleftrightarrow> length (key_bytes f) = 32 \<and> length ixs \<le> 3 \<and> (\<forall>ix \<in> set ixs. small_ix f ix)"

lemma card_mentions: "card (mentions f ixs) \<le> 1 + sum_list (map (\<lambda>ix. length (six_accounts ix) + 1) ixs)"
proof -
  let ?ms = "concat (map ix_metas ixs)"
  have "mentions f ixs = set (f # map am_key ?ms)" by (simp add: mentions_def)
  then have "card (mentions f ixs) \<le> length (f # map am_key ?ms)" by (metis card_length)
  also have "length (f # map am_key ?ms) = 1 + sum_list (map (\<lambda>ix. length (six_accounts ix) + 1) ixs)"
    by (simp add: length_concat comp_def ix_metas_def)
  finally show ?thesis .
qed

lemma small_plan_compiles:
  assumes "small_plan f ixs" and "length blockhash = 32"
  shows "\<exists>bytes m. compile_message f ixs blockhash = Inr bytes \<and> decode_message bytes = Inr m \<and> map (resolve_ix m) (msg_instructions m) = map content ixs
    \<and> take (unat (required_signatures m)) (msg_keys m) = [key_bytes f]"
proof -
  have "sum_list (map (\<lambda>ix. length (six_accounts ix) + 1) ixs) \<le> length ixs * 7"
    using assms(1) sum_list_mono [of ixs "\<lambda>ix. length (six_accounts ix) + 1" "\<lambda>_. 7"]
    by (auto simp: small_plan_def small_ix_def only_signer_def sum_list_triv)
  also have "\<dots> \<le> 21" using assms(1) by (simp add: small_plan_def small_ix_def only_signer_def)
  finally have card: "card (mentions f ixs) < 128" using card_mentions [of f ixs] by simp
  have keys: "\<forall>k \<in> mentions f ixs. length (key_bytes k) = 32"
    using assms(1) by (auto simp: mentions_def small_plan_def small_ix_def only_signer_def ix_metas_def meta_readonly_def)
  have "length ixs < 2 ^ 21" "\<forall>ix \<in> set ixs. length (six_accounts ix) < 2 ^ 21 \<and> length (six_data ix) < 2 ^ 21"
    using assms(1) by (auto simp: small_plan_def small_ix_def only_signer_def)
  from reads_back_compiled [OF card keys assms(2) this] obtain bytes m where
    bytes: "compile_message f ixs blockhash = Inr bytes"
    and m: "decode_message bytes = Inr m" "reads_back f ixs blockhash bytes m" by auto
  have signer: "signs f ixs k \<longleftrightarrow> k = f" for k using assms(1) by (auto simp: signs_def small_plan_def small_ix_def only_signer_def)
  have first: "i < unat (required_signatures m) \<longleftrightarrow> i = 0" if "i < length (msg_keys m)" for i
  proof -
    from m(2) that obtain k where k: "msg_keys m ! i = key_bytes k" "i < unat (required_signatures m) \<longleftrightarrow> signs f ixs k"
      unfolding reads_back_def by blast
    have hd: "msg_keys m ! 0 = key_bytes f" "distinct (msg_keys m)"
      using m(2) by (auto simp: reads_back_def hd_opt_def split: list.splits)
    have "i = 0 \<longleftrightarrow> k = f"
      using nth_eq_iff_index_eq [OF hd(2) that, of 0] that hd(1) k(1) by (cases "msg_keys m") auto
    with k(2) signer show ?thesis by simp
  qed
  obtain ks where ks: "msg_keys m = key_bytes f # ks"
    using m(2) by (auto simp: reads_back_def hd_opt_def split: list.splits)
  from first [of 0] ks have "0 < unat (required_signatures m)" by simp
  then obtain n where n: "unat (required_signatures m) = Suc n" by (cases "unat (required_signatures m)") auto
  have "take n ks = []"
  proof (cases ks)
    case (Cons x xs)
    with first [of 1] ks n have "n = 0" by simp
    then show ?thesis by simp
  qed simp
  with ks n m bytes show ?thesis by (auto simp: reads_back_def)
qed

lemma le_bytes_length [simp]: "length (le_bytes k n) = k"
  by (induction k n rule: le_bytes.induct) auto

lemma le_bytes_value: "n < 256 ^ k \<Longrightarrow> le_nat (le_bytes k n) = n"
proof (induction k n rule: le_bytes.induct)
  case (2 k n)
  then have "le_nat (le_bytes k (n div 256)) = n div 256" by (intro 2) (simp add: less_mult_imp_div_less mult.commute)
  then show ?case by (simp add: le_nat_def unat_of_nat)
qed (simp add: le_nat_def)

section \<open>What the Solana instructions do\<close>

lemma parsed_length: "parse_pubkey k s = Inr p \<Longrightarrow> length (key_bytes p) = 32"
  by (auto simp: parse_pubkey_def and_then_Inr split: if_splits)

lemma derived_length:
  assumes "associated_token_address k hs ow mint program = Inr p" and "\<forall>bs. length (sha256 hs bs) = 32"
  shows "length (key_bytes p) = 32"
proof -
  from assms(1) obtain seeds ata where found: "map_sum id fst (find_from hs seeds ata 256) = Inr p"
    by (auto simp: associated_token_address_def Let_def and_then_Inr find_program_address_def split: if_splits)
  then obtain b where "find_from hs seeds ata 256 = Inr (p, b)"
    by (cases "find_from hs seeds ata 256") auto
  then have "p = SolanaPubkey (pda_hash hs seeds ata b)" by (simp add: find_from_spec)
  with assms(2) show ?thesis by (simp add: pda_hash_def)
qed

text \<open>
  Instructions that pay no one: a memo, or the creation of the recipient's token account, whose rent the
  sender bears. And the last one, which pays: exactly the amount, from the sender's wallet or token account
  to the recipient's.
\<close>

definition no_payment :: "tx_lib \<Rightarrow> pubkey \<Rightarrow> pubkey \<Rightarrow> asset_id \<Rightarrow> sol_ix \<Rightarrow> bool" where
  "no_payment x f t a ix \<longleftrightarrow> parse_pubkey (xl_codec x) memo_program = Inr (six_program ix) \<and> six_accounts ix = []
     \<or> (\<exists>mint dst sys program. asset a = SplToken mint \<and> parse_pubkey (xl_codec x) system_program = Inr sys
         \<and> associated_token_address (xl_codec x) (xl_hash x) t mint program = Inr dst
         \<and> parse_pubkey (xl_codec x) associated_token_program = Inr (six_program ix)
         \<and> map am_key (six_accounts ix) = [f, dst, t, mint, sys, program] \<and> six_data ix = [1])"

definition pays_amount :: "tx_lib \<Rightarrow> pubkey \<Rightarrow> pubkey \<Rightarrow> asset_id \<Rightarrow> amount \<Rightarrow> string option \<Rightarrow> sol_ix \<Rightarrow> bool" where
  "pays_amount x f t a amount account ix \<longleftrightarrow> (case asset a of
     Native _ \<Rightarrow> parse_pubkey (xl_codec x) system_program = Inr (six_program ix)
       \<and> map am_key (six_accounts ix) = [f, t] \<and> account = None
       \<and> (\<exists>n. six_data ix = [2, 0, 0, 0] @ n \<and> length n = 8 \<and> le_nat n = unat (raw amount))
   | SplToken mint \<Rightarrow> (\<exists>src dst. associated_token_address (xl_codec x) (xl_hash x) f mint (six_program ix) = Inr src
       \<and> associated_token_address (xl_codec x) (xl_hash x) t mint (six_program ix) = Inr dst
       \<and> account = Some (show_pubkey (xl_codec x) dst) \<and> map am_key (six_accounts ix) = [src, mint, dst, f]
       \<and> (\<exists>n. six_data ix = 12 # n @ [decimals amount] \<and> length n = 8 \<and> le_nat n = unat (raw amount)))
   | Erc20 _ \<Rightarrow> False)"

lemma amount_u64_value: "amount_u64 a = Inr n \<Longrightarrow> unat n = unat (raw a)"
  by (auto simp: amount_u64_def unsigned_ucast_eq take_bit_nat_eq_self split: if_splits)

lemma u64_bytes: "le_nat (le_bytes 8 (unat (n :: u64))) = unat n"
  using unsigned_less [of n, where ?'a = nat] by (intro le_bytes_value) simp

lemma parse_units_decimals: "parse_units p s d = Inr a \<Longrightarrow> decimals a = d"
  by (auto simp: parse_units_def and_then_Inr Let_def new_amount_def split: if_splits option.splits prod.splits)

lemma memo_shape:
  assumes "memo_ix (xl_codec x) m = Inr memo"
  shows "length memo \<le> 1" "\<forall>ix \<in> set memo. no_payment x f t a ix \<and> small_ix f ix"
  using assms by (auto simp: memo_ix_def and_then_Inr no_payment_def small_ix_def only_signer_def parsed_length split: option.splits if_splits)

text \<open>Where the scale of an amount comes from.\<close>

definition scale_shown :: "tx_lib \<Rightarrow> (nat \<Rightarrow> ('s, 'p) vendor_world) \<Rightarrow> ('s, 'p, 'q) op_ctx \<Rightarrow> chain_entry \<Rightarrow> asset_id \<Rightarrow> u8 \<Rightarrow> bool" where
  "scale_shown x ws cx ce a d \<longleftrightarrow> (let b = xl_ops x in case asset a of
     Native _ \<Rightarrow> d = nat_decimals (ce_native ce)
   | SplToken mint \<Rightarrow> (\<exists>v n. node_showed cx (ws 1) ce ''getAccountInfo'' (account_request (show_pubkey (ol_codec b) mint)) v
       \<and> is_mint_account (jget v ''value'')
       \<and> as_u64 (jget (jget (parsed_data (jget v ''value'')) ''info'') ''decimals'') = Some n \<and> unat n = unat d)
   | Erc20 token \<Rightarrow> (case stablecoin b a of
       Some e \<Rightarrow> d = entry_decimals e
     | None \<Rightarrow> (\<exists>j s out. node_showed cx (ws j) ce ''eth_call''
           (call_request b token (''0x'' @ el_hex_encode (ol_evm b) (el_decimals_call (ol_evm b)))) s
         \<and> hex_bytes (ol_evm b) s = Inr out \<and> 32 \<le> length out \<and> unat (be_u256 (take 32 out)) = unat d)))"

lemma mint_of_account_shown:
  assumes "mint_of_account b ce mint m = Inr (p, d)"
  shows "is_mint_account m \<and> (\<exists>n. as_u64 (jget (jget (parsed_data m) ''info'') ''decimals'') = Some n \<and> unat n = unat d)"
  using assms by (auto simp: mint_of_account_def is_mint_account_def and_then_Inr narrow_u8_def bind_eq_Some_conv
      unsigned_ucast_eq take_bit_nat_eq_self word_less_nat_alt split: if_splits)

lemma decode_decimals_value: "decode_decimals out = Some d \<Longrightarrow> 32 \<le> length out \<and> unat (be_u256 (take 32 out)) = unat d"
  by (auto simp: decode_decimals_def Let_def unsigned_ucast_eq take_bit_nat_eq_self word_less_nat_alt split: if_splits)

lemma native_plan_pays:
  assumes "native_plan x ce sys f t memo amt = Inr (amount, ixs, account, creates, w)"
    and "parse_pubkey (xl_codec x) system_program = Inr sys" and "asset a = Native n"
  shows "\<exists>pay. ixs = memo @ [pay] \<and> pays_amount x f t a amount account pay
    \<and> parse_units (ol_fsr (xl_ops x)) amt (nat_decimals (ce_native ce)) = Inr amount
    \<and> six_program pay = sys \<and> map am_key (six_accounts pay) = [f, t] \<and> length (six_data pay) = 12
    \<and> only_signer f pay"
proof -
  from assms(1) obtain k where k: "parse_units (ol_fsr (xl_ops x)) amt (nat_decimals (ce_native ce)) = Inr amount"
    "amount_u64 amount = Inr k" "ixs = memo @ [pay_lamports sys f t k]" "account = None"
    by (auto simp: native_plan_def and_then_Inr)
  have "le_nat (le_bytes 8 (unat k)) = unat (raw amount)" using u64_bytes [of k] amount_u64_value [OF k(2)] by simp
  then have "\<exists>n. six_data (pay_lamports sys f t k) = [2, 0, 0, 0] @ n \<and> length n = 8 \<and> le_nat n = unat (raw amount)"
    by (intro exI [of _ "le_bytes 8 (unat k)"]) (simp only: pay_lamports_def sol_ix.simps le_bytes_length simp_thms)
  with k assms(2,3) show ?thesis
    by (intro exI [of _ "pay_lamports sys f t k"])
      (simp add: pays_amount_def pay_lamports_def only_signer_def meta_signer_def meta_writable_def del: le_bytes.simps)
qed

lemma token_plan_pays:
  assumes "fst (token_plan x ws cx ce sys f t mint memo inp rt c) = Inr (amount, ixs, account, creates, w)"
    and "asset a = SplToken mint"
  shows "\<exists>pay create program d src dst. ixs = create @ memo @ [pay] \<and> pays_amount x f t a amount account pay
    \<and> scale_shown x ws cx ce a d \<and> parse_units (ol_fsr (xl_ops x)) (bu_amount inp) d = Inr amount
    \<and> (create = [] \<or> (\<exists>ata. parse_pubkey (xl_codec x) associated_token_program = Inr ata
         \<and> create = [create_account ata f dst t mint sys program]))
    \<and> length (key_bytes program) = 32
    \<and> associated_token_address (xl_codec x) (xl_hash x) f mint program = Inr src
    \<and> associated_token_address (xl_codec x) (xl_hash x) t mint program = Inr dst
    \<and> six_program pay = program \<and> map am_key (six_accounts pay) = [src, mint, dst, f] \<and> length (six_data pay) = 10
    \<and> only_signer f pay"
proof -
  let ?k = "xl_codec x" and ?hs = "xl_hash x"
  from assms(1) obtain program d where mint: "fst (sol_mint (xl_ops x) cx ce (ws 1) mint rt c) = Inr (program, d)"
    by (cases "fst (sol_mint (xl_ops x) cx ce (ws 1) mint rt c)") (auto simp: token_plan_def Let_def ok_then_result)
  with assms(1) obtain n src dst where parts: "parse_units (ol_fsr (xl_ops x)) (bu_amount inp) d = Inr amount" "amount_u64 amount = Inr n"
    "associated_token_address ?k ?hs f mint program = Inr src" "associated_token_address ?k ?hs t mint program = Inr dst"
    and made: "\<exists>create. (create = [] \<or> (\<exists>ata. parse_pubkey ?k associated_token_program = Inr ata
         \<and> create = [create_account ata f dst t mint sys program]))
       \<and> ixs = create @ memo @ [transfer_checked program src mint dst f n d]" and account: "account = Some (show_pubkey ?k dst)"
    by (auto simp: token_plan_def Let_def ok_then_result and_then_Inr split: sum.splits if_splits)
  from mint obtain acct where acct: "fst (sol_account cx ce (ws 1) (show_pubkey (ol_codec (xl_ops x)) mint) rt c) = Inr acct"
    "mint_of_account (xl_ops x) ce mint acct = Inr (program, d)"
    by (auto simp: sol_mint_def and_then_Inr)
  from sol_account_shown [OF acct(1)] mint_of_account_shown [OF acct(2)] assms(2) have scale: "scale_shown x ws cx ce a d"
    by (auto simp: scale_shown_def Let_def)
  have len: "length (key_bytes program) = 32"
    using acct(2) by (auto simp: mint_of_account_def and_then_Inr parsed_length split: if_splits)
  have "le_nat (le_bytes 8 (unat n)) = unat (raw amount)" using u64_bytes [of n] amount_u64_value [OF parts(2)] by simp
  with parse_units_decimals [OF parts(1)]
  have "\<exists>v. six_data (transfer_checked program src mint dst f n d) = 12 # v @ [decimals amount] \<and> length v = 8 \<and> le_nat v = unat (raw amount)"
    by (intro exI [of _ "le_bytes 8 (unat n)"]) (simp only: transfer_checked_def sol_ix.simps le_bytes_length simp_thms)
  then have pays: "pays_amount x f t a amount account (transfer_checked program src mint dst f n d)"
    using parts account assms(2) by (simp add: pays_amount_def)
      (simp add: transfer_checked_def meta_writable_def meta_readonly_def del: le_bytes.simps)
  have shape: "length (six_data (transfer_checked program src mint dst f n d)) = 10"
    "six_program (transfer_checked program src mint dst f n d) = program"
    "map am_key (six_accounts (transfer_checked program src mint dst f n d)) = [src, mint, dst, f]"
    "only_signer f (transfer_checked program src mint dst f n d)"
    by (simp_all add: transfer_checked_def only_signer_def meta_writable_def meta_readonly_def del: le_bytes.simps)
  from made obtain create where create: "create = [] \<or> (\<exists>ata. parse_pubkey ?k associated_token_program = Inr ata
         \<and> create = [create_account ata f dst t mint sys program])"
    "ixs = create @ memo @ [transfer_checked program src mint dst f n d]" by (elim exE conjE)
  show ?thesis
    by (intro exI [of _ "transfer_checked program src mint dst f n d"] exI [of _ create] exI [of _ program] exI [of _ d]
        exI [of _ src] exI [of _ dst] conjI) (fact create pays scale parts len shape)+
qed

lemma plan_pays:
  assumes "fst (sol_plan_of x ws cx ce sys f t a memo inp rt c) = Inr (amount, ixs, account, creates, w)"
    and "memo_ix (xl_codec x) (bu_memo inp) = Inr memo" and "parse_pubkey (xl_codec x) system_program = Inr sys"
    and "length (key_bytes f) = 32" and "length (key_bytes t) = 32" and "\<forall>m. asset a = SplToken m \<longrightarrow> length (key_bytes m) = 32" and "\<forall>bs. length (sha256 (xl_hash x) bs) = 32"
  shows "small_plan f ixs \<and> (\<exists>pre pay. ixs = pre @ [pay] \<and> (\<forall>i \<in> set pre. no_payment x f t a i)
      \<and> pays_amount x f t a amount account pay)
    \<and> (\<exists>d. scale_shown x ws cx ce a d \<and> parse_units (ol_fsr (xl_ops x)) (bu_amount inp) d = Inr amount)"
proof (cases "asset a")
  case (Native n)
  with assms(1) have "native_plan x ce sys f t memo (bu_amount inp) = Inr (amount, ixs, account, creates, w)"
    by (simp add: sol_plan_of_def)
  from native_plan_pays [OF this assms(3) Native] obtain pay where pay: "ixs = memo @ [pay]" "pays_amount x f t a amount account pay"
    "parse_units (ol_fsr (xl_ops x)) (bu_amount inp) (nat_decimals (ce_native ce)) = Inr amount"
    "six_program pay = sys" "map am_key (six_accounts pay) = [f, t]" "length (six_data pay) = 12"
    "only_signer f pay" by metis
  have "am_key ` set (six_accounts pay) = {f, t}" "length (six_accounts pay) = 2"
    using arg_cong [OF pay(5), of set] arg_cong [OF pay(5), of length] by simp_all
  with pay(4,6,7) assms(4,5) parsed_length [OF assms(3)] have "small_ix f pay" by (simp add: small_ix_def)
  with pay(1) memo_shape(1) [OF assms(2)] memo_shape(2) [OF assms(2), of f t a] assms(4) have "small_plan f ixs" by (auto simp: small_plan_def)
  moreover have "scale_shown x ws cx ce a (nat_decimals (ce_native ce))" by (simp add: scale_shown_def Let_def Native)
  ultimately show ?thesis using pay(1-3) memo_shape(2) [OF assms(2), of f t a] by blast
next
  case (SplToken mint)
  with assms(1) have "fst (token_plan x ws cx ce sys f t mint memo inp rt c) = Inr (amount, ixs, account, creates, w)"
    by (simp add: sol_plan_of_def)
  from token_plan_pays [OF this SplToken] obtain pay create program d src dst where
    pay: "ixs = create @ memo @ [pay]" "pays_amount x f t a amount account pay" "scale_shown x ws cx ce a d"
    "parse_units (ol_fsr (xl_ops x)) (bu_amount inp) d = Inr amount"
    and create: "create = [] \<or> (\<exists>ata. parse_pubkey (xl_codec x) associated_token_program = Inr ata
         \<and> create = [create_account ata f dst t mint sys program])"
    and lens: "length (key_bytes program) = 32" "associated_token_address (xl_codec x) (xl_hash x) f mint program = Inr src"
      "associated_token_address (xl_codec x) (xl_hash x) t mint program = Inr dst"
    and rest: "six_program pay = program" "map am_key (six_accounts pay) = [src, mint, dst, f]" "length (six_data pay) = 10"
      "only_signer f pay" by metis
  have keys: "am_key ` set (six_accounts pay) = {src, mint, dst, f}" "length (six_accounts pay) = 4"
    using arg_cong [OF rest(2), of set] arg_cong [OF rest(2), of length] by simp_all
  have l32: "length (key_bytes src) = 32" "length (key_bytes dst) = 32" "length (key_bytes mint) = 32"
    using derived_length [OF lens(2) assms(7)] derived_length [OF lens(3) assms(7)] assms(6) SplToken by simp_all
  have made: "\<forall>ix \<in> set create. no_payment x f t a ix \<and> small_ix f ix" "length create \<le> 1"
    using create l32 lens(1,3) SplToken assms(3,4,5) parsed_length [OF assms(3)]
    by (auto simp: create_account_def no_payment_def small_ix_def only_signer_def meta_signer_def meta_writable_def meta_readonly_def parsed_length)
  have "small_ix f pay" using keys rest(1,3,4) l32 lens(1) assms(4) by (simp add: small_ix_def)
  with pay(1) made memo_shape(1) [OF assms(2)] memo_shape(2) [OF assms(2), of f t a] assms(4) have "small_plan f ixs" by (auto simp: small_plan_def)
  moreover have "\<forall>i \<in> set (create @ memo). no_payment x f t a i" using made(1) memo_shape(2) [OF assms(2), of f t a] by auto
  moreover have "ixs = (create @ memo) @ [pay]" using pay(1) by simp
  ultimately show ?thesis using pay(2-4) by blast
qed (use assms(1) in \<open>simp add: sol_plan_of_def\<close>)

section \<open>The operation's promises\<close>

definition simulated_ok :: "'p tx_ports \<Rightarrow> ('s, 'p, 'q) op_ctx \<Rightarrow> chain_entry \<Rightarrow> account_address \<Rightarrow> unsigned_tx \<Rightarrow> bool" where
  "simulated_ok ps cx ce sender tx \<longleftrightarrow> (\<exists>v p i n s.
     serves (cx_router cx) ((ctx_route cx CapSimulate)\<lparr>rq_chain := Some (ce_id ce)\<rparr>) v p
     \<and> xp_simulate ps p i n sender tx = Inr s \<and> sr_success s)"

lemma simulate_served:
  assumes "fst (simulate ps w cx ce sender tx rt c) = Inr y" and "sr_success (rd_value y)"
  shows "simulated_ok ps cx ce sender tx"
proof -
  let ?req = "(ctx_route cx CapSimulate)\<lparr>rq_chain := Some (ce_id ce)\<rparr>"
  obtain rt1 c1 where run: "routed (cx_router cx) ?req w (\<lambda>p i n. xp_simulate ps p i n sender tx) rt c = (Inr y, rt1, c1)"
    using assms(1) unfolding simulate_def by (metis fst_conv prod_cases3)
  obtain cs skipped rt2 where cs: "consider_all (cx_router cx) (trait_of (rq_capability ?req)) ?req c (order_of (cx_router cx) ?req) rt
      = (cs, skipped, rt2)" by (metis prod_cases3)
  from routed_served [OF run cs] obtain v p i n where "serves (cx_router cx) ?req v p" "xp_simulate ps p i n sender tx = Inr (rd_value y)"
    by blast
  with assms(2) show ?thesis unfolding simulated_ok_def by blast
qed

lemma build_run:
  assumes "tx_build_transfer x ps ws cx inp rt c = (Inr out, rt', c')"
  shows "\<exists>ce b0 w0. build_parties x cx inp = Inr (ce, bd_from (op_data out), bd_to (op_data out), bd_asset (op_data out))
    \<and> fst (build_for x ps ws cx inp ce (bd_from (op_data out)) (bd_to (op_data out)) (bd_asset (op_data out)) rt c) = Inr (b0, w0)
    \<and> bd_tx (op_data out) = bx_tx b0 \<and> bd_amount (op_data out) = bx_amount b0 \<and> bd_account (op_data out) = bx_account b0
    \<and> (bd_ready (op_data out) \<longrightarrow> simulated_ok ps cx ce (bd_from (op_data out)) (bd_tx (op_data out)))"
proof -
  have run: "fst (tx_build_transfer x ps ws cx inp rt c) = Inr out" using assms by simp
  then obtain ce f t a where parts: "build_parties x cx inp = Inr (ce, f, t, a)"
    by (cases "build_parties x cx inp") (auto simp: tx_build_transfer_def)
  with run obtain b0 w0 where built: "fst (build_for x ps ws cx inp ce f t a rt c) = Inr (b0, w0)"
    by (cases "fst (build_for x ps ws cx inp ce f t a rt c)") (auto simp: tx_build_transfer_def ok_then_result)
  obtain sim rt1 c1 rt2 c2 where sim: "simulate ps (ws 4) cx ce f (bx_tx b0) rt1 c1 = (sim, rt2, c2)"
    and out: "op_data out = (let (simulation, metas, w1) = judged_simulation sim in \<lparr>bd_tx = bx_tx b0, bd_asset = a,
            bd_amount = bx_amount b0, bd_from = f, bd_to = t, bd_account = bx_account b0, bd_creates = bx_creates b0,
            bd_simulation = simulation, bd_ready = (case simulation of None \<Rightarrow> False | Some s \<Rightarrow> sr_success s), bd_warnings = w0 @ w1\<rparr>)"
    using run parts built by (auto simp: tx_build_transfer_def ok_then_result Let_def split_beta) (metis prod.collapse)
  have "simulated_ok ps cx ce f (bx_tx b0)" if "bd_ready (op_data out)"
  proof -
    from that out obtain y where "sim = Inr y" "sr_success (rd_value y)"
      by (cases sim) (auto simp: judged_simulation_def Let_def)
    with simulate_served [of ps "ws 4" cx ce f "bx_tx b0" rt1 c1 y] sim show ?thesis by simp
  qed
  with parts built out show ?thesis by (auto simp: Let_def split_beta)
qed

lemma build_parties_wf:
  "build_parties x cx inp = Inr (ce, f, t, a) \<Longrightarrow> wf_address f \<and> wf_address t"
  by (auto simp: build_parties_def and_then_Inr chain_address_def map_err_def dest!: parse_address_wf split: sum.splits)

lemma build_mint_wf:
  assumes "build_parties x cx inp = Inr (ce, f, t, a)" and "\<forall>e \<in> set (stablecoins (xl_ops x)). wf_asset (entry_asset e)"
    and "asset a = SplToken m"
  shows "length (key_bytes m) = 32"
proof -
  let ?mint = "\<lambda>a. \<forall>m. asset a = SplToken m \<longrightarrow> length (key_bytes m) = 32"
  have wf: "?mint a" if "wf_asset a" for a using that by (cases a rule: wf_asset.cases) auto
  have coin: "?mint (entry_asset e)" if "by_symbol (stablecoins (xl_ops x)) i y = Some e" for y i e
    using that assms(2) find_SomeD [of _ "stablecoins (xl_ops x)" e] wf unfolding by_symbol_def by metis
  have address: "?mint (AssetId i (asset_of_address y))" if "chain_address (xl_ops x) ce u = Inr y" for u y i
    using that parse_address_wf [of "ol_codec (xl_ops x)" "ce_family ce" u y] by (cases y) (auto simp: chain_address_def)
  have parsed: "?mint a" if "parse_asset (ol_codec (xl_ops x)) s = Inr a" for s a using wf [OF parse_asset_wf [OF that]] .
  from assms(1) have "resolve_asset (xl_ops x) ce (bu_asset inp) = Inr a" by (auto simp: build_parties_def and_then_Inr)
  then have "?mint a"
    using coin address parsed
    by (auto simp: resolve_asset_def Let_def and_then_Inr chain_native_def native_asset_def split: if_splits option.splits)
  with assms(3) show ?thesis by blast
qed

lemma build_solana_parts:
  assumes "fst (build_solana x ws cx ce f t a inp rt c) = Inr (b0, w0)"
  shows "\<exists>sys memo amount ixs account creates w rt1 c1 bh params. parse_pubkey (xl_codec x) system_program = Inr sys
    \<and> memo_ix (xl_codec x) (bu_memo inp) = Inr memo
    \<and> fst (sol_plan_of x ws cx ce sys f t a memo inp rt1 c1) = Inr (amount, ixs, account, creates, w)
    \<and> \<not> is_zero amount \<and> node_showed cx (ws 3) ce ''getLatestBlockhash'' params bh
    \<and> sol_message x f ixs bh = Inr (bx_tx b0) \<and> bx_amount b0 = amount \<and> bx_account b0 = account"
proof -
  let ?ask = "ask_rpc cx ce (ws 3) ''getLatestBlockhash'' (JArr [JObj [(''commitment'', JStr ''confirmed'')]])"
  from assms obtain sys memo amount ixs account creates w rt1 c1 rt2 c2 bh where
    parts: "parse_pubkey (xl_codec x) system_program = Inr sys" "memo_ix (xl_codec x) (bu_memo inp) = Inr memo"
    "fst (sol_plan_of x ws cx ce sys f t a memo inp rt1 c1) = Inr (amount, ixs, account, creates, w)" "\<not> is_zero amount"
    "fst (?ask rt2 c2) = Inr bh" "sol_message x f ixs bh = Inr (bx_tx b0)" "bx_amount b0 = amount" "bx_account b0 = account"
    by (auto simp: build_solana_def Let_def ok_then_result and_then_Inr split: sum.splits if_splits)
  from ask_rpc_shown [OF parts(5)] parts(1-4,6-8) show ?thesis by blast
qed

text \<open>
  C12: a Solana transfer that was built pays what was asked. Its message decodes to a few instructions that
  pay no one - a memo, the creation of the recipient's token account - and one that pays exactly the amount of the request, at the scale of the asset - the chain's
  for the native coin, for a token that of the mint a usable node showed - from the sender to the
  recipient's wallet or associated token account; the sender is its only signer; its blockhash is one a
  usable node showed; and it is ready only if a usable vendor simulated this very message with success.
\<close>

theorem built_solana_pays:
  assumes "tx_build_transfer x ps ws cx inp rt c = (Inr out, rt', c')" and "bd_from (op_data out) = SolanaAddress f"
    and "\<forall>e \<in> set (stablecoins (xl_ops x)). wf_asset (entry_asset e)" and "\<forall>bs. length (sha256 (xl_hash x) bs) = 32"
  shows "\<exists>ce t pre pay bytes m h height d params bh.
    build_parties x cx inp = Inr (ce, SolanaAddress f, SolanaAddress t, bd_asset (op_data out))
    \<and> bd_tx (op_data out) = UnsignedSolana (b64_encode (xl_base64 x) bytes) h height
    \<and> decode_message bytes = Inr m \<and> map (resolve_ix m) (msg_instructions m) = map content (pre @ [pay])
    \<and> take (unat (required_signatures m)) (msg_keys m) = [key_bytes f]
    \<and> (\<forall>i \<in> set pre. no_payment x f t (bd_asset (op_data out)) i)
    \<and> pays_amount x f t (bd_asset (op_data out)) (bd_amount (op_data out)) (bd_account (op_data out)) pay
    \<and> \<not> is_zero (bd_amount (op_data out)) \<and> scale_shown x ws cx ce (bd_asset (op_data out)) d
    \<and> parse_units (ol_fsr (xl_ops x)) (bu_amount inp) d = Inr (bd_amount (op_data out))
    \<and> node_showed cx (ws 3) ce ''getLatestBlockhash'' params bh
    \<and> as_str (jget (jget bh ''value'') ''blockhash'') = Some h
    \<and> (bd_ready (op_data out) \<longrightarrow> simulated_ok ps cx ce (SolanaAddress f) (bd_tx (op_data out)))"
proof -
  let ?o = "op_data out"
  from build_run [OF assms(1)] obtain ce b0 w0 where parts: "build_parties x cx inp = Inr (ce, SolanaAddress f, bd_to ?o, bd_asset ?o)"
    and built: "fst (build_for x ps ws cx inp ce (SolanaAddress f) (bd_to ?o) (bd_asset ?o) rt c) = Inr (b0, w0)"
    and same: "bd_tx ?o = bx_tx b0" "bd_amount ?o = bx_amount b0" "bd_account ?o = bx_account b0"
    and ready: "bd_ready ?o \<longrightarrow> simulated_ok ps cx ce (SolanaAddress f) (bd_tx ?o)"
    unfolding assms(2) by metis
  obtain t where t: "bd_to ?o = SolanaAddress t" using built by (cases "bd_to ?o") (auto simp: build_for_def)
  with built have "fst (build_solana x ws cx ce f t (bd_asset ?o) inp rt c) = Inr (b0, w0)" by (simp add: build_for_def)
  from build_solana_parts [OF this] obtain sys memo amount ixs account creates w rt1 c1 bh params where
    sys: "parse_pubkey (xl_codec x) system_program = Inr sys" and memo: "memo_ix (xl_codec x) (bu_memo inp) = Inr memo"
    and plan: "fst (sol_plan_of x ws cx ce sys f t (bd_asset ?o) memo inp rt1 c1) = Inr (amount, ixs, account, creates, w)"
    and zero: "\<not> is_zero amount" and shown: "node_showed cx (ws 3) ce ''getLatestBlockhash'' params bh"
    and msg: "sol_message x f ixs bh = Inr (bx_tx b0)" and eqs: "bx_amount b0 = amount" "bx_account b0 = account" by metis
  have wf: "length (key_bytes f) = 32" "length (key_bytes t) = 32" using build_parties_wf [OF parts] t by simp_all
  have mint: "\<forall>m. asset (bd_asset ?o) = SplToken m \<longrightarrow> length (key_bytes m) = 32" using build_mint_wf [OF parts assms(3)] by blast
  from plan_pays [OF plan memo sys wf mint assms(4)] obtain pre pay d where small: "small_plan f ixs"
    and pays: "ixs = pre @ [pay]" "\<forall>i \<in> set pre. no_payment x f t (bd_asset ?o) i" "pays_amount x f t (bd_asset ?o) amount account pay"
    "scale_shown x ws cx ce (bd_asset ?o) d" "parse_units (ol_fsr (xl_ops x)) (bu_amount inp) d = Inr amount" by metis
  from msg obtain h height hash bytes where tx: "as_str (jget (jget bh ''value'') ''blockhash'') = Some h"
    "parse_pubkey (xl_codec x) h = Inr hash" "compile_message f ixs (key_bytes hash) = Inr bytes"
    "bx_tx b0 = UnsignedSolana (b64_encode (xl_base64 x) bytes) h height"
    by (auto simp: sol_message_def and_then_Inr) metis
  from small_plan_compiles [OF small parsed_length [OF tx(2)]] tx(3) obtain m where "decode_message bytes = Inr m"
    "map (resolve_ix m) (msg_instructions m) = map content ixs" "take (unat (required_signatures m)) (msg_keys m) = [key_bytes f]"
    by auto
  with parts t same eqs tx pays zero shown ready show ?thesis by metis
qed

section \<open>EVM transfers pay as asked\<close>

lemma program_shown:
  assumes "asks_once q" and "ce_family ce = Evm"
  shows "\<exists>nd. shown_by_vendors cx ws ce nd \<and> fst (run_routed (evm_node ws cx ce) q j rt c) = run_node nd q"
proof -
  from routed_as_node [OF assms(1), of "evm_node ws cx ce" j rt c] obtain nd where
    nd: "run_node nd q = fst (run_routed (evm_node ws cx ce) q j rt c)" "\<And>m ps. \<exists>i rt' c'. nd m ps = fst (evm_node ws cx ce i m ps rt' c')"
    by auto
  have "shown_by_vendors cx ws ce nd"
    unfolding shown_by_vendors_def
  proof (intro allI impI)
    fix m ps v assume "nd m ps = Inr v"
    with nd(2) [of m ps] obtain i rt' c' where "fst (evm_node ws cx ce i m ps rt' c') = Inr v" by metis
    then obtain rt1 c1 where "rpc_request (cx_router cx) CapEvmRpc (ce_id ce) (ws i) m ps rt' c' = (Inr v, rt1, c1)"
      unfolding evm_node_def by (metis fst_conv prod_cases3)
    from rpc_served [OF this] assms(2) have "node_showed cx (ws i) ce m ps v" by (simp add: node_showed_def rpc_capability_def)
    then show "\<exists>j. node_showed cx (ws j) ce m ps v" by blast
  qed
  with nd(1) show ?thesis by metis
qed

lemma ask_decimals_once: "asks_once (ask_decimals x token)"
proof -
  have "staged 2 3 (ask_decimals x token)"
    unfolding ask_decimals_def by (rule staged_ok [where k = 3], rule ask_call_staged) simp_all
  then show ?thesis by (simp add: staged_def)
qed

lemma evm_target_scale:
  assumes "fst (evm_target x ws cx ce t a rt c) = Inr (d, target, is_token)" and "ce_family ce = Evm"
  shows "scale_shown x ws cx ce a d \<and> (case asset a of Native _ \<Rightarrow> target = t \<and> \<not> is_token
    | Erc20 token \<Rightarrow> target = token \<and> is_token | SplToken _ \<Rightarrow> False)"
proof (cases "asset a")
  case (Erc20 token)
  show ?thesis
  proof (cases "stablecoin (xl_ops x) a")
    case None
    from program_shown [OF ask_decimals_once assms(2)] obtain nd where nd: "shown_by_vendors cx ws ce nd"
      "fst (run_routed (evm_node ws cx ce) (ask_decimals (ol_evm (xl_ops x)) token) 0 rt c) = run_node nd (ask_decimals (ol_evm (xl_ops x)) token)"
      by metis
    with assms(1) None Erc20 have target: "target = token" "is_token"
      and d: "run_node nd (ask_decimals (ol_evm (xl_ops x)) token) = Inr d"
      by (auto simp: evm_target_def and_then_Inr map_err_def split: sum.splits)
    from d obtain v out where "nd ''eth_call'' (call_request (xl_ops x) token (''0x'' @ el_hex_encode (ol_evm (xl_ops x))
        (el_decimals_call (ol_evm (xl_ops x))))) = Inr v" "hex_bytes (ol_evm (xl_ops x)) v = Inr out" "decode_decimals out = Some d"
      by (auto simp: ask_decimals_def eth_call_def call_request_def and_then_Inr split: if_splits)
    with nd(1) decode_decimals_value [of out d] have "scale_shown x ws cx ce a d"
      unfolding scale_shown_def shown_by_vendors_def Let_def by (simp add: Erc20 None) blast
    with target Erc20 show ?thesis by simp
  qed (use assms(1) Erc20 in \<open>simp add: evm_target_def scale_shown_def Let_def\<close>)
qed (use assms(1) in \<open>auto simp: evm_target_def scale_shown_def Let_def\<close>)

text \<open>The fields of an EIP-1559 transfer: the coin itself, or a call of the token's \<open>transfer\<close>.\<close>

definition evm_pays :: "tx_lib \<Rightarrow> chain_entry \<Rightarrow> address \<Rightarrow> asset_id \<Rightarrow> u256 \<Rightarrow> unsigned_tx \<Rightarrow> bool" where
  "evm_pays x ce t a n tx \<longleftrightarrow> (\<exists>cid limit mf mp nonce. evm_chain_id (ce_id ce) = Some cid \<and> (case asset a of
     Native _ \<Rightarrow> tx = UnsignedEvm cid (to_checksum (xl_codec x) t) ''0x'' (show_nat (unat n)) limit mf mp nonce
   | Erc20 token \<Rightarrow> tx = UnsignedEvm cid (to_checksum (xl_codec x) token) (erc20_transfer_data x t n) ''0'' limit mf mp nonce
   | SplToken _ \<Rightarrow> False))"

text \<open>
  C13: an EVM transfer that was built pays what was asked, on the chain asked for: the native coin as the value
  sent to the recipient with no data, a token as a call of the contract's \<open>transfer\<close> to the recipient with
  no value, in both cases the positive amount of the request at the asset's scale - the registry's for a
  listed stablecoin, otherwise what the contract told a usable node. It is ready only if a usable vendor
  simulated this very transaction with success.
\<close>

theorem built_evm_pays:
  assumes "tx_build_transfer x ps ws cx inp rt c = (Inr out, rt', c')" and "bd_from (op_data out) = EvmAddress f"
  shows "\<exists>ce t d. build_parties x cx inp = Inr (ce, EvmAddress f, EvmAddress t, bd_asset (op_data out))
    \<and> evm_pays x ce t (bd_asset (op_data out)) (raw (bd_amount (op_data out))) (bd_tx (op_data out))
    \<and> \<not> is_zero (bd_amount (op_data out)) \<and> scale_shown x ws cx ce (bd_asset (op_data out)) d
    \<and> parse_units (ol_fsr (xl_ops x)) (bu_amount inp) d = Inr (bd_amount (op_data out))
    \<and> (bd_ready (op_data out) \<longrightarrow> simulated_ok ps cx ce (EvmAddress f) (bd_tx (op_data out)))"
proof -
  let ?o = "op_data out"
  from build_run [OF assms(1)] obtain ce b0 w0 where parts: "build_parties x cx inp = Inr (ce, EvmAddress f, bd_to ?o, bd_asset ?o)"
    and built: "fst (build_for x ps ws cx inp ce (EvmAddress f) (bd_to ?o) (bd_asset ?o) rt c) = Inr (b0, w0)"
    and same: "bd_tx ?o = bx_tx b0" "bd_amount ?o = bx_amount b0" "bd_account ?o = bx_account b0"
    and ready: "bd_ready ?o \<longrightarrow> simulated_ok ps cx ce (EvmAddress f) (bd_tx ?o)"
    unfolding assms(2) by metis
  obtain t where t: "bd_to ?o = EvmAddress t" using built by (cases "bd_to ?o") (auto simp: build_for_def)
  with built have run: "fst (build_evm x ps ws cx ce f t (bd_asset ?o) (bu_amount inp) rt c) = Inr (b0, w0)" by (simp add: build_for_def)
  then have fam: "ce_family ce = Evm" "evm_rpc ce = Inr CapEvmRpc"
    by (auto simp: build_evm_def evm_rpc_def split: if_splits option.splits)
  with run obtain d target is_token where target: "fst (evm_target x ws cx ce t (bd_asset ?o) rt c) = Inr (d, target, is_token)"
    by (cases "fst (evm_target x ws cx ce t (bd_asset ?o) rt c)") (auto simp: build_evm_def ok_then_result)
  with run fam obtain amount where amount: "positive_amount x (bu_amount inp) d = Inr amount"
    by (cases "positive_amount x (bu_amount inp) d") (auto simp: build_evm_def ok_then_result)
  define val where "val = (if is_token then 0 else raw amount)"
  define payload where "payload = (if is_token then erc20_transfer_data x t (raw amount) else ''0x'')"
  from run fam target amount obtain cid limit mf mp nonce where tx: "rpc_chain_id ce = Inr cid" "bx_amount b0 = amount"
    "bx_tx b0 = UnsignedEvm cid (to_checksum (xl_codec x) target) payload (show_nat (unat val)) limit mf mp nonce"
    unfolding val_def payload_def by (auto simp: build_evm_def ok_then_result Let_def and_then_Inr split_beta)
  from amount have positive: "\<not> is_zero amount" "parse_units (ol_fsr (xl_ops x)) (bu_amount inp) d = Inr amount"
    by (auto simp: positive_amount_def and_then_Inr split: if_splits)
  have scale: "scale_shown x ws cx ce (bd_asset ?o) d" using evm_target_scale [OF target fam(1)] by blast
  from tx(1) have cid: "evm_chain_id (ce_id ce) = Some cid" by (simp add: rpc_chain_id_def split: option.splits)
  have zero: "show_nat 0 = ''0''" by code_simp
  have "evm_pays x ce t (bd_asset ?o) (raw amount) (bx_tx b0)"
    using evm_target_scale [OF target fam(1)] tx(3) cid zero
    by (cases "asset (bd_asset ?o)") (simp_all add: evm_pays_def val_def payload_def)
  with parts t same tx(2) positive scale ready show ?thesis by metis
qed

section \<open>The promises at work\<close>

definition transfer_codec :: codec where
  "transfer_codec = ev_codec\<lparr>b58_decode := (\<lambda>s. Some (replicate 32 (of_nat (length s))))\<rparr>"

definition transfer_lib :: tx_lib where
  "transfer_lib = tx_lib_sample\<lparr>xl_ops := pay_lib\<lparr>ol_evm := ev_lib\<lparr>el_codec := transfer_codec\<rparr>, ol_registry := Inr []\<rparr>\<rparr>"

definition transfer_ports :: "nat tx_ports" where
  "transfer_ports = sample_ports\<lparr>
     xp_fee := (\<lambda>_ _ _. Inr \<lparr>fe_chain = ce_id sample_chain, fe_tiers = [], fe_l1_data_fee = None, fe_tip = None, fe_as_of = 0\<rparr>),
     xp_simulate := (\<lambda>_ _ _ _ _. Inr \<lparr>sr_success = True, sr_error = None, sr_units = None, sr_changes = [], sr_logs = []\<rparr>)\<rparr>"

definition transfer_world :: "(memory_store, nat) vendor_world" where
  "transfer_world = tx_world\<lparr>w_node := (\<lambda>_ _ _ meth _. Inr (if meth = ''getLatestBlockhash''
     then JObj [(''value'', JObj [(''blockhash'', JStr ''BBB''), (''lastValidBlockHeight'', JInt 9)])] else JNull))\<rparr>"

definition sample_transfer :: "string \<Rightarrow> string \<Rightarrow> transfer_input" where
  "sample_transfer chain t = \<lparr>bu_chain = chain, bu_from = t, bu_to = t, bu_asset = None, bu_amount = ''1'', bu_memo = None,
     bu_create = False\<rparr>"

lemma transfer_world_calm: "calm transfer_world"
  using tx_world_calm by (simp add: calm_def transfer_world_def)

lemma sample_parties:
  "build_parties transfer_lib tx_ctx (sample_transfer ''base'' pay_to)
    = Inr (sample_chain, EvmAddress 2, EvmAddress 2, chain_native sample_chain)"
  "build_parties transfer_lib tx_ctx (sample_transfer ''solana'' ''A'')
    = Inr (sample_solana, SolanaAddress (SolanaPubkey (replicate 32 1)), SolanaAddress (SolanaPubkey (replicate 32 1)), chain_native sample_solana)"
proof -
  have trims: "trim pay_to = pay_to" "trim ''A'' = ''A''" by (rule trim_id, simp add: pay_to_def is_space_def)+
  have to: "parse_address (ol_codec (xl_ops transfer_lib)) Evm pay_to = Inr (EvmAddress 2)"
    using trims(1) by (simp add: pay_to_def starts_with_def ol_codec_def transfer_lib_def tx_lib_sample_def transfer_codec_def ev_codec_def is_lower_def
        is_upper_def list_ex_iff)
  have fam: "ce_family sample_chain = Evm" "ce_family sample_solana = Solana" by (simp_all add: sample_chain_def sample_solana_def)
  have native: "resolve_asset (xl_ops transfer_lib) ce None = Inr (chain_native ce)" for ce
    by (simp add: resolve_asset_def lower_def to_lower_def is_upper_def)
  from to fam native show "build_parties transfer_lib tx_ctx (sample_transfer ''base'' pay_to)
      = Inr (sample_chain, EvmAddress 2, EvmAddress 2, chain_native sample_chain)"
    by (simp add: build_parties_def tx_chain sample_transfer_def chain_address_def)
  have "parse_address (ol_codec (xl_ops transfer_lib)) Solana ''A'' = Inr (SolanaAddress (SolanaPubkey (replicate 32 1)))"
    by (simp add: trims(2) parse_pubkey_def ol_codec_def transfer_lib_def tx_lib_sample_def transfer_codec_def)
  with fam native show "build_parties transfer_lib tx_ctx (sample_transfer ''solana'' ''A'')
      = Inr (sample_solana, SolanaAddress (SolanaPubkey (replicate 32 1)), SolanaAddress (SolanaPubkey (replicate 32 1)), chain_native sample_solana)"
    by (simp add: build_parties_def tx_chain sample_transfer_def chain_address_def)
qed

lemma sample_amount:
  assumes "unat d \<le> 18"
  shows "\<exists>a. parse_units (ol_fsr (xl_ops transfer_lib)) ''1'' d = Inr a \<and> \<not> is_zero a \<and> unat (raw a) = 10 ^ unat d"
proof -
  have "trim ''1'' = ''1''" by (rule trim_id) (simp add: is_space_def)
  moreover have u: "unat (10 ^ unat d :: u256) = 10 ^ unat d"
    using power_increasing [OF assms, of "10 :: nat"] unat_of_nat [of "10 ^ unat d", where ?'a = 256] by simp
  moreover have "(10 :: nat) ^ unat d < 2 ^ 256" using power_increasing [OF assms, of "10 :: nat"] by simp
  moreover have "(10 :: u256) ^ unat d \<noteq> 0" using u by (metis power_eq_0_iff unat_0 zero_neq_numeral)
  moreover have "all_digits (''1'' @ pad_right (unat d) [])" by (simp add: pad_right_def all_digits_def is_digit_def list_all_iff)
  moreover have "read_dec (''1'' @ pad_right (unat d) []) = 10 ^ unat d"
    by (simp only: read_dec_append pad_right_def) (simp, simp add: read_dec_def digit_val_def)
  ultimately show ?thesis
    by (simp add: parse_units_def transfer_lib_def tx_lib_sample_def pay_lib_def std_parser_def is_zero_def)
qed

lemma tx_ask:
  assumes "healthy rt" and "calm w" and "w_node w 0 0 0 m ps = Inr v"
  shows "\<exists>rt' c'. ask_rpc tx_ctx ce w m ps rt c = (Inr v, rt', c') \<and> healthy rt'"
proof -
  have "lone tx_env (rpc_capability (ce_family ce))"
    by (rule tx_lone) (simp add: tx_caps_def rpc_capability_def split: chain_family.split)
  from lone_rpc [where chain = "ce_id ce" and c = c, OF this assms] show ?thesis
    by (auto simp: ask_rpc_def map_act_def then_do_def map_err_def)
qed

lemma tx_simulated:
  assumes "healthy rt" and "calm w"
  shows "\<exists>y rt' c'. simulate transfer_ports w tx_ctx ce f t rt c = (Inr y, rt', c') \<and> sr_success (rd_value y)"
proof -
  let ?req = "(ctx_route tx_ctx CapSimulate)\<lparr>rq_chain := Some (ce_id ce)\<rparr>"
  have "lone tx_env (rq_capability ?req)" by (rule tx_lone) (simp add: tx_caps_def ctx_route_def new_req_def)
  from lone_routed [where c = c and f = "\<lambda>p i n. xp_simulate transfer_ports p i n f t", OF this assms] show ?thesis
    by (force simp: simulate_def transfer_ports_def)
qed

lemma sample_built:
  assumes "build_parties transfer_lib tx_ctx inp = Inr (ce, f, t, a)"
    and "build_for transfer_lib transfer_ports ws tx_ctx inp ce f t a rt c = (Inr (b0, w0), rt1, c1)" and "healthy rt1" and "calm (ws 4)"
  shows "\<exists>out rt' c'. tx_build_transfer transfer_lib transfer_ports ws tx_ctx inp rt c = (Inr out, rt', c') \<and> bd_ready (op_data out)
    \<and> bd_from (op_data out) = f"
proof -
  from tx_simulated [OF assms(3,4), of ce f "bx_tx b0" c1] obtain y rt' c' where
    "simulate transfer_ports (ws 4) tx_ctx ce f (bx_tx b0) rt1 c1 = (Inr y, rt', c')" "sr_success (rd_value y)" by blast
  with assms(1,2) show ?thesis
    by (simp add: tx_build_transfer_def ok_then_def then_do_def judged_simulation_def Let_def)
qed

theorem built_evm_pays_witness:
  "\<exists>out rt' c'. tx_build_transfer transfer_lib transfer_ports (\<lambda>_. tx_world) tx_ctx (sample_transfer ''base'' pay_to)
       sample_state sample_clock = (Inr out, rt', c')
     \<and> bd_ready (op_data out) \<and> evm_pays transfer_lib sample_chain 2 (bd_asset (op_data out)) (raw (bd_amount (op_data out))) (bd_tx (op_data out))"
proof -
  let ?inp = "sample_transfer ''base'' pay_to" and ?x = transfer_lib and ?cx = tx_ctx
  have lone: "lone tx_env CapEvmRpc" "lone tx_env (rq_capability ((ctx_route tx_ctx CapFeeEstimate)\<lparr>rq_chain := Some (ce_id sample_chain)\<rparr>))"
    by (rule tx_lone, simp add: tx_caps_def ctx_route_def new_req_def)+
  have node: "\<exists>rt' c'. evm_node (\<lambda>_. tx_world) ?cx sample_chain j m ps rt c = (ev_node m ps, rt', c') \<and> healthy rt'" if "healthy rt" for j m ps rt c
    using lone_rpc [OF lone(1) that tx_world_calm, where m = m and ps = ps and c = c and chain = "ce_id sample_chain"]
    by (auto simp: evm_node_def tx_world_def ev_node_def)
  have fee: "\<exists>y rt' c'. estimated_fee transfer_ports tx_world ?cx sample_chain rt c = (Inr y, rt', c') \<and> healthy rt'" if "healthy rt" for rt c
    using lone_routed [OF lone(2) that tx_world_calm, where f = "xp_fee transfer_ports" and c = c]
    by (force simp: estimated_fee_def transfer_ports_def)
  have d: "unat (nat_decimals (ce_native sample_chain)) \<le> 18" by (simp add: sample_chain_def)
  from sample_amount [OF this] obtain am where am: "positive_amount ?x ''1'' (nat_decimals (ce_native sample_chain)) = Inr am"
    by (auto simp: positive_amount_def)
  obtain cid where cid: "rpc_chain_id sample_chain = Inr cid" "evm_rpc sample_chain = Inr CapEvmRpc" "evm_chain_id (ce_id sample_chain) = Some cid"
    using pay_evm_rpc by (auto simp: rpc_chain_id_def evm_rpc_def split: if_splits option.splits)
  obtain rt1 c1 where one: "evm_node (\<lambda>_. tx_world) ?cx sample_chain 1 ''eth_getTransactionCount'' (JArr [JStr (el_json_address (ol_evm (xl_ops ?x)) 2), JStr ''pending''])
      sample_state sample_clock = (Inr (JStr ''d''), rt1, c1)" "healthy rt1"
    using node [OF sample_healthy, of 1 "''eth_getTransactionCount''"] by (force simp: ev_node_def)
  obtain g rt2 c2 where two: "evm_node (\<lambda>_. tx_world) ?cx sample_chain 2 ''eth_estimateGas'' (JArr [transfer_call ?x 2 2 (raw am) ''0x'']) rt1 c1
      = (g, rt2, c2)" "healthy rt2" using node [OF one(2)] by blast
  from fee [OF two(2)] obtain y rt3 c3 where three: "estimated_fee transfer_ports tx_world ?cx sample_chain rt2 c2 = (Inr y, rt3, c3)" "healthy rt3" by blast
  have native: "asset (chain_native sample_chain) = Native (nat_slip44 (ce_native sample_chain))" by (simp add: chain_native_def native_asset_def)
  have "\<exists>b0 w0. build_for ?x transfer_ports (\<lambda>_. tx_world) ?cx ?inp sample_chain (EvmAddress 2) (EvmAddress 2) (chain_native sample_chain)
      sample_state sample_clock = (Inr (b0, w0), rt3, c3)"
    using one(1) two(1) three(1) am cid
    by (simp add: build_for_def build_evm_def evm_target_def native sample_transfer_def ok_then_def then_do_def Let_def split_beta)
  with sample_built [OF sample_parties(1) _ three(2) tx_world_calm] obtain out rt' c' where
    out: "tx_build_transfer ?x transfer_ports (\<lambda>_. tx_world) ?cx ?inp sample_state sample_clock = (Inr out, rt', c')"
      "bd_ready (op_data out)" "bd_from (op_data out) = EvmAddress 2" by blast
  from built_evm_pays [OF out(1,3)] sample_parties(1) out(1,2) show ?thesis by auto
qed

theorem built_solana_pays_witness:
  "\<exists>out rt' c' bytes h height m. tx_build_transfer transfer_lib transfer_ports (\<lambda>_. transfer_world) tx_ctx (sample_transfer ''solana'' ''A'')
       sample_state sample_clock = (Inr out, rt', c')
     \<and> bd_ready (op_data out) \<and> bd_tx (op_data out) = UnsignedSolana (b64_encode (xl_base64 transfer_lib) bytes) h height
     \<and> decode_message bytes = Inr m"
proof -
  let ?inp = "sample_transfer ''solana'' ''A''" and ?x = transfer_lib and ?cx = tx_ctx and ?w = transfer_world
  let ?f = "SolanaPubkey (replicate 32 1)" and ?sys = "SolanaPubkey (replicate 32 32)"
  have parse: "parse_pubkey (xl_codec ?x) s = Inr (SolanaPubkey (replicate 32 (of_nat (length s))))" for s
    by (simp add: parse_pubkey_def xl_codec_def ol_codec_def transfer_lib_def tx_lib_sample_def transfer_codec_def)
  have sys: "parse_pubkey (xl_codec ?x) system_program = Inr ?sys" by (simp add: parse system_program_def)
  have d: "unat (nat_decimals (ce_native sample_solana)) = 9" by (simp add: sample_solana_def)
  with sample_amount [of "nat_decimals (ce_native sample_solana)"] obtain am where
    am: "parse_units (ol_fsr (xl_ops ?x)) ''1'' (nat_decimals (ce_native sample_solana)) = Inr am" "\<not> is_zero am" "unat (raw am) = 10 ^ 9" by auto
  obtain n where n: "amount_u64 am = Inr n" using am(3) by (simp add: amount_u64_def)
  let ?pay = "pay_lamports ?sys ?f ?f n"
  obtain rt1 c1 where one: "ask_rpc ?cx sample_solana ?w ''getAccountInfo'' (JArr [JStr (show_pubkey (xl_codec ?x) ?f),
        JObj [(''encoding'', JStr ''jsonParsed''), (''commitment'', JStr ''confirmed'')]]) sample_state sample_clock = (Inr JNull, rt1, c1)" "healthy rt1"
    using tx_ask [OF sample_healthy transfer_world_calm, where m = "''getAccountInfo''"] by (force simp: transfer_world_def)
  let ?bh = "JObj [(''value'', JObj [(''blockhash'', JStr ''BBB''), (''lastValidBlockHeight'', JInt 9)])]"
  obtain rt2 c2 where two: "ask_rpc ?cx sample_solana ?w ''getLatestBlockhash'' (JArr [JObj [(''commitment'', JStr ''confirmed'')]]) rt1 c1
      = (Inr ?bh, rt2, c2)" "healthy rt2"
    using tx_ask [OF one(2) transfer_world_calm, where m = "''getLatestBlockhash''"] by (force simp: transfer_world_def)
  have "small_plan ?f [?pay]"
    by (simp add: small_plan_def small_ix_def pay_lamports_def only_signer_def meta_signer_def meta_writable_def del: le_bytes.simps)
  from small_plan_compiles [OF this, of "replicate 32 3"] obtain bytes where bytes: "compile_message ?f [?pay] (replicate 32 3) = Inr bytes" by auto
  have msg: "sol_message ?x ?f [?pay] ?bh = Inr (UnsignedSolana (b64_encode (xl_base64 ?x) bytes) ''BBB'' 9)"
    by (simp add: sol_message_def parse bytes)
  have native: "asset (chain_native sample_solana) = Native (nat_slip44 (ce_native sample_solana))" by (simp add: chain_native_def native_asset_def)
  have wallet: "wallet_recipient (xl_codec ?x) ?f JNull = Inr []"
    by (simp add: wallet_recipient_def account_owner_def token_programs_def token_2022_program_def is_null_def)
  have "solana_rpc sample_solana = Inr CapSolanaRpc" by (simp add: solana_rpc_def) (simp add: sample_solana_def)
  then have "\<exists>b0 w0. build_for ?x transfer_ports (\<lambda>_. ?w) ?cx ?inp sample_solana (SolanaAddress ?f) (SolanaAddress ?f) (chain_native sample_solana)
      sample_state sample_clock = (Inr (b0, w0), rt2, c2)"
    using one(1) two(1) am n sys wallet msg
    by (simp add: build_for_def build_solana_def sol_plan_of_def native_plan_def native sample_transfer_def ok_then_def then_do_def
        Let_def split_beta sol_account_def map_act_def memo_ix_def)
  with sample_built [OF sample_parties(2) _ two(2) transfer_world_calm] obtain out rt' c' where
    out: "tx_build_transfer ?x transfer_ports (\<lambda>_. ?w) ?cx ?inp sample_state sample_clock = (Inr out, rt', c')"
      "bd_ready (op_data out)" "bd_from (op_data out) = SolanaAddress ?f" by blast
  have "\<forall>e \<in> set (stablecoins (xl_ops ?x)). wf_asset (entry_asset e)" "\<forall>bs. length (sha256 (xl_hash ?x) bs) = 32"
    by (simp_all add: stablecoins_def transfer_lib_def tx_lib_sample_def)
  from built_solana_pays [OF out(1,3) this] out(1,2) show ?thesis by metis
qed

end
