(* ===== verification/Spec2Isabelle.thy ===== *)
theory Spec2Isabelle
  imports PaymentOps Hosted Quota MarketHours TxBuild
begin

text \<open>
  A model of the on-chain data MCP server: a Rust workspace that answers questions about chains,
  payments, tokens and prices by routing each to one of many data vendors. The crates under
  \<open>crates/\<close> are layered, and the theories follow the layers.

  \<^item> \<open>Prelude\<close>: words and texts shared by all components: \<open>u64\<close>, \<open>duration\<close>, results as sums,
    decimal printing and parsing, prefixes and splits as in \<open>std\<close>.
  \<^item> \<open>Errors\<close> (\<open>domain/error.rs\<close>, \<open>ports/error.rs\<close>), \<open>Amounts\<close> (\<open>domain/amount.rs\<close>),
    \<open>Identifiers\<close> and \<open>Assets\<close> (\<open>domain/chain.rs\<close>), \<open>Transactions\<close> (\<open>domain/tx.rs\<close>,
    \<open>domain/market.rs\<close>): the vocabulary. Parsers and printers are inverse, arithmetic is exact or
    reports overflow, errors keep their meaning across the router.
  \<^item> \<open>Stablecoins\<close> (\<open>protocols/stablecoins.rs\<close>): loading the registry of coins and its lookups.
  \<^item> \<open>Payments\<close> (\<open>app/ops/payments.rs\<close>, the pure parts): when a payment counts as received, which
    transfers are deposits, idempotency keys, and the payment links of EIP-681 and Solana Pay.
  \<^item> \<open>Capabilities\<close> (\<open>ports/registration.rs\<close>), \<open>Config\<close>, \<open>Resolve\<close>, \<open>ConfigLoader\<close>
    (\<open>config/settings.rs\<close>, \<open>registry.rs\<close>, \<open>resolve.rs\<close>, \<open>redacted.rs\<close>, \<open>loader.rs\<close>): what a
    vendor can do, the layers of the configuration, what a valid one guarantees with the vendors and orders of
    \<open>registry/vendors.toml\<close>, budgets, secrets.
  \<^item> \<open>Counters\<close> (\<open>routing/store.rs\<close>), \<open>RuntimeState\<close> (\<open>routing/state.rs\<close>), \<open>Router\<close> and
    \<open>Routing\<close> (\<open>routing/registry.rs\<close>, \<open>routing/router.rs\<close>): usage counters, circuit breakers,
    quota guard and rate limits per vendor; one attempt, failover, quorum, aggregate, fan-out.
  \<^item> \<open>Json\<close>: JSON values as readers see them, and ordered maps. \<open>SolanaWire\<close> and \<open>SolanaTx\<close>
    (\<open>protocols/solana/tx.rs\<close>, \<open>protocols/solana/mod.rs\<close>): the wire format of Solana
    transactions, ids, tips and simulation; and the answer of a node as a normalized transaction
    with exact balance changes, unique transfer positions and the finality the node reported.
  \<^item> \<open>EvmTx\<close> and \<open>EvmLogs\<close> (\<open>protocols/evm/\<close>: \<open>mod.rs\<close>, \<open>tx.rs\<close>, \<open>logs.rs\<close>, \<open>multicall.rs\<close>, \<open>erc20.rs\<close>):
    an EVM receipt as a normalized transaction whose transfers are live logs of the contract, its
    balance changes and finality; scans of logs in pages that are complete and make progress.
  \<^item> \<open>PaymentOps\<close> (\<open>app/ops/payments.rs\<close>): the operations - verification with one vendor or a
    quorum, deposit listing, payment requests - on the router and the chain clients.
  \<^item> \<open>Spl\<close> (\<open>protocols/solana/spl.rs\<close>): program derived addresses, token accounts and mints.
    \<open>MessageBuild\<close> (\<open>app/ops/tx.rs\<close>, \<open>compile_message\<close>): unsigned Solana messages, which decode to what
    they were built from.
  \<^item> \<open>Quotes\<close> (\<open>domain/market.rs\<close>, \<open>tx.rs\<close>, \<open>ports/ports.rs\<close>, \<open>routing/rpc.rs\<close>): prices, fees, transactions
    to sign, the steps of an operation, and requests to the routed RPC of a chain. \<open>ChainTools\<close>
    (\<open>app/ops/chain.rs\<close>): assets and addresses of a chain, \<open>chain_list\<close>, \<open>chain_finality\<close>,
    \<open>provider_health\<close>. \<open>WalletTools\<close> (\<open>app/ops/wallet.rs\<close>): balances summed per owner, pages of transfers
    that resume at the vendor that issued the cursor, and what an address is before funds go there.
  \<^item> \<open>RoutedReads\<close> (\<open>protocols/evm/tx.rs\<close>, \<open>solana/tx.rs\<close> under \<open>app/ops/tx.rs\<close>): reading a transaction as
    a program of requests, each of which may fail over; a program that asks nothing twice behaves as with
    one node. \<open>TxTools\<close> (\<open>app/ops/tx.rs\<close>): \<open>tx_get\<close>, \<open>tx_status\<close>, \<open>tx_estimate_fee\<close>, \<open>tx_simulate\<close> and
    \<open>tx_broadcast\<close>; settled means final, and a broadcast accounts for every vendor. \<open>TxBuild\<close> is
    \<open>tx_build_transfer\<close>: what it builds pays exactly what was asked, at the scale the chain shows, signed by
    the sender alone. \<open>SampleVendor\<close> is a router with one vendor, for examples.
  \<^item> \<open>ClientStore\<close> (\<open>store/db.rs\<close>): the SQLite store behind a queue and a thread, its in-memory
    mirrors, clients and the call log. What guards read survives restarts. \<open>OpRestart\<close> drops the store, which
    drains the queue; \<open>Killed\<close> ends the process as a signal does, since \<open>server/main.rs\<close> has no orderly shutdown
    while it serves: what is queued is lost, and \<open>usage_survives_restarts\<close> says how much. What is revoked stays so.
  \<^item> \<open>Catalog\<close>, \<open>ResponseCache\<close>, \<open>Pipeline\<close> (\<open>app/op.rs\<close>, \<open>catalog.rs\<close>, \<open>app.rs\<close>, \<open>metrics.rs\<close>):
    which tools a caller sees, and a call through guard, cache, tool, metrics and observer.
  \<^item> \<open>Hosted\<close> (\<open>store/hosted.rs\<close>): client keys, per-client rate limits and quotas, over the store and
    inside the pipeline.
  \<^item> \<open>Quota\<close> (\<open>store/quota.rs\<close>): the quota report of every vendor, reconciliation of the counters
    with what vendors report, projections, alerts and the CSV export.
  \<^item> \<open>MarketHours\<close> (\<open>protocols/market_hours.rs\<close>): sessions of the US equity market, holidays, daylight
    saving time, and the last open moment before an instant.

  How they interact: a transport authenticates its caller (\<open>authenticate\<close>) and calls \<open>call_tool\<close>, which
  asks \<open>hosted_guard\<close>, the cache and then the tool. An operation reads the loaded configuration
  (\<open>resolve_order\<close>, \<open>vendor_status\<close>, \<open>effective_budget_of\<close>, \<open>scrub\<close>), the ports vendors registered
  (\<open>registry_get\<close>) and the runtime state (\<open>quota_block\<close>, \<open>breaker_allows\<close>, \<open>acquire\<close>), calls vendors
  and records each result (\<open>record_result\<close>) and its cost (\<open>store_add\<close>). The quota engine polls vendors
  and raises the same counters, so that the router's guard sees what a vendor itself counted.

  Conventions. Structs are records, enums datatypes, fallible functions return \<open>error + value\<close>,
  integers keep their width. Maps are association lists in the order the code iterates over them.
  A clock is an argument. Locks are held for one operation, so an operation on the runtime state or
  the store is one step, and an operation that awaits the store thread is two with other steps in
  between; invariants range over all sequences of steps. Usage counters are used through the locales
  \<open>metered\<close> and \<open>counter_store\<close>, which the in-memory store and the SQLite store interpret, the response
  cache through \<open>response_cache\<close>.

  Parameters: calendar arithmetic and date texts (\<open>calendar\<close>, \<open>chrono\<close>, and \<open>civil\<close> for market hours),
  hashing and texts of the store (\<open>codec\<close>), merging and decoding TOML (the argument of
  \<open>load_texts\<close>), socket address syntax, the replies of vendors (\<open>call\<close>: the reply, how long it
  takes, what other tasks do to the state meanwhile; \<open>node\<close>: what a Solana node answers;
  \<open>vendor_world\<close>: what EVM nodes answer), base64 and base58, ABI coding and 256-bit parsing (\<open>evm_lib\<close>,
  \<open>op_lib\<close>, \<open>wallet_lib\<close>, \<open>tx_lib\<close>), exact decimals (\<open>dec_lib\<close>). Requests that the code joins are made in order, each
  with its own behaviour of the vendors. No property assumes anything of them that its statement does not show.

  Bounds. \<open>acquire_limit\<close> and \<open>tries_from\<close> are total: waiting consumes the allowed time and each
  retry one of the configured number. A log scan makes at most twenty calls a page, as the code does.
  \<open>fill_template\<close> need not end, so it is partial, and \<open>rpc_url_total\<close> says when it does.
  Floating-point numbers are rationals. Counters of the database are integers; that their sums stay
  below \<open>2 ^ 63\<close> is a hypothesis of \<open>usage_survives_restarts\<close>. A report looks back two weeks for an
  open market, as the code does.

  Texts are bytes. \<open>trim\<close> and case folding are those of ASCII, where \<open>std\<close> folds Unicode; \<open>truncate\<close> counts
  characters as the code does. A kill falls between two closures of the store thread.

  Not modelled: HTTP and JSON of vendor adapters, the MCP and HTTP transports, the dashboard,
  process start and the command line (I/O around the core), serde shapes and schemas, disk failures
  and schema migration, the background loop of the quota engine.
\<close>

end
